(* ===== verification/Fax_Prelude.thy ===== *)
theory Fax_Prelude
  imports Main "HOL-Library.Word" "HOL-Library.Monad_Syntax"
begin

unbundle bit_operations_syntax

text \<open>
  Shared vocabulary of the development: octets and the machine words of the C code,
  bounds-checked access to C arrays, and the list and word lemmas several components use.

  A C function that can leave defined behaviour is modelled by a HOL function into
  \<^typ>\<open>'a option\<close>: \<open>None\<close> is an execution that reads or writes outside an array,
  reads an indeterminate value, dereferences a dead pointer or overflows a signed integer.
  The error codes the C code itself returns are ordinary values inside \<open>Some\<close>.
\<close>

type_synonym u8 = "8 word"
type_synonym u16 = "16 word"
type_synonym u32 = "32 word"
type_synonym octets = "8 word list"

named_theorems array_simps \<open>how bounds-checked array access evaluates\<close>
named_theorems codec_simps \<open>decoding equations of the UDPTL octet syntax\<close>
named_theorems frame_simps \<open>what an operation leaves unchanged\<close>

section \<open>C arrays\<close>

text \<open>\<open>arr_get a i\<close> is the read \<open>a[i]\<close>, \<open>arr_set a i v\<close> the write \<open>a[i] = v\<close>.\<close>

definition arr_get :: "'a list \<Rightarrow> int \<Rightarrow> 'a option" where
  "arr_get a i = (if 0 \<le> i \<and> i < int (length a) then Some (a ! nat i) else None)"

definition arr_set :: "'a list \<Rightarrow> int \<Rightarrow> 'a \<Rightarrow> 'a list option" where
  "arr_set a i v = (if 0 \<le> i \<and> i < int (length a) then Some (a[nat i := v]) else None)"

text \<open>\<open>memcpy_to dst src\<close> copies all of \<open>src\<close> to the start of the array \<open>dst\<close>.\<close>

definition memcpy_to :: "'a list \<Rightarrow> 'a list \<Rightarrow> 'a list option" where
  "memcpy_to dst src =
     (if length src \<le> length dst then Some (src @ drop (length src) dst) else None)"

text \<open>
  \<open>mem_read a i n\<close> are the \<open>n\<close> elements from \<open>a[i]\<close> on, as a callee sees them that is
  given the pointer \<open>&a[i]\<close> and the length \<open>n\<close>; \<open>None\<close> when they reach beyond the array.
\<close>

definition mem_read :: "'a list \<Rightarrow> nat \<Rightarrow> nat \<Rightarrow> 'a list option" where
  "mem_read a i n = (if i + n \<le> length a then Some (take n (drop i a)) else None)"

lemma mem_read_in [array_simps]: "i + n \<le> length a \<Longrightarrow> mem_read a i n = Some (take n (drop i a))"
  by (simp add: mem_read_def)

lemma mem_read_SomeD:
  "mem_read a i n = Some b \<Longrightarrow> i + n \<le> length a \<and> b = take n (drop i a) \<and> length b = n"
  by (auto simp: mem_read_def split: if_splits)

lemma arr_get_in [array_simps]:
  "0 \<le> i \<Longrightarrow> i < int (length a) \<Longrightarrow> arr_get a i = Some (a ! nat i)"
  by (simp add: arr_get_def)

lemma arr_set_in [array_simps]:
  "0 \<le> i \<Longrightarrow> i < int (length a) \<Longrightarrow> arr_set a i v = Some (a[nat i := v])"
  by (simp add: arr_set_def)

lemma arr_get_nat: "i < length a \<Longrightarrow> arr_get a (int i) = Some (a ! i)"
  by (simp add: arr_get_def)

lemma arr_set_nat: "i < length a \<Longrightarrow> arr_set a (int i) v = Some (a[i := v])"
  by (simp add: arr_set_def)

lemma arr_get_None_iff: "arr_get a i = None \<longleftrightarrow> \<not> (0 \<le> i \<and> i < int (length a))"
  by (simp add: arr_get_def)

lemma arr_get_SomeD: "arr_get a i = Some v \<Longrightarrow> 0 \<le> i \<and> nat i < length a \<and> v = a ! nat i"
  by (auto simp: arr_get_def split: if_splits)

lemma arr_set_SomeD:
  "arr_set a i v = Some b \<Longrightarrow> 0 \<le> i \<and> nat i < length a \<and> b = a[nat i := v]"
  by (auto simp: arr_set_def split: if_splits)

lemma memcpy_to_in [array_simps]:
  "length src \<le> length dst \<Longrightarrow> memcpy_to dst src = Some (src @ drop (length src) dst)"
  by (simp add: memcpy_to_def)

lemma memcpy_to_SomeD:
  "memcpy_to dst src = Some b \<Longrightarrow>
     length src \<le> length dst \<and> length b = length dst \<and> take (length src) b = src"
  by (auto simp: memcpy_to_def split: if_splits)

lemma set_updateD: "x \<in> set (xs[i := y]) \<Longrightarrow> x = y \<or> x \<in> set xs"
  by (meson insertE set_update_subset_insert subsetD)

lemma ball_set_update:
  "\<forall>x \<in> set xs. P x \<Longrightarrow> P y \<Longrightarrow> \<forall>x \<in> set (xs[i := y]). P x"
  by (blast dest: set_updateD)

section \<open>Octets and small integers\<close>

text \<open>Masking with \<open>2 ^ n - 1\<close> is the remainder; the code uses it for ring-buffer indices.\<close>

lemma int_and_15: "(i::int) AND 15 = i mod 16"
  using take_bit_eq_mask [of 4 i] by (simp add: take_bit_eq_mod mask_eq_exp_minus_1 and.commute)

lemma int_and_0xFFFF: "(i::int) AND 65535 = i mod 65536"
  using take_bit_eq_mask [of 16 i] by (simp add: take_bit_eq_mod mask_eq_exp_minus_1 and.commute)

lemma int_and_0xFF: "(i::int) AND 255 = i mod 256"
  using take_bit_eq_mask [of 8 i] by (simp add: take_bit_eq_mod mask_eq_exp_minus_1 and.commute)

lemmas int_masks = int_and_15 int_and_0xFFFF int_and_0xFF

lemma unat_word8_lt [simp]: "unat (w :: u8) < 256"
  using unsigned_less [of w] by simp

lemma unat_word16_lt [simp]: "unat (w :: u16) < 65536"
  using unsigned_less [of w] by simp

lemma uint_word8_lt [simp]: "uint (w :: u8) < 256"
  using unsigned_less [where 'a = int, of w] by simp

lemma unat_word_of_int_8: "0 \<le> i \<Longrightarrow> i < 256 \<Longrightarrow> unat (word_of_int i :: u8) = nat i"
  by (simp add: unat_eq_nat_uint uint_word_of_int)

lemma uint_word_of_int_8: "0 \<le> i \<Longrightarrow> i < 256 \<Longrightarrow> uint (word_of_int i :: u8) = i"
  by (simp add: uint_word_of_int)

lemma even_div_double:
  assumes "(x::nat) < 2 * k" "k > 0"
  shows "even (x div k) \<longleftrightarrow> x < k"
proof -
  have "x div k < 2" using assms by (simp add: less_mult_imp_div_less mult.commute)
  then consider "x div k = 0" | "x div k = 1" by linarith
  then show ?thesis
    using assms by cases (auto simp: div_eq_0_iff div_less)
qed

lemma even_div_upper_half:
  assumes "2 * k \<le> (x::nat)" "x < 4 * k"
  shows "even (x div k) \<longleftrightarrow> x < 3 * k"
proof -
  have e: "x div k = Suc (Suc ((x - 2 * k) div k))"
    using assms by (metis add_2_eq_Suc div_mult_self3 less_nat_zero_code le_add_diff_inverse mult_zero_right not_gr_zero)
  have "even ((x - 2 * k) div k) \<longleftrightarrow> x - 2 * k < k"
    by (rule even_div_double) (use assms in auto)
  then show ?thesis using e assms by auto
qed

lemma nat_push_or_add: "(b::nat) < 2 ^ n \<Longrightarrow> push_bit n a OR b = a * 2 ^ n + b"
proof -
  assume "b < 2 ^ n"
  then have b: "take_bit n b = b" by (simp add: take_bit_nat_eq_self_iff)
  have "push_bit n a AND b = 0"
    by (subst b [symmetric]) (auto intro!: bit_eqI simp: bit_simps)
  then show ?thesis
    by (simp add: disjunctive_add_eq_or [symmetric] push_bit_eq_mult)
qed

lemma u8_bit7: "(w :: u8) AND 0x80 = 0 \<longleftrightarrow> unat w < 128"
proof -
  have "w AND 0x80 = 0 \<longleftrightarrow> \<not> bit w 7"
    using and_exp_eq_0_iff_not_bit [of w 7] by simp
  also have "\<dots> \<longleftrightarrow> even (unat w div 128)"
    using bit_unsigned_iff [where 'a = nat, of w 7] by (simp add: bit_iff_odd)
  also have "\<dots> \<longleftrightarrow> unat w < 128"
    by (rule even_div_double) simp_all
  finally show ?thesis .
qed

lemma u8_bit6: "unat (w :: u8) \<ge> 128 \<Longrightarrow> w AND 0x40 = 0 \<longleftrightarrow> unat w < 192"
proof -
  assume a: "unat w \<ge> 128"
  have "w AND 0x40 = 0 \<longleftrightarrow> \<not> bit w 6"
    using and_exp_eq_0_iff_not_bit [of w 6] by simp
  also have "\<dots> \<longleftrightarrow> even (unat w div 64)"
    using bit_unsigned_iff [where 'a = nat, of w 6] by (simp add: bit_iff_odd)
  also have "\<dots> \<longleftrightarrow> unat w < 192"
    using even_div_upper_half [of 64 "unat w"] a by simp
  finally show ?thesis .
qed

lemma u8_low6: "unat ((w :: u8) AND 0x3F) = unat w mod 64"
proof -
  have "w AND 0x3F = take_bit 6 w"
    using take_bit_eq_mask [of 6 w] by (simp only: mask_eq_exp_minus_1 and.commute) simp
  then show ?thesis by (simp only: unsigned_take_bit_eq) (simp add: take_bit_eq_mod)
qed

lemma mod_64_cases: "128 \<le> (x::nat) \<Longrightarrow> x < 256 \<Longrightarrow> x mod 64 = (if x < 192 then x - 128 else x - 192)"
proof -
  assume a: "128 \<le> x" "x < 256"
  show ?thesis
  proof (cases "x < 192")
    case True
    have "x mod 64 = (x - 128 + 2 * 64) mod 64" using a by simp
    also have "\<dots> = x - 128" using True by (simp only: mod_mult_self1) simp
    finally show ?thesis using True by simp
  next
    case False
    have "x mod 64 = (x - 192 + 3 * 64) mod 64" using a False by simp
    also have "\<dots> = x - 192" using a by (simp only: mod_mult_self1) simp
    finally show ?thesis using False by simp
  qed
qed

lemma int_or_add:
  assumes "0 \<le> b" "b < 2 ^ n"
  shows "(a * 2 ^ n) OR b = a * 2 ^ n + (b::int)"
proof -
  have b: "take_bit n b = b" using assms by (simp add: take_bit_int_eq_self_iff)
  have "push_bit n a AND b = 0"
    by (subst b [symmetric]) (auto intro!: bit_eqI simp: bit_simps)
  then show ?thesis
    by (simp add: disjunctive_add_eq_or [symmetric] push_bit_eq_mult)
qed

lemma map2_xor_self: "map2 (XOR) xs xs = replicate (length xs) (0 :: u8)"
  by (induction xs) auto

end
