(* ===== verification/Udptl_Codec.thy ===== *)
theory Udptl_Codec
  imports Fax_Prelude
begin

text \<open>
  The octet syntax of UDPTL packets: lengths and open types (\<^verbatim>\<open>src/udptl.c\<close>,
  \<open>decode_length\<close>, \<open>decode_open_type\<close>, \<open>encode_length\<close>, \<open>encode_open_type\<close>),
  and the proof that the decoder inverts the encoder on one-fragment values.
\<close>

section \<open>Decoding\<close>

text \<open>
  What \<open>decode_length\<close> returns with \<open>*len\<close> and \<open>*pvalue\<close>: \<open>Bad\<close> is the status
  \<open>-1\<close>, \<open>Whole p v\<close> the status \<open>0\<close> and \<open>Fragment p v\<close> the status \<open>1\<close>, with the
  new offset \<open>p\<close> and the value \<open>v\<close>. A caller never reads the value after \<open>-1\<close>.
\<close>

datatype decoded_length = Bad | Whole nat nat | Fragment nat nat

definition decode_length :: "octets \<Rightarrow> nat \<Rightarrow> nat \<Rightarrow> decoded_length" where
  "decode_length buf limit len =
     (if len \<ge> limit then Bad
      else if buf ! len AND 0x80 = 0 then Whole (len + 1) (unat (buf ! len))
      else if buf ! len AND 0x40 = 0 then
        (if len + 1 \<ge> limit then Bad
         else Whole (len + 2)
                (push_bit 8 (unat (buf ! len AND 0x3F)) OR unat (buf ! (len + 1))))
      else Fragment (len + 1) (push_bit 14 (unat (buf ! len AND 0x3F))))"

lemma decode_length_progress:
  "decode_length buf limit len = Whole p v \<Longrightarrow> len < p \<and> p \<le> limit"
  "decode_length buf limit len = Fragment p v \<Longrightarrow> len < p \<and> p \<le> limit"
  by (auto simp: decode_length_def split: if_splits)

text \<open>
  The result of \<open>decode_open_type\<close>: its status, the new \<open>*len\<close>, \<open>*p_num_octets\<close>
  (which is written even when the status is \<open>-1\<close>) and the octets \<open>*p_object\<close> points to.
  When no octet was stored the C pointer stays unset and zero octets are read from it: the
  model's object is then empty.
\<close>

record open_type =
  ot_stat :: int
  ot_len :: nat
  ot_num :: nat
  ot_object :: octets

text \<open>
  One pass of the loop body after \<open>decode_length\<close>. The object pointer is stored through
  \<open>&p_object[octet_idx]\<close>: for \<open>octet_idx > 0\<close> that is outside the caller's
  pointer variable, which is \<open>None\<close> here, and so are octets of the object beyond the buffer.
\<close>

definition store_octets :: "octets \<Rightarrow> nat \<Rightarrow> nat \<Rightarrow> nat \<Rightarrow> nat \<Rightarrow> nat \<Rightarrow> octets \<Rightarrow> open_type option" where
  "store_octets buf limit len octet_cnt octet_idx num obj =
     (if octet_cnt > 0 then
        (let num' = num + octet_cnt in
         if len + octet_cnt > limit
         then Some \<lparr>ot_stat = -1, ot_len = len, ot_num = num', ot_object = obj\<rparr>
         else if octet_idx > 0 then None
         else
           map_option
             (\<lambda>octs. \<lparr>ot_stat = 0, ot_len = len + octet_cnt, ot_num = num', ot_object = octs\<rparr>)
             (mem_read buf len octet_cnt))
      else Some \<lparr>ot_stat = 0, ot_len = len, ot_num = num, ot_object = obj\<rparr>)"

lemma store_octets_ot_len:
  "store_octets buf limit len cnt idx num obj = Some r \<Longrightarrow> len \<le> ot_len r"
  by (auto simp: store_octets_def Let_def split: if_splits)

function decode_open_loop :: "octets \<Rightarrow> nat \<Rightarrow> nat \<Rightarrow> nat \<Rightarrow> nat \<Rightarrow> octets \<Rightarrow> open_type option" where
  "decode_open_loop buf limit len octet_idx num obj =
     (case decode_length buf limit len of
        Bad \<Rightarrow> Some \<lparr>ot_stat = -1, ot_len = len, ot_num = num, ot_object = obj\<rparr>
      | Whole len' octet_cnt \<Rightarrow> store_octets buf limit len' octet_cnt octet_idx num obj
      | Fragment len' octet_cnt \<Rightarrow>
          (case store_octets buf limit len' octet_cnt octet_idx num obj of
             None \<Rightarrow> None
           | Some r \<Rightarrow>
               if ot_stat r < 0 then Some r
               else decode_open_loop buf limit (ot_len r) (octet_idx + octet_cnt)
                      (ot_num r) (ot_object r)))"
  by pat_completeness auto
termination
  by (relation "measure (\<lambda>(buf, limit, len, octet_idx, num, obj). limit - len)")
     (auto dest!: decode_length_progress store_octets_ot_len)

declare decode_open_loop.simps [simp del]

definition decode_open_type :: "octets \<Rightarrow> nat \<Rightarrow> nat \<Rightarrow> open_type option" where
  "decode_open_type buf limit len = decode_open_loop buf limit len 0 0 []"

section \<open>Encoding\<close>

text \<open>\<open>encode_length\<close>: the octets it appends to \<open>buf\<close>, and its return value.\<close>

definition encode_length :: "int \<Rightarrow> octets \<times> int" where
  "encode_length value =
     (if value < 0x80 then ([word_of_int value], value)
      else if value < 0x4000 then
        ([word_of_int (drop_bit 8 (0x8000 OR value) AND 0xFF), word_of_int (value AND 0xFF)], value)
      else
        (let multiplier = (if value < 0x10000 then drop_bit 14 value else 4)
         in ([word_of_int (0xC0 OR multiplier)], push_bit 14 multiplier)))"

text \<open>
  \<open>encode_open_type\<close>: the octets appended and the return value; \<open>None\<close> when
  \<open>memcpy\<close> reads past the end of \<open>data\<close>.
\<close>

function encode_open_loop :: "octets \<Rightarrow> int \<Rightarrow> nat \<Rightarrow> octets \<Rightarrow> (octets \<times> int) option" where
  "encode_open_loop data num_octets octet_idx out =
     (let (bs, enclen) = encode_length num_octets in
      if enclen < 0 then Some (out @ bs, -1)
      else if enclen > 0 \<and> octet_idx + nat enclen > length data then None
      else
        (let out' = out @ bs @ take (nat enclen) (drop octet_idx data) in
         if enclen \<ge> num_octets then Some (out', 0)
         else encode_open_loop data (num_octets - enclen) (octet_idx + nat enclen) out'))"
  by pat_completeness auto
termination
proof (relation "measure (\<lambda>(data, num_octets, octet_idx, out). nat num_octets)", goal_cases)
  case 1
  show ?case by simp
next
  case (2 data num octet_idx out x bs enclen x')
  then have "0 < enclen"
    by (auto simp: encode_length_def Let_def push_bit_eq_mult drop_bit_eq_div split: if_splits)
  with 2 show ?case by auto
qed

declare encode_open_loop.simps [simp del]

definition encode_open_type :: "octets \<Rightarrow> int \<Rightarrow> (octets \<times> int) option" where
  "encode_open_type data num_octets =
     (if num_octets = 0 then encode_open_loop [0] 1 0 []
      else encode_open_loop data num_octets 0 [])"

section \<open>The coding in arithmetic form\<close>

lemma decode_length_eq:
  "decode_length buf limit len =
     (if len \<ge> limit then Bad
      else let b = unat (buf ! len) in
        if b < 128 then Whole (len + 1) b
        else if b < 192 then
          (if len + 1 \<ge> limit then Bad
           else Whole (len + 2) ((b - 128) * 256 + unat (buf ! (len + 1))))
        else Fragment (len + 1) ((b - 192) * 16384))"
proof -
  let ?b = "unat (buf ! len)"
  have m: "?b mod 64 = (if ?b < 192 then ?b - 128 else ?b - 192)" if "\<not> ?b < 128"
    using that by (intro mod_64_cases) simp_all
  have o: "push_bit 8 (unat (buf ! len AND 63)) OR unat (buf ! (len + 1)) =
        unat (buf ! len AND 63) * 256 + unat (buf ! (len + 1))"
    using nat_push_or_add [of "unat (buf ! (len + 1))" 8 "unat (buf ! len AND 63)"]
    by simp
  show ?thesis
    unfolding decode_length_def o u8_bit7 Let_def
    using m by (simp add: u8_bit6 u8_low6 push_bit_eq_mult)
qed

lemma encode_length_eq:
  assumes "0 \<le> v"
  shows "encode_length v =
    (if v < 128 then ([word_of_int v], v)
     else if v < 16384 then ([word_of_int (128 + v div 256), word_of_int (v mod 256)], v)
     else let k = min 4 (v div 16384) in ([word_of_int (192 + k)], k * 16384))"
proof -
  have 1: "drop_bit 8 (0x8000 OR v) AND 0xFF = 128 + v div 256" if "v < 16384"
  proof -
    have "0x8000 OR v = 0x8000 + v"
      using int_or_add [of v 14 2] that assms by simp
    moreover have "(0x8000 + v) div 256 = 128 + v div 256" by simp
    moreover have "v div 256 < 64" using that by simp
    moreover have "0 \<le> v div 256" using assms by simp
    ultimately show ?thesis
      by (simp add: drop_bit_eq_div int_masks)
  qed
  have 2: "0xC0 OR k = 192 + k" if "0 \<le> k" "k \<le> 4" for k :: int
    using int_or_add [of k 6 3] that by simp
  have 3: "(if v < 65536 then v div 16384 else 4) = min 4 (v div 16384)" if "\<not> v < 16384"
  proof (cases "v < 65536")
    case True
    then have "v div 16384 < 4" by simp
    with True show ?thesis by simp
  next
    case False
    then have "4 * 16384 \<le> v" by simp
    then have "4 \<le> v div 16384" by (simp add: zdiv_mono1 [of "4 * 16384" v 16384, simplified])
    with False show ?thesis by simp
  qed
  show ?thesis
  proof (cases "v < 16384")
    case True
    then show ?thesis using 1 by (simp add: encode_length_def int_masks)
  next
    case False
    have "(if v < 0x10000 then drop_bit 14 v else 4) = min 4 (v div 16384)"
      using 3 [OF False] by (simp add: drop_bit_eq_div)
    moreover have "0xC0 OR min 4 (v div 16384) = 192 + min 4 (v div 16384)"
      using assms by (intro 2) simp_all
    ultimately show ?thesis
      using False by (simp add: encode_length_def Let_def push_bit_eq_mult
          del: of_int_add)
  qed
qed

lemma encode_length_nonneg: "0 \<le> v \<Longrightarrow> 0 \<le> snd (encode_length v)"
  by (simp add: encode_length_eq Let_def)

theorem decode_encode_length:
  assumes "0 \<le> v"
  shows "decode_length (pre @ fst (encode_length v) @ rest)
           (length (pre @ fst (encode_length v) @ rest)) (length pre) =
         (if v < 16384 then Whole (length pre + length (fst (encode_length v))) (nat v)
          else Fragment (length pre + 1) (nat (snd (encode_length v))))"
proof -
  consider "v < 128" | "128 \<le> v" "v < 16384" | "16384 \<le> v" by linarith
  then show ?thesis
  proof cases
    case 1
    then show ?thesis using assms
      by (simp add: encode_length_eq decode_length_eq Let_def unat_word_of_int_8)
  next
    case 2
    have a: "v div 256 < 64" "0 \<le> v div 256" using 2 by simp_all
    have b: "unat (word_of_int (128 + v div 256) :: u8) = 128 + nat (v div 256)"
      using a unat_word_of_int_8 [of "128 + v div 256"] by (simp add: nat_add_distrib)
    have c: "unat (word_of_int (v mod 256) :: u8) = nat (v mod 256)"
      by (simp add: unat_word_of_int_8)
    have d: "nat (v div 256) * 256 + nat (v mod 256) = nat v"
      using assms by (simp add: nat_div_distrib nat_mod_distrib)
    have e: "nat (v div 256) < 64" using a by linarith
    show ?thesis using 2 a b c d e
      by (simp add: encode_length_eq decode_length_eq Let_def nth_append)
  next
    case 3
    let ?k = "min 4 (v div 16384)"
    have k: "1 \<le> ?k" "?k \<le> 4" using 3 by (simp_all add: pos_imp_zdiv_pos_iff flip: zero_less_iff_neq_zero)
    then have "unat (word_of_int (192 + ?k) :: u8) = 192 + nat ?k"
      using unat_word_of_int_8 [of "192 + ?k"] by (simp add: nat_add_distrib)
    moreover have "nat ?k < 64" using k by linarith
    ultimately show ?thesis using 3 assms k
      by (simp add: encode_length_eq decode_length_eq Let_def nat_mult_distrib del: min_less_iff_conj)
  qed
qed

definition open_octets :: "octets \<Rightarrow> octets" where
  "open_octets m = fst (encode_length (int (length m))) @ m"

lemma length_length_octets:
  "n < 16384 \<Longrightarrow> length (fst (encode_length (int n))) = (if n < 128 then 1 else 2)"
  by (simp add: encode_length_eq)

lemma length_open_octets:
  "length m < 16384 \<Longrightarrow> length (open_octets m) = (if length m < 128 then 1 else 2) + length m"
  by (simp add: open_octets_def length_length_octets)

lemma encode_open_type_octets:
  assumes "1 \<le> n" "n < 16384" "n \<le> length data"
  shows "encode_open_type data (int n) = Some (open_octets (take n data), 0)"
proof -
  have "snd (encode_length (int n)) = int n" using assms by (simp add: encode_length_eq)
  then obtain bs where bs: "encode_length (int n) = (bs, int n)" by (metis prod.collapse)
  then show ?thesis
    using assms unfolding encode_open_type_def
    by (subst encode_open_loop.simps) (simp add: open_octets_def min_absorb1)
qed

lemma encode_open_type_empty: "encode_open_type data 0 = Some ([1, 0], 0)"
  by (simp add: encode_open_type_def encode_open_loop.simps encode_length_def)

lemma decode_open_octets [codec_simps]:
  assumes "1 \<le> length m" "length m < 16384"
    and "n = length pre" and "buf = pre @ open_octets m @ rest"
  shows "decode_open_type buf (length buf) n =
     Some \<lparr>ot_stat = 0, ot_len = n + length (open_octets m), ot_num = length m, ot_object = m\<rparr>"
proof -
  let ?l = "fst (encode_length (int (length m)))"
  have "decode_length buf (length buf) n = Whole (n + length ?l) (length m)"
    using decode_encode_length [of "int (length m)" pre "m @ rest"] assms
    by (simp add: open_octets_def)
  then show ?thesis
    using assms unfolding decode_open_type_def
    by (subst decode_open_loop.simps) (simp add: store_octets_def open_octets_def mem_read_def)
qed

text \<open>
  Property C32. An open type of 1 to 16383 octets encoded by encode_open_type is decoded
  by decode_open_type anywhere in a buffer, with nothing of the surrounding octets read.
\<close>

theorem open_type_roundtrip:
  assumes "1 \<le> length m" "length m < 16384"
  shows "\<exists>e. encode_open_type m (int (length m)) = Some (e, 0) \<and>
    decode_open_type (pre @ e @ rest) (length (pre @ e @ rest)) (length pre) =
      Some \<lparr>ot_stat = 0, ot_len = length pre + length e, ot_num = length m, ot_object = m\<rparr>"
  using encode_open_type_octets [of "length m" m] decode_open_octets [OF assms refl refl] assms
  by simp

theorem open_type_roundtrip_witness:
  "\<exists>e. encode_open_type [5, 6, 7] 3 = Some (e, 0) \<and>
     decode_open_type ([9] @ e @ [8]) (length ([9] @ e @ [8])) 1 =
       Some \<lparr>ot_stat = 0, ot_len = 1 + length e, ot_num = 3, ot_object = [5, 6, 7]\<rparr>"
  using open_type_roundtrip [of "[5, 6, 7]" "[9]" "[8]"]
  by (simp add: numeral_3_eq_3)


text \<open>exact multiples: no closing fragment\<close>

lemma encode_open_type_16384:
  assumes "length m = 16384"
  shows "encode_open_type m (int (length m)) = Some (193 # m, 0)"
  using assms unfolding encode_open_type_def
  by (subst encode_open_loop.simps) (simp add: encode_length_eq)

lemma decode_after_multiple:
  assumes "length m = 16384"
  shows "\<exists>r. decode_open_type (193 # m) (length (193 # m)) 0 = Some r \<and> ot_stat r = -1"
  using assms unfolding decode_open_type_def
  by (subst decode_open_loop.simps, simp add: decode_length_eq store_octets_def Let_def mem_read_def)
     (subst decode_open_loop.simps, simp add: decode_length_eq)

text \<open>Success means every announced octet is there.\<close>
lemma decode_open_loop_sound:
  assumes "decode_open_loop buf limit len idx num obj = Some r" "ot_stat r = 0"
    "limit \<le> length buf" "length obj = num" "num = idx"
  shows "length (ot_object r) = ot_num r \<and> len < ot_len r \<and> ot_len r \<le> limit"
  using assms
proof (induction buf limit len idx num obj rule: decode_open_loop.induct)
  case (1 buf limit len idx num obj)
  show ?case
  proof (cases "decode_length buf limit len")
    case Bad
    with 1 show ?thesis by (subst (asm) decode_open_loop.simps) auto
  next
    case (Whole p c)
    with 1 decode_length_progress(1) [OF Whole] show ?thesis
      by (subst (asm) decode_open_loop.simps)
         (auto simp: store_octets_def Let_def split: if_splits dest: mem_read_SomeD)
  next
    case (Fragment p c)
    note p = decode_length_progress(2) [OF Fragment]
    show ?thesis
    proof (cases "store_octets buf limit p c idx num obj")
      case None
      with 1 Fragment show ?thesis by (subst (asm) decode_open_loop.simps) simp
    next
      case (Some q)
      have st: "ot_stat q = 0"
        and rec: "decode_open_loop buf limit (ot_len q) (idx + c) (ot_num q) (ot_object q) = Some r"
        using "1.prems"(1,2) Fragment Some
        by (subst (asm) (1) decode_open_loop.simps,
            auto simp: store_octets_def Let_def split: if_splits)+
      have q: "length (ot_object q) = ot_num q" "ot_num q = idx + c" "p \<le> ot_len q"
        using Some st "1.prems"(3,4,5) by (auto simp: store_octets_def Let_def split: if_splits dest: mem_read_SomeD)
      from "1.IH" [OF Fragment Some _ rec] st "1.prems" q p show ?thesis by simp
    qed
  qed
qed

lemma decode_open_type_sound:
  assumes "decode_open_type buf limit len = Some r" "ot_stat r = 0" "limit \<le> length buf"
  shows "length (ot_object r) = ot_num r" "len < ot_len r" "ot_len r \<le> limit"
  using decode_open_loop_sound [OF assms(1) [unfolded decode_open_type_def]] assms(2,3) by auto

lemma store_stat: "store_octets buf limit len c idx num obj = Some r \<Longrightarrow> ot_stat r = 0 \<or> ot_stat r = -1"
  by (auto simp: store_octets_def Let_def split: if_splits)

lemma decode_open_loop_stat:
  "decode_open_loop buf limit len idx num obj = Some r \<Longrightarrow> ot_stat r = 0 \<or> ot_stat r = -1"
proof (induction buf limit len idx num obj rule: decode_open_loop.induct)
  case (1 buf limit len idx num obj)
  show ?case
  proof (cases "decode_length buf limit len")
    case (Fragment p c)
    show ?thesis
    proof (cases "store_octets buf limit p c idx num obj")
      case (Some q)
      show ?thesis
      proof (cases "ot_stat q < 0")
        case True
        with "1.prems" Fragment Some show ?thesis
          by (auto simp: decode_open_loop.simps [of buf limit len idx num obj] dest: store_stat)
      next
        case False
        with "1.prems" Fragment Some "1.IH" [OF Fragment Some False] show ?thesis
          by (simp add: decode_open_loop.simps [of buf limit len idx num obj])
      qed
    qed (use "1.prems" Fragment in \<open>simp add: decode_open_loop.simps [of buf limit len idx num obj]\<close>)
  qed (use "1.prems" in \<open>auto simp: decode_open_loop.simps [of buf limit len idx num obj] dest: store_stat\<close>)
qed

end
