(* ===== verification/Udptl_State.thy ===== *)
theory Udptl_State
  imports Udptl_Codec
begin

text \<open>
  The UDPTL context (\<^verbatim>\<open>include/udptl.h\<close>, \<open>struct udptl_state_s\<close>), its
  initialisation and its settings (\<^verbatim>\<open>src/udptl.c\<close>, from \<open>udptl_set_error_correction\<close>
  to \<open>udptl_release\<close>), and the well-formedness every operation keeps.
\<close>

abbreviation (input) LOCAL_FAX_MAX_DATAGRAM :: nat where "LOCAL_FAX_MAX_DATAGRAM \<equiv> 400"
abbreviation (input) LOCAL_FAX_MAX_FEC_PACKETS :: nat where "LOCAL_FAX_MAX_FEC_PACKETS \<equiv> 5"
abbreviation (input) UDPTL_BUF_MASK :: int where "UDPTL_BUF_MASK \<equiv> 15"
abbreviation (input) UDPTL_ERROR_CORRECTION_NONE :: int where "UDPTL_ERROR_CORRECTION_NONE \<equiv> 0"
abbreviation (input) UDPTL_ERROR_CORRECTION_FEC :: int where "UDPTL_ERROR_CORRECTION_FEC \<equiv> 1"
abbreviation (input) UDPTL_ERROR_CORRECTION_REDUNDANCY :: int where
  "UDPTL_ERROR_CORRECTION_REDUNDANCY \<equiv> 2"
abbreviation (input) INT_MAX :: int where "INT_MAX \<equiv> 2147483647"

record udptl_fec_tx_buffer =
  tx_buf_len :: int
  tx_buf :: octets

record udptl_fec_rx_buffer =
  rx_buf_len :: int
  rx_buf :: octets
  fec_len :: "int list"
  fec :: "octets list"
  fec_span :: int
  fec_entries :: int

text \<open>
  The callback \<open>rx_packet_handler\<close> with its \<open>user_data\<close> is not a field: the model of
  \<open>udptl_rx_packet\<close> returns the calls it makes, in order (its result only selects a
  message on \<open>stderr\<close>).
\<close>

record udptl_state =
  error_correction_scheme :: int
  error_correction_entries :: int
  error_correction_span :: int
  far_max_datagram_size :: int
  local_max_datagram_size :: int
  verbose :: int
  tx_seq_no :: int
  rx_seq_no :: int
  rx_expected_seq_no :: int
  tx_bufs :: "udptl_fec_tx_buffer list"
  rx_bufs :: "udptl_fec_rx_buffer list"

text \<open>
  The arrays \<open>tx\<close> and \<open>rx\<close> have \<open>UDPTL_BUF_MASK + 1\<close> elements and are only
  indexed by masked values: \<open>slot i\<close> is the element \<open>i & UDPTL_BUF_MASK\<close>.
\<close>

definition slot :: "int \<Rightarrow> nat" where
  "slot i = nat (i AND UDPTL_BUF_MASK)"

section \<open>Initialisation and settings\<close>

definition empty_tx_buffer :: udptl_fec_tx_buffer where
  "empty_tx_buffer = \<lparr>tx_buf_len = -1, tx_buf = replicate LOCAL_FAX_MAX_DATAGRAM 0\<rparr>"

definition empty_rx_buffer :: udptl_fec_rx_buffer where
  "empty_rx_buffer =
     \<lparr>rx_buf_len = -1, rx_buf = replicate LOCAL_FAX_MAX_DATAGRAM 0,
      fec_len = replicate LOCAL_FAX_MAX_FEC_PACKETS 0,
      fec = replicate LOCAL_FAX_MAX_FEC_PACKETS (replicate LOCAL_FAX_MAX_DATAGRAM 0),
      fec_span = 0, fec_entries = 0\<rparr>"

text \<open>
  \<open>udptl_init\<close>: \<open>have_s\<close> says that the caller passes a context, \<open>malloc_ok\<close> that
  \<open>malloc\<close> succeeds when it does not, \<open>have_handler\<close> that the callback is not
  \<open>NULL\<close>. The result \<open>None\<close> is the \<open>NULL\<close> pointer here.
\<close>

definition udptl_init :: "bool \<Rightarrow> bool \<Rightarrow> int \<Rightarrow> int \<Rightarrow> int \<Rightarrow> bool \<Rightarrow> udptl_state option" where
  "udptl_init have_s malloc_ok ec_scheme span entries have_handler =
     (if \<not> have_handler then None
      else if \<not> have_s \<and> \<not> malloc_ok then None
      else Some
        \<lparr>error_correction_scheme = ec_scheme,
         error_correction_entries = entries,
         error_correction_span = span,
         far_max_datagram_size = int LOCAL_FAX_MAX_DATAGRAM,
         local_max_datagram_size = int LOCAL_FAX_MAX_DATAGRAM,
         verbose = 0, tx_seq_no = 0, rx_seq_no = 0, rx_expected_seq_no = 0,
         tx_bufs = replicate 16 empty_tx_buffer,
         rx_bufs = replicate 16 empty_rx_buffer\<rparr>)"

definition udptl_set_error_correction ::
    "udptl_state \<Rightarrow> int \<Rightarrow> int \<Rightarrow> int \<Rightarrow> int \<times> udptl_state" where
  "udptl_set_error_correction s ec_scheme span entries =
     (if ec_scheme \<notin> {UDPTL_ERROR_CORRECTION_FEC, UDPTL_ERROR_CORRECTION_REDUNDANCY,
                       UDPTL_ERROR_CORRECTION_NONE, -1}
      then (-1, s)
      else
        (let s1 = (if ec_scheme = -1 then s else s\<lparr>error_correction_scheme := ec_scheme\<rparr>);
             s2 = (if span \<ge> 0 then s1\<lparr>error_correction_span := span\<rparr> else s1);
             s3 = (if entries \<ge> 0 then s2\<lparr>error_correction_entries := entries\<rparr> else s2)
         in (0, s3)))"

text \<open>The three flags say which output pointers are not \<open>NULL\<close>.\<close>

definition udptl_get_error_correction ::
    "udptl_state \<Rightarrow> bool \<Rightarrow> bool \<Rightarrow> bool \<Rightarrow> int \<times> int option \<times> int option \<times> int option" where
  "udptl_get_error_correction s want_scheme want_span want_entries =
     (0,
      if want_scheme then Some (error_correction_scheme s) else None,
      if want_span then Some (error_correction_span s) else None,
      if want_entries then Some (error_correction_entries s) else None)"

definition udptl_set_local_max_datagram :: "udptl_state \<Rightarrow> int \<Rightarrow> int \<times> udptl_state" where
  "udptl_set_local_max_datagram s max_datagram = (0, s\<lparr>local_max_datagram_size := max_datagram\<rparr>)"

definition udptl_get_local_max_datagram :: "udptl_state \<Rightarrow> int" where
  "udptl_get_local_max_datagram s = local_max_datagram_size s"

definition udptl_set_far_max_datagram :: "udptl_state \<Rightarrow> int \<Rightarrow> int \<times> udptl_state" where
  "udptl_set_far_max_datagram s max_datagram = (0, s\<lparr>far_max_datagram_size := max_datagram\<rparr>)"

definition udptl_get_far_max_datagram :: "udptl_state \<Rightarrow> int" where
  "udptl_get_far_max_datagram s = far_max_datagram_size s"

definition udptl_release :: "udptl_state \<Rightarrow> int" where
  "udptl_release s = 0"

section \<open>Well-formedness\<close>

definition tx_buffer_ok :: "udptl_fec_tx_buffer \<Rightarrow> bool" where
  "tx_buffer_ok b \<longleftrightarrow> length (tx_buf b) = LOCAL_FAX_MAX_DATAGRAM \<and>
     (tx_buf_len b = -1 \<or> 1 \<le> tx_buf_len b \<and> tx_buf_len b \<le> int LOCAL_FAX_MAX_DATAGRAM)"

text \<open>
  The arrays of a receive slot have their C sizes, and the stored message fits its buffer.
  Nothing bounds \<open>fec_len\<close>, \<open>fec_span\<close> and \<open>fec_entries\<close> from above: the code
  writes them before it checks them.
\<close>

definition rx_buffer_ok :: "udptl_fec_rx_buffer \<Rightarrow> bool" where
  "rx_buffer_ok b \<longleftrightarrow>
     length (rx_buf b) = LOCAL_FAX_MAX_DATAGRAM \<and>
     -1 \<le> rx_buf_len b \<and> rx_buf_len b \<le> int LOCAL_FAX_MAX_DATAGRAM \<and>
     length (fec_len b) = LOCAL_FAX_MAX_FEC_PACKETS \<and>
     length (fec b) = LOCAL_FAX_MAX_FEC_PACKETS \<and>
     (\<forall>f \<in> set (fec b). length f = LOCAL_FAX_MAX_DATAGRAM) \<and>
     (\<forall>n \<in> set (fec_len b). 0 \<le> n) \<and>
     0 \<le> fec_span b \<and> 0 \<le> fec_entries b"

definition udptl_ok :: "udptl_state \<Rightarrow> bool" where
  "udptl_ok s \<longleftrightarrow>
     length (tx_bufs s) = 16 \<and> (\<forall>b \<in> set (tx_bufs s). tx_buffer_ok b) \<and>
     length (rx_bufs s) = 16 \<and> (\<forall>b \<in> set (rx_bufs s). rx_buffer_ok b) \<and>
     0 \<le> tx_seq_no s \<and> 0 \<le> rx_seq_no s \<and> rx_seq_no s < 65536"

lemma slot_eq: "slot i = nat (i mod 16)"
  by (simp add: slot_def int_masks)

lemma slot_lt [simp]: "slot i < 16"
  by (simp add: slot_eq)

lemma int_slot: "int (slot i) = i mod 16"
  by (simp add: slot_eq)

lemma slot_eq_iff: "slot i = slot j \<longleftrightarrow> i mod 16 = j mod 16"
  using int_slot [of i] int_slot [of j] by auto

lemma udptl_ok_lengths:
  "udptl_ok s \<Longrightarrow> length (tx_bufs s) = 16"
  "udptl_ok s \<Longrightarrow> length (rx_bufs s) = 16"
  by (simp_all add: udptl_ok_def)

lemma udptl_ok_rx_buffer: "udptl_ok s \<Longrightarrow> rx_buffer_ok (rx_bufs s ! slot i)"
  by (auto simp: udptl_ok_def)

lemma udptl_ok_tx_buffer: "udptl_ok s \<Longrightarrow> tx_buffer_ok (tx_bufs s ! slot i)"
  by (auto simp: udptl_ok_def)

lemma udptl_init_ok:
  "udptl_init have_s malloc_ok ec_scheme span entries have_handler = Some s \<Longrightarrow> udptl_ok s"
  by (auto simp: udptl_init_def udptl_ok_def tx_buffer_ok_def rx_buffer_ok_def
      empty_tx_buffer_def empty_rx_buffer_def split: if_splits)

lemma udptl_set_error_correction_ok:
  "udptl_ok s \<Longrightarrow> udptl_ok (snd (udptl_set_error_correction s ec_scheme span entries))"
  by (auto simp: udptl_set_error_correction_def Let_def udptl_ok_def)

text \<open>A fresh context on which the properties below are tried out.\<close>

definition sample_context :: udptl_state where
  "sample_context =
     the (udptl_init True True UDPTL_ERROR_CORRECTION_REDUNDANCY 3 3 True)"

lemma sample_context_init:
  "udptl_init True True UDPTL_ERROR_CORRECTION_REDUNDANCY 3 3 True = Some sample_context"
  by (simp add: sample_context_def udptl_init_def)

lemma sample_context_ok: "udptl_ok sample_context"
  by (rule udptl_init_ok [OF sample_context_init])

lemma sample_context_seq_no: "rx_seq_no sample_context = 0" "tx_seq_no sample_context = 0"
  by (simp_all add: sample_context_def udptl_init_def)

end
