(* ===== verification/Udptl_Tx.thy ===== *)
theory Udptl_Tx
  imports Udptl_State
begin

text \<open>
  Building packets: \<open>udptl_build_packet\<close> of \<^verbatim>\<open>src/udptl.c\<close> with its three
  error-correction schemes, and the history invariant that says which messages the ring
  of sent packets still holds.
\<close>

section \<open>The ring walk of the FEC loops\<close>

text \<open>
  The loops \<open>for (i = ...; i != limit; i = (i + step) & UDPTL_BUF_MASK)\<close> visit a list of
  ring indices. An index is one of sixteen values, so a loop that has not met \<open>limit\<close>
  after sixteen tests repeats itself and never ends: that is \<open>None\<close>.
\<close>

fun ring_walk :: "nat \<Rightarrow> int \<Rightarrow> int \<Rightarrow> int \<Rightarrow> int list option" where
  "ring_walk 0 i limit step = None"
| "ring_walk (Suc fuel) i limit step =
     (if i = limit then Some []
      else map_option (Cons i) (ring_walk fuel ((i + step) AND UDPTL_BUF_MASK) limit step))"

section \<open>\<open>udptl_build_packet\<close>\<close>

text \<open>The elements of the redundancy scheme: \<open>for (i = 0; i < entries; i++)\<close>.\<close>

function encode_redundancy :: "udptl_state \<Rightarrow> int \<Rightarrow> int \<Rightarrow> int \<Rightarrow> octets \<Rightarrow> (octets \<times> int) option" where
  "encode_redundancy s entry i entries out =
     (if i < entries then
        (let b = tx_bufs s ! slot (entry - i - 1) in
         case encode_open_type (tx_buf b) (tx_buf_len b) of
           None \<Rightarrow> None
         | Some (e, r) \<Rightarrow>
             if r < 0 then Some (out @ e, -1)
             else encode_redundancy s entry (i + 1) entries (out @ e))
      else Some (out, 0))"
  by pat_completeness auto
termination
  by (relation "measure (\<lambda>(s, entry, i, entries, out). nat (entries - i))") auto

declare encode_redundancy.simps [simp del]

text \<open>
  One pass of the loop that XORs a stored message into \<open>fec\<close>: the model's list is
  \<open>fec[0..high_tide - 1]\<close>, the only part of the array that is ever read.
\<close>

definition fec_add :: "octets \<Rightarrow> udptl_fec_tx_buffer \<Rightarrow> octets" where
  "fec_add acc b =
     (let data = take (nat (tx_buf_len b)) (tx_buf b) in
      if int (length acc) < tx_buf_len b
      then map2 (XOR) acc data @ drop (length acc) data
      else map2 (XOR) (take (length data) acc) data @ drop (length data) acc)"

function encode_fec :: "udptl_state \<Rightarrow> int \<Rightarrow> int \<Rightarrow> int \<Rightarrow> int \<Rightarrow> octets \<Rightarrow> (octets \<times> int) option" where
  "encode_fec s entry span m entries out =
     (if m < entries then
        (let limit = (entry + m) AND UDPTL_BUF_MASK in
         case ring_walk 16 ((limit - span * entries) AND UDPTL_BUF_MASK) limit entries of
           None \<Rightarrow> None
         | Some is \<Rightarrow>
             (let xored = foldl (\<lambda>acc i. fec_add acc (tx_bufs s ! nat i)) [] is in
              case encode_open_type xored (int (length xored)) of
                None \<Rightarrow> None
              | Some (e, r) \<Rightarrow>
                  if r < 0 then Some (out @ e, -1)
                  else encode_fec s entry span (m + 1) entries (out @ e)))
      else Some (out, 0))"
  by pat_completeness auto
termination
  by (relation "measure (\<lambda>(s, entry, span, m, entries, out). nat (entries - m))") auto

declare encode_fec.simps [simp del]

text \<open>
  C division truncates towards zero. \<open>entries = seq / span\<close> is only reached with
  \<open>seq < span * entries\<close>, hence with \<open>span \<noteq> 0\<close>.
\<close>

definition c_div :: "int \<Rightarrow> int \<Rightarrow> int" where
  "c_div a b = sgn a * sgn b * (\<bar>a\<bar> div \<bar>b\<bar>)"

definition encode_error_recovery :: "udptl_state \<Rightarrow> int \<Rightarrow> int \<Rightarrow> (octets \<times> int) option" where
  "encode_error_recovery s seq entry =
     (if error_correction_scheme s = UDPTL_ERROR_CORRECTION_NONE then
        (let (bs, r) = encode_length 0 in Some (0x00 # bs, if r < 0 then -1 else 0))
      else if error_correction_scheme s = UDPTL_ERROR_CORRECTION_REDUNDANCY then
        (let entries = (if tx_seq_no s > error_correction_entries s
                        then error_correction_entries s else tx_seq_no s);
             (bs, r) = encode_length entries in
         if r < 0 then Some (0x00 # bs, -1)
         else encode_redundancy s entry 0 entries (0x00 # bs))
      else if error_correction_scheme s = UDPTL_ERROR_CORRECTION_FEC then
        (let winding_up = seq < error_correction_span s * error_correction_entries s;
             entries = (if winding_up then c_div seq (error_correction_span s)
                        else error_correction_entries s);
             span = (if winding_up \<and> seq < error_correction_span s then 0
                     else error_correction_span s) in
         encode_fec s entry span 0 entries [0x80, 1, word_of_int span, word_of_int entries])
      else Some ([], 0))"

text \<open>
  The return value, the octets written to \<open>buf\<close> and the new context. Storing the message
  cannot overrun \<open>tx[entry].buf\<close>, whose size is the limit tested first. The increment of
  \<open>tx_seq_no\<close> overflows at \<open>INT_MAX\<close>.
\<close>

definition udptl_build_packet :: "udptl_state \<Rightarrow> octets \<Rightarrow> (int \<times> octets \<times> udptl_state) option" where
  "udptl_build_packet s msg =
     (let msg_len = int (length msg) in
      if msg_len < 1 \<or> msg_len > int LOCAL_FAX_MAX_DATAGRAM then Some (-1, [], s)
      else
        (let seq = tx_seq_no s AND 0xFFFF;
             entry = seq AND UDPTL_BUF_MASK;
             b = tx_bufs s ! slot seq;
             b' = b\<lparr>tx_buf_len := msg_len, tx_buf := msg @ drop (length msg) (tx_buf b)\<rparr>;
             s1 = s\<lparr>tx_bufs := (tx_bufs s)[slot seq := b']\<rparr>;
             header = [word_of_int (drop_bit 8 seq AND 0xFF), word_of_int (seq AND 0xFF)] in
         do {
           (primary, r) \<leftarrow> encode_open_type msg msg_len;
           if r < 0 then Some (-1, header @ primary, s1)
           else do {
             (recovery, r) \<leftarrow> encode_error_recovery s1 seq entry;
             if r < 0 then Some (-1, header @ primary @ recovery, s1)
             else if tx_seq_no s1 = INT_MAX then None
             else (let buf = header @ primary @ recovery in
                   Some (int (length buf), buf, s1\<lparr>tx_seq_no := tx_seq_no s1 + 1\<rparr>))
           }
         }))"

end
