(* ===== verification/Udptl_Rx.thy ===== *)
theory Udptl_Rx
  imports Udptl_Tx
begin

text \<open>
  Receiving packets: \<open>udptl_rx_packet\<close> of \<^verbatim>\<open>src/udptl.c\<close>, cut at the places where
  the C function changes from one job to the next. A delivery is one call of
  \<open>rx_packet_handler\<close>: the octets, and the sequence number as the \<open>uint16_t\<close> the
  callback receives.
\<close>

type_synonym delivery = "octets \<times> u16"

section \<open>Storing messages in the ring\<close>

text \<open>\<open>for (i = s->rx_seq_no; seq_no > i; i++)\<close>: the slots of packets not seen yet.\<close>

definition mark_missing_slot :: "udptl_fec_rx_buffer \<Rightarrow> udptl_fec_rx_buffer" where
  "mark_missing_slot b =
     b\<lparr>rx_buf_len := -1, fec_len := (fec_len b)[0 := 0], fec_span := 0, fec_entries := 0\<rparr>"

function mark_missing ::
    "udptl_fec_rx_buffer list \<Rightarrow> int \<Rightarrow> int \<Rightarrow> udptl_fec_rx_buffer list" where
  "mark_missing bufs i seq_no =
     (if seq_no > i
      then mark_missing (bufs[slot i := mark_missing_slot (bufs ! slot i)]) (i + 1) seq_no
      else bufs)"
  by pat_completeness auto
termination
  by (relation "measure (\<lambda>(bufs, i, seq_no). nat (seq_no - i))") auto

declare mark_missing.simps [simp del]

text \<open>
  The five statements that save a message in a slot; \<open>None\<close> when \<open>memcpy\<close> writes past
  the 400 octets of \<open>buf\<close>.
\<close>

definition store_message :: "udptl_fec_rx_buffer \<Rightarrow> octets \<Rightarrow> udptl_fec_rx_buffer option" where
  "store_message b msg =
     do {
       buf \<leftarrow> memcpy_to (rx_buf b) msg;
       Some (b\<lparr>rx_buf := buf, rx_buf_len := int (length msg), fec_len := (fec_len b)[0 := 0],
               fec_span := 0, fec_entries := 0\<rparr>)
     }"

definition save_packet :: "udptl_state \<Rightarrow> int \<Rightarrow> octets \<Rightarrow> udptl_state option" where
  "save_packet s seq_no msg =
     do {
       b \<leftarrow> store_message (rx_bufs s ! slot seq_no) msg;
       Some (s\<lparr>rx_bufs := (rx_bufs s)[slot seq_no := b]\<rparr>)
     }"

section \<open>Secondary packet mode\<close>

text \<open>
  \<open>for (i = 0; i < count; i++)\<close>: each call stores into element \<open>total_count + i\<close> of the
  local arrays \<open>bufs\<close> and \<open>lengths\<close>, which have sixteen elements. The model collects the
  elements in \<open>secs\<close>, whose length is that index.
\<close>

fun decode_elements :: "octets \<Rightarrow> nat \<Rightarrow> nat \<Rightarrow> nat \<Rightarrow> octets list \<Rightarrow> (int \<times> nat \<times> octets list) option" where
  "decode_elements buf len ptr 0 secs = Some (0, ptr, secs)"
| "decode_elements buf len ptr (Suc n) secs =
     (if length secs \<ge> 16 then None
      else
        (case decode_open_type buf len ptr of
           None \<Rightarrow> None
         | Some r \<Rightarrow>
             if ot_stat r \<noteq> 0 then Some (-1, ot_len r, secs)
             else decode_elements buf len (ot_len r) n (secs @ [ot_object r])))"

lemma decode_open_loop_ot_len:
  "decode_open_loop buf limit len idx num obj = Some r \<Longrightarrow> len \<le> ot_len r"
proof (induction buf limit len idx num obj rule: decode_open_loop.induct)
  case (1 buf limit len idx num obj)
  note unfolded = "1.prems" [unfolded decode_open_loop.simps [of buf limit len idx num obj]]
  show ?case
  proof (cases "decode_length buf limit len")
    case (Whole p c)
    with unfolded decode_length_progress(1) [OF Whole] show ?thesis
      by (auto dest: store_octets_ot_len)
  next
    case (Fragment p c)
    note p = decode_length_progress(2) [OF Fragment]
    from unfolded Fragment obtain q where q: "store_octets buf limit p c idx num obj = Some q"
      by (auto split: option.splits)
    show ?thesis
    proof (cases "ot_stat q < 0")
      case True
      with unfolded Fragment q p show ?thesis by (auto dest: store_octets_ot_len)
    next
      case False
      with unfolded Fragment q have "ot_len q \<le> ot_len r" by (intro "1.IH" [OF Fragment q]) simp_all
      with store_octets_ot_len [OF q] p show ?thesis by simp
    qed
  qed (use unfolded in auto)
qed

lemma decode_elements_ptr:
  "decode_elements buf len ptr n secs = Some (st, ptr', secs') \<Longrightarrow> ptr \<le> ptr'"
proof (induction n arbitrary: ptr secs)
  case (Suc n)
  then obtain r where r: "decode_open_type buf len ptr = Some r"
    by (auto split: if_splits option.splits)
  have "ptr \<le> ot_len r"
    using decode_open_loop_ot_len r by (simp add: decode_open_type_def)
  with Suc r show ?case by (fastforce split: if_splits)
qed simp

text \<open>The \<open>do ... while (stat2 > 0)\<close> loop over the counts.\<close>

function decode_secondaries :: "octets \<Rightarrow> nat \<Rightarrow> nat \<Rightarrow> octets list \<Rightarrow> (int \<times> nat \<times> octets list) option" where
  "decode_secondaries buf len ptr secs =
     (case decode_length buf len ptr of
        Bad \<Rightarrow> Some (-1, ptr, secs)
      | Whole ptr' count \<Rightarrow> decode_elements buf len ptr' count secs
      | Fragment ptr' count \<Rightarrow>
          (case decode_elements buf len ptr' count secs of
             None \<Rightarrow> None
           | Some (st, ptr'', secs') \<Rightarrow>
               if st < 0 then Some (-1, ptr'', secs')
               else decode_secondaries buf len ptr'' secs'))"
  by pat_completeness auto
termination
  by (relation "measure (\<lambda>(buf, len, ptr, secs). len - ptr)")
     (auto dest!: decode_length_progress decode_elements_ptr)

declare decode_secondaries.simps [simp del]

text \<open>\<open>for (i = total_count; i > 0; i--)\<close>: oldest first, what was not seen before.\<close>

fun recover_secondaries ::
    "udptl_state \<Rightarrow> int \<Rightarrow> octets list \<Rightarrow> nat \<Rightarrow> (udptl_state \<times> delivery list) option" where
  "recover_secondaries s seq_no secs 0 = Some (s, [])"
| "recover_secondaries s seq_no secs (Suc k) =
     (if seq_no - int (Suc k) \<ge> rx_seq_no s then
        (case save_packet s (seq_no - int (Suc k)) (secs ! k) of
           None \<Rightarrow> None
         | Some s' \<Rightarrow>
             map_option (\<lambda>(s'', ds). (s'', (secs ! k, word_of_int (seq_no - int (Suc k))) # ds))
               (recover_secondaries s' seq_no secs k))
      else recover_secondaries s seq_no secs k)"

lemma recover_secondaries_elim:
  assumes "recover_secondaries s n secs (Suc k) = Some (s', ds)"
  obtains (new) s1 es where "rx_seq_no s \<le> n - int (Suc k)"
      "save_packet s (n - int (Suc k)) (secs ! k) = Some s1"
      "recover_secondaries s1 n secs k = Some (s', es)"
      "ds = (secs ! k, word_of_int (n - int (Suc k))) # es"
  | (seen) "\<not> rx_seq_no s \<le> n - int (Suc k)" "recover_secondaries s n secs k = Some (s', ds)"
  using assms by (auto simp del: of_nat_Suc split: if_splits option.splits)

definition rx_secondary ::
    "udptl_state \<Rightarrow> octets \<Rightarrow> nat \<Rightarrow> int \<Rightarrow> (int \<times> udptl_state \<times> delivery list) option" where
  "rx_secondary s buf ptr seq_no =
     (case decode_secondaries buf (length buf) ptr [] of
        None \<Rightarrow> None
      | Some (st, ptr', secs) \<Rightarrow>
          if st < 0 then Some (-1, s, [])
          else if ptr' \<noteq> length buf then Some (-1, s, [])
          else if seq_no > rx_seq_no s then
            map_option (\<lambda>(s', ds). (0, s', ds)) (recover_secondaries s seq_no secs (length secs))
          else Some (0, s, []))"

section \<open>FEC mode\<close>

text \<open>
  \<open>for (i = 0; i < entries; i++)\<close>: element \<open>i\<close> goes to \<open>fec_len[i]\<close> and \<open>fec[i]\<close> of
  slot \<open>x\<close>, arrays of five elements. \<open>fec_len[i]\<close> is written through the pointer
  passed to \<open>decode_open_type\<close>, on its failing paths too.
\<close>

fun decode_fec :: "udptl_state \<Rightarrow> octets \<Rightarrow> nat \<Rightarrow> nat \<Rightarrow> nat \<Rightarrow> nat \<Rightarrow> (int \<times> nat \<times> udptl_state) option" where
  "decode_fec s buf ptr x i 0 = Some (0, ptr, s)"
| "decode_fec s buf ptr x i (Suc n) =
     (if i \<ge> LOCAL_FAX_MAX_FEC_PACKETS then None
      else
        (case decode_open_type buf (length buf) ptr of
           None \<Rightarrow> None
         | Some r \<Rightarrow>
             (let b = rx_bufs s ! x;
                  b1 = b\<lparr>fec_len := (fec_len b)[i := int (ot_num r)]\<rparr>;
                  s1 = s\<lparr>rx_bufs := (rx_bufs s)[x := b1]\<rparr> in
              if ot_stat r \<noteq> 0 then Some (-1, ot_len r, s1)
              else if ot_num r > LOCAL_FAX_MAX_DATAGRAM then Some (-1, ot_len r, s1)
              else
                (case memcpy_to (fec b1 ! i) (ot_object r) of
                   None \<Rightarrow> None
                 | Some f \<Rightarrow>
                     decode_fec
                       (s\<lparr>rx_bufs := (rx_bufs s)[x := b1\<lparr>fec := (fec b1)[i := f]\<rparr>]\<rparr>)
                       buf (ot_len r) x (i + 1) n))))"

lemma decode_fec_elim:
  assumes "decode_fec s buf ptr x i (Suc n) = Some (st, ptr', s')"
  obtains (failed) r b1 where "i < 5" "decode_open_type buf (length buf) ptr = Some r"
      "b1 = (rx_bufs s ! x)\<lparr>fec_len := (fec_len (rx_bufs s ! x))[i := int (ot_num r)]\<rparr>"
      "st = -1" "s' = s\<lparr>rx_bufs := (rx_bufs s)[x := b1]\<rparr>"
  | (element) r b1 f where "i < 5" "decode_open_type buf (length buf) ptr = Some r"
      "b1 = (rx_bufs s ! x)\<lparr>fec_len := (fec_len (rx_bufs s ! x))[i := int (ot_num r)]\<rparr>"
      "ot_stat r = 0" "ot_num r \<le> 400" "memcpy_to (fec b1 ! i) (ot_object r) = Some f"
      "decode_fec (s\<lparr>rx_bufs := (rx_bufs s)[x := b1\<lparr>fec := (fec b1)[i := f]\<rparr>]\<rparr>)
         buf (ot_len r) x (i + 1) n = Some (st, ptr', s')"
proof -
  from assms have i: "i < 5" by (simp split: if_splits)
  with assms obtain r where r: "decode_open_type buf (length buf) ptr = Some r"
    by (auto split: option.splits)
  define b1 where "b1 = (rx_bufs s ! x)\<lparr>fec_len := (fec_len (rx_bufs s ! x))[i := int (ot_num r)]\<rparr>"
  show ?thesis
  proof (cases "ot_stat r \<noteq> 0 \<or> 400 < ot_num r")
    case True
    with assms i r have "st = -1" "s' = s\<lparr>rx_bufs := (rx_bufs s)[x := b1]\<rparr>"
      by (auto simp: Let_def b1_def split: if_splits)
    with i r show ?thesis by (rule failed [OF _ _ b1_def])
  next
    case False
    with assms i r obtain f where "memcpy_to (fec b1 ! i) (ot_object r) = Some f"
        "decode_fec (s\<lparr>rx_bufs := (rx_bufs s)[x := b1\<lparr>fec := (fec b1)[i := f]\<rparr>]\<rparr>)
         buf (ot_len r) x (i + 1) n = Some (st, ptr', s')"
      unfolding decode_fec.simps by (simp add: Let_def flip: b1_def split: option.splits)
    with i r False show ?thesis by (intro element [OF _ _ b1_def]) simp_all
  qed
qed

lemma decode_fec_step:
  assumes "i < 5" "decode_open_type buf (length buf) ptr = Some r" "ot_stat r = 0" "ot_num r \<le> 400"
    and "b1 = (rx_bufs s ! x)\<lparr>fec_len := (fec_len (rx_bufs s ! x))[i := int (ot_num r)]\<rparr>"
    and "memcpy_to (fec b1 ! i) (ot_object r) = Some f"
  shows "decode_fec s buf ptr x i (Suc n) =
    decode_fec (s\<lparr>rx_bufs := (rx_bufs s)[x := b1\<lparr>fec := (fec b1)[i := f]\<rparr>]\<rparr>) buf (ot_len r) x (i + 1) n"
  using assms(1-4,6) unfolding assms(5) by (simp add: Let_def)

text \<open>The search for the single missing packet of a group: \<open>-1\<close> none, \<open>-2\<close> several.\<close>

definition find_which :: "udptl_fec_rx_buffer list \<Rightarrow> int list \<Rightarrow> int" where
  "find_which bufs ks =
     foldl (\<lambda>which k. if rx_buf_len (bufs ! nat k) \<le> 0
                      then (if which = -1 then k else -2) else which) (-1) ks"

text \<open>
  One repaired octet: \<open>fec[m][j]\<close> XORed with octet \<open>j\<close> of every message of the group that
  is long enough. The missing slot has \<open>buf_len <= 0\<close> and contributes nothing.
\<close>

definition repair_octet :: "udptl_fec_rx_buffer list \<Rightarrow> int list \<Rightarrow> octets \<Rightarrow> nat \<Rightarrow> u8" where
  "repair_octet bufs ks f j =
     foldl (\<lambda>acc k. acc XOR (if rx_buf_len (bufs ! nat k) > int j then rx_buf (bufs ! nat k) ! j else 0))
       (f ! j) ks"

text \<open>
  The repair of one slot. \<open>None\<close> stands for reading \<open>fec_len[m]\<close> outside its five
  elements and for writing the repaired message past the 400 octets of \<open>buf\<close>.
\<close>

definition repair_slot ::
    "udptl_fec_rx_buffer list \<Rightarrow> int list \<Rightarrow> int \<Rightarrow> int \<Rightarrow> int \<Rightarrow> udptl_fec_rx_buffer list option" where
  "repair_slot bufs ks l m which =
     (let b = bufs ! nat l; w = bufs ! nat which in
      do {
        n \<leftarrow> arr_get (fec_len b) m;
        f \<leftarrow> arr_get (fec b) m;
        if n > int LOCAL_FAX_MAX_DATAGRAM then None
        else
          (let buf' = map (repair_octet bufs ks f) [0..<nat n] @ drop (nat n) (rx_buf w) in
           Some (bufs[nat which := w\<lparr>rx_buf := buf', rx_buf_len := n\<rparr>]))
      })"

lemma repair_slot_fec_entries:
  "repair_slot bufs ks l m which = Some bufs' \<Longrightarrow> fec_entries (bufs' ! i) = fec_entries (bufs ! i)"
  by (cases "nat which < length bufs"; cases "i = nat which")
     (auto simp: repair_slot_def Let_def bind_eq_Some_conv list_update_beyond split: if_splits)

text \<open>\<open>for (m = 0; m < s->rx[l].fec_entries; m++)\<close>\<close>

function repair_entries ::
    "udptl_fec_rx_buffer list \<Rightarrow> bool list \<Rightarrow> int \<Rightarrow> int \<Rightarrow>
     (udptl_fec_rx_buffer list \<times> bool list) option" where
  "repair_entries bufs repaired l m =
     (let b = bufs ! nat l in
      if m < fec_entries b then
        (let limit = (l + m) AND UDPTL_BUF_MASK in
         case ring_walk 16 ((limit - fec_span b * fec_entries b) AND UDPTL_BUF_MASK)
                limit (fec_entries b) of
           None \<Rightarrow> None
         | Some ks \<Rightarrow>
             (let which = find_which bufs ks in
              if which \<ge> 0 then
                (case repair_slot bufs ks l m which of
                   None \<Rightarrow> None
                 | Some bufs' \<Rightarrow> repair_entries bufs' (repaired[nat which := True]) l (m + 1))
              else repair_entries bufs repaired l (m + 1)))
      else Some (bufs, repaired))"
  by pat_completeness auto
termination
  by (relation "measure (\<lambda>(bufs, repaired, l, m). nat (fec_entries (bufs ! nat l) - m))")
     (auto simp: repair_slot_fec_entries)

declare repair_entries.simps [simp del]

text \<open>The loop over \<open>l\<close>, which goes backwards round the ring through the list \<open>ls\<close>.\<close>

fun repair_walk ::
    "udptl_fec_rx_buffer list \<Rightarrow> bool list \<Rightarrow> int list \<Rightarrow> (udptl_fec_rx_buffer list \<times> bool list) option" where
  "repair_walk bufs repaired [] = Some (bufs, repaired)"
| "repair_walk bufs repaired (l # ls) =
     (if fec_len (bufs ! nat l) ! 0 \<le> 0 then repair_walk bufs repaired ls
      else
        (case repair_entries bufs repaired l 0 of
           None \<Rightarrow> None
         | Some (bufs', repaired') \<Rightarrow> repair_walk bufs' repaired' ls))"

text \<open>The last loop: repaired messages are played forwards in time, \<open>j\<close> counting along.\<close>

fun play_repaired :: "udptl_fec_rx_buffer list \<Rightarrow> bool list \<Rightarrow> int list \<Rightarrow> int \<Rightarrow> delivery list" where
  "play_repaired bufs repaired [] j = []"
| "play_repaired bufs repaired (l # ls) j =
     (if repaired ! nat l
      then (take (nat (rx_buf_len (bufs ! nat l))) (rx_buf (bufs ! nat l)), word_of_int j)
             # play_repaired bufs repaired ls (j + 1)
      else play_repaired bufs repaired ls (j + 1))"

text \<open>
  The two loops after the elements are decoded: reconstruct what is missing, then play it.
  \<open>x\<close> is the slot of the packet, the one that starts out marked as repaired.
\<close>

definition fec_reconstruct ::
    "udptl_state \<Rightarrow> nat \<Rightarrow> int \<Rightarrow> int \<Rightarrow> int \<Rightarrow> (udptl_state \<times> delivery list) option" where
  "fec_reconstruct s x span entries seq_no =
     do {
       ls \<leftarrow> ring_walk 16 (int x) ((int x - (16 - span * entries)) AND UDPTL_BUF_MASK) (-1);
       (bufs, repaired) \<leftarrow> repair_walk (rx_bufs s) ((replicate 16 False)[x := True]) ls;
       fs \<leftarrow> ring_walk 16 ((int x + 1) AND UDPTL_BUF_MASK) (int x) 1;
       Some (s\<lparr>rx_bufs := bufs\<rparr>, play_repaired bufs repaired fs (seq_no - UDPTL_BUF_MASK))
     }"

text \<open>\<open>s->rx[x].fec_span = span\<close> and \<open>s->rx[x].fec_entries = entries\<close>.\<close>

definition set_fec_span :: "udptl_state \<Rightarrow> nat \<Rightarrow> int \<Rightarrow> udptl_state" where
  "set_fec_span s x span =
     s\<lparr>rx_bufs := (rx_bufs s)[x := (rx_bufs s ! x)\<lparr>fec_span := span\<rparr>]\<rparr>"

definition set_fec_entries :: "udptl_state \<Rightarrow> nat \<Rightarrow> int \<Rightarrow> udptl_state" where
  "set_fec_entries s x entries =
     s\<lparr>rx_bufs := (rx_bufs s)[x := (rx_bufs s ! x)\<lparr>fec_entries := entries\<rparr>]\<rparr>"

definition rx_fec ::
    "udptl_state \<Rightarrow> octets \<Rightarrow> nat \<Rightarrow> int \<Rightarrow> (int \<times> udptl_state \<times> delivery list) option" where
  "rx_fec s buf ptr seq_no =
     (if ptr + 2 > length buf then Some (-1, s, [])
      else if buf ! ptr \<noteq> 1 then Some (-1, s, [])
      else
        (let span = uint (buf ! (ptr + 1));
             x = slot seq_no;
             s1 = set_fec_span s x span in
         if ptr + 3 > length buf then Some (-1, s1, [])
         else
           (let entries = uint (buf ! (ptr + 2));
                s2 = set_fec_entries s1 x entries in
            case decode_fec s2 buf (ptr + 3) x 0 (nat entries) of
              None \<Rightarrow> None
            | Some (st, ptr', s3) \<Rightarrow>
                if st < 0 then Some (-1, s3, [])
                else if ptr' \<noteq> length buf then Some (-1, s3, [])
                else map_option (\<lambda>(s', ds). (0, s', ds)) (fec_reconstruct s3 x span entries seq_no))))"

lemma rx_fec_decoded:
  assumes "ptr + 3 \<le> length buf" "buf ! ptr = 1"
    and "s2 = set_fec_entries (set_fec_span s (slot n) (uint (buf ! (ptr + 1)))) (slot n) (uint (buf ! (ptr + 2)))"
    and "decode_fec s2 buf (ptr + 3) (slot n) 0 (nat (uint (buf ! (ptr + 2)))) = Some (st, ptr', s3)"
  shows "rx_fec s buf ptr n =
     (if st < 0 \<or> ptr' \<noteq> length buf then Some (-1, s3, [])
      else map_option (\<lambda>(s', ds). (0, s', ds))
             (fec_reconstruct s3 (slot n) (uint (buf ! (ptr + 1))) (uint (buf ! (ptr + 2))) n))"
  using assms(1,2) unfolding rx_fec_def Let_def assms(3) [symmetric] assms(4) by simp

section \<open>\<open>udptl_rx_packet\<close>\<close>

text \<open>The error recovery part, chosen by the first bit of the octet after the primary.\<close>

definition rx_error_recovery ::
    "udptl_state \<Rightarrow> octets \<Rightarrow> nat \<Rightarrow> int \<Rightarrow> (int \<times> udptl_state \<times> delivery list) option" where
  "rx_error_recovery s buf ptr seq_no =
     (if buf ! ptr AND 0x80 = 0 then rx_secondary s buf (ptr + 1) seq_no
      else rx_fec s buf (ptr + 1) seq_no)"

text \<open>The slots between the last and this packet are cleared, then the primary is saved.\<close>

definition store_primary :: "udptl_state \<Rightarrow> int \<Rightarrow> octets \<Rightarrow> udptl_state option" where
  "store_primary s seq_no msg =
     save_packet (s\<lparr>rx_bufs := mark_missing (rx_bufs s) (rx_seq_no s) seq_no\<rparr>) seq_no msg"

definition received_seq_no :: "octets \<Rightarrow> int" where
  "received_seq_no buf = push_bit 8 (uint (buf ! 0)) OR uint (buf ! 1)"

text \<open>
  The return value, the new context and the calls of \<open>rx_packet_handler\<close> in order. A
  rejected packet (\<open>-1\<close>) still leaves the changes made before the fault was found.
\<close>

definition udptl_rx_packet ::
    "udptl_state \<Rightarrow> octets \<Rightarrow> (int \<times> udptl_state \<times> delivery list) option" where
  "udptl_rx_packet s buf =
     (if 2 > length buf then Some (-1, s, [])
      else
        (let seq_no = received_seq_no buf in
         do {
           p \<leftarrow> decode_open_type buf (length buf) 2;
           if ot_stat p \<noteq> 0 then Some (-1, s, [])
           else if ot_len p + 1 > length buf then Some (-1, s, [])
           else if ot_num p > LOCAL_FAX_MAX_DATAGRAM then Some (-1, s, [])
           else do {
             s2 \<leftarrow> store_primary s seq_no (ot_object p);
             (st, s3, ds) \<leftarrow> rx_error_recovery s2 buf (ot_len p) seq_no;
             if st < 0 then Some (-1, s3, ds)
             else
               Some (0, s3\<lparr>rx_seq_no := (seq_no + 1) AND 0xFFFF\<rparr>,
                     ds @ (if seq_no \<ge> rx_seq_no s3
                           then [(ot_object p, word_of_int seq_no)] else []))
           }
         }))"

text \<open>An accepted or late-rejected packet got through these steps.\<close>

lemma udptl_rx_packet_elim:
  assumes "udptl_rx_packet s buf = Some (r, s', ds)"
  obtains (early) "r = -1" "s' = s" "ds = []"
  | (steps) p s2 st s3 es where "2 \<le> length buf"
      "decode_open_type buf (length buf) 2 = Some p" "ot_stat p = 0" "ot_len p + 1 \<le> length buf"
      "ot_num p \<le> 400" "store_primary s (received_seq_no buf) (ot_object p) = Some s2"
      "rx_error_recovery s2 buf (ot_len p) (received_seq_no buf) = Some (st, s3, es)"
      "if st < 0 then r = -1 \<and> s' = s3 \<and> ds = es
       else r = 0 \<and> s' = s3\<lparr>rx_seq_no := (received_seq_no buf + 1) AND 0xFFFF\<rparr> \<and>
            ds = es @ (if received_seq_no buf \<ge> rx_seq_no s3
                       then [(ot_object p, word_of_int (received_seq_no buf))] else [])"
proof (cases "2 > length buf")
  case True
  with assms early show ?thesis by (simp add: udptl_rx_packet_def)
next
  case False
  note u = assms [unfolded udptl_rx_packet_def Let_def]
  from u False obtain p where p: "decode_open_type buf (length buf) 2 = Some p"
    by (simp add: bind_eq_Some_conv) blast
  show ?thesis
  proof (cases "ot_stat p \<noteq> 0 \<or> ot_len p + 1 > length buf \<or> ot_num p > 400")
    case True
    with u False p early show ?thesis by (auto split: if_splits)
  next
    case ok: False
    with u False p obtain s2 where s2: "store_primary s (received_seq_no buf) (ot_object p) = Some s2"
      by (simp add: bind_eq_Some_conv) blast
    with u False p ok obtain st s3 es where
      "rx_error_recovery s2 buf (ot_len p) (received_seq_no buf) = Some (st, s3, es)"
      by (simp add: bind_eq_Some_conv) blast
    with u False p ok s2 show ?thesis
      by (intro steps [of p s2 st s3 es]) (simp_all split: if_splits)
  qed
qed

end
