(* ===== verification/Udptl_Redundancy.thy ===== *)
theory Udptl_Redundancy
  imports Udptl_Rx
begin

text \<open>
  The redundancy scheme end to end: what a sender that has sent a history of messages puts
  into its next packet, what a receiver delivers for such a packet, and a lossy channel
  between the two.
\<close>

section \<open>The packets of the redundancy scheme\<close>

definition valid_message :: "octets \<Rightarrow> bool" where
  "valid_message m \<longleftrightarrow> 1 \<le> length m \<and> length m \<le> LOCAL_FAX_MAX_DATAGRAM"

definition sequence_octets :: "nat \<Rightarrow> octets" where
  "sequence_octets n = [word_of_int (int n div 256), word_of_int (int n mod 256)]"

definition redundancy_packet :: "nat \<Rightarrow> octets \<Rightarrow> octets list \<Rightarrow> octets" where
  "redundancy_packet n msg prevs =
     sequence_octets n @ open_octets msg @ [0] @ [word_of_int (int (length prevs))]
       @ concat (map open_octets prevs)"

text \<open>The ring of sent packets holds the last sixteen messages of the history.\<close>

definition holds_message :: "udptl_fec_tx_buffer \<Rightarrow> octets \<Rightarrow> bool" where
  "holds_message b m \<longleftrightarrow> tx_buf_len b = int (length m) \<and> take (length m) (tx_buf b) = m"

definition tx_holds :: "udptl_state \<Rightarrow> octets list \<Rightarrow> bool" where
  "tx_holds s hist \<longleftrightarrow>
     udptl_ok s \<and> tx_seq_no s = int (length hist) \<and> (\<forall>m \<in> set hist. valid_message m) \<and>
     (\<forall>j < length hist. length hist \<le> j + 16 \<longrightarrow> holds_message (tx_bufs s ! slot (int j)) (hist ! j))"

lemma tx_holds_init:
  "udptl_init have_s malloc_ok ec_scheme span entries True = Some s \<Longrightarrow> tx_holds s []"
  by (auto simp: tx_holds_def dest: udptl_init_ok) (auto simp: udptl_init_def split: if_splits)

lemma encode_open_type_holds:
  assumes "holds_message b m" "valid_message m" "tx_buffer_ok b"
  shows "encode_open_type (tx_buf b) (tx_buf_len b) = Some (open_octets m, 0)"
  using assms encode_open_type_octets [of "length m" "tx_buf b"]
  by (auto simp: holds_message_def valid_message_def tx_buffer_ok_def)

text \<open>The loop over the redundant elements, from index \<open>i\<close> on.\<close>

lemma encode_redundancy_elements:
  assumes "i \<le> k"
    and "\<And>t. i \<le> t \<Longrightarrow> t < k \<Longrightarrow>
      encode_open_type (tx_buf (tx_bufs s ! slot (entry - int t - 1)))
        (tx_buf_len (tx_bufs s ! slot (entry - int t - 1))) = Some (f t, 0)"
  shows "encode_redundancy s entry (int i) (int k) out = Some (out @ concat (map f [i..<k]), 0)"
  using assms
proof (induction "k - i" arbitrary: i out)
  case 0
  then show ?case by (subst encode_redundancy.simps) simp
next
  case (Suc d)
  then have i: "i < k" by simp
  from Suc.hyps(1) [of "Suc i" "out @ f i"] Suc.hyps(2) Suc.prems i
  have "encode_redundancy s entry (int (Suc i)) (int k) (out @ f i) =
      Some ((out @ f i) @ concat (map f [Suc i..<k]), 0)"
    by simp
  moreover have "concat (map f [i..<k]) = f i @ concat (map f [Suc i..<k])"
    using i by (simp add: upt_conv_Cons)
  ultimately show ?case
    using i Suc.prems(2) [of i] by (subst encode_redundancy.simps) (simp add: Let_def add.commute)
qed

lemma map_rev_history:
  "k \<le> length hist \<Longrightarrow> map (\<lambda>t. hist ! (length hist - 1 - t)) [0..<k] = take k (rev hist)"
  by (rule nth_equalityI) (auto simp: rev_nth)

text \<open>Storing the current message keeps the older fifteen where they are.\<close>

lemma slot_of_masked: "slot ((x mod 16) - y) = slot (x - y)"
  by (simp add: slot_eq mod_diff_left_eq)

lemma slot_mod [simp]: "slot (x mod 16) = slot x" "slot (x mod 65536) = slot x"
  by (simp_all add: slot_eq mod_mod_cancel)

lemma slot_neq:
  assumes "j < n" "n < j + 16"
  shows "slot (int j) \<noteq> slot (int n)"
proof
  assume "slot (int j) = slot (int n)"
  then have "int n mod 16 = int j mod 16" by (simp add: slot_eq_iff)
  then have "(16::int) dvd int n - int j" by (simp add: mod_eq_dvd_iff)
  then have "int n - int j \<ge> 16" using assms(1) by (intro zdvd_imp_le) simp_all
  with assms(2) show False by simp
qed

text \<open>The state after the message is stored, before the packet is assembled.\<close>

definition stored :: "udptl_state \<Rightarrow> octets \<Rightarrow> udptl_state" where
  "stored s msg =
     (let i = slot (tx_seq_no s); b = tx_bufs s ! i in
      s\<lparr>tx_bufs := (tx_bufs s)
          [i := b\<lparr>tx_buf_len := int (length msg), tx_buf := msg @ drop (length msg) (tx_buf b)\<rparr>]\<rparr>)"

lemma stored_frame [simp, frame_simps]:
  "tx_seq_no (stored s msg) = tx_seq_no s"
  "rx_seq_no (stored s msg) = rx_seq_no s"
  "rx_bufs (stored s msg) = rx_bufs s"
  "error_correction_scheme (stored s msg) = error_correction_scheme s"
  "error_correction_entries (stored s msg) = error_correction_entries s"
  "error_correction_span (stored s msg) = error_correction_span s"
  by (simp_all add: stored_def Let_def)

lemma stored_ok:
  assumes "udptl_ok s" "valid_message msg"
  shows "udptl_ok (stored s msg)"
proof -
  have "tx_buffer_ok (tx_bufs s ! slot (tx_seq_no s))"
    using assms(1) by (rule udptl_ok_tx_buffer)
  with assms show ?thesis
    by (auto simp: udptl_ok_def stored_def Let_def tx_buffer_ok_def valid_message_def
        dest!: set_updateD)
qed

lemma stored_holds:
  assumes "tx_holds s hist" "valid_message msg" "j \<le> length hist" "length hist < j + 16"
  shows "holds_message (tx_bufs (stored s msg) ! slot (int j)) ((hist @ [msg]) ! j)"
proof (cases "j = length hist")
  case True
  then show ?thesis
    using assms(1,2) by (auto simp: stored_def Let_def tx_holds_def udptl_ok_def holds_message_def)
next
  case False
  then have j: "j < length hist" using assms(3) by simp
  with assms(4) have "slot (int j) \<noteq> slot (int (length hist))" by (intro slot_neq)
  then show ?thesis
    using assms j by (auto simp: stored_def Let_def tx_holds_def nth_append)
qed

lemma header_octets:
  assumes "n < 65536"
  shows "[word_of_int (drop_bit 8 (int n AND 65535) AND 255), word_of_int ((int n AND 65535) AND 255)]
           = sequence_octets n"
proof -
  have "int n div 256 < 256" using assms by simp
  with assms show ?thesis by (simp add: sequence_octets_def int_masks drop_bit_eq_div)
qed

lemma build_packet_eq:
  assumes "valid_message msg" "udptl_ok s"
  shows "udptl_build_packet s msg =
    (case encode_error_recovery (stored s msg) (tx_seq_no s AND 0xFFFF) ((tx_seq_no s AND 0xFFFF) AND 15) of
       None \<Rightarrow> None
     | Some (recovery, r) \<Rightarrow>
         (let buf = [word_of_int (drop_bit 8 (tx_seq_no s AND 65535) AND 255),
                     word_of_int ((tx_seq_no s AND 65535) AND 255)] @ open_octets msg @ recovery in
          if r < 0 then Some (-1, buf, stored s msg)
          else if tx_seq_no s = INT_MAX then None
          else Some (int (length buf), buf, (stored s msg)\<lparr>tx_seq_no := tx_seq_no s + 1\<rparr>)))"
proof -
  have e: "encode_open_type msg (int (length msg)) = Some (open_octets msg, 0)"
    using encode_open_type_octets [of "length msg" msg] assms by (simp add: valid_message_def)
  have l: "\<not> (int (length msg) < 1 \<or> int (length msg) > int LOCAL_FAX_MAX_DATAGRAM)"
    using assms by (auto simp: valid_message_def)
  have s1: "s\<lparr>tx_bufs := (tx_bufs s)[slot (tx_seq_no s AND 0xFFFF) :=
      (tx_bufs s ! slot (tx_seq_no s AND 0xFFFF))\<lparr>tx_buf_len := int (length msg),
         tx_buf := msg @ drop (length msg) (tx_buf (tx_bufs s ! slot (tx_seq_no s AND 0xFFFF)))\<rparr>]\<rparr>
      = stored s msg"
    by (simp add: stored_def Let_def int_masks)
  show ?thesis
    unfolding udptl_build_packet_def Let_def s1 e
    using l by (simp add: Let_def split: option.split prod.split)
qed

definition redundancy_config :: "udptl_state \<Rightarrow> nat \<Rightarrow> bool" where
  "redundancy_config s k \<longleftrightarrow>
     error_correction_scheme s = UDPTL_ERROR_CORRECTION_REDUNDANCY \<and>
     error_correction_entries s = int k \<and> k \<le> 15"

lemma encode_recovery_redundancy:
  assumes "tx_holds s hist" "redundancy_config s k" "valid_message msg"
  shows "encode_error_recovery (stored s msg) (tx_seq_no s AND 0xFFFF) ((tx_seq_no s AND 0xFFFF) AND 15) =
    Some (let prevs = take k (rev hist) in
      [0, word_of_int (int (length prevs))] @ concat (map open_octets prevs), 0)"
proof -
  let ?n = "length hist" and ?e = "min k (length hist)" and ?s1 = "stored s msg"
  let ?entry = "(tx_seq_no s AND 0xFFFF) AND 15"
  have n: "tx_seq_no s = int ?n" using assms(1) by (simp add: tx_holds_def)
  have k: "k \<le> 15" using assms(2) by (simp add: redundancy_config_def)
  have elem: "encode_open_type (tx_buf (tx_bufs ?s1 ! slot (?entry - int t - 1)))
        (tx_buf_len (tx_bufs ?s1 ! slot (?entry - int t - 1))) =
        Some (open_octets (hist ! (?n - 1 - t)), 0)" if "t < ?e" for t
  proof -
    have "slot (?entry - int t - 1) = slot (int ?n - (int t + 1))"
      by (simp add: n int_masks slot_eq mod_diff_left_eq mod_mod_cancel diff_diff_eq)
    also have "int ?n - (int t + 1) = int (?n - 1 - t)" using that by simp
    finally have sl: "slot (?entry - int t - 1) = slot (int (?n - 1 - t))" .
    have "holds_message (tx_bufs ?s1 ! slot (int (?n - 1 - t))) ((hist @ [msg]) ! (?n - 1 - t))"
    proof (rule stored_holds [OF assms(1,3)])
      show "?n - 1 - t \<le> ?n" by simp
      show "?n < ?n - 1 - t + 16" using that k by arith
    qed
    moreover have "(hist @ [msg]) ! (?n - 1 - t) = hist ! (?n - 1 - t)"
    proof -
      have "?n - 1 - t < ?n" using that by arith
      then show ?thesis by (simp add: nth_append)
    qed
    moreover have "valid_message (hist ! (?n - 1 - t))"
    proof -
      have "hist ! (?n - 1 - t) \<in> set hist" using that by (intro nth_mem) arith
      with assms(1) show ?thesis by (simp add: tx_holds_def)
    qed
    moreover have "tx_buffer_ok (tx_bufs ?s1 ! slot (int (?n - 1 - t)))"
      using stored_ok [of s msg] assms(1,3) by (intro udptl_ok_tx_buffer) (simp add: tx_holds_def)
    ultimately show ?thesis unfolding sl by (auto intro: encode_open_type_holds)
  qed
  have loop: "encode_redundancy ?s1 ?entry 0 (int ?e) out =
      Some (out @ concat (map open_octets (take k (rev hist))), 0)" for out
  proof -
    have "encode_redundancy ?s1 ?entry (int 0) (int ?e) out =
        Some (out @ concat (map (\<lambda>t. open_octets (hist ! (?n - 1 - t))) [0..<?e]), 0)"
      by (rule encode_redundancy_elements) (simp_all add: elem [simplified])
    also have "map (\<lambda>t. open_octets (hist ! (?n - 1 - t))) [0..<?e] =
        map open_octets (map (\<lambda>t. hist ! (?n - 1 - t)) [0..<?e])"
      by (simp add: comp_def)
    also have "\<dots> = map open_octets (take k (rev hist))"
      by (subst map_rev_history) (simp_all add: min_def)
    finally show ?thesis by simp
  qed
  have ent: "(if tx_seq_no ?s1 > error_correction_entries ?s1
              then error_correction_entries ?s1 else tx_seq_no ?s1) = int ?e"
    using assms(2) n by (auto simp: redundancy_config_def)
  have len: "encode_length (int ?e) = ([word_of_int (int ?e)], int ?e)"
    using k by (simp add: encode_length_def)
  show ?thesis
    using assms(2) unfolding encode_error_recovery_def Let_def ent len
    by (simp add: redundancy_config_def loop min.commute)
qed

lemma tx_holds_build:
  assumes "tx_holds s hist" "valid_message msg"
  shows "tx_holds ((stored s msg)\<lparr>tx_seq_no := tx_seq_no s + 1\<rparr>) (hist @ [msg])"
proof -
  have "udptl_ok (stored s msg)" using assms by (intro stored_ok) (simp_all add: tx_holds_def)
  then have "udptl_ok ((stored s msg)\<lparr>tx_seq_no := tx_seq_no s + 1\<rparr>)"
    by (simp add: udptl_ok_def)
  moreover have "holds_message (tx_bufs (stored s msg) ! slot (int j)) ((hist @ [msg]) ! j)"
    if "j < Suc (length hist)" "Suc (length hist) \<le> j + 16" for j
    using that by (intro stored_holds assms) simp_all
  ultimately show ?thesis using assms by (auto simp: tx_holds_def)
qed

theorem build_packet_redundancy:
  assumes "tx_holds s hist" "redundancy_config s k" "valid_message msg" "length hist < 65536"
  defines "pkt \<equiv> redundancy_packet (length hist) msg (take k (rev hist))"
  shows "\<exists>s'. udptl_build_packet s msg = Some (int (length pkt), pkt, s') \<and>
           tx_holds s' (hist @ [msg]) \<and> redundancy_config s' k"
proof -
  have n: "tx_seq_no s = int (length hist)" "udptl_ok s" using assms(1) by (simp_all add: tx_holds_def)
  have "udptl_build_packet s msg = Some (int (length pkt), pkt, (stored s msg)\<lparr>tx_seq_no := tx_seq_no s + 1\<rparr>)"
    unfolding build_packet_eq [OF assms(3) n(2)] encode_recovery_redundancy [OF assms(1,2,3)]
    using header_octets [OF assms(4)] assms(4)
    by (simp add: n(1) pkt_def redundancy_packet_def Let_def)
  with tx_holds_build [OF assms(1,3)] assms(2) show ?thesis
    by (auto simp: redundancy_config_def)
qed

lemma length_redundancy_packet:
  assumes "valid_message msg" "\<forall>m\<in>set prevs. valid_message m"
  shows "length (redundancy_packet n msg prevs) =
     4 + length (open_octets msg) + (\<Sum>m\<leftarrow>prevs. length (open_octets m))"
  by (simp add: redundancy_packet_def sequence_octets_def length_concat comp_def)

section \<open>Receiving\<close>

lemma decode_elements_octets:
  assumes "\<forall>m \<in> set ms. valid_message m" "length secs + length ms \<le> 16"
    and "buf = pre @ concat (map open_octets ms) @ rest"
  shows "decode_elements buf (length buf) (length pre) (length ms) secs =
     Some (0, length pre + length (concat (map open_octets ms)), secs @ ms)"
  using assms
proof (induction ms arbitrary: pre secs)
  case (Cons m ms)
  have m: "1 \<le> length m" "length m < 16384" using Cons.prems(1) by (auto simp: valid_message_def)
  have d: "decode_open_type buf (length buf) (length pre) =
      Some \<lparr>ot_stat = 0, ot_len = length pre + length (open_octets m), ot_num = length m, ot_object = m\<rparr>"
    using decode_open_octets [OF m refl, of buf pre "concat (map open_octets ms) @ rest"] Cons.prems(3)
    by simp
  have "decode_elements buf (length buf) (length (pre @ open_octets m)) (length ms) (secs @ [m]) =
      Some (0, length (pre @ open_octets m) + length (concat (map open_octets ms)), (secs @ [m]) @ ms)"
    using Cons.prems by (intro Cons.IH) simp_all
  then show ?case using d Cons.prems(2) by simp
qed simp

text \<open>What the loop over the secondaries delivers, oldest first.\<close>

fun recovered :: "int \<Rightarrow> int \<Rightarrow> octets list \<Rightarrow> nat \<Rightarrow> delivery list" where
  "recovered r n secs 0 = []"
| "recovered r n secs (Suc k) =
     (if r \<le> n - int (Suc k) then [(secs ! k, word_of_int (n - int (Suc k)))] else [])
       @ recovered r n secs k"

lemma save_packet_ok:
  assumes "udptl_ok s" "length msg \<le> LOCAL_FAX_MAX_DATAGRAM"
  shows "\<exists>s'. save_packet s n msg = Some s' \<and> udptl_ok s' \<and> rx_seq_no s' = rx_seq_no s \<and>
    tx_bufs s' = tx_bufs s \<and> tx_seq_no s' = tx_seq_no s"
proof -
  let ?b = "rx_bufs s ! slot n"
  have b: "rx_buffer_ok ?b" using assms(1) by (rule udptl_ok_rx_buffer)
  then have l: "length msg \<le> length (rx_buf ?b)" using assms(2) by (simp add: rx_buffer_ok_def)
  define b' where "b' = ?b\<lparr>rx_buf := msg @ drop (length msg) (rx_buf ?b), rx_buf_len := int (length msg),
    fec_len := (fec_len ?b)[0 := 0], fec_span := 0, fec_entries := 0\<rparr>"
  have "store_message ?b msg = Some b'"
    using l by (simp add: store_message_def array_simps b'_def)
  moreover have "rx_buffer_ok b'"
    using b l assms(2) unfolding b'_def rx_buffer_ok_def by (auto dest: set_updateD)
  moreover have "save_packet s n msg = Some (s\<lparr>rx_bufs := (rx_bufs s)[slot n := b']\<rparr>)"
    by (simp add: save_packet_def calculation(1))
  ultimately show ?thesis
    using assms(1) ball_set_update [of "rx_bufs s" rx_buffer_ok b' "slot n"]
    by (simp add: udptl_ok_def)
qed

lemma recover_secondaries_eq:
  assumes "udptl_ok s" "k \<le> length secs" "\<forall>m \<in> set secs. length m \<le> LOCAL_FAX_MAX_DATAGRAM"
  shows "\<exists>s'. recover_secondaries s n secs k = Some (s', recovered (rx_seq_no s) n secs k) \<and>
    udptl_ok s' \<and> rx_seq_no s' = rx_seq_no s \<and> tx_bufs s' = tx_bufs s \<and> tx_seq_no s' = tx_seq_no s"
  using assms
proof (induction k arbitrary: s)
  case (Suc k)
  show ?case
  proof (cases "n - int (Suc k) \<ge> rx_seq_no s")
    case True
    have "length (secs ! k) \<le> LOCAL_FAX_MAX_DATAGRAM" using Suc.prems by simp
    then obtain s1 where s1: "save_packet s (n - int (Suc k)) (secs ! k) = Some s1" "udptl_ok s1"
        "rx_seq_no s1 = rx_seq_no s" "tx_bufs s1 = tx_bufs s" "tx_seq_no s1 = tx_seq_no s"
      using save_packet_ok [OF Suc.prems(1)] by blast
    obtain s' where "recover_secondaries s1 n secs k = Some (s', recovered (rx_seq_no s) n secs k)"
        "udptl_ok s'" "rx_seq_no s' = rx_seq_no s" "tx_bufs s' = tx_bufs s" "tx_seq_no s' = tx_seq_no s"
      using Suc.IH [of s1] Suc.prems s1 by auto
    with True s1 show ?thesis by (auto simp del: of_nat_Suc)
  next
    case False
    then show ?thesis using Suc by (auto simp del: of_nat_Suc)
  qed
qed simp

lemma recovered_nothing: "n \<le> r \<Longrightarrow> recovered r n secs k = []"
  by (induction k) auto

lemma mark_missing_slot_ok: "rx_buffer_ok b \<Longrightarrow> rx_buffer_ok (mark_missing_slot b)"
  by (auto simp: mark_missing_slot_def rx_buffer_ok_def dest: set_updateD)

lemma mark_missing_ok:
  assumes "length bufs = 16" "\<forall>b \<in> set bufs. rx_buffer_ok b"
  shows "length (mark_missing bufs i n) = 16 \<and> (\<forall>b \<in> set (mark_missing bufs i n). rx_buffer_ok b)"
  using assms
proof (induction bufs i n rule: mark_missing.induct)
  case (1 bufs i n)
  have "rx_buffer_ok (mark_missing_slot (bufs ! slot i))"
    using "1.prems" by (intro mark_missing_slot_ok) simp
  with "1.prems"(2) have "\<forall>b \<in> set (bufs[slot i := mark_missing_slot (bufs ! slot i)]). rx_buffer_ok b"
    by (rule ball_set_update)
  with "1.IH" "1.prems" show ?case
    by (cases "n > i") (simp_all add: mark_missing.simps [of bufs i n])
qed

lemma udptl_ok_mark_missing:
  "udptl_ok s \<Longrightarrow> udptl_ok (s\<lparr>rx_bufs := mark_missing (rx_bufs s) i n\<rparr>)"
  using mark_missing_ok [of "rx_bufs s" i n] by (auto simp: udptl_ok_def)

lemma sequence_number:
  assumes "n < 65536" "buf = sequence_octets n @ rest"
  shows "received_seq_no buf = int n"
proof -
  have a: "0 \<le> int n div 256" "int n div 256 < 256" using assms(1) by simp_all
  have "uint (buf ! 0) = int n div 256" "uint (buf ! 1) = int n mod 256"
    using a by (simp_all add: assms(2) sequence_octets_def uint_word_of_int_8 del: of_int_div)
  then show ?thesis
    using int_or_add [of "int n mod 256" 8 "int n div 256"]
    by (simp add: received_seq_no_def push_bit_eq_mult)
qed

lemma rx_redundancy_packet:
  assumes s: "udptl_ok s" and n: "n < 65536" and msg: "valid_message msg"
    and prevs: "\<forall>m \<in> set prevs. valid_message m" "length prevs \<le> 16"
  shows "\<exists>s'. udptl_rx_packet s (redundancy_packet n msg prevs) =
      Some (0, s', recovered (rx_seq_no s) (int n) prevs (length prevs)
              @ (if rx_seq_no s \<le> int n then [(msg, word_of_int (int n))] else [])) \<and>
    udptl_ok s' \<and> rx_seq_no s' = (int n + 1) mod 65536 \<and>
    tx_bufs s' = tx_bufs s \<and> tx_seq_no s' = tx_seq_no s"
proof -
  let ?pkt = "redundancy_packet n msg prevs"
  let ?p = "length (open_octets msg) + 2"
  let ?cnt = "[word_of_int (int (length prevs)) :: u8]"
  let ?els = "concat (map open_octets prevs)"
  have pkt: "?pkt = sequence_octets n @ open_octets msg @ [0] @ ?cnt @ ?els"
    by (simp add: redundancy_packet_def)
  have seq: "received_seq_no ?pkt = int n"
    using sequence_number [OF n pkt] .
  have so: "length (sequence_octets n) = 2" by (simp add: sequence_octets_def)
  have prim: "decode_open_type ?pkt (length ?pkt) 2 =
      Some \<lparr>ot_stat = 0, ot_len = ?p, ot_num = length msg, ot_object = msg\<rparr>"
    using decode_open_octets [of msg 2 "sequence_octets n" ?pkt "[0] @ ?cnt @ ?els"] msg so pkt
    by (simp add: valid_message_def)
  have flag: "?pkt ! ?p = 0" using so by (simp add: pkt nth_append)
  define pre where "pre = sequence_octets n @ open_octets msg @ [0]"
  have pkt': "?pkt = pre @ ?cnt @ ?els" by (simp add: pkt pre_def)
  have pre: "length pre = ?p + 1" using so by (simp add: pre_def)
  have cnt: "?cnt = fst (encode_length (int (length prevs)))"
    using prevs(2) by (simp add: encode_length_def)
  have "decode_length ?pkt (length ?pkt) (?p + 1) = Whole (?p + 2) (length prevs)"
    using decode_encode_length [of "int (length prevs)" pre ?els] prevs(2)
    by (simp only: cnt [symmetric] pkt' [symmetric] pre) simp
  moreover have "decode_elements ?pkt (length ?pkt) (?p + 2) (length prevs) [] = Some (0, length ?pkt, prevs)"
    using decode_elements_octets [of prevs "[]" ?pkt "pre @ ?cnt" "[]"] prevs pkt' pre by simp
  ultimately have secs: "decode_secondaries ?pkt (length ?pkt) (?p + 1) [] = Some (0, length ?pkt, prevs)"
    by (simp add: decode_secondaries.simps)
  have "length msg \<le> LOCAL_FAX_MAX_DATAGRAM" using msg by (simp add: valid_message_def)
  then obtain s2 where s2: "save_packet (s\<lparr>rx_bufs := mark_missing (rx_bufs s) (rx_seq_no s) (int n)\<rparr>) (int n) msg = Some s2"
      "udptl_ok s2" "rx_seq_no s2 = rx_seq_no s" "tx_bufs s2 = tx_bufs s" "tx_seq_no s2 = tx_seq_no s"
    using save_packet_ok [OF udptl_ok_mark_missing [OF s]] by fastforce
  have "\<forall>m \<in> set prevs. length m \<le> LOCAL_FAX_MAX_DATAGRAM" using prevs(1) by (simp add: valid_message_def)
  then obtain s3 where s3: "recover_secondaries s2 (int n) prevs (length prevs) =
        Some (s3, recovered (rx_seq_no s) (int n) prevs (length prevs))" "udptl_ok s3"
      "rx_seq_no s3 = rx_seq_no s" "tx_bufs s3 = tx_bufs s" "tx_seq_no s3 = tx_seq_no s"
    using recover_secondaries_eq [OF s2(2), of "length prevs" prevs "int n"] s2 by auto
  have sec: "\<exists>s4. rx_secondary s2 ?pkt (?p + 1) (int n) =
        Some (0, s4, recovered (rx_seq_no s) (int n) prevs (length prevs)) \<and>
      udptl_ok s4 \<and> rx_seq_no s4 = rx_seq_no s \<and> tx_bufs s4 = tx_bufs s \<and> tx_seq_no s4 = tx_seq_no s"
    using s2 s3 secs by (cases "int n > rx_seq_no s") (auto simp: rx_secondary_def recovered_nothing)
  then obtain s4 where s4: "rx_secondary s2 ?pkt (?p + 1) (int n) =
        Some (0, s4, recovered (rx_seq_no s) (int n) prevs (length prevs))" "udptl_ok s4"
      "rx_seq_no s4 = rx_seq_no s" "tx_bufs s4 = tx_bufs s" "tx_seq_no s4 = tx_seq_no s"
    by blast
  have len: "\<not> 2 > length ?pkt" "\<not> ?p + 1 > length ?pkt" using pkt' pre by simp_all
  have ok: "udptl_ok (s4\<lparr>rx_seq_no := (int n + 1) mod 65536\<rparr>)"
    using s4(2) by (simp add: udptl_ok_def)
  have "udptl_rx_packet s ?pkt = Some (0, s4\<lparr>rx_seq_no := (int n + 1) mod 65536\<rparr>,
      recovered (rx_seq_no s) (int n) prevs (length prevs)
        @ (if rx_seq_no s \<le> int n then [(msg, word_of_int (int n))] else []))"
    unfolding udptl_rx_packet_def seq Let_def prim
    using len msg s4 s2(1) flag
    by (simp add: valid_message_def int_masks store_primary_def rx_error_recovery_def)
  with ok s4 show ?thesis by simp
qed

section \<open>A lossy channel\<close>

text \<open>
  One sender, one receiver and a channel that loses some packets: each element of the run
  is a message handed to \<open>udptl_build_packet\<close> and whether its packet is lost.
\<close>

fun channel :: "udptl_state \<Rightarrow> udptl_state \<Rightarrow> (octets \<times> bool) list \<Rightarrow>
    (udptl_state \<times> udptl_state \<times> delivery list) option" where
  "channel tx rx [] = Some (tx, rx, [])"
| "channel tx rx ((msg, lost) # run) =
     do {
       (r, pkt, tx') \<leftarrow> udptl_build_packet tx msg;
       if lost \<or> r < 0 then channel tx' rx run
       else do {
         (st, rx', ds) \<leftarrow> udptl_rx_packet rx pkt;
         (tx'', rx'', ds') \<leftarrow> channel tx' rx' run;
         Some (tx'', rx'', ds @ ds')
       }
     }"

text \<open>At most \<open>k\<close> losses in a row (\<open>c\<close> of them already), and the last packet arrives.\<close>

fun losses_within :: "nat \<Rightarrow> nat \<Rightarrow> bool list \<Rightarrow> bool" where
  "losses_within k c [] \<longleftrightarrow> c = 0"
| "losses_within k c (True # ls) \<longleftrightarrow> c < k \<and> losses_within k (Suc c) ls"
| "losses_within k c (False # ls) \<longleftrightarrow> losses_within k 0 ls"

definition numbered :: "octets list \<Rightarrow> nat \<Rightarrow> nat \<Rightarrow> delivery list" where
  "numbered msgs i j = map (\<lambda>t. (msgs ! t, word_of_nat t)) [i..<j]"

lemma numbered_append: "i \<le> j \<Longrightarrow> j \<le> k \<Longrightarrow> numbered msgs i j @ numbered msgs j k = numbered msgs i k"
  using upt_add_eq_append [of i j "k - j"] by (simp add: numbered_def)

lemma recovered_beyond:
  "c \<le> k \<Longrightarrow> recovered (int n - int c) (int n) secs k = recovered (int n - int c) (int n) secs c"
proof (induction k)
  case (Suc k)
  show ?case
  proof (cases "c = Suc k")
    case False
    with Suc.prems have "c \<le> k" by simp
    moreover from this have "\<not> int n - int c \<le> int n - int (Suc k)" by simp
    ultimately show ?thesis using Suc.IH by (simp only: recovered.simps if_False append_Nil)
  qed simp
qed simp

lemma recovered_last:
  assumes "c \<le> d" "c \<le> n" "c \<le> length secs"
    and "\<And>t. t < c \<Longrightarrow> secs ! t = hist ! (n - 1 - t)"
  shows "recovered (int n - int d) (int n) secs c = numbered hist (n - c) n"
  using assms
proof (induction c)
  case (Suc c)
  have "numbered hist (n - Suc c) n = (hist ! (n - Suc c), word_of_nat (n - Suc c)) # numbered hist (n - c) n"
    using Suc.prems(2) by (simp add: numbered_def upt_conv_Cons Suc_diff_Suc)
  moreover have "int n - int (Suc c) = int (n - Suc c)" using Suc.prems(2) by simp
  ultimately show ?case using Suc by (simp del: of_nat_Suc of_nat_diff)
qed (simp add: numbered_def)

lemma recovered_history:
  assumes "c \<le> k" "c \<le> length hist"
  shows "recovered (int (length hist) - int c) (int (length hist)) (take k (rev hist))
           (length (take k (rev hist))) = numbered hist (length hist - c) (length hist)"
proof -
  have "recovered (int (length hist) - int c) (int (length hist)) (take k (rev hist)) (length (take k (rev hist)))
      = recovered (int (length hist) - int c) (int (length hist)) (take k (rev hist)) c"
    using assms by (intro recovered_beyond) simp
  also have "\<dots> = numbered hist (length hist - c) (length hist)"
    using assms by (intro recovered_last) (simp_all add: rev_nth)
  finally show ?thesis .
qed

lemma numbered_hist_append: "j \<le> length hist \<Longrightarrow> numbered (hist @ ms) i j = numbered hist i j"
  by (simp add: numbered_def nth_append)

lemma channel_redundancy:
  assumes "tx_holds tx hist" "redundancy_config tx k" "udptl_ok rx"
    and "rx_seq_no rx = int (length hist) - int c" "c \<le> k" "c \<le> length hist"
    and "\<forall>(m, lost) \<in> set run. valid_message m" "losses_within k c (map snd run)"
    and "length hist + length run \<le> 65535"
  shows "\<exists>tx' rx'. channel tx rx run =
    Some (tx', rx', numbered (hist @ map fst run) (length hist - c) (length hist + length run))"
  using assms
proof (induction run arbitrary: tx rx hist c)
  case Nil
  then show ?case by (simp add: numbered_def)
next
  case (Cons x run)
  obtain msg lost where x: "x = (msg, lost)" by fastforce
  let ?n = "length hist" and ?prevs = "take k (rev hist)"
  let ?pkt = "redundancy_packet ?n msg ?prevs"
  have msg: "valid_message msg" using Cons.prems(7) x by simp
  obtain tx' where tx': "udptl_build_packet tx msg = Some (int (length ?pkt), ?pkt, tx')"
      "tx_holds tx' (hist @ [msg])" "redundancy_config tx' k"
    using build_packet_redundancy [OF Cons.prems(1,2) msg] Cons.prems(9) by auto
  show ?case
  proof (cases lost)
    case True
    have "\<exists>tx'' rx''. channel tx' rx run = Some (tx'', rx'',
        numbered ((hist @ [msg]) @ map fst run) (length (hist @ [msg]) - Suc c) (length (hist @ [msg]) + length run))"
      using Cons.prems tx' True x by (intro Cons.IH) simp_all
    with True x tx'(1) show ?thesis by simp
  next
    case False
    have valid: "\<forall>m \<in> set ?prevs. valid_message m"
      using Cons.prems(1) by (auto simp: tx_holds_def dest: in_set_takeD)
    have k: "k \<le> 15" using Cons.prems(2) by (simp add: redundancy_config_def)
    obtain rx' where rx': "udptl_rx_packet rx ?pkt =
        Some (0, rx', recovered (rx_seq_no rx) (int ?n) ?prevs (length ?prevs)
              @ (if rx_seq_no rx \<le> int ?n then [(msg, word_of_int (int ?n))] else []))"
        "udptl_ok rx'" "rx_seq_no rx' = (int ?n + 1) mod 65536"
    proof -
      have "?n < 65536" "length ?prevs \<le> 16" using Cons.prems(9) k by simp_all
      from rx_redundancy_packet [OF Cons.prems(3) this(1) msg valid this(2)] that
      show ?thesis by blast
    qed
    have first: "recovered (rx_seq_no rx) (int ?n) ?prevs (length ?prevs)
              @ (if rx_seq_no rx \<le> int ?n then [(msg, word_of_int (int ?n))] else [])
          = numbered (hist @ msg # map fst run) (?n - c) (Suc ?n)"
      unfolding Cons.prems(4) recovered_history [OF Cons.prems(5,6)]
      by (simp add: numbered_def nth_append)
    have "\<exists>tx'' rx''. channel tx' rx' run = Some (tx'', rx'',
        numbered ((hist @ [msg]) @ map fst run) (length (hist @ [msg]) - 0) (length (hist @ [msg]) + length run))"
      using Cons.prems tx' rx' False x by (intro Cons.IH) simp_all
    then obtain tx'' rx'' where "channel tx' rx' run = Some (tx'', rx'',
        numbered (hist @ msg # map fst run) (Suc ?n) (Suc (?n + length run)))"
      by auto
    moreover have "numbered (hist @ msg # map fst run) (?n - c) (Suc ?n) @
        numbered (hist @ msg # map fst run) (Suc ?n) (Suc (?n + length run)) =
        numbered (hist @ msg # map fst run) (?n - c) (Suc (?n + length run))"
      by (rule numbered_append) simp_all
    ultimately show ?thesis
      using False x tx'(1) rx'(1) first by simp
  qed
qed

text \<open>
  Property C1. Between a freshly initialised sender and a freshly initialised receiver
  in redundancy mode with k entries, over a channel that loses packets but never more
  than k in a row before the next one arrives, the receiver is handed every message
  exactly once, in order and with its sequence number, for up to 65535 messages.
\<close>

theorem redundancy_delivers_everything:
  assumes "udptl_init True True UDPTL_ERROR_CORRECTION_REDUNDANCY span (int k) True = Some s" "k \<le> 15"
    and "\<forall>(m, lost) \<in> set run. valid_message m" "losses_within k 0 (map snd run)"
    and "length run \<le> 65535"
  shows "\<exists>tx rx. channel s s run =
    Some (tx, rx, zip (map fst run) (map word_of_nat [0..<length run]))"
proof -
  have "redundancy_config s k" "rx_seq_no s = 0" "udptl_ok s"
    using assms(1,2) udptl_init_ok [OF assms(1)] by (auto simp: udptl_init_def redundancy_config_def)
  then have "\<exists>tx rx. channel s s run = Some (tx, rx, numbered (map fst run) 0 (length run))"
    using channel_redundancy [OF tx_holds_init [OF assms(1)], of k s 0 run] assms(3,4,5) by simp
  moreover have "numbered (map fst run) 0 (length run) =
      zip (map fst run) (map word_of_nat [0..<length run])"
    by (rule nth_equalityI) (simp_all add: numbered_def)
  ultimately show ?thesis by simp
qed

theorem redundancy_delivers_everything_witness:
  "\<exists>s tx rx. udptl_init True True 2 3 (int 3) True = Some s \<and>
     channel s s [([1, 2], False), ([3], True), ([4, 5, 6], True), ([7], False)] =
       Some (tx, rx, [([1, 2], 0), ([3], 1), ([4, 5, 6], 2), ([7], 3)])"
proof -
  obtain s where s: "udptl_init True True 2 3 (int 3) True = Some s"
    by (simp add: udptl_init_def)
  have "\<exists>tx rx. channel s s [([1, 2], False), ([3], True), ([4, 5, 6], True), ([7], False)] =
     Some (tx, rx, zip (map fst [([1, 2], False), ([3], True), ([4, 5, 6], True), ([7], False)])
        (map word_of_nat [0..<length [([1, 2::u8], False), ([3], True), ([4, 5, 6], True), ([7], False)]]))"
    by (rule redundancy_delivers_everything [OF s])
       (simp_all add: valid_message_def)
  with s show ?thesis by (simp add: upt_rec)
qed

end
