(* ===== verification/Udptl_Safety.thy ===== *)
theory Udptl_Safety
  imports Udptl_Redundancy
begin

text \<open>
  What holds of \<open>udptl_rx_packet\<close> for every datagram, well formed or hostile: a rejected
  packet delivers nothing, the context stays well formed, and a condition on the counts a
  packet announces under which no array is overrun. The closing section runs the model on
  datagrams that violate the condition.
\<close>

lemma ring_walk_range:
  "ring_walk f i limit step = Some is \<Longrightarrow> 0 \<le> i \<Longrightarrow> i < 16 \<Longrightarrow> \<forall>k \<in> set is. 0 \<le> k \<and> k < 16"
proof (induction f arbitrary: i "is")
  case (Suc f)
  show ?case
  proof (cases "i = limit")
    case False
    with Suc.prems obtain js where js: "ring_walk f ((i + step) AND 15) limit step = Some js" "is = i # js"
      by auto
    with Suc.IH [OF js(1)] Suc.prems show ?thesis by (simp add: int_masks)
  qed (use Suc.prems in simp)
qed simp

text \<open>The rejected and the accepted packet.\<close>

lemma rx_secondary_result:
  "rx_secondary s buf ptr n = Some (st, s', ds) \<Longrightarrow> st = 0 \<or> st = -1 \<and> ds = [] \<and> s' = s"
  by (auto simp: rx_secondary_def split: option.splits if_splits)

lemma save_packet_frame:
  "save_packet s n msg = Some s' \<Longrightarrow>
     rx_seq_no s' = rx_seq_no s \<and> tx_bufs s' = tx_bufs s \<and> tx_seq_no s' = tx_seq_no s"
  by (auto simp: save_packet_def bind_eq_Some_conv)

lemma decode_fec_frame:
  "decode_fec s buf ptr x i n = Some (st, ptr', s') \<Longrightarrow>
     rx_seq_no s' = rx_seq_no s \<and> tx_bufs s' = tx_bufs s \<and> tx_seq_no s' = tx_seq_no s"
proof (induction n arbitrary: s ptr i)
  case (Suc n)
  from Suc.prems show ?case
    by (cases rule: decode_fec_elim) (auto dest: Suc.IH)
qed simp

lemma recover_secondaries_frame:
  "recover_secondaries s n secs k = Some (s', ds) \<Longrightarrow>
     rx_seq_no s' = rx_seq_no s \<and> tx_bufs s' = tx_bufs s \<and> tx_seq_no s' = tx_seq_no s"
proof (induction k arbitrary: s ds)
  case (Suc k)
  from Suc.prems show ?case
  proof (cases rule: recover_secondaries_elim)
    case (new s1 es)
    with save_packet_frame [OF new(2)] Suc.IH [OF new(3)] show ?thesis by simp
  qed (rule Suc.IH)
qed simp

lemma rx_secondary_frame:
  "rx_secondary s buf ptr n = Some (st, s', ds) \<Longrightarrow>
     rx_seq_no s' = rx_seq_no s \<and> tx_bufs s' = tx_bufs s \<and> tx_seq_no s' = tx_seq_no s"
  by (auto simp: rx_secondary_def split: option.splits if_splits dest: recover_secondaries_frame)

lemma fec_reconstruct_frame:
  "fec_reconstruct s x span entries n = Some (s', ds) \<Longrightarrow>
     rx_seq_no s' = rx_seq_no s \<and> tx_bufs s' = tx_bufs s \<and> tx_seq_no s' = tx_seq_no s"
  by (auto simp: fec_reconstruct_def bind_eq_Some_conv)

lemma set_fec_frame [simp, frame_simps]:
  "rx_seq_no (set_fec_span s x v) = rx_seq_no s" "rx_seq_no (set_fec_entries s x v) = rx_seq_no s"
  "tx_bufs (set_fec_span s x v) = tx_bufs s" "tx_bufs (set_fec_entries s x v) = tx_bufs s"
  "tx_seq_no (set_fec_span s x v) = tx_seq_no s" "tx_seq_no (set_fec_entries s x v) = tx_seq_no s"
  by (simp_all add: set_fec_span_def set_fec_entries_def)

lemma rx_fec_frame:
  "rx_fec s buf ptr n = Some (st, s', ds) \<Longrightarrow>
     rx_seq_no s' = rx_seq_no s \<and> tx_bufs s' = tx_bufs s \<and> tx_seq_no s' = tx_seq_no s"
  by (auto simp: rx_fec_def Let_def split: if_splits option.splits
      dest!: decode_fec_frame fec_reconstruct_frame)

lemma rx_fec_result:
  "rx_fec s buf ptr n = Some (st, s', ds) \<Longrightarrow> st = 0 \<or> st = -1 \<and> ds = []"
  by (auto simp: rx_fec_def Let_def split: if_splits option.splits)

lemma rx_error_recovery_frame:
  "rx_error_recovery s buf ptr n = Some (st, s', ds) \<Longrightarrow>
     rx_seq_no s' = rx_seq_no s \<and> tx_bufs s' = tx_bufs s \<and> tx_seq_no s' = tx_seq_no s"
  by (auto simp: rx_error_recovery_def split: if_splits dest: rx_secondary_frame rx_fec_frame)

text \<open>Nothing is handed to the handler before the datagram is known to end where it should.\<close>

lemma rx_error_recovery_result:
  "rx_error_recovery s buf ptr n = Some (st, s', ds) \<Longrightarrow> st = 0 \<or> st = -1 \<and> ds = []"
  by (auto simp: rx_error_recovery_def split: if_splits dest: rx_secondary_result rx_fec_result)

lemma store_primary_frame:
  "store_primary s n msg = Some s' \<Longrightarrow>
     rx_seq_no s' = rx_seq_no s \<and> tx_bufs s' = tx_bufs s \<and> tx_seq_no s' = tx_seq_no s"
  by (auto simp: store_primary_def dest: save_packet_frame)

lemma received_seq_no_eq: "received_seq_no buf = 256 * uint (buf ! 0) + uint (buf ! 1)"
  using int_or_add [of "uint (buf ! 1)" 8 "uint (buf ! 0)"] uint_word8_lt [of "buf ! 1"]
  by (simp add: received_seq_no_def push_bit_eq_mult mult.commute)

text \<open>
  Property C31. udptl_rx_packet returns 0 or -1; a rejected datagram delivers no message
  and does not move the expected sequence number, and an accepted one sets it to its own
  number plus one modulo 65536.
\<close>

theorem rx_rejected_delivers_nothing:
  assumes "udptl_rx_packet s buf = Some (r, s', ds)"
  shows "(r = 0 \<or> r = -1) \<and> (r = -1 \<longrightarrow> ds = [] \<and> rx_seq_no s' = rx_seq_no s) \<and>
    (r = 0 \<longrightarrow> rx_seq_no s' = (256 * uint (buf ! 0) + uint (buf ! 1) + 1) mod 65536)"
  using assms
proof (cases rule: udptl_rx_packet_elim)
  case (steps p s2 st s3 es)
  with store_primary_frame [OF steps(6)] rx_error_recovery_frame [OF steps(7)]
    rx_error_recovery_result [OF steps(7)] show ?thesis
    by (auto simp: int_masks received_seq_no_eq split: if_splits)
qed simp

theorem rx_rejected_delivers_nothing_witness:
  "\<exists>s' ds. udptl_rx_packet sample_context (redundancy_packet 700 [1, 2] [[3]]) = Some (0, s', ds) \<and>
     rx_seq_no s' = 701"
proof -
  obtain s' ds where rx: "udptl_rx_packet sample_context (redundancy_packet 700 [1, 2] [[3]]) = Some (0, s', ds)"
    using rx_redundancy_packet [OF sample_context_ok, of 700 "[1, 2]" "[[3]]"]
    by (auto simp: valid_message_def)
  from rx_rejected_delivers_nothing [OF this] show ?thesis
    using rx by (auto simp: redundancy_packet_def sequence_octets_def)
qed


text \<open>Well-formedness is kept by every datagram, whatever its octets.\<close>

lemma save_packet_keeps_ok:
  "save_packet s n msg = Some s' \<Longrightarrow> udptl_ok s \<Longrightarrow> udptl_ok s'"
proof -
  assume s': "save_packet s n msg = Some s'" and s: "udptl_ok s"
  have "length (rx_buf (rx_bufs s ! slot n)) = 400"
    using udptl_ok_rx_buffer [OF s, of n] by (simp add: rx_buffer_ok_def)
  with s' have "length msg \<le> 400"
    by (auto simp: save_packet_def store_message_def bind_eq_Some_conv dest!: memcpy_to_SomeD)
  from save_packet_ok [OF s this, of n] s' show ?thesis by auto
qed

lemma recover_secondaries_keeps_ok:
  "recover_secondaries s n secs k = Some (s', ds) \<Longrightarrow> udptl_ok s \<Longrightarrow> udptl_ok s'"
proof (induction k arbitrary: s ds)
  case (Suc k)
  from Suc.prems(1) show ?case
  proof (cases rule: recover_secondaries_elim)
    case (new s1 es)
    with save_packet_keeps_ok [OF new(2) Suc.prems(2)] Suc.IH [OF new(3)] show ?thesis by simp
  qed (rule Suc.IH [OF _ Suc.prems(2)])
qed simp

lemma udptl_ok_update:
  "udptl_ok s \<Longrightarrow> rx_buffer_ok b \<Longrightarrow> udptl_ok (s\<lparr>rx_bufs := (rx_bufs s)[i := b]\<rparr>)"
  by (simp add: udptl_ok_def) (blast dest: set_updateD)

lemma rx_buffer_ok_fec_fields:
  "rx_buffer_ok b \<Longrightarrow> 0 \<le> v \<Longrightarrow> rx_buffer_ok (b\<lparr>fec_span := v\<rparr>)"
  "rx_buffer_ok b \<Longrightarrow> 0 \<le> v \<Longrightarrow> rx_buffer_ok (b\<lparr>fec_entries := v\<rparr>)"
  "rx_buffer_ok b \<Longrightarrow> 0 \<le> v \<Longrightarrow> rx_buffer_ok (b\<lparr>fec_len := (fec_len b)[i := v]\<rparr>)"
  "rx_buffer_ok b \<Longrightarrow> length f = 400 \<Longrightarrow> rx_buffer_ok (b\<lparr>fec := (fec b)[i := f]\<rparr>)"
  by (auto simp: rx_buffer_ok_def dest: set_updateD)

lemma decode_fec_keeps_ok:
  "decode_fec s buf ptr x i n = Some (st, ptr', s') \<Longrightarrow> udptl_ok s \<Longrightarrow> x < 16 \<Longrightarrow> udptl_ok s'"
proof (induction n arbitrary: s ptr i)
  case (Suc n)
  have b: "rx_buffer_ok (rx_bufs s ! x)" using Suc.prems(2,3) by (simp add: udptl_ok_def)
  from Suc.prems(1) show ?case
  proof (cases rule: decode_fec_elim)
    case (failed r b1)
    then have "rx_buffer_ok b1" using b by (simp add: rx_buffer_ok_fec_fields)
    with failed(5) Suc.prems(2) show ?thesis by (simp add: udptl_ok_update)
  next
    case (element r b1 f)
    then have b1: "rx_buffer_ok b1" using b by (simp add: rx_buffer_ok_fec_fields)
    then have "length (fec b1 ! i) = 400" using element(1) by (simp add: rx_buffer_ok_def)
    with element(6) have "length f = 400" by (auto dest: memcpy_to_SomeD)
    then have "udptl_ok (s\<lparr>rx_bufs := (rx_bufs s)[x := b1\<lparr>fec := (fec b1)[i := f]\<rparr>]\<rparr>)"
      by (intro udptl_ok_update Suc.prems(2) rx_buffer_ok_fec_fields(4) b1)
    with Suc.IH [OF element(7)] Suc.prems(3) show ?thesis by simp
  qed
qed simp

lemma repair_slot_keeps_ok:
  assumes "repair_slot bufs ks l m w = Some bufs'" "length bufs = 16" "\<forall>b \<in> set bufs. rx_buffer_ok b"
    "0 \<le> l" "l < 16" "0 \<le> w" "w < 16"
  shows "length bufs' = 16 \<and> (\<forall>b \<in> set bufs'. rx_buffer_ok b)"
proof -
  from assms(1) obtain n f where n: "arr_get (fec_len (bufs ! nat l)) m = Some n"
      "arr_get (fec (bufs ! nat l)) m = Some f" "n \<le> 400"
      "bufs' = bufs[nat w := (bufs ! nat w)\<lparr>rx_buf := map (repair_octet bufs ks f) [0..<nat n] @
         drop (nat n) (rx_buf (bufs ! nat w)), rx_buf_len := n\<rparr>]"
    by (auto simp: repair_slot_def Let_def bind_eq_Some_conv split: if_splits)
  have ok: "rx_buffer_ok (bufs ! nat l)" "rx_buffer_ok (bufs ! nat w)" using assms by simp_all
  have "n \<in> set (fec_len (bufs ! nat l))"
    using n(1) by (auto dest: arr_get_SomeD)
  then have "0 \<le> n" using ok(1) by (simp add: rx_buffer_ok_def)
  then have "rx_buffer_ok ((bufs ! nat w)\<lparr>rx_buf := map (repair_octet bufs ks f) [0..<nat n] @
         drop (nat n) (rx_buf (bufs ! nat w)), rx_buf_len := n\<rparr>)"
    using ok(2) n(3) by (simp add: rx_buffer_ok_def)
  then show ?thesis using n(4) assms(2,3) by (auto dest: set_updateD)
qed

lemma find_which_in:
  "find_which bufs ks \<ge> 0 \<Longrightarrow> find_which bufs ks \<in> set ks"
proof -
  have "foldl (\<lambda>w k. if rx_buf_len (bufs ! nat k) \<le> 0 then if w = -1 then k else -2 else w) w ks \<in> {w, -2} \<union> set ks"
    for w :: int
    by (induction ks arbitrary: w) auto
  from this [of "-1"] show "find_which bufs ks \<ge> 0 \<Longrightarrow> find_which bufs ks \<in> set ks"
    by (auto simp: find_which_def)
qed

lemma repair_entries_keeps_ok:
  "repair_entries bufs repaired l m = Some (bufs', repaired') \<Longrightarrow> length bufs = 16 \<Longrightarrow>
     \<forall>b \<in> set bufs. rx_buffer_ok b \<Longrightarrow> 0 \<le> l \<Longrightarrow> l < 16 \<Longrightarrow>
     length bufs' = 16 \<and> (\<forall>b \<in> set bufs'. rx_buffer_ok b)"
proof (induction bufs repaired l m rule: repair_entries.induct)
  case (1 bufs repaired l m)
  let ?b = "bufs ! nat l" and ?limit = "(l + m) AND 15"
  note u = "1.prems"(1) [unfolded repair_entries.simps [of bufs repaired l m]]
  show ?case
  proof (cases "m < fec_entries ?b")
    case True
    with u obtain ks where ks: "ring_walk 16 ((?limit - fec_span ?b * fec_entries ?b) AND 15) ?limit (fec_entries ?b) = Some ks"
      by (auto simp: Let_def split: option.splits)
    have range: "\<forall>k \<in> set ks. 0 \<le> k \<and> k < 16"
      using ks by (rule ring_walk_range) (simp_all add: int_masks)
    show ?thesis
    proof (cases "find_which bufs ks \<ge> 0")
      case w: True
      with u True ks obtain bs where bs: "repair_slot bufs ks l m (find_which bufs ks) = Some bs"
          "repair_entries bs (repaired[nat (find_which bufs ks) := True]) l (m + 1) = Some (bufs', repaired')"
        by (auto simp: Let_def split: option.splits)
      have "length bs = 16 \<and> (\<forall>b \<in> set bs. rx_buffer_ok b)"
        using repair_slot_keeps_ok [OF bs(1)] "1.prems" range find_which_in [OF w] by blast
      with "1.IH"(1) [OF refl True refl ks refl w bs(1) bs(2)] "1.prems" show ?thesis by blast
    next
      case False
      with u True ks have "repair_entries bufs repaired l (m + 1) = Some (bufs', repaired')"
        by (simp add: Let_def)
      with "1.IH"(2) [OF refl True refl ks refl False] "1.prems" show ?thesis by blast
    qed
  qed (use u "1.prems" in \<open>simp add: Let_def\<close>)
qed

lemma repair_walk_keeps_ok:
  "repair_walk bufs repaired ls = Some (bufs', repaired') \<Longrightarrow> length bufs = 16 \<Longrightarrow>
     \<forall>b \<in> set bufs. rx_buffer_ok b \<Longrightarrow> \<forall>l \<in> set ls. 0 \<le> l \<and> l < 16 \<Longrightarrow>
     length bufs' = 16 \<and> (\<forall>b \<in> set bufs'. rx_buffer_ok b)"
proof (induction ls arbitrary: bufs repaired)
  case (Cons l ls)
  show ?case
  proof (cases "fec_len (bufs ! nat l) ! 0 \<le> 0")
    case False
    with Cons.prems(1) obtain bs rs where bs: "repair_entries bufs repaired l 0 = Some (bs, rs)"
        "repair_walk bs rs ls = Some (bufs', repaired')"
      by (auto split: option.splits)
    have "length bs = 16 \<and> (\<forall>b \<in> set bs. rx_buffer_ok b)"
      by (rule repair_entries_keeps_ok [OF bs(1)]) (use Cons.prems in simp_all)
    with Cons.IH [OF bs(2)] Cons.prems(4) show ?thesis by simp
  next
    case True
    with Cons.IH [of bufs repaired] Cons.prems show ?thesis by simp
  qed
qed simp

lemma fec_reconstruct_keeps_ok:
  assumes "fec_reconstruct s x span entries n = Some (s', ds)" "udptl_ok s" "x < 16"
  shows "udptl_ok s'"
proof -
  from assms(1) obtain ls bufs rep where
    ls: "ring_walk 16 (int x) ((int x - (16 - span * entries)) AND 15) (-1) = Some ls"
    "repair_walk (rx_bufs s) ((replicate 16 False)[x := True]) ls = Some (bufs, rep)"
    "s' = s\<lparr>rx_bufs := bufs\<rparr>"
    by (auto simp: fec_reconstruct_def bind_eq_Some_conv)
  have "\<forall>l \<in> set ls. 0 \<le> l \<and> l < 16"
    using ls(1) by (rule ring_walk_range) (use assms(3) in linarith)+
  then have "length bufs = 16 \<and> (\<forall>b \<in> set bufs. rx_buffer_ok b)"
    using ls(2) assms(2) by (intro repair_walk_keeps_ok) (auto simp: udptl_ok_def)
  then show ?thesis using ls(3) assms(2) by (simp add: udptl_ok_def)
qed

lemma set_fec_keeps_ok:
  assumes "udptl_ok s" "x < 16" "0 \<le> v"
  shows "udptl_ok (set_fec_span s x v)" "udptl_ok (set_fec_entries s x v)"
proof -
  have "rx_buffer_ok (rx_bufs s ! x)" using assms(1,2) by (simp add: udptl_ok_def)
  then show "udptl_ok (set_fec_span s x v)" "udptl_ok (set_fec_entries s x v)"
    using assms unfolding set_fec_span_def set_fec_entries_def
    by (intro udptl_ok_update rx_buffer_ok_fec_fields; simp)+
qed

lemma rx_fec_keeps_ok:
  "rx_fec s buf ptr n = Some (st, s', ds) \<Longrightarrow> udptl_ok s \<Longrightarrow> udptl_ok s'"
  by (auto simp: rx_fec_def Let_def set_fec_keeps_ok split: if_splits option.splits
      dest!: decode_fec_keeps_ok fec_reconstruct_keeps_ok)

lemma rx_secondary_keeps_ok:
  "rx_secondary s buf ptr n = Some (st, s', ds) \<Longrightarrow> udptl_ok s \<Longrightarrow> udptl_ok s'"
  by (auto simp: rx_secondary_def split: option.splits if_splits dest: recover_secondaries_keeps_ok)

lemma rx_packet_ok:
  assumes "udptl_ok s" "udptl_rx_packet s buf = Some (r, s', ds)"
  shows "udptl_ok s'"
  using assms(2)
proof (cases rule: udptl_rx_packet_elim)
  case (steps p s2 st s3 es)
  have "udptl_ok s2"
    using steps(6) udptl_ok_mark_missing [OF assms(1)]
    by (auto simp: store_primary_def dest: save_packet_keeps_ok)
  then have s3: "udptl_ok s3"
    using steps(7) by (auto simp: rx_error_recovery_def split: if_splits
        dest: rx_secondary_keeps_ok rx_fec_keeps_ok)
  then have "udptl_ok (s3\<lparr>rx_seq_no := v AND 65535\<rparr>)" for v
    by (simp add: udptl_ok_def int_masks)
  with s3 steps(8) show ?thesis by (simp split: if_splits)
qed (use assms(1) in simp)

section \<open>When no array is overrun\<close>

lemma store_octets_no_fault:
  "limit \<le> length buf \<Longrightarrow> octet_idx = 0 \<Longrightarrow>
     store_octets buf limit len cnt octet_idx num obj \<noteq> None"
  by (simp add: store_octets_def Let_def mem_read_def)

lemma decode_open_loop_no_fault:
  "limit \<le> 16384 \<Longrightarrow> limit \<le> length buf \<Longrightarrow> octet_idx = 0 \<Longrightarrow>
     decode_open_loop buf limit len octet_idx num obj \<noteq> None"
proof (induction buf limit len octet_idx num obj rule: decode_open_loop.induct)
  case (1 buf limit len octet_idx num obj)
  show ?case
  proof (cases "decode_length buf limit len")
    case (Fragment p c)
    obtain r where r: "store_octets buf limit p c octet_idx num obj = Some r"
      using store_octets_no_fault [OF "1.prems"(2,3), of p c num obj] by blast
    show ?thesis
    proof (cases "ot_stat r < 0")
      case False
      have "c = 0 \<or> 16384 \<le> c"
        using Fragment by (auto simp: decode_length_eq Let_def split: if_splits)
      moreover have "\<not> (0 < c \<and> p + c \<le> 16384)"
        using calculation decode_length_progress(2) [OF Fragment] by auto
      ultimately have "c = 0"
        using r False "1.prems" by (auto simp: store_octets_def Let_def split: if_splits)
      then have "decode_open_loop buf limit (ot_len r) (octet_idx + c) (ot_num r) (ot_object r) \<noteq> None"
        using "1.IH" [OF Fragment r False] "1.prems" by simp
      with Fragment r False show ?thesis
        by (simp add: decode_open_loop.simps [of buf limit len octet_idx num obj])
    qed (use Fragment r in \<open>simp add: decode_open_loop.simps [of buf limit len octet_idx num obj]\<close>)
  qed (use store_octets_no_fault [OF "1.prems"(2,3)] in
        \<open>simp_all add: decode_open_loop.simps [of buf limit len octet_idx num obj]\<close>)
qed

lemma decode_open_type_no_fault:
  "limit \<le> 16384 \<Longrightarrow> limit \<le> length buf \<Longrightarrow> \<exists>r. decode_open_type buf limit len = Some r"
  using decode_open_loop_no_fault [of limit buf 0 len 0 "[]"] by (auto simp: decode_open_type_def)

lemma decode_open_loop_size:
  "decode_open_loop buf limit len idx num obj = Some r \<Longrightarrow> length obj \<le> length buf \<Longrightarrow>
     length (ot_object r) \<le> length buf"
proof (induction buf limit len idx num obj rule: decode_open_loop.induct)
  case (1 buf limit len idx num obj)
  have st: "length (ot_object q) \<le> length buf" if "store_octets buf limit p c idx num obj = Some q" for p c q
    using that "1.prems"(2) by (auto simp: store_octets_def Let_def split: if_splits dest: mem_read_SomeD)
  note u = "1.prems"(1) [unfolded decode_open_loop.simps [of buf limit len idx num obj]]
  show ?case
  proof (cases "decode_length buf limit len")
    case (Fragment p c)
    with u obtain q where q: "store_octets buf limit p c idx num obj = Some q"
      by (auto split: option.splits)
    show ?thesis
    proof (cases "ot_stat q < 0")
      case True
      with u Fragment q st [OF q] show ?thesis by simp
    next
      case False
      with u Fragment q have "decode_open_loop buf limit (ot_len q) (idx + c) (ot_num q) (ot_object q) = Some r"
        by simp
      then show ?thesis by (rule "1.IH" [OF Fragment q False _ st [OF q]])
    qed
  qed (use u st "1.prems" in auto)
qed

lemma decode_open_type_size:
  "decode_open_type buf (length buf) len = Some r \<Longrightarrow> length (ot_object r) \<le> length buf"
  by (simp add: decode_open_type_def decode_open_loop_size)

lemma decode_elements_no_fault:
  "length buf \<le> 16384 \<Longrightarrow> length secs + n \<le> 16 \<Longrightarrow>
     \<exists>r. decode_elements buf (length buf) ptr n secs = Some r"
proof (induction n arbitrary: ptr secs)
  case (Suc n)
  obtain r where "decode_open_type buf (length buf) ptr = Some r"
    using decode_open_type_no_fault Suc.prems(1) order_refl by blast
  with Suc show ?case by (auto split: if_splits)
qed simp

text \<open>
  \<open>messages_fit\<close>: each of the secondary messages that decode has at most 400 octets.
  Datagrams of at most 400 octets hold no other.
\<close>

fun messages_fit :: "octets \<Rightarrow> nat \<Rightarrow> nat \<Rightarrow> bool" where
  "messages_fit buf ptr 0 = True"
| "messages_fit buf ptr (Suc n) =
     (case decode_open_type buf (length buf) ptr of
        None \<Rightarrow> True
      | Some r \<Rightarrow> ot_stat r \<noteq> 0 \<or> ot_num r \<le> LOCAL_FAX_MAX_DATAGRAM \<and> messages_fit buf (ot_len r) n)"

lemma messages_fit_short: "length buf \<le> 400 \<Longrightarrow> messages_fit buf ptr n"
proof (induction n arbitrary: ptr)
  case (Suc n)
  show ?case
  proof (cases "decode_open_type buf (length buf) ptr")
    case (Some r)
    then have "ot_stat r = 0 \<Longrightarrow> ot_num r \<le> 400"
      using decode_open_type_size [OF Some] decode_open_type_sound(1) [OF Some] Suc.prems by simp
    with Some Suc show ?thesis by simp
  qed simp
qed simp

lemma decode_elements_fit:
  assumes "decode_elements buf (length buf) ptr n secs = Some (st, ptr', secs')" "messages_fit buf ptr n"
    and "\<forall>m \<in> set secs. length m \<le> 400"
  shows "\<forall>m \<in> set secs'. length m \<le> 400"
  using assms
proof (induction n arbitrary: ptr secs)
  case (Suc n)
  from Suc.prems(1) obtain r where r: "decode_open_type buf (length buf) ptr = Some r"
    by (auto split: if_splits option.splits)
  show ?case
  proof (cases "ot_stat r = 0")
    case True
    with Suc.prems(1) r have "decode_elements buf (length buf) (ot_len r) n (secs @ [ot_object r]) = Some (st, ptr', secs')"
      by (simp split: if_splits)
    moreover have "messages_fit buf (ot_len r) n" "\<forall>m \<in> set (secs @ [ot_object r]). length m \<le> 400"
      using Suc.prems(2,3) True r decode_open_type_sound(1) [OF r] by auto
    ultimately show ?thesis by (rule Suc.IH)
  next
    case False
    with Suc.prems(1) r have "secs' = secs" by (simp split: if_splits)
    with Suc.prems(3) show ?thesis by simp
  qed
qed simp

text \<open>The secondary messages from offset \<open>ptr\<close> on: at most sixteen, each short enough.\<close>

definition secondaries_fit :: "octets \<Rightarrow> nat \<Rightarrow> bool" where
  "secondaries_fit buf ptr =
     (case decode_length buf (length buf) ptr of
        Bad \<Rightarrow> True
      | Whole ptr' count \<Rightarrow> count \<le> 16 \<and> messages_fit buf ptr' count
      | Fragment _ _ \<Rightarrow> False)"

lemma rx_secondary_no_fault:
  assumes "udptl_ok s" "length buf \<le> 16384" "secondaries_fit buf ptr"
  shows "\<exists>r. rx_secondary s buf ptr n = Some r"
proof (cases "decode_length buf (length buf) ptr")
  case (Whole p c)
  then have fit: "c \<le> 16" "messages_fit buf p c" using assms(3) by (simp_all add: secondaries_fit_def)
  then obtain st ptr' secs where secs: "decode_elements buf (length buf) p c [] = Some (st, ptr', secs)"
    using decode_elements_no_fault [of buf "[]" c p] assms by force
  have "\<forall>m \<in> set secs. length m \<le> 400"
    using decode_elements_fit [OF secs fit(2)] by simp
  then obtain s' ds where "recover_secondaries s n secs (length secs) = Some (s', ds)"
    using recover_secondaries_eq [OF assms(1), of "length secs" secs n] by auto
  with Whole secs show ?thesis by (simp add: rx_secondary_def decode_secondaries.simps)
qed (use assms(3) in \<open>simp_all add: rx_secondary_def decode_secondaries.simps secondaries_fit_def\<close>)

text \<open>
  The FEC fields of a slot are sane when they stay inside the arrays they describe. A
  rejected FEC packet may leave them otherwise.
\<close>

definition fec_sane :: "udptl_fec_rx_buffer \<Rightarrow> bool" where
  "fec_sane b \<longleftrightarrow> fec_entries b \<le> int LOCAL_FAX_MAX_FEC_PACKETS \<and>
     (\<forall>n \<in> set (fec_len b). n \<le> int LOCAL_FAX_MAX_DATAGRAM)"

definition fec_all_sane :: "udptl_state \<Rightarrow> bool" where
  "fec_all_sane s \<longleftrightarrow> (\<forall>b \<in> set (rx_bufs s). fec_sane b)"

lemma ring_walk_reaches:
  assumes "t < fuel"
  shows "\<exists>ks. ring_walk fuel ((limit - int t * step) mod 16) (limit mod 16) step = Some ks"
  using assms
proof (induction t arbitrary: fuel)
  case 0
  then show ?case by (cases fuel) simp_all
next
  case (Suc t)
  then obtain f where f: "fuel = Suc f" "t < f" by (cases fuel) auto
  have "((limit - int (Suc t) * step) mod 16 + step) mod 16 = (limit - int (Suc t) * step + step) mod 16"
    by (rule mod_add_left_eq)
  also have "limit - int (Suc t) * step + step = limit - int t * step"
    by (simp add: algebra_simps)
  finally have "((limit - int (Suc t) * step) mod 16 + step) mod 16 = (limit - int t * step) mod 16" .
  with Suc.IH [OF f(2)] f(1) show ?case by (auto simp: int_masks simp del: of_nat_Suc)
qed

lemma ring_walk_total:
  assumes "0 \<le> span"
  shows "\<exists>ks. ring_walk 16 (((limit AND 15) - span * step) AND 15) (limit AND 15) step = Some ks"
proof -
  have "(limit mod 16 - span * step) mod 16 = (limit - span * step) mod 16"
    by (rule mod_diff_left_eq)
  also have "\<dots> = (limit - (span * step) mod 16) mod 16"
    by (rule mod_diff_right_eq [symmetric])
  also have "(span * step) mod 16 = (span mod 16 * step) mod 16"
    by (rule mod_mult_left_eq [symmetric])
  also have "(limit - (span mod 16 * step) mod 16) mod 16 = (limit - (span mod 16) * step) mod 16"
    by (rule mod_diff_right_eq)
  finally have "(limit mod 16 - span * step) mod 16 = (limit - int (nat (span mod 16)) * step) mod 16"
    by simp
  moreover have "nat (span mod 16) < 16" by (simp add: nat_less_iff)
  ultimately show ?thesis
    using ring_walk_reaches [of "nat (span mod 16)" 16 limit step] by (simp add: int_masks)
qed

lemma slot_mod_16: "int (slot n) mod 16 = int (slot n)"
  by (simp add: int_slot)

lemma ring_walk_back_total: "\<exists>ks. ring_walk 16 (int (slot n)) ((int (slot n) - d) AND 15) (-1) = Some ks"
proof -
  define limit where "limit = int (slot n) - d"
  have "(limit - int (nat (d mod 16)) * (-1)) mod 16 = (limit + d mod 16) mod 16" by simp
  also have "\<dots> = (limit + d) mod 16" by (rule mod_add_right_eq)
  also have "\<dots> = int (slot n)" by (simp add: limit_def slot_mod_16)
  finally have "(limit - int (nat (d mod 16)) * (-1)) mod 16 = int (slot n)" .
  moreover have "nat (d mod 16) < 16" by (simp add: nat_less_iff)
  ultimately show ?thesis
    using ring_walk_reaches [of "nat (d mod 16)" 16 limit "-1"] by (simp add: int_masks limit_def)
qed

lemma ring_walk_forward_total:
  "\<exists>ks. ring_walk 16 ((int (slot n) + 1) AND 15) (int (slot n)) 1 = Some ks"
proof -
  have "(int (slot n) + 1) mod 16 = (int (slot n) - int 15 * 1 + 16) mod 16"
    by (simp add: add.commute)
  also have "\<dots> = (int (slot n) - int 15 * 1) mod 16" by (rule mod_add_self2)
  finally show ?thesis
    using ring_walk_reaches [of 15 16 "int (slot n)" 1] by (simp add: int_masks slot_mod_16)
qed

definition ring_sane :: "udptl_fec_rx_buffer list \<Rightarrow> bool" where
  "ring_sane bufs \<longleftrightarrow> length bufs = 16 \<and> (\<forall>b \<in> set bufs. rx_buffer_ok b \<and> fec_sane b)"

lemma ring_sane_nth: "ring_sane bufs \<Longrightarrow> i < 16 \<Longrightarrow> rx_buffer_ok (bufs ! i) \<and> fec_sane (bufs ! i)"
  by (simp add: ring_sane_def)

lemma ring_sane_update:
  "ring_sane bufs \<Longrightarrow> rx_buffer_ok b \<Longrightarrow> fec_sane b \<Longrightarrow> ring_sane (bufs[i := b])"
  by (auto simp: ring_sane_def dest: set_updateD)

lemma repair_slot_total:
  assumes "ring_sane bufs" "0 \<le> l" "l < 16" "0 \<le> m" "m < 5" "0 \<le> w" "w < 16"
  shows "\<exists>bufs'. repair_slot bufs ks l m w = Some bufs' \<and> ring_sane bufs'"
proof -
  have b: "rx_buffer_ok (bufs ! nat l)" "fec_sane (bufs ! nat l)"
    and w: "rx_buffer_ok (bufs ! nat w)" "fec_sane (bufs ! nat w)"
    using assms ring_sane_nth [of bufs] by simp_all
  let ?n = "fec_len (bufs ! nat l) ! nat m" and ?f = "fec (bufs ! nat l) ! nat m"
  have get: "arr_get (fec_len (bufs ! nat l)) m = Some ?n" "arr_get (fec (bufs ! nat l)) m = Some ?f"
    using b(1) assms by (simp_all add: arr_get_in rx_buffer_ok_def)
  have "?n \<in> set (fec_len (bufs ! nat l))" using get(1) by (auto dest: arr_get_SomeD)
  then have n: "0 \<le> ?n" "?n \<le> 400" using b by (simp_all add: rx_buffer_ok_def fec_sane_def)
  let ?w' = "(bufs ! nat w)\<lparr>rx_buf := map (repair_octet bufs ks ?f) [0..<nat ?n] @
         drop (nat ?n) (rx_buf (bufs ! nat w)), rx_buf_len := ?n\<rparr>"
  have "repair_slot bufs ks l m w = Some (bufs[nat w := ?w'])"
    using n(2) by (simp add: repair_slot_def Let_def get)
  moreover have "rx_buffer_ok ?w'" "fec_sane ?w'"
    using w n by (simp_all add: rx_buffer_ok_def fec_sane_def)
  ultimately show ?thesis using ring_sane_update [OF assms(1)] by auto
qed

lemma repair_entries_total:
  "ring_sane bufs \<Longrightarrow> 0 \<le> l \<Longrightarrow> l < 16 \<Longrightarrow> 0 \<le> m \<Longrightarrow>
     \<exists>bufs' repaired'. repair_entries bufs repaired l m = Some (bufs', repaired') \<and> ring_sane bufs'"
proof (induction bufs repaired l m rule: repair_entries.induct)
  case (1 bufs repaired l m)
  let ?b = "bufs ! nat l" and ?limit = "(l + m) AND 15"
  show ?case
  proof (cases "m < fec_entries ?b")
    case True
    have b: "rx_buffer_ok ?b" "fec_sane ?b" using "1.prems" ring_sane_nth [of bufs] by simp_all
    then have m: "m < 5" using True by (simp add: fec_sane_def)
    obtain ks where ks: "ring_walk 16 ((?limit - fec_span ?b * fec_entries ?b) AND 15) ?limit (fec_entries ?b) = Some ks"
      using ring_walk_total [of "fec_span ?b" "l + m" "fec_entries ?b"] b(1)
      unfolding rx_buffer_ok_def by blast
    have range: "\<forall>k \<in> set ks. 0 \<le> k \<and> k < 16"
      using ks by (rule ring_walk_range) (simp_all add: int_masks)
    show ?thesis
    proof (cases "find_which bufs ks \<ge> 0")
      case w: True
      with range find_which_in [OF w] obtain bs where bs: "repair_slot bufs ks l m (find_which bufs ks) = Some bs" "ring_sane bs"
        using repair_slot_total [OF "1.prems"(1,2,3,4) m w, of ks] by blast
      have "\<exists>bufs' repaired'. repair_entries bs (repaired[nat (find_which bufs ks) := True]) l (m + 1)
          = Some (bufs', repaired') \<and> ring_sane bufs'"
        using "1.IH"(1) [OF refl True refl ks refl w bs(1)] bs(2) "1.prems" by simp
      with True ks w bs(1) show ?thesis
        by (simp add: repair_entries.simps [of bufs repaired l m] Let_def)
    next
      case False
      have "\<exists>bufs' repaired'. repair_entries bufs repaired l (m + 1) = Some (bufs', repaired') \<and> ring_sane bufs'"
        using "1.IH"(2) [OF refl True refl ks refl False] "1.prems" by simp
      with True ks False show ?thesis
        by (simp add: repair_entries.simps [of bufs repaired l m] Let_def)
    qed
  next
    case False
    with "1.prems"(1) show ?thesis
      by (simp add: repair_entries.simps [of bufs repaired l m] Let_def)
  qed
qed

lemma repair_walk_total:
  "ring_sane bufs \<Longrightarrow> \<forall>l \<in> set ls. 0 \<le> l \<and> l < 16 \<Longrightarrow>
     \<exists>bufs' repaired'. repair_walk bufs repaired ls = Some (bufs', repaired') \<and> ring_sane bufs'"
proof (induction ls arbitrary: bufs repaired)
  case (Cons l ls)
  show ?case
  proof (cases "fec_len (bufs ! nat l) ! 0 \<le> 0")
    case False
    obtain bs rs where "repair_entries bufs repaired l 0 = Some (bs, rs)" "ring_sane bs"
      using repair_entries_total [OF Cons.prems(1), of l 0 repaired] Cons.prems(2) by auto
    with Cons.IH [of bs rs] Cons.prems(2) False show ?thesis by simp
  qed (use Cons in simp)
qed simp

lemma fec_reconstruct_total:
  assumes "ring_sane (rx_bufs s)"
  shows "\<exists>s' ds. fec_reconstruct s (slot n) span entries n = Some (s', ds) \<and> ring_sane (rx_bufs s')"
proof -
  obtain ls where ls: "ring_walk 16 (int (slot n)) ((int (slot n) - (16 - span * entries)) AND 15) (-1) = Some ls"
    using ring_walk_back_total by blast
  have "\<forall>l \<in> set ls. 0 \<le> l \<and> l < 16"
    using ls by (rule ring_walk_range) (use slot_lt [of n] in linarith)+
  then obtain bufs rep where "repair_walk (rx_bufs s) ((replicate 16 False)[slot n := True]) ls = Some (bufs, rep)"
      "ring_sane bufs"
    using repair_walk_total [OF assms] by blast
  moreover obtain fs where "ring_walk 16 ((int (slot n) + 1) AND 15) (int (slot n)) 1 = Some fs"
    using ring_walk_forward_total by blast
  ultimately show ?thesis using ls by (simp add: fec_reconstruct_def)
qed

text \<open>
  \<open>fec_lengths_fit\<close>: no FEC element announces more than 400 octets, on the element at which
  decoding stops too, since its length is stored before it is checked.
\<close>

fun fec_lengths_fit :: "octets \<Rightarrow> nat \<Rightarrow> nat \<Rightarrow> bool" where
  "fec_lengths_fit buf ptr 0 = True"
| "fec_lengths_fit buf ptr (Suc n) =
     (case decode_open_type buf (length buf) ptr of
        None \<Rightarrow> True
      | Some r \<Rightarrow> ot_num r \<le> LOCAL_FAX_MAX_DATAGRAM \<and>
          (ot_stat r \<noteq> 0 \<or> fec_lengths_fit buf (ot_len r) n))"

lemma decode_fec_total:
  assumes "ring_sane (rx_bufs s)" "x < 16" "i + n \<le> 5" "length buf \<le> 16384"
  shows "\<exists>st ptr' s'. decode_fec s buf ptr x i n = Some (st, ptr', s') \<and>
           (0 \<le> st \<or> fec_lengths_fit buf ptr n \<longrightarrow> ring_sane (rx_bufs s'))"
  using assms
proof (induction n arbitrary: s ptr i)
  case (Suc n)
  have b: "rx_buffer_ok (rx_bufs s ! x)" "fec_sane (rx_bufs s ! x)"
    using Suc.prems(1,2) ring_sane_nth by blast+
  obtain r where r: "decode_open_type buf (length buf) ptr = Some r"
    using decode_open_type_no_fault Suc.prems(4) order_refl by blast
  define b1 where "b1 = (rx_bufs s ! x)\<lparr>fec_len := (fec_len (rx_bufs s ! x))[i := int (ot_num r)]\<rparr>"
  have b1: "rx_buffer_ok b1" using b(1) by (simp add: b1_def rx_buffer_ok_fec_fields)
  show ?case
  proof (cases "ot_stat r \<noteq> 0 \<or> 400 < ot_num r")
    case True
    have "ring_sane ((rx_bufs s)[x := b1])" if "ot_num r \<le> 400"
      using b(2) that
      by (intro ring_sane_update Suc.prems(1) b1) (auto simp: b1_def fec_sane_def dest: set_updateD)
    with True Suc.prems(3) r show ?thesis by (auto simp: Let_def b1_def)
  next
    case False
    have "fec_sane b1" using b(2) False by (auto simp: b1_def fec_sane_def dest: set_updateD)
    have l: "length (fec b1 ! i) = 400" using b1 Suc.prems(3) by (simp add: rx_buffer_ok_def)
    have "length (ot_object r) = ot_num r" using decode_open_type_sound(1) [OF r] False by simp
    then have "length (ot_object r) \<le> 400" using False by simp
    with l obtain f where f: "memcpy_to (fec b1 ! i) (ot_object r) = Some f" by (simp add: memcpy_to_in)
    then have "length f = 400" using l by (auto dest: memcpy_to_SomeD)
    then have "ring_sane ((rx_bufs s)[x := b1\<lparr>fec := (fec b1)[i := f]\<rparr>])"
      using b1 \<open>fec_sane b1\<close> by (intro ring_sane_update Suc.prems(1) rx_buffer_ok_fec_fields) (simp_all add: fec_sane_def)
    then have "\<exists>st ptr' s'. decode_fec (s\<lparr>rx_bufs := (rx_bufs s)[x := b1\<lparr>fec := (fec b1)[i := f]\<rparr>]\<rparr>)
        buf (ot_len r) x (i + 1) n = Some (st, ptr', s') \<and>
          (0 \<le> st \<or> fec_lengths_fit buf (ot_len r) n \<longrightarrow> ring_sane (rx_bufs s'))"
      using Suc.prems by (intro Suc.IH) simp_all
    moreover have "i < 5" "ot_stat r = 0" "ot_num r \<le> 400" using Suc.prems(3) False by simp_all
    ultimately show ?thesis using decode_fec_step [OF _ r _ _ b1_def f] r by simp
  qed
qed simp

lemma set_fec_sane:
  assumes "ring_sane (rx_bufs s)" "x < 16" "0 \<le> v"
  shows "ring_sane (rx_bufs (set_fec_span s x v))"
    and "v \<le> 5 \<Longrightarrow> ring_sane (rx_bufs (set_fec_entries s x v))"
  using assms ring_sane_nth [OF assms(1,2)]
  by (auto simp: set_fec_span_def set_fec_entries_def fec_sane_def
      intro!: ring_sane_update rx_buffer_ok_fec_fields)

lemma rx_fec_no_fault:
  assumes "ring_sane (rx_bufs s)" "length buf \<le> 16384"
    and "ptr + 3 \<le> length buf \<Longrightarrow> uint (buf ! (ptr + 2)) \<le> 5"
  shows "\<exists>st s' ds. rx_fec s buf ptr n = Some (st, s', ds) \<and>
    (0 \<le> st \<or> fec_lengths_fit buf (ptr + 3) (nat (uint (buf ! (ptr + 2)))) \<longrightarrow> ring_sane (rx_bufs s'))"
proof (cases "ptr + 3 \<le> length buf \<and> buf ! ptr = 1")
  case True
  define s2 where "s2 = set_fec_entries (set_fec_span s (slot n) (uint (buf ! (ptr + 1)))) (slot n) (uint (buf ! (ptr + 2)))"
  have "ring_sane (rx_bufs s2)"
    unfolding s2_def using True assms by (intro set_fec_sane) simp_all
  moreover have "nat (uint (buf ! (ptr + 2))) \<le> nat 5"
    using True assms(3) by (intro nat_mono) simp
  ultimately obtain st ptr' s3 where d: "decode_fec s2 buf (ptr + 3) (slot n) 0 (nat (uint (buf ! (ptr + 2)))) = Some (st, ptr', s3)"
      "0 \<le> st \<or> fec_lengths_fit buf (ptr + 3) (nat (uint (buf ! (ptr + 2)))) \<longrightarrow> ring_sane (rx_bufs s3)"
    using decode_fec_total [of s2 "slot n" 0 "nat (uint (buf ! (ptr + 2)))" buf "ptr + 3"] assms(2) by auto
  note eq = rx_fec_decoded [OF conjunct1 [OF True] conjunct2 [OF True] s2_def d(1)]
  show ?thesis
  proof (cases "st < 0 \<or> ptr' \<noteq> length buf")
    case True
    then show ?thesis unfolding eq using d(2) by simp
  next
    case False
    then obtain s' ds where "fec_reconstruct s3 (slot n) (uint (buf ! (ptr + 1))) (uint (buf ! (ptr + 2))) n = Some (s', ds)"
        "ring_sane (rx_bufs s')"
      using fec_reconstruct_total d(2) by (metis linorder_not_le)
    with False show ?thesis unfolding eq by simp
  qed
qed (use assms set_fec_sane(1) [OF assms(1), of "slot n" "uint (buf ! (ptr + 1))"] in
  \<open>auto simp: rx_fec_def Let_def\<close>)

text \<open>
  \<open>datagram_fits\<close>: what follows the primary message stays within the local and the slot
  arrays. \<open>fec_fits\<close>: no FEC element after it announces more than its slot holds.
\<close>

definition datagram_fits :: "octets \<Rightarrow> bool" where
  "datagram_fits buf \<longleftrightarrow> length buf \<le> 16384 \<and>
     (case decode_open_type buf (length buf) 2 of
        None \<Rightarrow> True
      | Some p \<Rightarrow>
          if ot_len p \<ge> length buf then True
          else if buf ! ot_len p AND 0x80 = 0 then secondaries_fit buf (ot_len p + 1)
          else ot_len p + 4 > length buf \<or> uint (buf ! (ot_len p + 3)) \<le> 5)"

definition fec_fits :: "octets \<Rightarrow> bool" where
  "fec_fits buf \<longleftrightarrow>
     (case decode_open_type buf (length buf) 2 of
        None \<Rightarrow> True
      | Some p \<Rightarrow>
          ot_len p + 4 > length buf \<or> buf ! ot_len p AND 0x80 = 0 \<or>
          fec_lengths_fit buf (ot_len p + 4) (nat (uint (buf ! (ot_len p + 3)))))"

lemma save_packet_sane:
  assumes "ring_sane (rx_bufs s)" "length msg \<le> 400"
  shows "\<exists>s'. save_packet s n msg = Some s' \<and> ring_sane (rx_bufs s')"
proof -
  let ?b = "rx_bufs s ! slot n"
  have b: "rx_buffer_ok ?b" "fec_sane ?b"
    using ring_sane_nth [OF assms(1)] by simp_all
  define b' where "b' = ?b\<lparr>rx_buf := msg @ drop (length msg) (rx_buf ?b), rx_buf_len := int (length msg),
    fec_len := (fec_len ?b)[0 := 0], fec_span := 0, fec_entries := 0\<rparr>"
  have "store_message ?b msg = Some b'"
    using b(1) assms(2) by (simp add: store_message_def array_simps b'_def rx_buffer_ok_def)
  moreover have "rx_buffer_ok b'"
    using b(1) assms(2) unfolding b'_def rx_buffer_ok_def by (auto dest: set_updateD)
  moreover have "fec_sane b'"
    using b(2) unfolding b'_def fec_sane_def by (auto dest: set_updateD)
  ultimately show ?thesis using assms(1) by (simp add: save_packet_def ring_sane_update)
qed

lemma mark_missing_sane: "ring_sane bufs \<Longrightarrow> ring_sane (mark_missing bufs i n)"
proof (induction bufs i n rule: mark_missing.induct)
  case (1 bufs i n)
  have "rx_buffer_ok (bufs ! slot i)" "fec_sane (bufs ! slot i)"
    using ring_sane_nth [OF "1.prems"] by simp_all
  then have "rx_buffer_ok (mark_missing_slot (bufs ! slot i))" "fec_sane (mark_missing_slot (bufs ! slot i))"
    by (auto simp: mark_missing_slot_def rx_buffer_ok_def fec_sane_def dest: set_updateD)
  then have "ring_sane (bufs[slot i := mark_missing_slot (bufs ! slot i)])"
    by (intro ring_sane_update "1.prems")
  with "1.IH" "1.prems" show ?case
    by (cases "n > i") (simp_all add: mark_missing.simps [of bufs i n])
qed

lemma recover_secondaries_sane:
  "recover_secondaries s n secs k = Some (s', ds) \<Longrightarrow> ring_sane (rx_bufs s) \<Longrightarrow>
     \<forall>m \<in> set secs. length m \<le> 400 \<Longrightarrow> k \<le> length secs \<Longrightarrow> ring_sane (rx_bufs s')"
proof (induction k arbitrary: s ds)
  case (Suc k)
  from Suc.prems(1) show ?case
  proof (cases rule: recover_secondaries_elim)
    case (new s1 es)
    have "length (secs ! k) \<le> 400" using Suc.prems(3,4) by simp
    from save_packet_sane [OF Suc.prems(2) this, of "n - int (Suc k)"] new(2)
    have "ring_sane (rx_bufs s1)" by auto
    with Suc.IH [OF new(3)] Suc.prems show ?thesis by simp
  next
    case seen
    with Suc.IH [OF seen(2)] Suc.prems show ?thesis by simp
  qed
qed simp

lemma rx_secondary_sane:
  assumes "rx_secondary s buf ptr n = Some (st, s', ds)" "ring_sane (rx_bufs s)" "secondaries_fit buf ptr"
  shows "ring_sane (rx_bufs s')"
proof (cases "decode_length buf (length buf) ptr")
  case (Whole p c)
  show ?thesis
  proof (cases "decode_elements buf (length buf) p c []")
    case (Some e)
    obtain st1 q secs where e: "e = (st1, q, secs)" by (cases e)
    have "\<forall>m \<in> set secs. length m \<le> 400"
      using decode_elements_fit [OF Some [unfolded e]] assms(3) Whole by (simp add: secondaries_fit_def)
    then show ?thesis
      using assms(1,2) Whole Some e
      by (auto simp: rx_secondary_def decode_secondaries.simps split: if_splits option.splits
          dest: recover_secondaries_sane)
  qed (use assms(1) Whole in \<open>simp add: rx_secondary_def decode_secondaries.simps\<close>)
qed (use assms in \<open>auto simp: rx_secondary_def decode_secondaries.simps secondaries_fit_def\<close>)

lemma fec_all_sane_ring: "udptl_ok s \<Longrightarrow> fec_all_sane s \<longleftrightarrow> ring_sane (rx_bufs s)"
  by (auto simp: udptl_ok_def fec_all_sane_def ring_sane_def)

lemma rx_error_recovery_no_fault:
  assumes "udptl_ok s" "ring_sane (rx_bufs s)"
    and "decode_open_type buf (length buf) 2 = Some p" "ot_len p < length buf" "datagram_fits buf"
  shows "\<exists>st s' ds. rx_error_recovery s buf (ot_len p) n = Some (st, s', ds) \<and>
    (0 \<le> st \<or> fec_fits buf \<longrightarrow> ring_sane (rx_bufs s'))"
proof (cases "buf ! ot_len p AND 0x80 = 0")
  case True
  then have fit: "length buf \<le> 16384" "secondaries_fit buf (ot_len p + 1)"
    using assms(3,4,5) by (simp_all add: datagram_fits_def)
  obtain st s' ds where r: "rx_secondary s buf (ot_len p + 1) n = Some (st, s', ds)"
    using rx_secondary_no_fault [OF assms(1) fit, of n] by auto
  with rx_secondary_sane [OF r assms(2) fit(2)] True show ?thesis by (simp add: rx_error_recovery_def)
next
  case False
  have "length buf \<le> 16384" "ot_len p + 1 + 3 \<le> length buf \<Longrightarrow> uint (buf ! (ot_len p + 1 + 2)) \<le> 5"
    using assms(3,4,5) False by (simp_all add: datagram_fits_def numeral_3_eq_3)
  from rx_fec_no_fault [OF assms(2) this] obtain st s' ds where
    r: "rx_fec s buf (ot_len p + 1) n = Some (st, s', ds)"
      "0 \<le> st \<or> fec_lengths_fit buf (ot_len p + 1 + 3) (nat (uint (buf ! (ot_len p + 1 + 2)))) \<longrightarrow>
         ring_sane (rx_bufs s')"
    by blast
  have "ring_sane (rx_bufs s')" if "fec_fits buf"
  proof (cases "ot_len p + 4 > length buf")
    case True
    then have short: "\<not> ot_len p + 1 + 3 \<le> length buf" by simp
    with r(1) show ?thesis
      using assms(2) set_fec_sane(1) [OF assms(2), of "slot n" "uint (buf ! (ot_len p + 2))"]
      by (auto simp: rx_fec_def Let_def split: if_splits)
  next
    case long: False
    with that False assms(3) r(2) show ?thesis by (simp add: fec_fits_def numeral_3_eq_3 numeral_eq_Suc)
  qed
  with r False show ?thesis by (auto simp: rx_error_recovery_def)
qed

lemma rx_packet_total:
  assumes s: "udptl_ok s" "fec_all_sane s" and buf: "datagram_fits buf"
  shows "\<exists>r s' ds. udptl_rx_packet s buf = Some (r, s', ds) \<and> udptl_ok s' \<and>
    (r = 0 \<or> fec_fits buf \<longrightarrow> fec_all_sane s')"
proof (cases "2 > length buf")
  case True
  then show ?thesis using s by (simp add: udptl_rx_packet_def)
next
  case False
  obtain p where p: "decode_open_type buf (length buf) 2 = Some p"
    using decode_open_type_no_fault [of "length buf" buf 2] buf by (auto simp: datagram_fits_def)
  show ?thesis
  proof (cases "ot_stat p \<noteq> 0 \<or> ot_len p + 1 > length buf \<or> ot_num p > 400")
    case True
    with False p s show ?thesis by (auto simp: udptl_rx_packet_def Let_def)
  next
    case ok: False
    then have "length (ot_object p) \<le> 400" using decode_open_type_sound(1) [OF p] by simp
    moreover have "ring_sane (rx_bufs (s\<lparr>rx_bufs := mark_missing (rx_bufs s) (rx_seq_no s) (received_seq_no buf)\<rparr>))"
      using s by (simp add: fec_all_sane_ring mark_missing_sane)
    ultimately obtain s2 where s2: "store_primary s (received_seq_no buf) (ot_object p) = Some s2"
        "ring_sane (rx_bufs s2)"
      unfolding store_primary_def by (meson save_packet_sane)
    have ok2: "udptl_ok s2"
      using s2(1) udptl_ok_mark_missing [OF s(1)]
      by (auto simp: store_primary_def dest: save_packet_keeps_ok)
    obtain st s3 ds where s3: "rx_error_recovery s2 buf (ot_len p) (received_seq_no buf) = Some (st, s3, ds)"
        "0 \<le> st \<or> fec_fits buf \<longrightarrow> ring_sane (rx_bufs s3)"
      using rx_error_recovery_no_fault [OF ok2 s2(2) p _ buf] ok by fastforce
    have "\<exists>r s' ds. udptl_rx_packet s buf = Some (r, s', ds) \<and>
        (r = 0 \<or> fec_fits buf \<longrightarrow> fec_all_sane s')"
      using False p ok s2(1) s3
      by (auto simp: udptl_rx_packet_def Let_def ring_sane_def fec_all_sane_def)
    then show ?thesis using rx_packet_ok [OF s(1)] by blast
  qed
qed

text \<open>
  Property C29. From a well-formed context whose slots hold no FEC length above 400 and
  no more than 5 entries, a datagram of at most 16384 octets that announces at most 16
  secondary messages of at most 400 octets each, or at most 5 FEC entries of any
  announced length, never makes udptl_rx_packet write outside the arrays of the context
  or of its frame, take message octets from beyond the datagram, or loop for ever; the
  context stays well formed, and when the datagram is accepted its FEC lengths and entry
  counts stay within bounds. (A rejected datagram can leave them out of bounds:
  rejected_fec_packet_leaves_length.)
\<close>

theorem rx_packet_no_fault:
  assumes "udptl_ok s" "fec_all_sane s" "datagram_fits buf"
  shows "\<exists>r s' ds. udptl_rx_packet s buf = Some (r, s', ds) \<and> udptl_ok s' \<and>
    (r = 0 \<longrightarrow> fec_all_sane s')"
  using rx_packet_total [OF assms] by blast

lemma sample_context_sane: "fec_all_sane sample_context"
  by (simp add: fec_all_sane_def sample_context_def udptl_init_def empty_rx_buffer_def fec_sane_def)

theorem rx_packet_no_fault_witness:
  "\<exists>r s' ds. udptl_rx_packet sample_context [0, 0, 1, 7, 0x80, 1, 3, 1, 1, 7] = Some (r, s', ds)"
proof -
  have "datagram_fits [0, 0, 1, 7, 0x80, 1, 3, 1, 1, 7]"
    by code_simp
  from rx_packet_no_fault [OF sample_context_ok sample_context_sane this] show ?thesis by blast
qed

text \<open>A history of datagrams, accepted or rejected.\<close>

fun udptl_rx_all :: "udptl_state \<Rightarrow> octets list \<Rightarrow> udptl_state option" where
  "udptl_rx_all s [] = Some s"
| "udptl_rx_all s (buf # bufs) =
     (case udptl_rx_packet s buf of
        None \<Rightarrow> None
      | Some (r, s', ds) \<Rightarrow> udptl_rx_all s' bufs)"

lemma rx_all_sane:
  "udptl_ok s \<Longrightarrow> fec_all_sane s \<Longrightarrow> list_all (\<lambda>buf. datagram_fits buf \<and> fec_fits buf) bufs \<Longrightarrow>
     \<exists>s'. udptl_rx_all s bufs = Some s' \<and> udptl_ok s' \<and> fec_all_sane s'"
proof (induction bufs arbitrary: s)
  case (Cons buf bufs)
  then obtain r s' ds where "udptl_rx_packet s buf = Some (r, s', ds)" "udptl_ok s'" "fec_all_sane s'"
    using rx_packet_total [of s buf] by auto
  with Cons.IH [of s'] Cons.prems show ?case by simp
qed simp

lemma udptl_init_sane:
  "udptl_init have_s malloc_ok ec_scheme span entries have_handler = Some s \<Longrightarrow> fec_all_sane s"
  by (auto simp: udptl_init_def fec_all_sane_def fec_sane_def empty_rx_buffer_def split: if_splits)

text \<open>
  Property C28. Start from udptl_init and receive any list of datagrams, accepted or
  rejected, each of at most 16384 octets, with at most 16 secondary messages of at most
  400 octets or at most 5 FEC entries, none of them announcing more than 400 octets.
  Every call returns, array sizes, stored lengths and sequence number stay well formed,
  no slot keeps a FEC length above 400 or more than 5 entries, and the next datagram
  returns too even if its FEC entries announce more than 400 octets.
\<close>

theorem rx_history_keeps_ok:
  assumes "udptl_init have_s malloc_ok ec_scheme span entries True = Some u"
    and "list_all (\<lambda>buf. datagram_fits buf \<and> fec_fits buf) bufs" "datagram_fits next_buf"
  shows "\<exists>s r s' ds. udptl_rx_all u bufs = Some s \<and> udptl_ok s \<and> fec_all_sane s \<and>
    udptl_rx_packet s next_buf = Some (r, s', ds) \<and> udptl_ok s'"
  using rx_all_sane [OF udptl_init_ok [OF assms(1)] udptl_init_sane [OF assms(1)] assms(2)]
    rx_packet_total [OF _ _ assms(3)] by blast

theorem rx_history_keeps_ok_witness:
  "\<exists>s r s' ds. udptl_rx_all sample_context [[0, 0, 1, 7, 0x80, 1, 3, 1, 1, 7], [0, 2, 1, 8, 0x80, 1, 3, 1, 9, 7]] = Some s \<and>
     fec_all_sane s \<and> udptl_rx_packet s [0, 3, 1, 9, 0x80, 1, 3, 1, 0x83, 0xE8] = Some (r, s', ds)"
proof -
  have "list_all (\<lambda>buf. datagram_fits buf \<and> fec_fits buf)
      [[0, 0, 1, 7, 0x80, 1, 3, 1, 1, 7], [0, 2, 1, 8, 0x80, 1, 3, 1, 9, 7]]"
    by code_simp
  moreover have "datagram_fits [0, 3, 1, 9, 0x80, 1, 3, 1, 0x83, 0xE8]"
    by code_simp
  ultimately show ?thesis
    using rx_history_keeps_ok [OF sample_context_init] by blast
qed

end
