(* ===== verification/Udptl_Fec.thy ===== *)
theory Udptl_Fec
  imports Udptl_Safety
begin

text \<open>
  What the FEC scheme promises: the XOR of a group of messages, built by the sender with
  \<open>fec_add\<close>, gives back the one message of the group that the receiver misses, padded
  with zero octets to the length of the longest.
\<close>

section \<open>XOR over a group\<close>

text \<open>Octet \<open>j\<close> of a message, 0 beyond its end.\<close>

definition padded :: "octets \<Rightarrow> nat \<Rightarrow> u8" where
  "padded m j = (if j < length m then m ! j else 0)"

definition xor_all :: "('k \<Rightarrow> u8) \<Rightarrow> 'k list \<Rightarrow> u8" where
  "xor_all g ks = foldl (\<lambda>a k. a XOR g k) 0 ks"

lemma foldl_xor: "foldl (\<lambda>a k. a XOR g k) x ks = x XOR xor_all g ks"
proof -
  have "foldl (\<lambda>a k. a XOR g k) (x XOR y) ks = x XOR foldl (\<lambda>a k. a XOR g k) y ks" for y
    by (induction ks arbitrary: y) (simp_all add: xor.assoc)
  from this [of 0] show ?thesis by (simp add: xor_all_def)
qed

lemma xor_all_simps [simp]:
  "xor_all g [] = 0"
  "xor_all g (k # ks) = g k XOR xor_all g ks"
  by (simp add: xor_all_def) (simp add: foldl_xor [of g "g k"] xor_all_def [of g "k # ks"])

lemma xor_all_cong: "(\<And>k. k \<in> set ks \<Longrightarrow> g k = h k) \<Longrightarrow> xor_all g ks = xor_all h ks"
  by (induction ks) auto

lemma xor_all_missing:
  assumes "distinct ks" "w \<in> set ks"
  shows "xor_all g ks XOR xor_all (\<lambda>k. if k = w then 0 else g k) ks = g w"
  using assms
proof (induction ks)
  case (Cons k ks)
  have swap: "(a XOR x) XOR (b XOR y) = (a XOR b) XOR (x XOR y)" for a b x y :: u8
    by (simp add: xor.assoc xor.left_commute)
  show ?case
  proof (cases "k = w")
    case True
    with Cons.prems have "xor_all (\<lambda>k. if k = w then 0 else g k) ks = xor_all g ks"
      by (intro xor_all_cong) auto
    with True show ?thesis by (simp add: xor.assoc)
  next
    case False
    with Cons have "xor_all g ks XOR xor_all (\<lambda>k. if k = w then 0 else g k) ks = g w" by simp
    with False show ?thesis by (simp add: swap)
  qed
qed simp

lemma fec_add_holds:
  assumes "holds_message b m"
  shows "length (fec_add acc b) = max (length acc) (length m)"
    and "padded (fec_add acc b) j = padded acc j XOR padded m j"
proof -
  have m: "take (length m) (tx_buf b) = m" "tx_buf_len b = int (length m)"
    using assms by (simp_all add: holds_message_def)
  have eq: "fec_add acc b = (if length acc < length m then map2 (XOR) acc m @ drop (length acc) m
      else map2 (XOR) (take (length m) acc) m @ drop (length m) acc)"
    by (simp add: fec_add_def Let_def m)
  show "length (fec_add acc b) = max (length acc) (length m)"
    by (simp add: eq)
  show "padded (fec_add acc b) j = padded acc j XOR padded m j"
    by (auto simp: eq padded_def nth_append)
qed

lemma foldl_fec_add:
  assumes "\<forall>k \<in> set ks. holds_message (B k) (M k)"
  shows "padded (foldl (\<lambda>acc k. fec_add acc (B k)) acc ks) j = padded acc j XOR xor_all (\<lambda>k. padded (M k) j) ks"
    and "length acc \<le> length (foldl (\<lambda>acc k. fec_add acc (B k)) acc ks)"
    and "k \<in> set ks \<Longrightarrow> length (M k) \<le> length (foldl (\<lambda>acc k. fec_add acc (B k)) acc ks)"
  using assms
proof (induction ks arbitrary: acc)
  case (Cons q ks)
  { case 1
    then have "holds_message (B q) (M q)" by simp
    from fec_add_holds(2) [OF this] 1 Cons.IH(1) show ?case by (simp add: xor.assoc) }
  { case 2
    then have "length (fec_add acc (B q)) \<le> length (foldl (\<lambda>acc k. fec_add acc (B k)) (fec_add acc (B q)) ks)"
      by (intro Cons.IH(2)) simp
    moreover have "holds_message (B q) (M q)" using 2 by simp
    ultimately show ?case using fec_add_holds(1) by simp }
  { case 3
    have "length (fec_add acc (B q)) \<le> length (foldl (\<lambda>acc k. fec_add acc (B k)) (fec_add acc (B q)) ks)"
      using 3 by (intro Cons.IH(2)) simp
    moreover have "holds_message (B q) (M q)" using 3 by simp
    ultimately show ?case using 3 Cons.IH(3) fec_add_holds(1) by fastforce }
qed (simp_all add: padded_def)

lemma find_which_single:
  assumes "w \<in> set ks" "distinct ks" "\<forall>k \<in> set ks. 0 \<le> k"
    and "rx_buf_len (bufs ! nat w) \<le> 0" "\<forall>k \<in> set ks - {w}. 0 < rx_buf_len (bufs ! nat k)"
  shows "find_which bufs ks = w"
proof -
  let ?f = "\<lambda>which k. if rx_buf_len (bufs ! nat k) \<le> 0 then if which = -1 then k else -2 else which"
  obtain xs ys where ks: "ks = xs @ w # ys" using assms(1) by (auto dest: split_list)
  have keep: "foldl ?f v zs = v" if "\<forall>k \<in> set zs. 0 < rx_buf_len (bufs ! nat k)" for v zs
    using that by (induction zs) auto
  have "\<forall>k \<in> set xs. 0 < rx_buf_len (bufs ! nat k)" "\<forall>k \<in> set ys. 0 < rx_buf_len (bufs ! nat k)"
    using assms(2,5) ks by auto
  then have "foldl ?f (-1) ks = w"
    using assms(4) by (simp add: ks keep)
  then show ?thesis by (simp add: find_which_def)
qed

text \<open>The slots of a group: what the receiver holds of the sender's messages.\<close>

definition rx_holds :: "udptl_fec_rx_buffer \<Rightarrow> octets \<Rightarrow> bool" where
  "rx_holds b m \<longleftrightarrow> rx_buf_len b = int (length m) \<and> take (length m) (rx_buf b) = m"

lemma repair_octet_missing:
  assumes "distinct ks" "w \<in> set ks"
    and "rx_buf_len (bufs ! nat w) \<le> 0" "\<forall>k \<in> set ks - {w}. rx_holds (bufs ! nat k) (M k)"
    and "f ! j = xor_all (\<lambda>k. padded (M k) j) ks"
  shows "repair_octet bufs ks f j = padded (M w) j"
proof -
  let ?g = "\<lambda>k. if rx_buf_len (bufs ! nat k) > int j then rx_buf (bufs ! nat k) ! j else 0"
  have "?g k = (if k = w then 0 else padded (M k) j)" if "k \<in> set ks" for k
  proof (cases "k = w")
    case False
    with assms(4) that have h: "rx_buf_len (bufs ! nat k) = int (length (M k))"
        "take (length (M k)) (rx_buf (bufs ! nat k)) = M k"
      by (auto simp: rx_holds_def)
    then show ?thesis using False nth_take [of j "length (M k)" "rx_buf (bufs ! nat k)"]
      by (simp add: padded_def)
  qed (use assms(3) in simp)
  then have "repair_octet bufs ks f j = f ! j XOR xor_all (\<lambda>k. if k = w then 0 else padded (M k) j) ks"
    unfolding repair_octet_def foldl_xor
    using xor_all_cong [of ks ?g "\<lambda>k. if k = w then 0 else padded (M k) j"] by simp
  then show ?thesis using xor_all_missing [OF assms(1,2)] assms(5) by simp
qed

text \<open>
  Property C30. When the XOR of a group of sent messages was stored as a FEC entry and
  the receiver has all messages of the group but one, the search finds that one and the
  repair stores it, followed by zero octets up to the length of the entry.
\<close>

theorem fec_repairs_missing_message:
  assumes group: "distinct ks" "w \<in> set ks" "\<forall>k \<in> set ks. 0 \<le> k \<and> nat k < length bufs"
    and sender: "\<forall>k \<in> set ks. holds_message (tx_bufs s ! nat k) (M k)"
    and receiver: "rx_buf_len (bufs ! nat w) \<le> 0" "\<forall>k \<in> set ks - {w}. rx_holds (bufs ! nat k) (M k) \<and> M k \<noteq> []"
    and xored: "e = foldl (\<lambda>acc i. fec_add acc (tx_bufs s ! nat i)) [] ks" "length e \<le> 400"
    and stored: "arr_get (fec_len (bufs ! nat l)) m = Some (int (length e))"
      "arr_get (fec (bufs ! nat l)) m = Some f" "take (length e) f = e"
  shows "find_which bufs ks = w \<and>
    (\<exists>bufs'. repair_slot bufs ks l m w = Some bufs' \<and>
       rx_holds (bufs' ! nat w) (M w @ replicate (length e - length (M w)) 0))"
proof
  show "find_which bufs ks = w"
    using group receiver by (intro find_which_single) (auto simp: rx_holds_def)
  let ?b = "bufs ! nat w" and ?r = "map (repair_octet bufs ks f) [0..<length e]"
  let ?b' = "?b\<lparr>rx_buf := ?r @ drop (length e) (rx_buf ?b), rx_buf_len := int (length e)\<rparr>"
  have oct: "repair_octet bufs ks f j = padded (M w) j" if "j < length e" for j
  proof (rule repair_octet_missing [OF group(1,2) receiver(1)])
    show "\<forall>k \<in> set ks - {w}. rx_holds (bufs ! nat k) (M k)" using receiver(2) by blast
    have "f ! j = padded e j" using that stored(3) by (metis nth_take padded_def)
    then show "f ! j = xor_all (\<lambda>k. padded (M k) j) ks"
      unfolding xored(1) using foldl_fec_add(1) [OF sender, of "[]" j] by (simp add: padded_def)
  qed
  have "length (M w) \<le> length e"
    unfolding xored(1) using foldl_fec_add(3) [OF sender group(2), of "[]"] .
  then have r: "?r = M w @ replicate (length e - length (M w)) 0"
    by (intro nth_equalityI) (auto simp: oct padded_def nth_append)
  have "repair_slot bufs ks l m w = Some (bufs[nat w := ?b'])"
    using stored(1,2) xored(2) by (simp add: repair_slot_def Let_def)
  moreover have "length (M w @ replicate (length e - length (M w)) 0) = length e"
    using \<open>length (M w) \<le> length e\<close> by simp
  then have "rx_holds ?b' (M w @ replicate (length e - length (M w)) 0)"
    by (simp add: rx_holds_def r)
  ultimately show "\<exists>bufs'. repair_slot bufs ks l m w = Some bufs' \<and>
       rx_holds (bufs' ! nat w) (M w @ replicate (length e - length (M w)) 0)"
    using group by auto
qed

theorem fec_repairs_missing_message_witness:
  "\<exists>bufs'. repair_slot
      [\<lparr>rx_buf_len = 2, rx_buf = [1, 2, 0], fec_len = [3], fec = [[6, 3, 3]], fec_span = 3, fec_entries = 1\<rparr>,
       \<lparr>rx_buf_len = -1, rx_buf = [0, 0, 0], fec_len = [0], fec = [[0, 0, 0]], fec_span = 0, fec_entries = 0\<rparr>,
       \<lparr>rx_buf_len = 3, rx_buf = [3, 1, 3], fec_len = [0], fec = [[0, 0, 0]], fec_span = 0, fec_entries = 0\<rparr>]
      [0, 1, 2] 0 0 1 = Some bufs' \<and> rx_holds (bufs' ! 1) [4, 0, 0]"
proof -
  let ?M = "\<lambda>k :: int. if k = 0 then [1, 2] else if k = 1 then [4] else [3, 1, 3 :: u8]"
  let ?t = "\<lambda>m. \<lparr>tx_buf_len = int (length m), tx_buf = m @ [0]\<rparr>"
  let ?s = "sample_context\<lparr>tx_bufs := [?t [1, 2], ?t [4], ?t [3, 1, 3]]\<rparr>"
  let ?bufs = "[\<lparr>rx_buf_len = 2, rx_buf = [1, 2, 0], fec_len = [3], fec = [[6, 3, 3]], fec_span = 3, fec_entries = 1\<rparr>,
       \<lparr>rx_buf_len = -1, rx_buf = [0, 0, 0], fec_len = [0], fec = [[0, 0, 0]], fec_span = 0, fec_entries = 0\<rparr>,
       \<lparr>rx_buf_len = 3, rx_buf = [3, 1, 3], fec_len = [0], fec = [[0, 0, 0]], fec_span = 0, fec_entries = 0\<rparr>]"
  have "find_which ?bufs [0, 1, 2] = 1 \<and>
    (\<exists>bufs'. repair_slot ?bufs [0, 1, 2] 0 0 1 = Some bufs' \<and>
       rx_holds (bufs' ! nat 1) (?M 1 @ replicate (length [6, 3, 3 :: u8] - length (?M 1)) 0))"
    by (rule fec_repairs_missing_message [where s = ?s and f = "[6, 3, 3]"])
       (auto simp: holds_message_def rx_holds_def fec_add_def arr_get_def nth_Cons')
  then show ?thesis by (simp add: numeral_2_eq_2)
qed

end
