(* ===== verification/Udptl_Hostile.thy ===== *)
theory Udptl_Hostile
  imports Udptl_Safety
begin

text \<open>
  Datagrams a peer may send that take \<open>udptl_rx_packet\<close> out of its arrays, leave it a
  length it must not use, or make it deliver messages again: why the hypotheses of the
  safety and delivery theorems are there.
\<close>

section \<open>Too many secondary messages\<close>

lemma decode_empty_element:
  assumes "ptr < length buf" "buf ! ptr = 0"
  shows "decode_open_type buf (length buf) ptr =
    Some \<lparr>ot_stat = 0, ot_len = ptr + 1, ot_num = 0, ot_object = []\<rparr>"
  using assms
  by (simp add: decode_open_type_def decode_open_loop.simps [of buf "length buf" ptr] decode_length_eq
      store_octets_def)

lemma decode_elements_overflow:
  assumes "\<forall>j < n. ptr + j < length buf \<and> buf ! (ptr + j) = 0" "length secs \<le> 16" "16 < length secs + n"
  shows "decode_elements buf (length buf) ptr n secs = None"
  using assms
proof (induction n arbitrary: ptr secs)
  case (Suc n)
  show ?case
  proof (cases "length secs = 16")
    case False
    have "ptr < length buf" "buf ! ptr = 0" using Suc.prems(1) by (auto dest: spec [of _ 0])
    moreover have "decode_elements buf (length buf) (ptr + 1) n (secs @ [[]]) = None"
    proof (rule Suc.IH)
      show "\<forall>j<n. ptr + 1 + j < length buf \<and> buf ! (ptr + 1 + j) = 0"
        using Suc.prems(1) by (metis Suc_less_eq add_Suc_right plus_1_eq_Suc semiring_norm(163) add.assoc)
    qed (use Suc.prems False in simp_all)
    ultimately show ?thesis using Suc.prems(2) False by (simp add: decode_empty_element)
  qed simp
qed simp

definition many_secondaries_packet :: "nat \<Rightarrow> octets \<Rightarrow> nat \<Rightarrow> octets" where
  "many_secondaries_packet n msg k =
     sequence_octets n @ open_octets msg @ [0, word_of_int (int k)] @ replicate k 0"

lemma packet_primary:
  assumes "n < 65536" "valid_message msg" "buf = sequence_octets n @ open_octets msg @ x # rest"
  shows "received_seq_no buf = int n" "2 \<le> length buf"
    and "decode_open_type buf (length buf) 2 =
      Some \<lparr>ot_stat = 0, ot_len = 2 + length (open_octets msg), ot_num = length msg, ot_object = msg\<rparr>"
    and "buf ! (2 + length (open_octets msg)) = x"
proof -
  have so: "length (sequence_octets n) = 2" by (simp add: sequence_octets_def)
  show "received_seq_no buf = int n" using sequence_number [OF assms(1,3)] .
  show "2 \<le> length buf" using so assms(3) by simp
  show "decode_open_type buf (length buf) 2 =
      Some \<lparr>ot_stat = 0, ot_len = 2 + length (open_octets msg), ot_num = length msg, ot_object = msg\<rparr>"
    using assms(2) so by (intro decode_open_octets [OF _ _ _ assms(3)]) (simp_all add: valid_message_def)
  show "buf ! (2 + length (open_octets msg)) = x" using so assms(3) by (simp add: nth_append)
qed

lemma store_primary_valid:
  assumes "udptl_ok s" "valid_message msg"
  shows "\<exists>s2. store_primary s n msg = Some s2 \<and> udptl_ok s2"
  using save_packet_ok [OF udptl_ok_mark_missing [OF assms(1)], of msg] assms(2)
  unfolding store_primary_def valid_message_def by blast

text \<open>
  Property C33. A datagram that announces 17 to 127 empty secondary messages makes
  udptl_rx_packet write beyond its sixteen-element local arrays.
\<close>

theorem many_secondaries_overrun:
  assumes "udptl_ok s" "n < 65536" "valid_message msg" "16 < k" "k < 128"
  shows "udptl_rx_packet s (many_secondaries_packet n msg k) = None"
proof -
  let ?buf = "many_secondaries_packet n msg k" and ?p = "2 + length (open_octets msg)"
  have buf: "?buf = sequence_octets n @ open_octets msg @ 0 # (word_of_int (int k) # replicate k 0)"
    by (simp add: many_secondaries_packet_def)
  note prim = packet_primary [OF assms(2,3) buf]
  have so: "length (sequence_octets n) = 2" by (simp add: sequence_octets_def)
  have len: "length ?buf = ?p + 2 + k" using so by (simp add: buf)
  have cnt: "unat (?buf ! (?p + 1)) = k"
    using so assms(5) unat_word_of_int_8 [of "int k"] by (simp add: buf nth_append)
  have "decode_length ?buf (length ?buf) (?p + 1) = Whole (?p + 2) k"
    using assms(5) len cnt by (simp add: decode_length_eq Let_def)
  moreover have "decode_elements ?buf (length ?buf) (?p + 2) k [] = None"
  proof (rule decode_elements_overflow)
    show "\<forall>j<k. ?p + 2 + j < length ?buf \<and> ?buf ! (?p + 2 + j) = 0"
      using so len by (simp add: buf nth_append)
  qed (use assms(4) in simp_all)
  ultimately have "decode_secondaries ?buf (length ?buf) (?p + 1) [] = None"
    by (simp add: decode_secondaries.simps)
  moreover obtain s2 where "store_primary s (int n) msg = Some s2"
    using store_primary_valid assms(1,3) by blast
  ultimately show ?thesis
    using prim len assms(3)
    by (simp add: udptl_rx_packet_def Let_def valid_message_def rx_error_recovery_def rx_secondary_def)
qed

theorem many_secondaries_overrun_witness:
  "udptl_rx_packet sample_context (many_secondaries_packet 0 [1] 17) = None"
  by (rule many_secondaries_overrun [OF sample_context_ok]) (simp_all add: valid_message_def)


text \<open>A truncated FEC packet is rejected, but its announced length stays in \<open>fec_len[0]\<close>.\<close>

definition truncated_fec_packet :: "nat \<Rightarrow> octets \<Rightarrow> u8 \<Rightarrow> nat \<Rightarrow> octets" where
  "truncated_fec_packet n msg span announced =
     sequence_octets n @ open_octets msg @ [0x80, 1, span, 1] @ fst (encode_length (int announced))"

text \<open>
  Property C34. A FEC datagram that ends before the octets it announces is rejected, but
  the announced length, above the 400 octets of the buffer, stays in fec_len of the slot
  together with its entry count.
\<close>

theorem rejected_fec_packet_leaves_length:
  assumes "udptl_ok s" "n < 65536" "valid_message msg" "400 < announced" "announced < 16384"
  shows "\<exists>s'. udptl_rx_packet s (truncated_fec_packet n msg span announced) = Some (-1, s', []) \<and>
     fec_len (rx_bufs s' ! slot (int n)) ! 0 = int announced \<and>
     fec_entries (rx_bufs s' ! slot (int n)) = 1 \<and> \<not> fec_all_sane s'"
proof -
  let ?l = "fst (encode_length (int announced))"
  let ?buf = "truncated_fec_packet n msg span announced" and ?p = "2 + length (open_octets msg)"
  let ?x = "slot (int n)"
  have buf: "?buf = sequence_octets n @ open_octets msg @ 0x80 # ([1, span, 1] @ ?l)"
    by (simp add: truncated_fec_packet_def)
  note prim = packet_primary [OF assms(2,3) buf]
  have so: "length (sequence_octets n) = 2" by (simp add: sequence_octets_def)
  have ll: "length ?l = 2" using assms(4,5) by (simp add: encode_length_eq)
  have len: "length ?buf = ?p + 6" using so ll by (simp add: buf)
  have octs: "?buf ! (?p + 1) = 1" "?buf ! (?p + 2) = span" "?buf ! (?p + 3) = 1"
    using so by (simp_all add: buf nth_append)
  define pre where "pre = sequence_octets n @ open_octets msg @ [0x80, 1, span, 1]"
  have pre: "?buf = pre @ ?l @ []" "length pre = ?p + 4" using so by (simp_all add: buf pre_def)
  have "decode_length ?buf (length ?buf) (length pre) = Whole (length pre + 2) announced"
    unfolding pre(1) using decode_encode_length [of "int announced" pre "[]"] ll assms(5) by simp
  then have dl: "decode_length ?buf (length ?buf) (?p + 4) = Whole (?p + 6) announced"
    by (simp add: pre(2) add.commute)
  have d: "decode_open_type ?buf (length ?buf) (?p + 4) =
      Some \<lparr>ot_stat = -1, ot_len = ?p + 6, ot_num = announced, ot_object = []\<rparr>"
    unfolding decode_open_type_def decode_open_loop.simps [of ?buf "length ?buf" "?p + 4"] dl
    using len assms(4) by (simp add: store_octets_def)
  obtain s2 where s2: "store_primary s (int n) msg = Some s2" "udptl_ok s2"
    using store_primary_valid assms(1,3) by blast
  define s3 where "s3 = set_fec_entries (set_fec_span s2 ?x (uint span)) ?x 1"
  have s3: "udptl_ok s3"
    unfolding s3_def using s2(2) by (intro set_fec_keeps_ok) simp_all
  have entries: "fec_entries (rx_bufs s3 ! ?x) = 1"
    using s2(2) unfolding s3_def set_fec_entries_def set_fec_span_def by (simp add: udptl_ok_def)
  define b1 where "b1 = (rx_bufs s3 ! ?x)\<lparr>fec_len := (fec_len (rx_bufs s3 ! ?x))[0 := int announced]\<rparr>"
  define s4 where "s4 = s3\<lparr>rx_bufs := (rx_bufs s3)[?x := b1]\<rparr>"
  have fec: "decode_fec s3 ?buf (?p + 4) ?x 0 (Suc 0) = Some (-1, ?p + 6, s4)"
    using d by (simp add: Let_def s4_def b1_def)
  have ix: "?p + 1 + 1 = ?p + 2" "?p + 1 + 2 = ?p + 3" "?p + 1 + 3 = ?p + 4" by simp_all
  have one: "uint (1 :: u8) = 1" "nat (1 :: int) = Suc 0" by simp_all
  have "rx_fec s2 ?buf (?p + 1) (int n) =
    (if (-1 :: int) < 0 \<or> ?p + 6 \<noteq> length ?buf then Some (-1, s4, [])
     else map_option (\<lambda>(s', ds). (0, s', ds)) (fec_reconstruct s4 ?x (uint span) 1 (int n)))"
    using rx_fec_decoded [of "?p + 1" ?buf s3 s2 "int n" "-1" "?p + 6" s4] len
    unfolding ix octs one fec s3_def [symmetric] by simp
  then have "rx_fec s2 ?buf (?p + 1) (int n) = Some (-1, s4, [])" by simp
  then have "rx_error_recovery s2 ?buf ?p (int n) = Some (-1, s4, [])"
    using prim(4) by (simp add: rx_error_recovery_def)
  then have "udptl_rx_packet s ?buf = Some (-1, s4, [])"
    using prim len assms(3) s2(1) by (simp add: udptl_rx_packet_def Let_def valid_message_def)
  moreover have x: "rx_bufs s4 ! ?x = b1" using s3 by (simp add: s4_def udptl_ok_def)
  moreover have l5: "length (fec_len (rx_bufs s3 ! ?x)) = 5"
    using udptl_ok_rx_buffer [OF s3] by (simp add: rx_buffer_ok_def)
  then have f0: "fec_len b1 ! 0 = int announced" by (simp add: b1_def)
  moreover have "fec_entries b1 = 1" using entries by (simp add: b1_def)
  moreover have "\<not> fec_all_sane s4"
  proof
    assume "fec_all_sane s4"
    then have "fec_sane b1" using x s3 by (metis fec_all_sane_def length_list_update nth_mem s4_def
          slot_lt udptl_ok_lengths(2) udptl_state.select_convs(11) udptl_state.surjective udptl_state.update_convs(11))
    moreover have "int announced \<in> set (fec_len b1)" using f0 l5 by (metis b1_def length_greater_0_conv
          length_list_update nth_mem udptl_fec_rx_buffer.select_convs(3) udptl_fec_rx_buffer.surjective
          udptl_fec_rx_buffer.update_convs(3) zero_less_numeral list.size(3))
    ultimately show False using assms(4) by (auto simp: fec_sane_def)
  qed
  ultimately show ?thesis by auto
qed

theorem rejected_fec_packet_leaves_length_witness:
  "\<exists>s'. udptl_rx_packet sample_context (truncated_fec_packet 0 [1] 3 1000) = Some (-1, s', []) \<and>
     fec_len (rx_bufs s' ! slot (int 0)) ! 0 = int 1000"
  using rejected_fec_packet_leaves_length [OF sample_context_ok, of 0 "[1]" 1000 3]
  by (auto simp: valid_message_def)


text \<open>A late packet winds \<open>rx_seq_no\<close> back: what followed it is delivered again.\<close>

text \<open>
  Property C35. A packet that arrives late delivers nothing but winds the expected
  sequence number back, so the next packet delivers again every message sent after the
  late one that it carries.
\<close>

theorem late_packet_redelivers:
  assumes "udptl_ok rx" "rx_seq_no rx = int (length hist)" "\<forall>m \<in> set hist. valid_message m"
    and "valid_message msg" "n < length hist" "length hist \<le> n + 1 + k" "k \<le> 16" "length hist < 65535"
  shows "\<exists>rx1 rx2.
    udptl_rx_packet rx (redundancy_packet n (hist ! n) (take k (rev (take n hist)))) = Some (0, rx1, []) \<and>
    udptl_rx_packet rx1 (redundancy_packet (length hist) msg (take k (rev hist))) =
      Some (0, rx2, numbered (hist @ [msg]) (n + 1) (length hist + 1))"
proof -
  let ?m = "length hist"
  have late: "\<forall>m \<in> set (take k (rev (take n hist))). valid_message m"
    using assms(3) by (auto dest!: in_set_takeD)
  have now: "\<forall>m \<in> set (take k (rev hist)). valid_message m"
    using assms(3) by (auto dest!: in_set_takeD)
  have hn: "valid_message (hist ! n)" using assms(3,5) by simp
  have n: "n < 65536" "length (take k (rev (take n hist))) \<le> 16" "?m < 65536" "length (take k (rev hist)) \<le> 16"
    using assms(5,7,8) by simp_all
  obtain rx1 where rx1: "udptl_rx_packet rx (redundancy_packet n (hist ! n) (take k (rev (take n hist)))) = Some (0, rx1, [])"
      "udptl_ok rx1" "rx_seq_no rx1 = (int n + 1) mod 65536"
    using rx_redundancy_packet [OF assms(1) n(1) hn late n(2)] assms(2,5) by (auto simp: recovered_nothing)
  have r1: "rx_seq_no rx1 = int ?m - int (?m - n - 1)" using rx1(3) assms(5,8) by simp
  obtain rx2 where "udptl_rx_packet rx1 (redundancy_packet ?m msg (take k (rev hist))) =
      Some (0, rx2, recovered (rx_seq_no rx1) (int ?m) (take k (rev hist)) (length (take k (rev hist)))
              @ (if rx_seq_no rx1 \<le> int ?m then [(msg, word_of_int (int ?m))] else []))"
    using rx_redundancy_packet [OF rx1(2) n(3) assms(4) now n(4)] by blast
  moreover have "recovered (rx_seq_no rx1) (int ?m) (take k (rev hist)) (length (take k (rev hist))) =
      numbered hist (?m - (?m - n - 1)) ?m"
    unfolding r1 using assms(5,6) by (intro recovered_history) simp_all
  moreover have "?m - (?m - n - 1) = n + 1" using assms(5) by simp
  moreover have "numbered hist (n + 1) ?m @ [(msg, word_of_int (int ?m))] = numbered (hist @ [msg]) (n + 1) (?m + 1)"
    using assms(5) by (simp add: numbered_def nth_append)
  moreover have "rx_seq_no rx1 \<le> int ?m" using r1 by simp
  ultimately show ?thesis using rx1(1) by auto
qed

theorem late_packet_redelivers_witness:
  "\<exists>rx rx1 rx2. rx_seq_no rx = 2 \<and>
    udptl_rx_packet rx (redundancy_packet 0 [1] []) = Some (0, rx1, []) \<and>
    udptl_rx_packet rx1 (redundancy_packet 2 [3] [[2], [1]]) = Some (0, rx2, [([2], 1), ([3], 2)])"
proof -
  have "udptl_ok (sample_context\<lparr>rx_seq_no := 2\<rparr>)"
    using sample_context_ok by (simp add: udptl_ok_def)
  from late_packet_redelivers [OF this, of "[[1], [2]]" "[3]" 0 2] obtain rx1 rx2 where
    "udptl_rx_packet (sample_context\<lparr>rx_seq_no := 2\<rparr>) (redundancy_packet 0 [1] []) = Some (0, rx1, [])"
    "udptl_rx_packet rx1 (redundancy_packet 2 [3] [[2], [1]]) = Some (0, rx2, [([2], 1), ([3], 2)])"
    by (auto simp: valid_message_def numbered_def upt_rec numeral_2_eq_2)
  moreover have "rx_seq_no (sample_context\<lparr>rx_seq_no := 2\<rparr>) = 2" by simp
  ultimately show ?thesis by blast
qed

end
