(* ===== verification/Slot_Alloc.thy ===== *)
theory Slot_Alloc
  imports Fax_Prelude
begin

text \<open>
  The two allocators of small integers: \<open>app_portGetFree\<close> and \<open>app_portRelease\<close>
  of \<^verbatim>\<open>src/app.c\<close>, \<open>session_idGetNext\<close> and \<open>session_idRelease\<close> of
  \<^verbatim>\<open>src/session.c\<close>. What their callers rely on is the interface
  \<open>slot_allocator\<close>, interpreted on the model of each of them.
\<close>

section \<open>The interface\<close>

text \<open>
  \<open>used s\<close> are the handles given out, \<open>handles\<close> the ones that can be. \<open>-1\<close> is the
  error of the code when none is left, and negative results of \<open>release\<close> are its errors.
\<close>

locale slot_allocator =
  fixes alloc :: "'s \<Rightarrow> int \<times> 's"
    and release :: "'s \<Rightarrow> int \<Rightarrow> int \<times> 's"
    and used :: "'s \<Rightarrow> int set"
    and handles :: "int set"
    and pool_ok :: "'s \<Rightarrow> bool"
  assumes finite_handles: "finite handles"
    and handles_positive: "h \<in> handles \<Longrightarrow> 0 \<le> h"
    and used_handles: "pool_ok s \<Longrightarrow> used s \<subseteq> handles"
    and alloc_full: "pool_ok s \<Longrightarrow> used s = handles \<Longrightarrow> alloc s = (-1, s)"
    and alloc_free: "pool_ok s \<Longrightarrow> used s \<noteq> handles \<Longrightarrow>
          \<exists>h s'. alloc s = (h, s') \<and> h \<in> handles - used s \<and> used s' = insert h (used s) \<and> pool_ok s'"
    and release_used: "pool_ok s \<Longrightarrow> h \<in> used s \<Longrightarrow>
          \<exists>s'. release s h = (0, s') \<and> used s' = used s - {h} \<and> pool_ok s'"
    and release_unused: "pool_ok s \<Longrightarrow> h \<notin> used s \<Longrightarrow>
          used (snd (release s h)) = used s \<and> pool_ok (snd (release s h))"

text \<open>A history of calls: the state after it and the handles its callers hold.\<close>

datatype pool_op = Alloc | Release int

primrec pool_run ::
    "('s \<Rightarrow> int \<times> 's) \<Rightarrow> ('s \<Rightarrow> int \<Rightarrow> int \<times> 's) \<Rightarrow> 's \<Rightarrow> int set \<Rightarrow> pool_op list \<Rightarrow> 's \<times> int set" where
  "pool_run alloc release s held [] = (s, held)"
| "pool_run alloc release s held (op # ops) =
     (case op of
        Alloc \<Rightarrow> (case alloc s of (h, s') \<Rightarrow>
                    pool_run alloc release s' (if h < 0 then held else insert h held) ops)
      | Release h \<Rightarrow> pool_run alloc release (snd (release s h)) (held - {h}) ops)"

context slot_allocator
begin

lemma alloc_cases:
  assumes "pool_ok s"
  obtains (full) "used s = handles" "alloc s = (-1, s)"
  | (fresh) h s' where "alloc s = (h, s')" "h \<in> handles" "h \<notin> used s" "0 \<le> h"
      "used s' = insert h (used s)" "pool_ok s'"
  using alloc_full [OF assms] alloc_free [OF assms] handles_positive by (cases "used s = handles") auto

lemma alloc_ok: "pool_ok s \<Longrightarrow> pool_ok (snd (alloc s))"
  by (rule alloc_cases) auto

lemma release_ok: "pool_ok s \<Longrightarrow> pool_ok (snd (release s h))"
  using release_used release_unused by (cases "h \<in> used s") fastforce+

lemma release_eq: "pool_ok s \<Longrightarrow> used (snd (release s h)) = used s - {h}"
  using release_used release_unused by (cases "h \<in> used s") fastforce+

lemma alloc_eq:
  "pool_ok s \<Longrightarrow> used (snd (alloc s)) = (if fst (alloc s) < 0 then used s else insert (fst (alloc s)) (used s))"
  by (rule alloc_cases) auto

text \<open>The caller's handles are exactly those given out: nothing is lost or given twice.\<close>

lemma pool_run_held:
  "pool_ok s \<Longrightarrow> pool_run alloc release s (used s) ops = (s', held) \<Longrightarrow> pool_ok s' \<and> used s' = held"
proof (induction ops arbitrary: s)
  case (Cons op ops)
  show ?case
  proof (cases op)
    case Alloc
    obtain h t where t: "alloc s = (h, t)" by force
    with Cons.prems have "pool_ok t" "used t = (if h < 0 then used s else insert h (used s))"
      using alloc_ok alloc_eq by force+
    with Cons Alloc t show ?thesis by (simp split: if_splits)
  next
    case (Release h)
    with Cons.prems Cons.IH [OF release_ok] show ?thesis by (simp add: release_eq)
  qed
qed simp

lemma alloc_succeeds: "pool_ok s \<Longrightarrow> card (used s) < card handles \<Longrightarrow> 0 \<le> fst (alloc s)"
  by (rule alloc_cases) auto

lemma alloc_fails_iff: "pool_ok s \<Longrightarrow> fst (alloc s) < 0 \<longleftrightarrow> used s = handles"
  by (rule alloc_cases) auto

lemma alloc_after_run:
  assumes "pool_ok s" "used s = {}" "pool_run alloc release s {} ops = (s', held)"
  shows "if held = handles then alloc s' = (-1, s')
    else fst (alloc s') \<in> handles - held \<and> used (snd (alloc s')) = insert (fst (alloc s')) held"
proof -
  have s': "pool_ok s'" "used s' = held" using pool_run_held [of s ops s' held] assms by simp_all
  from s'(1) show ?thesis by (cases rule: alloc_cases) (use s' in auto)
qed

text \<open>As many allocations succeed as there are handles, the next one fails.\<close>

lemma allocs_fill:
  assumes "pool_ok s" "used s = {}"
  shows "n \<le> card handles \<Longrightarrow>
    card (snd (pool_run alloc release s {} (replicate n Alloc))) = n \<and> snd (pool_run alloc release s {} (replicate n Alloc)) \<subseteq> handles"
proof -
  have "\<lbrakk>pool_ok t; card (used t) + n \<le> card handles\<rbrakk> \<Longrightarrow>
    card (snd (pool_run alloc release t (used t) (replicate n Alloc))) = card (used t) + n \<and>
    snd (pool_run alloc release t (used t) (replicate n Alloc)) \<subseteq> handles" for t n
  proof (induction n arbitrary: t)
    case 0
    then show ?case using used_handles by simp
  next
    case (Suc n)
    have fin: "finite (used t)"
      using used_handles [OF Suc.prems(1)] finite_handles by (rule finite_subset)
    from Suc.prems(1) show ?case
    proof (cases rule: alloc_cases)
      case full
      with Suc.prems show ?thesis by simp
    next
      case (fresh h t')
      with fin Suc.prems(2) have "card (used t') + n \<le> card handles" by simp
      from Suc.IH [OF fresh(6) this] fresh fin show ?thesis by simp
    qed
  qed
  from this [OF assms(1)] assms(2) show "n \<le> card handles \<Longrightarrow>
    card (snd (pool_run alloc release s {} (replicate n Alloc))) = n \<and> snd (pool_run alloc release s {} (replicate n Alloc)) \<subseteq> handles"
    by simp
qed

end

section \<open>Searching from a rover\<close>

text \<open>
  Both allocators look for a zero element from the rover to the end of their region, then
  from the start of the region to the rover.
\<close>

definition scan_free :: "int list \<Rightarrow> nat \<Rightarrow> nat \<Rightarrow> nat option" where
  "scan_free t a b = find (\<lambda>i. t ! i = 0) [a..<b]"

lemma scan_free_SomeD:
  assumes "scan_free t a b = Some i"
  shows "a \<le> i" "i < b" "t ! i = 0" "\<forall>j. a \<le> j \<and> j < i \<longrightarrow> t ! j \<noteq> 0"
proof -
  obtain k where k: "k < b - a" "t ! (a + k) = 0" "i = a + k" "\<forall>j<k. t ! (a + j) \<noteq> 0"
    using assms by (auto simp: scan_free_def find_Some_iff)
  then show "a \<le> i" "i < b" "t ! i = 0" by auto
  show "\<forall>j. a \<le> j \<and> j < i \<longrightarrow> t ! j \<noteq> 0"
    using k(3,4) by (metis le_add_diff_inverse less_diff_conv2 add.commute)
qed

lemma scan_free_NoneD: "scan_free t a b = None \<Longrightarrow> a \<le> i \<Longrightarrow> i < b \<Longrightarrow> t ! i \<noteq> 0"
  by (auto simp: scan_free_def find_None_iff)

lemma scan_free_None_iff: "scan_free t a b = None \<longleftrightarrow> (\<forall>i. a \<le> i \<and> i < b \<longrightarrow> t ! i \<noteq> 0)"
  by (auto simp: scan_free_def find_None_iff)

section \<open>UDP ports\<close>

abbreviation (input) PORT_START :: int where "PORT_START \<equiv> 37000"
abbreviation (input) PORT_COUNT :: nat where "PORT_COUNT \<equiv> 200"

record port_pool =
  port_table :: "int list"
  port_idx_static :: nat

text \<open>The zero-initialised static variables.\<close>

definition port_pool_init :: port_pool where
  "port_pool_init = \<lparr>port_table = replicate PORT_COUNT 0, port_idx_static = 0\<rparr>"

definition take_port :: "port_pool \<Rightarrow> nat \<Rightarrow> int \<times> port_pool" where
  "take_port p i =
     (int i + PORT_START, p\<lparr>port_idx_static := i + 1, port_table := (port_table p)[i := 1]\<rparr>)"

definition app_portGetFree :: "port_pool \<Rightarrow> int \<times> port_pool" where
  "app_portGetFree p =
     (case scan_free (port_table p) (port_idx_static p) PORT_COUNT of
        Some i \<Rightarrow> take_port p i
      | None \<Rightarrow>
          (case scan_free (port_table p) 0 (port_idx_static p) of
             Some i \<Rightarrow> take_port p i
           | None \<Rightarrow> (-1, p)))"

text \<open>The argument is a \<open>uint16_t\<close>: callers pass values from 0 to 65535.\<close>

definition app_portRelease :: "port_pool \<Rightarrow> int \<Rightarrow> int \<times> port_pool" where
  "app_portRelease p port =
     (if port < PORT_START \<or> port \<ge> PORT_START + int PORT_COUNT then (-1, p)
      else if port_table p ! nat (port - PORT_START) = 0 then (-2, p)
      else (0, p\<lparr>port_table := (port_table p)[nat (port - PORT_START) := 0]\<rparr>))"

definition port_pool_ok :: "port_pool \<Rightarrow> bool" where
  "port_pool_ok p \<longleftrightarrow> length (port_table p) = PORT_COUNT \<and> port_idx_static p \<le> PORT_COUNT"

definition ports_used :: "port_pool \<Rightarrow> int set" where
  "ports_used p = {PORT_START + int i | i. i < PORT_COUNT \<and> port_table p ! i \<noteq> 0}"

definition port_handles :: "int set" where
  "port_handles = {PORT_START ..< PORT_START + int PORT_COUNT}"

lemma ports_used_iff:
  "h \<in> ports_used p \<longleftrightarrow> PORT_START \<le> h \<and> h < PORT_START + int PORT_COUNT \<and>
     port_table p ! nat (h - PORT_START) \<noteq> 0"
  by (auto simp: ports_used_def intro!: exI [of _ "nat (h - 37000)"])

lemma ports_used_full:
  "ports_used p = port_handles \<longleftrightarrow> (\<forall>i < PORT_COUNT. port_table p ! i \<noteq> 0)"
proof
  assume full: "ports_used p = port_handles"
  show "\<forall>i < PORT_COUNT. port_table p ! i \<noteq> 0"
  proof (intro allI impI)
    fix i :: nat
    assume "i < PORT_COUNT"
    then have "37000 + int i \<in> port_handles" by (simp add: port_handles_def)
    with full have "37000 + int i \<in> ports_used p" by simp
    then show "port_table p ! i \<noteq> 0" by (simp add: ports_used_iff)
  qed
next
  assume "\<forall>i < PORT_COUNT. port_table p ! i \<noteq> 0"
  then show "ports_used p = port_handles"
    by (auto simp: ports_used_iff port_handles_def)
qed

lemma take_port_used:
  assumes "port_pool_ok p" "i < PORT_COUNT" "take_port p i = (h, p')"
  shows "h = 37000 + int i" "ports_used p' = insert h (ports_used p)" "port_pool_ok p'"
proof -
  show h: "h = 37000 + int i" using assms(3) by (simp add: take_port_def)
  have p': "port_table p' = (port_table p)[i := 1]" using assms(3) by (auto simp: take_port_def)
  show "ports_used p' = insert h (ports_used p)"
    using assms(1,2) by (auto simp: ports_used_iff p' h nth_list_update port_pool_ok_def split: if_splits)
  show "port_pool_ok p'" using assms by (auto simp: take_port_def port_pool_ok_def)
qed

lemma app_portGetFree_cases:
  assumes "port_pool_ok p"
  obtains (full) "ports_used p = port_handles" "app_portGetFree p = (-1, p)"
  | (port) i where "app_portGetFree p = take_port p i" "i < PORT_COUNT" "port_table p ! i = 0"
proof (cases "scan_free (port_table p) (port_idx_static p) PORT_COUNT")
  case (Some i)
  with scan_free_SomeD [OF Some] port [of i] show ?thesis by (simp add: app_portGetFree_def)
next
  case none: None
  show ?thesis
  proof (cases "scan_free (port_table p) 0 (port_idx_static p)")
    case (Some i)
    with none scan_free_SomeD [OF Some] port [of i] assms show ?thesis
      by (simp add: app_portGetFree_def port_pool_ok_def)
  next
    case None
    with none have "\<forall>i < PORT_COUNT. port_table p ! i \<noteq> 0"
      by (auto simp: scan_free_None_iff) (meson le_less_linear zero_le)
    with None none full show ?thesis by (simp add: app_portGetFree_def ports_used_full)
  qed
qed

interpretation ports: slot_allocator app_portGetFree app_portRelease ports_used port_handles port_pool_ok
proof unfold_locales
  show "finite port_handles" by (simp add: port_handles_def)
  show "h \<in> port_handles \<Longrightarrow> 0 \<le> h" for h by (simp add: port_handles_def)
  show "port_pool_ok s \<Longrightarrow> ports_used s \<subseteq> port_handles" for s
    by (auto simp: ports_used_iff port_handles_def)
  show "port_pool_ok s \<Longrightarrow> ports_used s = port_handles \<Longrightarrow> app_portGetFree s = (-1, s)" for s
    by (erule app_portGetFree_cases) (auto simp: ports_used_full)
  show "\<exists>h s'. app_portGetFree s = (h, s') \<and> h \<in> port_handles - ports_used s \<and>
      ports_used s' = insert h (ports_used s) \<and> port_pool_ok s'"
    if s: "port_pool_ok s" and free: "ports_used s \<noteq> port_handles" for s
  proof (cases rule: app_portGetFree_cases [OF s])
    case (2 i)
    obtain h s' where t: "take_port s i = (h, s')" by force
    note u = take_port_used [OF s 2(2) t]
    have "h \<in> port_handles - ports_used s" using 2 u(1) by (auto simp: port_handles_def ports_used_iff)
    with 2(1) t u(2,3) show ?thesis by auto
  qed (use free in simp)
  show "port_pool_ok s \<Longrightarrow> h \<in> ports_used s \<Longrightarrow>
      \<exists>s'. app_portRelease s h = (0, s') \<and> ports_used s' = ports_used s - {h} \<and> port_pool_ok s'" for s h
    by (auto simp: app_portRelease_def ports_used_iff port_pool_ok_def nth_list_update split: if_splits)
  show "port_pool_ok s \<Longrightarrow> h \<notin> ports_used s \<Longrightarrow>
      ports_used (snd (app_portRelease s h)) = ports_used s \<and> port_pool_ok (snd (app_portRelease s h))" for s h
    by (auto simp: app_portRelease_def ports_used_iff)
qed

lemma port_pool_init_ok: "port_pool_ok port_pool_init" "ports_used port_pool_init = {}"
  by (auto simp: port_pool_init_def port_pool_ok_def ports_used_iff nth_Cons')

text \<open>
  Property C36. After any history of allocations and releases, app_portGetFree returns a
  port nobody holds, or -1 exactly when all 200 ports are held.
\<close>

theorem port_history_exclusive:
  assumes "pool_run app_portGetFree app_portRelease port_pool_init {} ops = (p, held)"
  shows "if held = port_handles then app_portGetFree p = (-1, p)
    else fst (app_portGetFree p) \<in> port_handles - held \<and>
      ports_used (snd (app_portGetFree p)) = insert (fst (app_portGetFree p)) held"
  by (rule ports.alloc_after_run [OF port_pool_init_ok assms])

theorem port_history_exclusive_witness:
  "fst (app_portGetFree (fst (pool_run app_portGetFree app_portRelease port_pool_init {}
     [Alloc, Alloc, Release 37000]))) \<in> port_handles - {37001}"
proof -
  have "pool_run app_portGetFree app_portRelease port_pool_init {} [Alloc, Alloc, Release 37000] =
      (\<lparr>port_table = 0 # 1 # replicate 198 0, port_idx_static = 2\<rparr>, {37001})"
    by (simp add: port_pool_init_def app_portGetFree_def app_portRelease_def take_port_def scan_free_def
        upt_conv_Cons numeral_eq_Suc insert_commute)
  from port_history_exclusive [OF this] show ?thesis
    by (simp add: port_pool_init_def app_portGetFree_def app_portRelease_def take_port_def scan_free_def
        upt_conv_Cons port_handles_def)
qed

text \<open>
  Two hundred allocations from the initial table give out every port from
  37000 to 37199 once.
\<close>

theorem port_capacity:
  "snd (pool_run app_portGetFree app_portRelease port_pool_init {} (replicate 200 Alloc)) = port_handles"
proof (rule card_subset_eq)
  have c: "card port_handles = 200" by (simp add: port_handles_def)
  note fill = ports.allocs_fill [OF port_pool_init_ok, of 200, unfolded c, simplified]
  show "snd (pool_run app_portGetFree app_portRelease port_pool_init {} (replicate 200 Alloc)) \<subseteq> port_handles"
    "card (snd (pool_run app_portGetFree app_portRelease port_pool_init {} (replicate 200 Alloc))) = card port_handles"
    using fill c by simp_all
qed (simp add: port_handles_def)

text \<open>The rover makes it a next-fit search: the free port nearest after it, cyclically.\<close>

definition rover_distance :: "port_pool \<Rightarrow> nat \<Rightarrow> nat" where
  "rover_distance p i =
     (if port_idx_static p \<le> i then i - port_idx_static p else PORT_COUNT + i - port_idx_static p)"

text \<open>
  app_portGetFree takes the free port that lies nearest after the rover,
  cyclically, moves the rover behind it and marks nothing else; with no free port it
  returns -1 and changes nothing.
\<close>

theorem port_next_fit:
  assumes "port_pool_ok p" "app_portGetFree p = (h, p')"
  shows "if ports_used p = port_handles then h = -1 \<and> p' = p
    else h \<in> port_handles - ports_used p \<and> ports_used p' = insert h (ports_used p) \<and>
      port_idx_static p' = nat (h - 36999) \<and>
      (\<forall>k \<in> port_handles - ports_used p.
         rover_distance p (nat (h - 37000)) \<le> rover_distance p (nat (k - 37000)))"
proof (cases rule: app_portGetFree_cases [OF assms(1)])
  case 1
  with assms(2) show ?thesis by simp
next
  case (2 i)
  then have t: "take_port p i = (h, p')" using assms(2) by simp
  note u = take_port_used [OF assms(1) 2(2) t]
  have h: "h \<in> port_handles - ports_used p" using 2 u(1) by (auto simp: port_handles_def ports_used_iff)
  have near: "rover_distance p i \<le> rover_distance p j" if "j < 200" "port_table p ! j = 0" for j
  proof (cases "scan_free (port_table p) (port_idx_static p) PORT_COUNT")
    case (Some k)
    with 2(1) have "k = i" by (auto simp: app_portGetFree_def take_port_def)
    with scan_free_SomeD [OF Some] that show ?thesis
      by (auto simp: rover_distance_def not_le split: if_splits)
  next
    case None
    with 2(1,2) obtain k where k: "scan_free (port_table p) 0 (port_idx_static p) = Some k"
      by (auto simp: app_portGetFree_def take_port_def split: option.splits)
    with None 2(1) have "k = i" by (auto simp: app_portGetFree_def take_port_def)
    with scan_free_SomeD [OF k] that have "i < port_idx_static p" "\<not> j < i" by auto
    moreover have "j < port_idx_static p" using scan_free_NoneD [OF None, of j] that by (meson not_le)
    ultimately show ?thesis by (simp add: rover_distance_def)
  qed
  have "rover_distance p (nat (h - 37000)) \<le> rover_distance p (nat (k - 37000))"
    if "k \<in> port_handles - ports_used p" for k
    using near [of "nat (k - 37000)"] that u(1) by (auto simp: port_handles_def ports_used_iff)
  moreover have "port_idx_static p' = nat (h - 36999)" using t by (auto simp: take_port_def)
  ultimately show ?thesis using h u(2) by auto
qed

theorem port_next_fit_witness:
  "\<exists>p'. app_portGetFree \<lparr>port_table = 1 # replicate 199 0, port_idx_static = 200\<rparr> = (37001, p') \<and>
     port_idx_static p' = 2"
proof -
  let ?p = "\<lparr>port_table = 1 # replicate 199 0, port_idx_static = 200\<rparr>"
  have ok: "port_pool_ok ?p" by (simp add: port_pool_ok_def)
  obtain p' where p': "app_portGetFree ?p = (37001, p')"
    by (simp add: app_portGetFree_def scan_free_def take_port_def upt_conv_Cons)
  have "37000 \<notin> ports_used ?p \<or> 37001 \<notin> ports_used ?p" by (simp add: ports_used_iff)
  then have "ports_used ?p \<noteq> port_handles" by (auto simp: port_handles_def)
  with port_next_fit [OF ok p'] p' show ?thesis by simp
qed

section \<open>Session identifiers\<close>

abbreviation (input) SESSION_ID_IN :: nat where "SESSION_ID_IN \<equiv> 0"
abbreviation (input) SESSION_ID_OUT :: nat where "SESSION_ID_OUT \<equiv> 1024"
abbreviation (input) SESSION_ID_CNT :: nat where "SESSION_ID_CNT \<equiv> 2048"

record id_pool =
  session_id_array :: "int list"
  ses_id_static_in :: nat
  ses_id_static_out :: nat

definition id_pool_init :: id_pool where
  "id_pool_init = \<lparr>session_id_array = replicate SESSION_ID_CNT 0,
     ses_id_static_in = 0, ses_id_static_out = SESSION_ID_OUT\<rparr>"

definition take_id :: "bool \<Rightarrow> id_pool \<Rightarrow> nat \<Rightarrow> int \<times> id_pool" where
  "take_id inward p i =
     (let p1 = p\<lparr>session_id_array := (session_id_array p)[i := 1]\<rparr> in
      (int i, if inward then p1\<lparr>ses_id_static_in := i + 1\<rparr> else p1\<lparr>ses_id_static_out := i + 1\<rparr>))"

definition session_idGetNext :: "bool \<Rightarrow> id_pool \<Rightarrow> int \<times> id_pool" where
  "session_idGetNext inward p =
     (if inward then
        (case scan_free (session_id_array p) (ses_id_static_in p) SESSION_ID_OUT of
           Some i \<Rightarrow> take_id True p i
         | None \<Rightarrow>
             (case scan_free (session_id_array p) SESSION_ID_IN (ses_id_static_in p) of
                Some i \<Rightarrow> take_id True p i
              | None \<Rightarrow> (-1, p)))
      else
        (case scan_free (session_id_array p) (ses_id_static_out p) SESSION_ID_CNT of
           Some i \<Rightarrow> take_id False p i
         | None \<Rightarrow>
             (case scan_free (session_id_array p) SESSION_ID_OUT (ses_id_static_out p) of
                Some i \<Rightarrow> take_id False p i
              | None \<Rightarrow> (-1, p))))"

definition session_idRelease :: "id_pool \<Rightarrow> int \<Rightarrow> int \<times> id_pool" where
  "session_idRelease p sid =
     (if sid < int SESSION_ID_IN \<or> sid \<ge> int SESSION_ID_IN + int SESSION_ID_CNT then (-1, p)
      else if session_id_array p ! nat sid = 0 then (-2, p)
      else (0, p\<lparr>session_id_array := (session_id_array p)[nat sid := 0]\<rparr>))"

definition id_pool_ok :: "id_pool \<Rightarrow> bool" where
  "id_pool_ok p \<longleftrightarrow> length (session_id_array p) = SESSION_ID_CNT \<and>
     ses_id_static_in p \<le> SESSION_ID_OUT \<and>
     SESSION_ID_OUT \<le> ses_id_static_out p \<and> ses_id_static_out p \<le> SESSION_ID_CNT"

text \<open>The region of a direction: incoming identifiers below 1024, outgoing from there on.\<close>

definition id_handles :: "bool \<Rightarrow> int set" where
  "id_handles inward = (if inward then {0 ..< 1024} else {1024 ..< 2048})"

definition ids_used :: "bool \<Rightarrow> id_pool \<Rightarrow> int set" where
  "ids_used inward p = {h \<in> id_handles inward. session_id_array p ! nat h \<noteq> 0}"

lemma ids_used_iff: "h \<in> ids_used d p \<longleftrightarrow> h \<in> id_handles d \<and> session_id_array p ! nat h \<noteq> 0"
  by (simp add: ids_used_def)

lemma id_handles_range: "h \<in> id_handles d \<Longrightarrow> 0 \<le> h \<and> h < 2048"
  by (auto simp: id_handles_def split: if_splits)

lemma id_handles_disjoint: "h \<in> id_handles d \<Longrightarrow> h \<in> id_handles e \<Longrightarrow> d = e"
  by (auto simp: id_handles_def split: if_splits)

lemma ids_used_update:
  assumes "id_pool_ok p" "session_id_array p' = (session_id_array p)[i := v]" "i < 2048"
  shows "h \<in> ids_used d p' \<longleftrightarrow>
    h \<in> id_handles d \<and> (if h = int i then v \<noteq> 0 else session_id_array p ! nat h \<noteq> 0)"
proof (cases "h \<in> id_handles d")
  case True
  then have "0 \<le> h" using id_handles_range by blast
  moreover have "i < length (session_id_array p)" using assms(1,3) by (simp add: id_pool_ok_def)
  ultimately show ?thesis using True by (simp add: ids_used_iff assms(2) nth_list_update nat_eq_iff)
qed (simp add: ids_used_iff)

lemma take_id_used:
  assumes "id_pool_ok p" "int i \<in> id_handles d" "take_id d p i = (h, p')"
  shows "h = int i" "ids_used d p' = insert h (ids_used d p)" "id_pool_ok p'"
    and "ids_used (\<not> d) p' = ids_used (\<not> d) p"
proof -
  show h: "h = int i" using assms(3) by (simp add: take_id_def Let_def)
  have p': "session_id_array p' = (session_id_array p)[i := 1]"
    using assms(3) by (auto simp: take_id_def Let_def)
  have i: "i < 2048" using id_handles_range [OF assms(2)] by simp
  note update = ids_used_update [OF assms(1) p' i]
  show "ids_used d p' = insert h (ids_used d p)"
    by (rule set_eqI) (simp only: update insert_iff, use assms(2) in \<open>simp add: ids_used_iff h\<close>)
  show "ids_used (\<not> d) p' = ids_used (\<not> d) p"
    using id_handles_disjoint [OF assms(2), of "\<not> d"]
    by (intro set_eqI) (simp only: update, auto simp: ids_used_iff)
  show "id_pool_ok p'" using assms
    by (auto simp: take_id_def Let_def id_pool_ok_def id_handles_def split: if_splits)
qed

lemma session_idGetNext_cases:
  assumes "id_pool_ok p"
  obtains (full) "ids_used d p = id_handles d" "session_idGetNext d p = (-1, p)"
  | (id) i where "session_idGetNext d p = take_id d p i" "int i \<in> id_handles d" "session_id_array p ! i = 0"
proof -
  define lo mid hi where bounds: "lo = (if d then 0 else 1024 :: nat)"
    "mid = (if d then ses_id_static_in p else ses_id_static_out p)" "hi = (if d then 1024 else 2048 :: nat)"
  let ?scan = "scan_free (session_id_array p)"
  have eq: "session_idGetNext d p = (case ?scan mid hi of Some i \<Rightarrow> take_id d p i
      | None \<Rightarrow> (case ?scan lo mid of Some i \<Rightarrow> take_id d p i | None \<Rightarrow> (-1, p)))"
    by (cases d) (simp_all add: session_idGetNext_def bounds cong: option.case_cong)
  have range: "lo \<le> mid" "mid \<le> hi" using assms by (auto simp: bounds id_pool_ok_def)
  have handles: "h \<in> id_handles d \<longleftrightarrow> int lo \<le> h \<and> h < int hi" for h
    by (auto simp: id_handles_def bounds)
  show ?thesis
  proof (cases "?scan mid hi")
    case (Some i)
    with scan_free_SomeD [OF Some] id [of i] range handles show ?thesis by (simp add: eq)
  next
    case none: None
    show ?thesis
    proof (cases "?scan lo mid")
      case (Some i)
      with none scan_free_SomeD [OF Some] id [of i] range handles show ?thesis by (simp add: eq)
    next
      case None
      have "session_id_array p ! nat h \<noteq> 0" if "h \<in> id_handles d" for h
      proof (cases "nat h < mid")
        case True
        with that [unfolded handles] show ?thesis
          by (intro scan_free_NoneD [OF None]) linarith+
      next
        case False
        with that [unfolded handles] show ?thesis
          by (intro scan_free_NoneD [OF none]) linarith+
      qed
      with None none full show ?thesis by (auto simp: eq ids_used_def)
    qed
  qed
qed

lemma session_idRelease_used:
  assumes "id_pool_ok p"
  shows "ids_used d (snd (session_idRelease p h)) = ids_used d p - {h}"
    and "id_pool_ok (snd (session_idRelease p h))"
    and "h \<in> ids_used d p \<Longrightarrow> fst (session_idRelease p h) = 0"
proof -
  show "id_pool_ok (snd (session_idRelease p h))"
    using assms by (simp add: session_idRelease_def id_pool_ok_def)
  show "h \<in> ids_used d p \<Longrightarrow> fst (session_idRelease p h) = 0"
    using id_handles_range [of h d] by (auto simp: session_idRelease_def ids_used_iff)
  show "ids_used d (snd (session_idRelease p h)) = ids_used d p - {h}"
  proof (cases "0 \<le> h \<and> h < 2048 \<and> session_id_array p ! nat h \<noteq> 0")
    case True
    let ?p' = "p\<lparr>session_id_array := (session_id_array p)[nat h := 0]\<rparr>"
    have "snd (session_idRelease p h) = ?p'" using True by (simp add: session_idRelease_def)
    moreover have "session_id_array ?p' = (session_id_array p)[nat h := 0]" "nat h < 2048"
      using True by (simp, linarith)
    note ids_used_update [OF assms this]
    then have "x \<in> ids_used d ?p' \<longleftrightarrow> x \<in> ids_used d p - {h}" for x
      using True by (simp add: ids_used_iff [of _ _ p])
    ultimately show ?thesis by auto
  next
    case False
    then have "h \<notin> ids_used d p" using id_handles_range [of h d] by (auto simp: ids_used_iff)
    moreover have "snd (session_idRelease p h) = p" using False by (auto simp: session_idRelease_def)
    ultimately show ?thesis by simp
  qed
qed

lemma ids_allocator:
  "slot_allocator (session_idGetNext d) session_idRelease (ids_used d) (id_handles d) id_pool_ok"
proof unfold_locales
  show "finite (id_handles d)" by (simp add: id_handles_def)
  show "h \<in> id_handles d \<Longrightarrow> 0 \<le> h" for h using id_handles_range by blast
  show "id_pool_ok s \<Longrightarrow> ids_used d s \<subseteq> id_handles d" for s by (auto simp: ids_used_def)
  show "session_idGetNext d s = (-1, s)" if s: "id_pool_ok s" and full: "ids_used d s = id_handles d" for s
  proof (cases rule: session_idGetNext_cases [OF s, of d])
    case (2 i)
    with full have "int i \<in> ids_used d s" by simp
    with 2(3) show ?thesis by (simp add: ids_used_iff)
  qed
  show "\<exists>h s'. session_idGetNext d s = (h, s') \<and> h \<in> id_handles d - ids_used d s \<and>
      ids_used d s' = insert h (ids_used d s) \<and> id_pool_ok s'"
    if s: "id_pool_ok s" and free: "ids_used d s \<noteq> id_handles d" for s
  proof (cases rule: session_idGetNext_cases [OF s, of d])
    case (2 i)
    obtain h s' where t: "take_id d s i = (h, s')" by force
    note u = take_id_used [OF s 2(2) t]
    have "h \<in> id_handles d - ids_used d s" using 2 u(1) by (simp add: ids_used_iff)
    with 2(1) t u(2,3) show ?thesis by auto
  qed (use free in simp)
  show "\<exists>s'. session_idRelease s h = (0, s') \<and> ids_used d s' = ids_used d s - {h} \<and> id_pool_ok s'"
    if "id_pool_ok s" "h \<in> ids_used d s" for s h
    using session_idRelease_used(1) [OF that(1), of d h] session_idRelease_used(2) [OF that(1), of h]
      session_idRelease_used(3) [OF that] by (intro exI [of _ "snd (session_idRelease s h)"]) (simp add: prod_eq_iff)
  show "ids_used d (snd (session_idRelease s h)) = ids_used d s \<and> id_pool_ok (snd (session_idRelease s h))"
    if "id_pool_ok s" "h \<notin> ids_used d s" for s h
    using session_idRelease_used(1) [OF that(1), of d h] session_idRelease_used(2) [OF that(1), of h] that(2) by simp
qed

interpretation in_ids: slot_allocator "session_idGetNext True" session_idRelease
    "ids_used True" "id_handles True" id_pool_ok
  by (rule ids_allocator)

interpretation out_ids: slot_allocator "session_idGetNext False" session_idRelease
    "ids_used False" "id_handles False" id_pool_ok
  by (rule ids_allocator)

text \<open>The two directions do not disturb each other.\<close>

lemma session_idGetNext_other:
  assumes "id_pool_ok p"
  shows "ids_used (\<not> d) (snd (session_idGetNext d p)) = ids_used (\<not> d) p"
proof (cases rule: session_idGetNext_cases [OF assms, of d])
  case (2 i)
  obtain h p' where "take_id d p i = (h, p')" by force
  with take_id_used(4) [OF assms 2(2)] 2(1) show ?thesis by simp
qed simp

text \<open>Histories that mix both directions, from the zero-initialised array.\<close>

datatype id_op = Get_id bool | Put_id int

primrec id_run :: "id_pool \<Rightarrow> int set \<Rightarrow> id_op list \<Rightarrow> id_pool \<times> int set" where
  "id_run p held [] = (p, held)"
| "id_run p held (op # ops) =
     (case op of
        Get_id d \<Rightarrow> (case session_idGetNext d p of (h, p') \<Rightarrow>
                      id_run p' (if h < 0 then held else insert h held) ops)
      | Put_id h \<Rightarrow> id_run (snd (session_idRelease p h)) (held - {h}) ops)"

definition all_ids_used :: "id_pool \<Rightarrow> int set" where
  "all_ids_used p = ids_used True p \<union> ids_used False p"

lemma all_ids_used_dir: "all_ids_used p = ids_used d p \<union> ids_used (\<not> d) p"
  by (cases d) (auto simp: all_ids_used_def)

lemma all_ids_used_get:
  assumes "id_pool_ok p" "session_idGetNext d p = (h, p')"
  shows "id_pool_ok p'" "all_ids_used p' = (if h < 0 then all_ids_used p else insert h (all_ids_used p))"
proof -
  have alloc: "slot_allocator (session_idGetNext d) session_idRelease (ids_used d) (id_handles d) id_pool_ok"
    by (rule ids_allocator)
  show "id_pool_ok p'" using slot_allocator.alloc_ok [OF alloc assms(1)] assms(2) by simp
  show "all_ids_used p' = (if h < 0 then all_ids_used p else insert h (all_ids_used p))"
    using slot_allocator.alloc_eq [OF alloc assms(1)] session_idGetNext_other [OF assms(1), of d] assms(2)
    by (simp add: all_ids_used_dir [of _ d])
qed

lemma id_run_held:
  "id_pool_ok p \<Longrightarrow> id_run p (all_ids_used p) ops = (p', held) \<Longrightarrow> id_pool_ok p' \<and> all_ids_used p' = held"
proof (induction ops arbitrary: p)
  case (Cons op ops)
  show ?case
  proof (cases op)
    case (Get_id d)
    obtain h t where t: "session_idGetNext d p = (h, t)" by force
    note g = all_ids_used_get [OF Cons.prems(1) t]
    from Cons.prems(2) Get_id t Cons.IH [OF g(1)] show ?thesis by (simp add: g(2) split: if_splits)
  next
    case (Put_id h)
    have "all_ids_used (snd (session_idRelease p h)) = all_ids_used p - {h}"
      using session_idRelease_used(1) [OF Cons.prems(1)] by (auto simp: all_ids_used_def)
    with Cons.prems(2) Put_id Cons.IH [OF session_idRelease_used(2) [OF Cons.prems(1)], of h] show ?thesis
      by simp
  qed
qed simp

lemma id_pool_init_ok: "id_pool_ok id_pool_init" "all_ids_used id_pool_init = {}"
proof -
  show "id_pool_ok id_pool_init" by (simp add: id_pool_init_def id_pool_ok_def)
  have "session_id_array id_pool_init ! nat h = 0" if "h \<in> id_handles d" for h d
    using id_handles_range [OF that] by (simp add: id_pool_init_def nat_less_iff)
  then show "all_ids_used id_pool_init = {}" by (auto simp: all_ids_used_def ids_used_iff)
qed

text \<open>
  Property C38. After any history of allocations in both directions and releases,
  session_idGetNext returns an identifier of the region of its direction that nobody
  holds, or -1 exactly when the whole region is held.
\<close>

theorem id_history_exclusive:
  assumes "id_run id_pool_init {} ops = (p, held)"
  shows "if id_handles d \<subseteq> held then session_idGetNext d p = (-1, p)
    else fst (session_idGetNext d p) \<in> id_handles d - held"
proof -
  have p: "id_pool_ok p" "all_ids_used p = held"
    using id_run_held [of id_pool_init ops p held] assms id_pool_init_ok by simp_all
  have used: "id_handles d \<inter> held = ids_used d p"
    using p(2) id_handles_disjoint [of _ d "\<not> d"] by (auto simp: all_ids_used_dir [of p d] ids_used_def)
  show ?thesis
  proof (cases rule: session_idGetNext_cases [OF p(1), of d])
    case 1
    with used show ?thesis by auto
  next
    case (2 i)
    have "int i \<notin> ids_used d p" using 2(3) by (simp add: ids_used_iff)
    with 2(2) have "int i \<notin> held" unfolding used [symmetric] by blast
    with 2 show ?thesis by (auto simp: take_id_def Let_def)
  qed
qed

theorem id_history_exclusive_witness:
  "fst (session_idGetNext False (fst (id_run id_pool_init {} [Get_id False]))) \<in> id_handles False - {1024}"
proof -
  have "\<exists>p. id_run id_pool_init {} [Get_id False] = (p, {1024})"
    by (simp add: id_pool_init_def session_idGetNext_def scan_free_def take_id_def Let_def upt_conv_Cons)
  then obtain p where p: "id_run id_pool_init {} [Get_id False] = (p, {1024})" by blast
  have "\<not> id_handles False \<subseteq> {1024 :: int}"
  proof
    assume "id_handles False \<subseteq> {1024 :: int}"
    moreover have "(1025 :: int) \<in> id_handles False" by (simp add: id_handles_def)
    ultimately show False by auto
  qed
  with id_history_exclusive [OF p, of False] p show ?thesis by simp
qed

end
