(* ===== verification/C_Library.thy ===== *)
theory C_Library
  imports Fax_Prelude "HOL-Library.Char_ord"
begin

text \<open>
  The functions of the C library that the signalling code calls, on strings of characters
  without the closing NUL: character classes, \<open>sscanf\<close> with \<open>%s\<close> conversions,
  \<open>strtoul\<close>, \<open>strchr\<close>, \<open>strncpy\<close>, \<open>snprintf\<close>, \<open>inet_addr\<close> and
  \<open>inet_ntoa\<close>. A memory region is a list of characters. Addresses are in host byte
  order: the calls of \<open>htonl\<close> and \<open>ntohl\<close> that surround the two conversions cancel.
\<close>

section \<open>Strings in memory\<close>

abbreviation (input) NUL :: char where "NUL \<equiv> CHR 0x00"

text \<open>The string at offset \<open>p\<close>; \<open>None\<close> when the region ends before a NUL is met.\<close>

definition c_string :: "string \<Rightarrow> nat \<Rightarrow> string option" where
  "c_string mem p =
     (if NUL \<in> set (drop p mem) then Some (takeWhile (\<lambda>c. c \<noteq> NUL) (drop p mem)) else None)"

definition c_isspace :: "char \<Rightarrow> bool" where
  "c_isspace c \<longleftrightarrow> (of_char c :: nat) \<in> {9, 10, 11, 12, 13, 32}"

definition c_isdigit :: "char \<Rightarrow> bool" where
  "c_isdigit c \<longleftrightarrow> 48 \<le> (of_char c :: nat) \<and> (of_char c :: nat) \<le> 57"

text \<open>\<open>strncpy\<close>: the string, padded with NUL, cut at \<open>n\<close>. \<open>sprintf\<close>: must fit.\<close>

definition c_strncpy :: "string \<Rightarrow> nat \<Rightarrow> string" where
  "c_strncpy s n = take n (s @ replicate n NUL)"

definition c_sprintf :: "nat \<Rightarrow> string \<Rightarrow> string option" where
  "c_sprintf cap s = (if length s < cap then Some s else None)"

text \<open>\<open>snprintf\<close>: the length the text has, and the part of it that is stored.\<close>

definition c_snprintf :: "nat \<Rightarrow> string \<Rightarrow> int \<times> string" where
  "c_snprintf cap s = (int (length s), take (cap - 1) s)"

text \<open>\<open>strchr (s, c)\<close>: what is before and what is after the first \<open>c\<close>.\<close>

definition c_strchr :: "string \<Rightarrow> char \<Rightarrow> (string \<times> string) option" where
  "c_strchr s c =
     (if c \<in> set s
      then Some (takeWhile (\<lambda>x. x \<noteq> c) s, tl (dropWhile (\<lambda>x. x \<noteq> c) s))
      else None)"

text \<open>The words between white space, which is what successive \<open>%s\<close> conversions read.\<close>

function c_words :: "string \<Rightarrow> string list" where
  "c_words [] = []"
| "c_words (c # cs) =
     (if c_isspace c then c_words cs
      else (c # takeWhile (\<lambda>x. \<not> c_isspace x) cs) # c_words (dropWhile (\<lambda>x. \<not> c_isspace x) cs))"
  by pat_completeness auto
termination
  by (relation "measure length") (auto simp: le_imp_less_Suc length_dropWhile_le)

text \<open>
  \<open>sscanf\<close> with one \<open>%s\<close> for each size: the words stored. \<open>None\<close> when a word and its
  NUL do not fit the array it goes to. The result of the call is the number of words, or
  \<open>EOF\<close> when there is none.
\<close>

definition c_sscanf :: "nat list \<Rightarrow> string \<Rightarrow> string list option" where
  "c_sscanf sizes s =
     (let ws = take (length sizes) (c_words s) in
      if list_all2 (\<lambda>w n. length w < n) ws (take (length ws) sizes) then Some ws else None)"

section \<open>Numbers\<close>

fun c_decimal :: "nat \<Rightarrow> string" where
  "c_decimal n = (if n < 10 then [char_of (48 + n)] else c_decimal (n div 10) @ [char_of (48 + n mod 10)])"

declare c_decimal.simps [simp del]

definition digit_value :: "char \<Rightarrow> nat" where
  "digit_value c =
     (let n = (of_char c :: nat) in
      if n \<le> 57 then n - 48 else if n \<le> 70 then n - 55 else n - 87)"

definition is_digit_of :: "nat \<Rightarrow> char \<Rightarrow> bool" where
  "is_digit_of base c \<longleftrightarrow>
     (c_isdigit c \<or> (of_char c :: nat) \<in> {65..70} \<or> (of_char c :: nat) \<in> {97..102}) \<and> digit_value c < base"

definition number_value :: "nat \<Rightarrow> string \<Rightarrow> nat" where
  "number_value base ds = foldl (\<lambda>acc c. base * acc + digit_value c) 0 ds"

text \<open>
  \<open>strtoul (s, NULL, 10)\<close> where \<open>unsigned long\<close> has 64 bits: a leading \<open>-\<close> negates
  modulo $2^{64}$, and what does not fit gives \<open>ULONG_MAX\<close>.
\<close>

definition c_strtoul :: "string \<Rightarrow> nat" where
  "c_strtoul s =
     (let s1 = dropWhile c_isspace s;
          neg = (s1 \<noteq> [] \<and> hd s1 = CHR ''-'');
          ds = (if s1 \<noteq> [] \<and> (hd s1 = CHR ''-'' \<or> hd s1 = CHR ''+'') then tl s1 else s1);
          n = number_value 10 (takeWhile (is_digit_of 10) ds)
      in if n \<ge> 2 ^ 64 then 2 ^ 64 - 1 else if neg then (2 ^ 64 - n) mod 2 ^ 64 else n)"

text \<open>Conversion of an \<open>unsigned long\<close> to a 32-bit \<open>int\<close>.\<close>

definition c_int :: "nat \<Rightarrow> int" where
  "c_int n = (int n + 2 ^ 31) mod 2 ^ 32 - 2 ^ 31"

section \<open>Internet addresses\<close>

definition inet_ntoa :: "int \<Rightarrow> string" where
  "inet_ntoa ip =
     c_decimal (nat (ip div 16777216 mod 256)) @ ''.'' @ c_decimal (nat (ip div 65536 mod 256)) @ ''.'' @
     c_decimal (nat (ip div 256 mod 256)) @ ''.'' @ c_decimal (nat (ip mod 256))"

text \<open>One part: decimal, octal after \<open>0\<close>, hexadecimal after \<open>0x\<close>.\<close>

definition inet_number :: "string \<Rightarrow> (nat \<times> string) option" where
  "inet_number s =
     (if s = [] \<or> \<not> c_isdigit (hd s) then None
      else
        (let (base, ds) =
           (if hd s \<noteq> CHR ''0'' then (10, s)
            else if length s > 2 \<and> (s ! 1 = CHR ''x'' \<or> s ! 1 = CHR ''X'') \<and> is_digit_of 16 (s ! 2)
            then (16, drop 2 s)
            else (8, s));
           v = number_value base (takeWhile (is_digit_of base) ds)
         in if v > 0xFFFFFFFF then None else Some (v, dropWhile (is_digit_of base) ds)))"

text \<open>The parts, with at most \<open>k\<close> more dots; all but the last are octets.\<close>

fun inet_parts :: "nat \<Rightarrow> string \<Rightarrow> (nat list \<times> string) option" where
  "inet_parts k s =
     (case inet_number s of
        None \<Rightarrow> None
      | Some (v, rest) \<Rightarrow>
          if rest = [] \<or> hd rest \<noteq> CHR ''.'' then Some ([v], rest)
          else
            (case k of
               0 \<Rightarrow> None
             | Suc k' \<Rightarrow>
                 if v > 0xFF then None
                 else map_option (\<lambda>(vs, r). (v # vs, r)) (inet_parts k' (tl rest))))"

declare inet_parts.simps [simp del]

fun inet_combine :: "nat list \<Rightarrow> nat option" where
  "inet_combine [a] = (if a \<le> 0xFFFFFFFF then Some a else None)"
| "inet_combine [a, b] = (if b \<le> 0xFFFFFF then Some (a * 16777216 + b) else None)"
| "inet_combine [a, b, c] = (if c \<le> 0xFFFF then Some (a * 16777216 + b * 65536 + c) else None)"
| "inet_combine [a, b, c, d] =
     (if d \<le> 0xFF then Some (a * 16777216 + b * 65536 + c * 256 + d) else None)"
| "inet_combine _ = None"

text \<open>\<open>ntohl (inet_addr (s))\<close>: \<open>INADDR_NONE\<close> for a string that is no address.\<close>

definition inet_addr :: "string \<Rightarrow> int" where
  "inet_addr s =
     (case inet_parts 3 s of
        None \<Rightarrow> 0xFFFFFFFF
      | Some (vs, rest) \<Rightarrow>
          if rest \<noteq> [] \<and> \<not> c_isspace (hd rest) then 0xFFFFFFFF
          else (case inet_combine vs of None \<Rightarrow> 0xFFFFFFFF | Some v \<Rightarrow> int v))"

section \<open>Facts about decimals\<close>

lemma c_decimal_digits: "c \<in> set (c_decimal n) \<Longrightarrow> c_isdigit c"
proof (induction n rule: c_decimal.induct)
  case (1 n)
  have "c_isdigit (char_of (48 + m))" if "m < 10" for m :: nat
    using that by (simp add: c_isdigit_def)
  with 1 show ?case by (subst (asm) (2) c_decimal.simps) (auto split: if_splits)
qed

lemma c_decimal_not_Nil [simp]: "c_decimal n \<noteq> []"
  by (simp add: c_decimal.simps [of n])

lemma c_isdigit_digit_of [simp]: "c_isdigit c \<Longrightarrow> is_digit_of 10 c"
  by (auto simp: c_isdigit_def is_digit_of_def digit_value_def)

lemma number_value_append [simp]:
  "number_value b (xs @ [x]) = b * number_value b xs + digit_value x"
  by (simp add: number_value_def)

lemma digit_value_char: "m < 10 \<Longrightarrow> digit_value (char_of (48 + m)) = m"
  by (simp add: digit_value_def)

lemma number_value_decimal: "number_value 10 (c_decimal n) = n"
proof (induction n rule: c_decimal.induct)
  case (1 n)
  show ?case
  proof (cases "n < 10")
    case True
    then show ?thesis by (simp add: c_decimal.simps [of n] digit_value_char number_value_def)
  next
    case False
    then have "number_value 10 (c_decimal n) = 10 * (n div 10) + n mod 10"
      using 1 by (simp add: c_decimal.simps [of n] digit_value_char)
    then show ?thesis by simp
  qed
qed

lemma c_decimal_hd: "0 < n \<Longrightarrow> hd (c_decimal n) \<noteq> CHR ''0''"
proof (induction n rule: c_decimal.induct)
  case (1 n)
  show ?case
  proof (cases "n < 10")
    case True
    then have "digit_value (hd (c_decimal n)) = n"
      by (simp add: c_decimal.simps [of n] digit_value_char)
    moreover have "digit_value CHR ''0'' = 0" by (simp add: digit_value_def)
    ultimately show ?thesis using 1(2) by auto
  next
    case False
    then show ?thesis using 1 by (simp add: c_decimal.simps [of n])
  qed
qed

lemma c_decimal_zero: "c_decimal 0 = ''0''"
  by code_simp

lemma length_c_decimal: "n < 10 ^ k \<Longrightarrow> 0 < k \<Longrightarrow> length (c_decimal n) \<le> k"
proof (induction k arbitrary: n)
  case (Suc k)
  show ?case
  proof (cases "n < 10")
    case False
    with Suc.prems have "n div 10 < 10 ^ k" "0 < k" by (auto simp: less_mult_imp_div_less intro: ccontr)
    from Suc.IH [OF this] False show ?thesis by (simp add: c_decimal.simps [of n])
  qed (simp add: c_decimal.simps [of n])
qed simp


lemma takeWhile_digits:
  "takeWhile (is_digit_of 10) (c_decimal n @ rest) = c_decimal n @ takeWhile (is_digit_of 10) rest"
  "dropWhile (is_digit_of 10) (c_decimal n @ rest) = dropWhile (is_digit_of 10) rest"
  by (simp_all add: c_decimal_digits takeWhile_append2 dropWhile_append2)

lemma c_isdigit_not_space: "c_isdigit c \<Longrightarrow> \<not> c_isspace c"
  by (auto simp: c_isdigit_def c_isspace_def)

lemma c_decimal_no_space: "c \<in> set (c_decimal n) \<Longrightarrow> \<not> c_isspace c"
  by (blast dest: c_decimal_digits c_isdigit_not_space)

lemma hd_decimal_digit: "c_isdigit (hd (c_decimal n))"
  using c_decimal_digits [of "hd (c_decimal n)" n] by simp

lemma takeWhile_decimal [simp]: "takeWhile (is_digit_of 10) (c_decimal n) = c_decimal n"
  using takeWhile_digits(1) [of n "[]"] by simp

lemma c_strtoul_decimal:
  assumes "n < 2 ^ 64"
  shows "c_strtoul (c_decimal n) = n"
proof -
  have d: "c_isdigit (hd (c_decimal n))" by (rule hd_decimal_digit)
  have "dropWhile c_isspace (c_decimal n) = c_decimal n"
    by (rule dropWhile_eq_self_iff [THEN iffD2]) (use d c_isdigit_not_space in auto)
  moreover have "hd (c_decimal n) \<noteq> CHR ''-''" "hd (c_decimal n) \<noteq> CHR ''+''"
    using d by (auto simp: c_isdigit_def)
  ultimately show ?thesis
    using assms by (simp add: c_strtoul_def Let_def number_value_decimal)
qed

lemma inet_number_decimal:
  assumes "n < 256" "rest = [] \<or> \<not> c_isdigit (hd rest)" "rest = [] \<or> hd rest \<notin> {CHR ''x'', CHR ''X''}"
  shows "inet_number (c_decimal n @ rest) = Some (n, rest)"
proof (cases "n = 0")
  case True
  have not8: "rest = [] \<or> \<not> is_digit_of 8 (hd rest)"
    using assms(2) by (auto simp: is_digit_of_def c_isdigit_def digit_value_def Let_def)
  have z: "is_digit_of 8 CHR ''0''" "c_isdigit CHR ''0''" "digit_value CHR ''0'' = 0"
    by (simp_all add: is_digit_of_def c_isdigit_def digit_value_def)
  have oct: "takeWhile (is_digit_of 8) (CHR ''0'' # rest) = ''0''"
    "dropWhile (is_digit_of 8) (CHR ''0'' # rest) = rest"
    using not8 z by (cases rest; simp)+
  have "\<not> (length (CHR ''0'' # rest) > 2 \<and> ((CHR ''0'' # rest) ! 1 = CHR ''x'' \<or>
      (CHR ''0'' # rest) ! 1 = CHR ''X'') \<and> is_digit_of 16 ((CHR ''0'' # rest) ! 2))"
    using assms(3) by (cases rest) auto
  note dec = if_not_P [OF this]
  have "number_value 8 ''0'' = 0" by (simp add: number_value_def z)
  with oct show ?thesis
    unfolding inet_number_def c_decimal_zero True append_Cons append_Nil dec using z by simp
next
  case False
  then have hd: "hd (c_decimal n) \<noteq> CHR ''0''" using c_decimal_hd by simp
  have not10: "rest = [] \<or> \<not> is_digit_of 10 (hd rest)"
    using assms(2) by (auto simp: is_digit_of_def c_isdigit_def digit_value_def Let_def split: if_splits)
  then have "takeWhile (is_digit_of 10) rest = []" "dropWhile (is_digit_of 10) rest = rest"
    by (cases rest; simp)+
  then show ?thesis using hd hd_decimal_digit assms(1)
    by (simp add: inet_number_def takeWhile_digits number_value_decimal hd_append)
qed

lemma inet_combine_four:
  "d \<le> 255 \<Longrightarrow> int a * 16777216 + int b * 65536 + int c * 256 + int d = ip \<Longrightarrow>
   \<exists>v. inet_combine [a, b, c, d] = Some v \<and> int v = ip"
  by simp

lemma inet_combine_octets:
  assumes "0 \<le> ip" "ip < 2 ^ 32"
  shows "(\<exists>v. inet_combine [nat (ip div 16777216 mod 256), nat (ip div 65536 mod 256),
     nat (ip div 256 mod 256), nat (ip mod 256)] = Some v \<and> int v = ip)"
proof -
  have top: "ip div 16777216 mod 256 = ip div 16777216"
  proof (rule mod_pos_pos_trivial)
    show "0 \<le> ip div 16777216" using assms by simp
    show "ip div 16777216 < 256" using assms by (simp add: div_less_iff_less_mult)
  qed
  have split: "x = 256 * (x div 256) + x mod 256" for x :: int by simp
  have "ip div 256 div 256 = ip div 65536" "ip div 65536 div 256 = ip div 16777216"
    using zdiv_zmult2_eq [of 256 ip 256] zdiv_zmult2_eq [of 256 ip 65536] by simp_all
  note two = this
  have "ip div 16777216 mod 256 * 16777216 + ip div 65536 mod 256 * 65536 +
      ip div 256 mod 256 * 256 + ip mod 256 = ip"
    using split [of ip] split [of "ip div 256"] split [of "ip div 65536"] unfolding top two by linarith
  moreover have "nat (ip mod 256) \<le> 255" by (simp add: nat_le_iff)
  moreover have "int (nat (x mod 256)) = x mod 256" for x :: int by simp
  ultimately show ?thesis by (intro inet_combine_four) (simp_all only:)
qed

theorem inet_addr_ntoa:
  assumes "0 \<le> ip" "ip < 2 ^ 32"
  shows "inet_addr (inet_ntoa ip) = ip"
proof -
  let ?a = "nat (ip div 16777216 mod 256)" and ?b = "nat (ip div 65536 mod 256)"
    and ?c = "nat (ip div 256 mod 256)" and ?d = "nat (ip mod 256)"
  have lt: "nat (x mod 256) < 256" for x :: int by (simp add: nat_less_iff)
  have dot: "\<not> c_isdigit CHR ''.''" by (simp add: c_isdigit_def)
  have p0: "inet_parts 0 (c_decimal ?d) = Some ([?d], [])"
    using inet_number_decimal [OF lt, of "[]" ip] by (simp add: inet_parts.simps [of 0])
  have step: "inet_parts (Suc k) (c_decimal (nat (x mod 256)) @ ''.'' @ s) =
      map_option (\<lambda>(vs, r). (nat (x mod 256) # vs, r)) (inet_parts k s)" for k x s
    using inet_number_decimal [OF lt, of "''.'' @ s" x] dot lt [of x]
    by (simp add: inet_parts.simps [of "Suc k"])
  have "inet_parts 3 (inet_ntoa ip) = Some ([?a, ?b, ?c, ?d], [])"
    unfolding inet_ntoa_def numeral_3_eq_3 step p0 by simp
  moreover obtain v where "inet_combine [?a, ?b, ?c, ?d] = Some v" "int v = ip"
    using inet_combine_octets [OF assms] by blast
  ultimately show ?thesis unfolding inet_addr_def by simp
qed

end
