(* ===== verification/Msg_Proc.thy ===== *)
theory Msg_Proc
  imports C_Library
begin

text \<open>
  Signalling messages: \<^verbatim>\<open>src/msg_proc.c\<close> with the types of
  \<^verbatim>\<open>include/msg_proc.h\<close>. The C structures share a header (\<open>sig_message_t\<close>: type
  tag and \<open>call_id\<close>) followed by what the type needs: here \<open>sig_message\<close> with a body.
  A field the code leaves indeterminate is \<open>None\<close>, and reading it is not defined.
\<close>

section \<open>Types\<close>

datatype fax_mode = FAX_MODE_UNKNOWN | FAX_MODE_GW_GW | FAX_MODE_GW_TERM

datatype sig_msg_type = FAX_MSG_SETUP | FAX_MSG_OK | FAX_MSG_RELEASE | FAX_MSG_ERROR

datatype sig_msg_error = FAX_ERROR_UNKNOWN | FAX_ERROR_INTERNAL | FAX_ERROR_INVALID_MESSAGE

record sig_message_setup =
  src_ip :: int
  src_port :: int
  dst_ip :: "int option"
  dst_port :: "int option"
  fax_mode :: fax_mode

record sig_message_ok =
  ok_ip :: int
  ok_port :: int

datatype sig_body =
    Setup sig_message_setup
  | Ok sig_message_ok
  | Rel
  | Error sig_msg_error

record sig_message =
  call_id :: string
  body :: sig_body

abbreviation (input) MSG_BUF_LEN :: nat where "MSG_BUF_LEN \<equiv> 256"
abbreviation (input) MSG_PRINT_BUF_LEN :: nat where "MSG_PRINT_BUF_LEN \<equiv> 512"
abbreviation (input) CALL_ID_SIZE :: nat where "CALL_ID_SIZE \<equiv> 32"

fun msg_type :: "sig_body \<Rightarrow> sig_msg_type" where
  "msg_type (Setup _) = FAX_MSG_SETUP"
| "msg_type (Ok _) = FAX_MSG_OK"
| "msg_type Rel = FAX_MSG_RELEASE"
| "msg_type (Error _) = FAX_MSG_ERROR"

section \<open>Names\<close>

fun msg_faxModeStr :: "fax_mode \<Rightarrow> string" where
  "msg_faxModeStr FAX_MODE_GW_GW = ''GG''"
| "msg_faxModeStr FAX_MODE_GW_TERM = ''GT''"
| "msg_faxModeStr FAX_MODE_UNKNOWN = ''UN''"

fun sig_msgTypeStr :: "sig_msg_type \<Rightarrow> string" where
  "sig_msgTypeStr FAX_MSG_SETUP = ''SETUP''"
| "sig_msgTypeStr FAX_MSG_OK = ''OK''"
| "sig_msgTypeStr FAX_MSG_RELEASE = ''RELEASE''"
| "sig_msgTypeStr FAX_MSG_ERROR = ''ERROR''"

fun msg_errStr :: "sig_msg_error \<Rightarrow> string" where
  "msg_errStr FAX_ERROR_INTERNAL = ''INTERNAL_ERR''"
| "msg_errStr FAX_ERROR_INVALID_MESSAGE = ''INVALID_MSG_ERR''"
| "msg_errStr FAX_ERROR_UNKNOWN = ''UNKNOWN_ERR''"

text \<open>
  \<open>IP2STR_MAX\<close> is 4, but \<open>ip_str\<close> has two elements: for 2 and 3 the copy leaves the
  array.
\<close>

definition ip2str :: "int \<Rightarrow> int \<Rightarrow> string option" where
  "ip2str ip n =
     (if n < 0 \<or> n \<ge> 4 then Some []
      else if n \<ge> 2 then None
      else c_sprintf 64 (inet_ntoa ip))"

section \<open>Creating messages\<close>

text \<open>
  \<open>mem_ok\<close> says that \<open>calloc\<close> succeeds, \<open>have_msg\<close> that the output pointer is not
  \<open>NULL\<close>; the second component of the result is what the output pointer is set to.
  \<open>strcpy\<close> into \<open>call_id\<close> must fit its 32 characters.
\<close>

definition new_message ::
    "bool \<Rightarrow> string option \<Rightarrow> bool \<Rightarrow> sig_body \<Rightarrow> (int \<times> sig_message option) option" where
  "new_message mem_ok cid have_msg b =
     (case cid of
        None \<Rightarrow> Some (-1, None)
      | Some c \<Rightarrow>
          if \<not> have_msg then Some (-1, None)
          else if \<not> mem_ok then Some (-2, None)
          else map_option (\<lambda>t. (0, Some \<lparr>call_id = t, body = b\<rparr>)) (c_sprintf CALL_ID_SIZE c))"

definition sig_msgCreateSetup ::
    "bool \<Rightarrow> string option \<Rightarrow> int \<Rightarrow> int \<Rightarrow> int \<Rightarrow> int \<Rightarrow> fax_mode \<Rightarrow> bool \<Rightarrow>
     (int \<times> sig_message option) option" where
  "sig_msgCreateSetup mem_ok cid sip sport dip dport m have_msg =
     new_message mem_ok cid have_msg
       (Setup \<lparr>src_ip = sip, src_port = sport, dst_ip = Some dip, dst_port = Some dport,
               fax_mode = m\<rparr>)"

definition sig_msgCreateOk ::
    "bool \<Rightarrow> string option \<Rightarrow> int \<Rightarrow> int \<Rightarrow> bool \<Rightarrow> (int \<times> sig_message option) option" where
  "sig_msgCreateOk mem_ok cid ip port have_msg =
     new_message mem_ok cid have_msg (Ok \<lparr>ok_ip = ip, ok_port = port\<rparr>)"

definition sig_msgCreateRelease ::
    "bool \<Rightarrow> string option \<Rightarrow> bool \<Rightarrow> (int \<times> sig_message option) option" where
  "sig_msgCreateRelease mem_ok cid have_msg = new_message mem_ok cid have_msg Rel"

definition sig_msgCreateError ::
    "bool \<Rightarrow> string option \<Rightarrow> sig_msg_error \<Rightarrow> bool \<Rightarrow> (int \<times> sig_message option) option" where
  "sig_msgCreateError mem_ok cid err have_msg = new_message mem_ok cid have_msg (Error err)"

section \<open>Composing\<close>

abbreviation (input) CRLF :: string where "CRLF \<equiv> [CHR 0x0D, CHR 0x0A]"

text \<open>\<open>%s:%u\<close>\<close>

definition addr_text :: "int \<Rightarrow> int \<Rightarrow> int \<Rightarrow> string option" where
  "addr_text ip n port = map_option (\<lambda>s. s @ '':'' @ c_decimal (nat port)) (ip2str ip n)"

text \<open>
  The results are the value of \<open>snprintf\<close> and what it stored in the local \<open>buf\<close>, whose
  256 characters are indeterminate (\<open>None\<close>) until then.
\<close>

definition msg_bufCreateSetup :: "string \<Rightarrow> sig_message_setup \<Rightarrow> (int \<times> string option) option" where
  "msg_bufCreateSetup cid m =
     (case fax_mode m of
        FAX_MODE_GW_GW \<Rightarrow>
          do {
            dip \<leftarrow> dst_ip m;
            dport \<leftarrow> dst_port m;
            src \<leftarrow> addr_text (src_ip m) 0 (src_port m);
            dst \<leftarrow> addr_text dip 1 dport;
            let (len, s) = c_snprintf MSG_BUF_LEN
              (sig_msgTypeStr FAX_MSG_SETUP @ '' '' @ cid @ '' '' @ msg_faxModeStr (fax_mode m)
                 @ '' '' @ src @ '' '' @ dst @ CRLF);
            Some (len, Some s)
          }
      | FAX_MODE_GW_TERM \<Rightarrow>
          do {
            src \<leftarrow> addr_text (src_ip m) 0 (src_port m);
            let (len, s) = c_snprintf MSG_BUF_LEN
              (sig_msgTypeStr FAX_MSG_SETUP @ '' '' @ cid @ '' '' @ msg_faxModeStr (fax_mode m)
                 @ '' '' @ src @ CRLF);
            Some (len, Some s)
          }
      | FAX_MODE_UNKNOWN \<Rightarrow> Some (0, None))"

definition msg_bufCreateError :: "string \<Rightarrow> sig_msg_error \<Rightarrow> (int \<times> string option) option" where
  "msg_bufCreateError cid err =
     (let (len, s) = c_snprintf MSG_BUF_LEN
        (sig_msgTypeStr FAX_MSG_ERROR @ '' '' @ cid @ '' '' @ msg_errStr err @ CRLF)
      in Some (len, Some s))"

definition msg_bufCreateOk :: "string \<Rightarrow> sig_message_ok \<Rightarrow> (int \<times> string option) option" where
  "msg_bufCreateOk cid m =
     do {
       a \<leftarrow> addr_text (ok_ip m) 0 (ok_port m);
       let (len, s) = c_snprintf MSG_BUF_LEN
         (sig_msgTypeStr FAX_MSG_OK @ '' '' @ cid @ '' '' @ a @ CRLF);
       Some (len, Some s)
     }"

definition msg_bufCreateRelease :: "string \<Rightarrow> (int \<times> string option) option" where
  "msg_bufCreateRelease cid =
     (let (len, s) = c_snprintf MSG_BUF_LEN (sig_msgTypeStr FAX_MSG_RELEASE @ '' '' @ cid @ CRLF)
      in Some (len, Some s))"

definition msg_bufCreate :: "sig_message \<Rightarrow> (int \<times> string option) option" where
  "msg_bufCreate m =
     (case body m of
        Setup x \<Rightarrow> msg_bufCreateSetup (call_id m) x
      | Ok x \<Rightarrow> msg_bufCreateOk (call_id m) x
      | Error e \<Rightarrow> msg_bufCreateError (call_id m) e
      | Rel \<Rightarrow> msg_bufCreateRelease (call_id m))"

text \<open>
  The return value and the \<open>n\<close> characters (\<open>size\<close>) written to \<open>msg_buf\<close>. Copying a local
  buffer that was never written is not defined. The result is the length \<open>snprintf\<close>
  returned; the assignment of \<open>-2\<close> for an unknown type is overwritten by it.
\<close>

definition sig_msgCompose ::
    "sig_message option \<Rightarrow> bool \<Rightarrow> nat \<Rightarrow> (int \<times> string option) option" where
  "sig_msgCompose message have_buf n =
     (case message of
        None \<Rightarrow> Some (-1, None)
      | Some m \<Rightarrow>
          if \<not> have_buf \<or> n = 0 then Some (-1, None)
          else do {
            (len, text) \<leftarrow> msg_bufCreate m;
            s \<leftarrow> text;
            Some (len, Some (c_strncpy s n))
          })"

section \<open>Parsing\<close>

text \<open>A port: the value stored in the \<open>uint16_t\<close> field, and whether it is refused.\<close>

definition port_value :: "string \<Rightarrow> int" where
  "port_value port = c_int (c_strtoul port) mod 65536"

definition port_refused :: "string \<Rightarrow> bool" where
  "port_refused port \<longleftrightarrow> c_int (c_strtoul port) = 0 \<or> c_int (c_strtoul port) \<ge> 0xFFFF"

text \<open>
  The payload starts at offset \<open>p\<close> of the memory \<open>mem\<close>. A refused port (\<open>-4\<close>,
  \<open>-7\<close>) does not stop the function: the message is still allocated, which the caller
  undoes. \<open>sscanf\<close> leaves \<open>dst_ip_port_str\<close> indeterminate when it reads two words.
\<close>

definition msg_parseSetup :: "bool \<Rightarrow> string \<Rightarrow> nat \<Rightarrow> (int \<times> sig_message_setup option) option" where
  "msg_parseSetup mem_ok mem p =
     do {
       payload \<leftarrow> c_string mem p;
       ws \<leftarrow> c_sscanf [8, 32, 32] payload;
       if length ws < 2 then Some (-1, None)
       else
         (case c_strchr (ws ! 1) CHR '':'' of
            None \<Rightarrow> Some (-2, None)
          | Some (ip, port) \<Rightarrow>
              if inet_addr ip = 0xFFFFFFFF then Some (-3, None)
              else
                (let ret = (if port_refused port then -4 else 0);
                     msg = \<lparr>src_ip = inet_addr ip, src_port = port_value port, dst_ip = None,
                            dst_port = None, fax_mode = FAX_MODE_UNKNOWN\<rparr> in
                 if ws ! 0 = ''GG'' then
                   (if length ws < 3 then None
                    else
                      (case c_strchr (ws ! 2) CHR '':'' of
                         None \<Rightarrow> Some (-5, None)
                       | Some (dip, dport) \<Rightarrow>
                           if inet_addr dip = 0xFFFFFFFF then Some (-3, None)
                           else
                             (let ret = (if port_refused dport then -7 else ret);
                                  msg = msg\<lparr>fax_mode := FAX_MODE_GW_GW, dst_ip := Some (inet_addr dip),
                                            dst_port := Some (port_value dport)\<rparr> in
                              if \<not> mem_ok then Some (-9, None) else Some (ret, Some msg))))
                 else if ws ! 0 = ''GT'' then
                   (if \<not> mem_ok then Some (-9, None)
                    else Some (ret, Some (msg\<lparr>fax_mode := FAX_MODE_GW_TERM\<rparr>)))
                 else Some (-8, None)))
     }"

definition msg_parseOk :: "bool \<Rightarrow> string \<Rightarrow> nat \<Rightarrow> (int \<times> sig_message_ok option) option" where
  "msg_parseOk mem_ok mem p =
     do {
       payload \<leftarrow> c_string mem p;
       ws \<leftarrow> c_sscanf [32] payload;
       if length ws < 1 then Some (-1, None)
       else
         (case c_strchr (ws ! 0) CHR '':'' of
            None \<Rightarrow> Some (-2, None)
          | Some (ip, port) \<Rightarrow>
              if inet_addr ip = 0xFFFFFFFF then Some (-3, None)
              else if \<not> mem_ok then Some (-5, None)
              else Some (if port_refused port then -4 else 0,
                         Some \<lparr>ok_ip = inet_addr ip, ok_port = port_value port\<rparr>))
     }"

definition msg_parseRelease :: "bool \<Rightarrow> int" where
  "msg_parseRelease mem_ok = (if mem_ok then 0 else -5)"

definition msg_parseError :: "bool \<Rightarrow> string \<Rightarrow> nat \<Rightarrow> (int \<times> sig_msg_error option) option" where
  "msg_parseError mem_ok mem p =
     do {
       payload \<leftarrow> c_string mem p;
       ws \<leftarrow> c_sscanf [64] payload;
       if length ws < 1 then Some (-1, None)
       else if \<not> mem_ok then Some (-2, None)
       else Some (0, Some (if ws ! 0 = ''INTERNAL_ERR'' then FAX_ERROR_INTERNAL
                           else if ws ! 0 = ''INVALID_MSG_ERR'' then FAX_ERROR_INVALID_MESSAGE
                           else FAX_ERROR_UNKNOWN))
     }"

text \<open>The body for the first word, \<open>-3\<close> for a word that is no type.\<close>

definition msg_parseBody :: "bool \<Rightarrow> string \<Rightarrow> string \<Rightarrow> nat \<Rightarrow> (int \<times> sig_body option) option" where
  "msg_parseBody mem_ok ty mem p =
     (if ty = sig_msgTypeStr FAX_MSG_SETUP then
        map_option (\<lambda>(r, m). (if r < 0 then r - 100 else 0, map_option Setup m)) (msg_parseSetup mem_ok mem p)
      else if ty = sig_msgTypeStr FAX_MSG_OK then
        map_option (\<lambda>(r, m). (if r < 0 then r - 100 else 0, map_option Ok m)) (msg_parseOk mem_ok mem p)
      else if ty = sig_msgTypeStr FAX_MSG_ERROR then
        map_option (\<lambda>(r, m). (if r < 0 then r - 100 else 0, map_option Error m)) (msg_parseError mem_ok mem p)
      else if ty = sig_msgTypeStr FAX_MSG_RELEASE then
        (let r = msg_parseRelease mem_ok in Some (if r < 0 then r - 100 else 0, if r < 0 then None else Some Rel))
      else Some (-3, None))"

text \<open>
  The return value and what \<open>*message\<close> is then. \<open>mem\<close> is the memory from \<open>msg_buf\<close> on. A
  refused port returns with the message allocated and its body copied, but before type and
  call id are written: \<open>Headless\<close>. \<open>No_message\<close> is a pointer that is \<open>NULL\<close> or was not
  assigned (the caller initialises it with \<open>NULL\<close>).
\<close>

datatype parse_output = No_message | Headless sig_body | Message sig_message

definition sig_msgParse :: "bool \<Rightarrow> string option \<Rightarrow> bool \<Rightarrow> (int \<times> parse_output) option" where
  "sig_msgParse mem_ok msg_buf have_msg =
     (case msg_buf of
        None \<Rightarrow> Some (-1, No_message)
      | Some mem \<Rightarrow>
          if \<not> have_msg then Some (-1, No_message)
          else do {
            text \<leftarrow> c_string mem 0;
            ws \<leftarrow> c_sscanf [32, CALL_ID_SIZE] text;
            if length ws < 2 then Some (-2, No_message)
            else do {
              (r, b) \<leftarrow> msg_parseBody mem_ok (ws ! 0) mem (length (ws ! 0) + length (ws ! 1) + 2);
              Some (r, case b of
                         None \<Rightarrow> No_message
                       | Some b \<Rightarrow>
                           if r < 0 then Headless b else Message \<lparr>call_id = ws ! 1, body = b\<rparr>)
            }
          })"

section \<open>Printing\<close>

abbreviation (input) TAB :: string where "TAB \<equiv> [CHR 0x09]"
abbreviation (input) NL :: string where "NL \<equiv> [CHR 0x0A]"

definition print_rule :: string where
  "print_rule = TAB @ replicate 61 CHR ''='' @ NL"

definition msg_printSetup :: "sig_message_setup \<Rightarrow> string option" where
  "msg_printSetup m =
     (if fax_mode m = FAX_MODE_GW_GW then
        do {
          dip \<leftarrow> dst_ip m;
          dport \<leftarrow> dst_port m;
          src \<leftarrow> addr_text (src_ip m) 0 (src_port m);
          dst \<leftarrow> addr_text dip 1 dport;
          Some (TAB @ '' src:     '' @ src @ NL @ TAB @ '' dst:     '' @ dst @ NL
                @ TAB @ '' mode:    '' @ msg_faxModeStr (fax_mode m) @ NL)
        }
      else if fax_mode m = FAX_MODE_GW_TERM then
        do {
          src \<leftarrow> addr_text (src_ip m) 0 (src_port m);
          Some (TAB @ '' src:     '' @ src @ NL
                @ TAB @ '' mode:    '' @ msg_faxModeStr (fax_mode m) @ NL)
        }
      else Some [])"

definition msg_printOk :: "sig_message_ok \<Rightarrow> string option" where
  "msg_printOk m =
     map_option (\<lambda>a. TAB @ '' addr:    '' @ a @ NL) (addr_text (ok_ip m) 0 (ok_port m))"

definition msg_printRelease :: string where
  "msg_printRelease = []"

definition msg_printError :: "sig_msg_error \<Rightarrow> string" where
  "msg_printError e = TAB @ '' error:   '' @ msg_errStr e @ NL"

text \<open>
  The text is built in \<open>tmp_buf\<close> with \<open>sprintf\<close> and \<open>strcat\<close>, which must stay within
  its 512 characters, then copied. The result: the return value, and the \<open>len\<close>
  characters written to \<open>buf\<close>.
\<close>

definition sig_msgPrint :: "sig_message option \<Rightarrow> bool \<Rightarrow> nat \<Rightarrow> (int \<times> string option) option" where
  "sig_msgPrint message have_buf len =
     (case message of
        None \<Rightarrow> Some (-1, None)
      | Some m \<Rightarrow>
          if \<not> have_buf then Some (-1, None)
          else do {
            details \<leftarrow> (case body m of
                          Setup x \<Rightarrow> msg_printSetup x
                        | Ok x \<Rightarrow> msg_printOk x
                        | Rel \<Rightarrow> Some msg_printRelease
                        | Error e \<Rightarrow> Some (msg_printError e));
            text \<leftarrow> c_sprintf MSG_PRINT_BUF_LEN
              (sig_msgTypeStr (msg_type (body m)) @ NL @ print_rule @ TAB @ '' call_id: ''
                 @ [CHR 0x27] @ call_id m @ [CHR 0x27] @ NL @ details @ print_rule);
            Some (0, Some (c_strncpy text len))
          })"

end
