(* ===== verification/Msg_Roundtrip.thy ===== *)
theory Msg_Roundtrip
  imports Msg_Proc
begin

text \<open>
  What the signalling messages promise: the text \<open>sig_msgCompose\<close> writes is read back by
  \<open>sig_msgParse\<close>, whatever follows it in the receive buffer; printing fits its buffer;
  and the inputs for which the parser leaves its own buffers or takes a wrong value.
\<close>

section \<open>Words and their lengths\<close>

definition plain_word :: "string \<Rightarrow> bool" where
  "plain_word w \<longleftrightarrow> w \<noteq> [] \<and> (\<forall>c \<in> set w. \<not> c_isspace c \<and> c \<noteq> NUL)"

lemma c_words_word:
  assumes "plain_word w" "rest = [] \<or> c_isspace (hd rest)"
  shows "c_words (w @ rest) = w # c_words rest"
proof -
  obtain x xs where w: "w = x # xs" using assms(1) by (cases w) (auto simp: plain_word_def)
  have ns: "\<forall>c \<in> set xs. \<not> c_isspace c" "\<not> c_isspace x" using assms(1) w by (auto simp: plain_word_def)
  have "takeWhile (\<lambda>c. \<not> c_isspace c) rest = []" "dropWhile (\<lambda>c. \<not> c_isspace c) rest = rest"
    using assms(2) by (cases rest; simp)+
  moreover have "takeWhile (\<lambda>c. \<not> c_isspace c) (xs @ rest) = xs @ takeWhile (\<lambda>c. \<not> c_isspace c) rest"
    "dropWhile (\<lambda>c. \<not> c_isspace c) (xs @ rest) = dropWhile (\<lambda>c. \<not> c_isspace c) rest"
    using ns(1) by (simp_all add: takeWhile_append2 dropWhile_append2)
  ultimately show ?thesis using ns(2) w by simp
qed

lemma isspace_consts [simp]: "c_isspace CHR '' ''" "c_isspace CHR 0x0D" "c_isspace CHR 0x0A"
  by (simp_all add: c_isspace_def)

lemma c_words_space [simp]: "c_isspace c \<Longrightarrow> c_words (c # s) = c_words s"
  by simp

lemma c_string_prefix:
  assumes "NUL \<notin> set text" "NUL \<in> set stale" "p \<le> length text"
  shows "c_string (text @ stale) p = Some (drop p text @ takeWhile (\<lambda>c. c \<noteq> NUL) stale)"
proof -
  have "\<forall>c \<in> set (drop p text). c \<noteq> NUL" using assms(1) by (auto dest: in_set_dropD)
  then show ?thesis using assms by (simp add: c_string_def takeWhile_append2)
qed

lemma c_sscanf_words:
  assumes "c_words s = ws @ us" "length ws = length sizes" "list_all2 (\<lambda>w n. length w < n) ws sizes"
  shows "c_sscanf sizes s = Some ws"
  using assms by (simp add: c_sscanf_def Let_def)

section \<open>Addresses\<close>

definition ip_ok :: "int \<Rightarrow> bool" where
  "ip_ok ip \<longleftrightarrow> 0 \<le> ip \<and> ip < 0xFFFFFFFF"

definition port_ok :: "int \<Rightarrow> bool" where
  "port_ok p \<longleftrightarrow> 1 \<le> p \<and> p < 65535"

definition addr :: "int \<Rightarrow> int \<Rightarrow> string" where
  "addr ip port = inet_ntoa ip @ '':'' @ c_decimal (nat port)"

lemma c_isdigit_plain: "c_isdigit c \<Longrightarrow> \<not> c_isspace c \<and> c \<noteq> NUL \<and> c \<noteq> CHR '':''"
  by (auto simp: c_isdigit_def c_isspace_def)

lemma inet_ntoa_chars: "c \<in> set (inet_ntoa ip) \<Longrightarrow> c_isdigit c \<or> c = CHR ''.''"
  by (auto simp: inet_ntoa_def dest: c_decimal_digits)

lemma length_octet: "length (c_decimal (nat (x mod 256))) \<le> 3"
proof (rule length_c_decimal)
  have "x mod 256 < 256" by simp
  then have "nat (x mod 256) < 256" by (simp add: nat_less_iff)
  then show "nat (x mod 256) < 10 ^ 3" by (rule order_less_trans) simp
qed simp

lemma length_inet_ntoa: "length (inet_ntoa ip) \<le> 15"
  using length_octet [of "ip div 16777216"] length_octet [of "ip div 65536"]
    length_octet [of "ip div 256"] length_octet [of ip]
  unfolding inet_ntoa_def length_append list.size by linarith

lemma inet_ntoa_not_Nil [simp]: "inet_ntoa ip \<noteq> []"
  by (simp add: inet_ntoa_def)

lemma length_port: "port < 65536 \<Longrightarrow> length (c_decimal (nat port)) \<le> 5"
  by (rule length_c_decimal) simp_all

lemma length_addr: "port < 65536 \<Longrightarrow> length (addr ip port) \<le> 21"
  using length_inet_ntoa [of ip] length_port [of port] by (simp add: addr_def)

lemma ip2str_eq: "n = 0 \<or> n = 1 \<Longrightarrow> ip2str ip n = Some (inet_ntoa ip)"
  using length_inet_ntoa [of ip] by (auto simp: ip2str_def c_sprintf_def)

lemma addr_text_eq: "n = 0 \<or> n = 1 \<Longrightarrow> addr_text ip n port = Some (addr ip port)"
  by (simp add: addr_text_def ip2str_eq addr_def)

lemma plain_addr: "plain_word (addr ip port)"
  by (auto simp: plain_word_def addr_def c_isspace_def dest!: inet_ntoa_chars c_decimal_digits c_isdigit_plain)

lemma c_strchr_addr: "c_strchr (addr ip port) CHR '':'' = Some (inet_ntoa ip, c_decimal (nat port))"
proof -
  have "\<forall>c \<in> set (inet_ntoa ip). c \<noteq> CHR '':''"
    by (auto dest!: inet_ntoa_chars simp: c_isdigit_def)
  then show ?thesis by (simp add: c_strchr_def addr_def takeWhile_append2 dropWhile_append2)
qed

lemma port_decimal:
  assumes "port_ok port"
  shows "port_value (c_decimal (nat port)) = port" "\<not> port_refused (c_decimal (nat port))"
proof -
  have n: "nat port < 65536" "0 < port" using assms by (auto simp: port_ok_def)
  then have "c_int (nat port) = port" by (simp add: c_int_def)
  moreover have "c_strtoul (c_decimal (nat port)) = nat port"
    using n by (intro c_strtoul_decimal) simp
  ultimately show "port_value (c_decimal (nat port)) = port" "\<not> port_refused (c_decimal (nat port))"
    using assms by (simp_all add: port_value_def port_refused_def port_ok_def)
qed

lemma inet_addr_ip_ok: "ip_ok ip \<Longrightarrow> inet_addr (inet_ntoa ip) = ip"
  by (rule inet_addr_ntoa) (simp_all add: ip_ok_def)

section \<open>The text of a message\<close>

fun body_ok :: "sig_body \<Rightarrow> bool" where
  "body_ok (Setup m) \<longleftrightarrow> ip_ok (src_ip m) \<and> port_ok (src_port m) \<and>
     (fax_mode m = FAX_MODE_GW_TERM \<or>
      fax_mode m = FAX_MODE_GW_GW \<and>
        (\<exists>ip port. dst_ip m = Some ip \<and> dst_port m = Some port \<and> ip_ok ip \<and> port_ok port))"
| "body_ok (Ok m) \<longleftrightarrow> ip_ok (ok_ip m) \<and> port_ok (ok_port m)"
| "body_ok Rel \<longleftrightarrow> True"
| "body_ok (Error e) \<longleftrightarrow> True"

definition message_ok :: "sig_message \<Rightarrow> bool" where
  "message_ok m \<longleftrightarrow> plain_word (call_id m) \<and> length (call_id m) < CALL_ID_SIZE \<and> body_ok (body m)"

fun body_words :: "sig_body \<Rightarrow> string list" where
  "body_words (Setup m) =
     msg_faxModeStr (fax_mode m) # addr (src_ip m) (src_port m) #
       (if fax_mode m = FAX_MODE_GW_GW then [addr (the (dst_ip m)) (the (dst_port m))] else [])"
| "body_words (Ok m) = [addr (ok_ip m) (ok_port m)]"
| "body_words Rel = []"
| "body_words (Error e) = [msg_errStr e]"

text \<open>The words, each after a space, and the end of the line.\<close>

primrec line_end :: "string list \<Rightarrow> string" where
  "line_end [] = CRLF"
| "line_end (w # ws) = '' '' @ w @ line_end ws"

definition message_text :: "sig_message \<Rightarrow> string" where
  "message_text m =
     sig_msgTypeStr (msg_type (body m)) @ '' '' @ call_id m @ line_end (body_words (body m))"

lemma hd_line_end: "line_end ws \<noteq> [] \<and> c_isspace (hd (line_end ws))"
  by (cases ws) simp_all

lemma c_words_line_end:
  "\<forall>w \<in> set ws. plain_word w \<Longrightarrow> c_words (line_end ws @ rest) = ws @ c_words rest"
proof (induction ws)
  case (Cons w ws)
  then have "c_words (w @ (line_end ws @ rest)) = w # c_words (line_end ws @ rest)"
    using hd_line_end [of ws] by (intro c_words_word) auto
  with Cons show ?case by simp
qed simp

lemma plain_consts: "plain_word (sig_msgTypeStr t)" "plain_word (msg_errStr e)" "plain_word (msg_faxModeStr f)"
proof -
  show "plain_word (sig_msgTypeStr t)" by (cases t; simp add: plain_word_def c_isspace_def)
  show "plain_word (msg_errStr e)" by (cases e; simp add: plain_word_def c_isspace_def)
  show "plain_word (msg_faxModeStr f)" by (cases f; simp add: plain_word_def c_isspace_def)
qed

lemma plain_body_words: "w \<in> set (body_words b) \<Longrightarrow> plain_word w"
  by (cases b) (auto simp: plain_addr plain_consts split: if_splits)

lemma c_words_message:
  assumes "plain_word (call_id m)"
  shows "c_words (message_text m @ rest) =
    sig_msgTypeStr (msg_type (body m)) # call_id m # body_words (body m) @ c_words rest"
proof -
  have "c_words (call_id m @ line_end (body_words (body m)) @ rest) =
      call_id m # c_words (line_end (body_words (body m)) @ rest)"
    using hd_line_end [of "body_words (body m)"] by (intro c_words_word assms) simp
  moreover have "c_words (sig_msgTypeStr (msg_type (body m)) @ '' '' @ (call_id m @ line_end (body_words (body m)) @ rest)) =
      sig_msgTypeStr (msg_type (body m)) # c_words ('' '' @ (call_id m @ line_end (body_words (body m)) @ rest))"
    by (intro c_words_word plain_consts) simp
  ultimately show ?thesis
    using c_words_line_end [of "body_words (body m)" rest] plain_body_words by (simp add: message_text_def)
qed

lemma no_NUL_line_end: "\<forall>w \<in> set ws. plain_word w \<Longrightarrow> NUL \<notin> set (line_end ws)"
  by (induction ws) (auto simp: plain_word_def)

lemma no_NUL_message: "plain_word (call_id m) \<Longrightarrow> NUL \<notin> set (message_text m)"
  using no_NUL_line_end [of "body_words (body m)"] plain_body_words plain_consts(1) [of "msg_type (body m)"]
  by (auto simp: message_text_def plain_word_def)

lemma length_message:
  assumes "message_ok m"
  shows "length (message_text m) < MSG_BUF_LEN"
proof -
  have t: "length (sig_msgTypeStr t) \<le> 7" for t by (cases t) simp_all
  have f: "length (msg_faxModeStr f) = 2" for f by (cases f) simp_all
  have e: "length (msg_errStr e) \<le> 15" for e by (cases e) simp_all
  have a: "length (addr ip port) \<le> 21" if "port_ok port" for ip port
    using that by (intro length_addr) (simp add: port_ok_def)
  have ok: "body_ok (body m)" using assms by (simp add: message_ok_def)
  have "length (line_end (body_words (body m))) \<le> 100"
  proof (cases "body m")
    case (Setup x)
    with ok f a [of "src_port x" "src_ip x"] a [of "the (dst_port x)" "the (dst_ip x)"]
    show ?thesis by auto
  next
    case (Ok x)
    with ok a [of "ok_port x" "ok_ip x"] show ?thesis by simp
  next
    case (Error x)
    with e [of x] show ?thesis by simp
  qed simp
  with t [of "msg_type (body m)"] assms show ?thesis by (simp add: message_text_def message_ok_def)
qed

section \<open>Composing and parsing\<close>

lemma line_end_eq:
  "line_end [] = CRLF" "line_end [a] = '' '' @ a @ CRLF" "line_end [a, b] = '' '' @ a @ '' '' @ b @ CRLF"
  "line_end [a, b, c] = '' '' @ a @ '' '' @ b @ '' '' @ c @ CRLF"
  by simp_all

lemma c_snprintf_fits: "length s < n \<Longrightarrow> c_snprintf n s = (int (length s), s)"
  by (simp add: c_snprintf_def)

lemma msg_bufCreate_ok:
  assumes "message_ok m"
  shows "msg_bufCreate m = Some (int (length (message_text m)), Some (message_text m))"
proof -
  have ok: "body_ok (body m)" using assms by (simp add: message_ok_def)
  note fits = c_snprintf_fits [OF length_message [OF assms], unfolded message_text_def]
  show ?thesis
  proof (cases "body m")
    case (Setup x)
    show ?thesis
    proof (cases "fax_mode x = FAX_MODE_GW_GW")
      case True
      with ok Setup obtain ip port where "dst_ip x = Some ip" "dst_port x = Some port" by auto
      with True Setup fits show ?thesis
        by (simp add: msg_bufCreate_def msg_bufCreateSetup_def message_text_def addr_text_eq)
    next
      case False
      with ok Setup fits show ?thesis
        by (simp add: msg_bufCreate_def msg_bufCreateSetup_def message_text_def addr_text_eq)
    qed
  next
    case (Ok x)
    with fits show ?thesis
      by (simp add: msg_bufCreate_def msg_bufCreateOk_def message_text_def addr_text_eq)
  next
    case Rel
    with fits show ?thesis
      by (simp add: msg_bufCreate_def msg_bufCreateRelease_def message_text_def)
  next
    case (Error e)
    with fits show ?thesis
      by (simp add: msg_bufCreate_def msg_bufCreateError_def message_text_def)
  qed
qed

text \<open>What the peer reads: in terminal mode the message carries no destination.\<close>

definition as_received :: "sig_message \<Rightarrow> sig_message" where
  "as_received m =
     (case body m of
        Setup x \<Rightarrow>
          if fax_mode x = FAX_MODE_GW_TERM
          then m\<lparr>body := Setup (x\<lparr>dst_ip := None, dst_port := None\<rparr>)\<rparr> else m
      | _ \<Rightarrow> m)"

text \<open>
  The rest of the receive buffer: it must have a NUL somewhere and, in terminal mode, where
  the third word of the \<open>sscanf\<close> is read from it, at once.
\<close>

definition stale_ok :: "sig_message \<Rightarrow> string \<Rightarrow> bool" where
  "stale_ok m stale \<longleftrightarrow> NUL \<in> set stale \<and>
     (\<forall>x. body m = Setup x \<and> fax_mode x = FAX_MODE_GW_TERM \<longrightarrow> hd stale = NUL)"

lemma message_payload:
  assumes "plain_word (call_id m)" "NUL \<in> set stale"
    and "w = sig_msgTypeStr (msg_type (body m))" "body_words (body m) = v # vs"
  shows "c_string (message_text m @ stale) (length w + length (call_id m) + 2) =
    Some (v @ line_end vs @ takeWhile (\<lambda>c. c \<noteq> NUL) stale)"
proof -
  have t: "message_text m = (w @ '' '' @ call_id m @ '' '') @ v @ line_end vs"
    using assms(3,4) by (simp add: message_text_def)
  have l: "length w + length (call_id m) + 2 = length (w @ '' '' @ call_id m @ '' '')" by simp
  have "length w + length (call_id m) + 2 \<le> length (message_text m)" unfolding t by simp
  from c_string_prefix [OF no_NUL_message [OF assms(1)] assms(2) this] show ?thesis
    unfolding l unfolding t by simp
qed

lemma c_words_payload:
  assumes "\<forall>x \<in> set (v # vs). plain_word x"
  shows "c_words (v @ line_end vs @ rest) = v # vs @ c_words rest"
proof -
  have "c_words (v @ (line_end vs @ rest)) = v # c_words (line_end vs @ rest)"
    using assms hd_line_end [of vs] by (intro c_words_word) auto
  then show ?thesis using assms c_words_line_end [of vs rest] by simp
qed

lemma parseSetup_gg:
  assumes "c_string mem p = Some (''GG'' @ line_end [addr ip port, addr ip' port'] @ rest)"
    and "ip_ok ip" "port_ok port" "ip_ok ip'" "port_ok port'"
  shows "msg_parseSetup True mem p =
    Some (0, Some \<lparr>src_ip = ip, src_port = port, dst_ip = Some ip', dst_port = Some port',
                   fax_mode = FAX_MODE_GW_GW\<rparr>)"
proof -
  have "c_words (''GG'' @ line_end [addr ip port, addr ip' port'] @ rest) =
      [''GG'', addr ip port, addr ip' port'] @ c_words rest"
    using plain_consts(3) [of FAX_MODE_GW_GW] plain_addr by (subst c_words_payload) auto
  moreover have "length (addr ip port) < 32" "length (addr ip' port') < 32"
    using length_addr [of port ip] length_addr [of port' ip'] assms(3,5) by (simp_all add: port_ok_def)
  ultimately have "c_sscanf [8, 32, 32] (''GG'' @ line_end [addr ip port, addr ip' port'] @ rest) =
      Some [''GG'', addr ip port, addr ip' port']"
    by (intro c_sscanf_words) simp_all
  with assms show ?thesis
    by (simp add: msg_parseSetup_def c_strchr_addr inet_addr_ip_ok port_decimal Let_def del: line_end.simps)
       (simp add: ip_ok_def)
qed

lemma parseSetup_gt:
  assumes "c_string mem p = Some (''GT'' @ line_end [addr ip port])" "ip_ok ip" "port_ok port"
  shows "msg_parseSetup True mem p =
    Some (0, Some \<lparr>src_ip = ip, src_port = port, dst_ip = None, dst_port = None,
                   fax_mode = FAX_MODE_GW_TERM\<rparr>)"
proof -
  have "c_words (''GT'' @ line_end [addr ip port] @ []) = [''GT'', addr ip port] @ c_words []"
    using plain_consts(3) [of FAX_MODE_GW_TERM] plain_addr by (subst c_words_payload) auto
  moreover have "length (addr ip port) < 32"
    using length_addr [of port ip] assms(3) by (simp add: port_ok_def)
  ultimately have "c_sscanf [8, 32, 32] (''GT'' @ line_end [addr ip port]) = Some [''GT'', addr ip port]"
    by (simp add: c_sscanf_def Let_def del: line_end.simps)
  with assms show ?thesis
    by (simp add: msg_parseSetup_def c_strchr_addr inet_addr_ip_ok port_decimal Let_def del: line_end.simps)
       (simp add: ip_ok_def)
qed

lemma parseOk_text:
  assumes "c_string mem p = Some (addr ip port @ line_end [] @ rest)" "ip_ok ip" "port_ok port"
  shows "msg_parseOk True mem p = Some (0, Some \<lparr>ok_ip = ip, ok_port = port\<rparr>)"
proof -
  have "c_words (addr ip port @ line_end [] @ rest) = [addr ip port] @ c_words rest"
    using plain_addr by (subst c_words_payload) auto
  moreover have "length (addr ip port) < 32"
    using length_addr [of port ip] assms(3) by (simp add: port_ok_def)
  ultimately have "c_sscanf [32] (addr ip port @ line_end [] @ rest) = Some [addr ip port]"
    by (intro c_sscanf_words) simp_all
  with assms show ?thesis
    by (simp add: msg_parseOk_def c_strchr_addr inet_addr_ip_ok port_decimal Let_def del: line_end.simps)
       (simp add: ip_ok_def)
qed

lemma parseError_text:
  assumes "c_string mem p = Some (msg_errStr e @ line_end [] @ rest)"
  shows "msg_parseError True mem p = Some (0, Some e)"
proof -
  have "c_words (msg_errStr e @ line_end [] @ rest) = [msg_errStr e] @ c_words rest"
    using plain_consts by (subst c_words_payload) auto
  moreover have "length (msg_errStr e) < 64" by (cases e) simp_all
  ultimately have "c_sscanf [64] (msg_errStr e @ line_end [] @ rest) = Some [msg_errStr e]"
    by (intro c_sscanf_words) simp_all
  with assms show ?thesis by (cases e) (simp_all add: msg_parseError_def del: line_end.simps)
qed

lemma parseBody_message:
  assumes m: "message_ok m" and stale: "stale_ok m stale" and w: "w = sig_msgTypeStr (msg_type (body m))"
  shows "msg_parseBody True w (message_text m @ stale) (length w + length (call_id m) + 2) =
    Some (0, Some (body (as_received m)))"
proof -
  have word: "plain_word (call_id m)" and ok: "body_ok (body m)" and NUL: "NUL \<in> set stale"
    using m stale by (simp_all add: message_ok_def stale_ok_def)
  note payload = message_payload [OF word NUL w]
  show ?thesis
  proof (cases "body m")
    case (Setup x)
    note ok' = ok [unfolded Setup body_ok.simps]
    show ?thesis
    proof (cases "fax_mode x = FAX_MODE_GW_GW")
      case True
      with ok' obtain ip port where d: "dst_ip x = Some ip" "dst_port x = Some port" "ip_ok ip" "port_ok port"
        by auto
      have "body_words (body m) = ''GG'' # [addr (src_ip x) (src_port x), addr ip port]"
        using Setup True d by simp
      from parseSetup_gg [OF payload [OF this] _ _ d(3,4)] ok' w Setup True d show ?thesis
        by (simp add: msg_parseBody_def as_received_def)
    next
      case False
      with ok' have gt: "fax_mode x = FAX_MODE_GW_TERM" by simp
      with stale Setup have "takeWhile (\<lambda>c. c \<noteq> NUL) stale = []"
        by (cases stale) (simp_all add: stale_ok_def)
      moreover have "body_words (body m) = ''GT'' # [addr (src_ip x) (src_port x)]"
        using Setup gt by simp
      ultimately have "c_string (message_text m @ stale) (length w + length (call_id m) + 2) =
          Some (''GT'' @ line_end [addr (src_ip x) (src_port x)])"
        using payload by simp
      from parseSetup_gt [OF this] ok' w Setup gt show ?thesis
        by (simp add: msg_parseBody_def as_received_def)
    qed
  next
    case (Ok x)
    then have "body_words (body m) = addr (ok_ip x) (ok_port x) # []" by simp
    from parseOk_text [OF payload [OF this]] ok w Ok show ?thesis
      by (simp add: msg_parseBody_def as_received_def)
  next
    case Rel
    with w show ?thesis by (simp add: msg_parseBody_def msg_parseRelease_def as_received_def)
  next
    case (Error e)
    then have "body_words (body m) = msg_errStr e # []" by simp
    from parseError_text [OF payload [OF this]] w Error show ?thesis
      by (simp add: msg_parseBody_def as_received_def)
  qed
qed

lemma message_parsed:
  assumes m: "message_ok m" and stale: "stale_ok m stale"
  shows "sig_msgParse True (Some (message_text m @ stale)) True = Some (0, Message (as_received m))"
proof -
  let ?w = "sig_msgTypeStr (msg_type (body m))" and ?junk = "takeWhile (\<lambda>c. c \<noteq> NUL) stale"
  have word: "plain_word (call_id m)" "length (call_id m) < 32" and NUL: "NUL \<in> set stale"
    using m stale by (simp_all add: message_ok_def stale_ok_def)
  have "c_string (message_text m @ stale) 0 = Some (message_text m @ ?junk)"
    using c_string_prefix [OF no_NUL_message [OF word(1)] NUL, of 0] by simp
  moreover have "length ?w < 32" by (cases "body m") simp_all
  then have "c_sscanf [32, 32] (message_text m @ ?junk) = Some [?w, call_id m]"
    using word by (intro c_sscanf_words [of _ _ "body_words (body m) @ c_words ?junk"])
      (simp_all add: c_words_message)
  moreover have "\<lparr>call_id = call_id m, body = body (as_received m)\<rparr> = as_received m"
    by (cases m; cases "body m") (simp_all add: as_received_def)
  ultimately show ?thesis using parseBody_message [OF m stale refl] by (simp add: sig_msgParse_def)
qed

text \<open>
  Property C13. A well-formed signalling message composed into a 256-octet buffer fits
  it, and its octets, followed by whatever a longer earlier datagram left in the receive
  buffer up to a NUL, are parsed back to the same message. For a SETUP in terminal mode
  the buffer must hold a NUL right behind the message (left-over words would be read as
  a destination), and the message comes back without destination, as its text has none.
\<close>

theorem signalling_roundtrip:
  assumes "message_ok m" "stale_ok m stale"
  shows "\<exists>len buf. sig_msgCompose (Some m) True 256 = Some (int len, Some buf) \<and> len < 256 \<and>
    length buf = 256 \<and>
    sig_msgParse True (Some (take len buf @ stale)) True = Some (0, Message (as_received m))"
proof -
  let ?t = "message_text m"
  note len = length_message [OF assms(1)]
  have "sig_msgCompose (Some m) True 256 = Some (int (length ?t), Some (c_strncpy ?t 256))"
    by (simp add: sig_msgCompose_def msg_bufCreate_ok [OF assms(1)])
  moreover have "take (length ?t) (c_strncpy ?t 256) = ?t" "length (c_strncpy ?t 256) = 256"
    using len by (simp_all add: c_strncpy_def min_def)
  ultimately show ?thesis using message_parsed [OF assms] len by (metis)
qed

theorem signalling_roundtrip_witness:
  "\<exists>len buf. sig_msgCompose (Some \<lparr>call_id = ''abcd01234'', body =
      Setup \<lparr>src_ip = 3232235777, src_port = 22222, dst_ip = Some 3232235778, dst_port = Some 33333,
             fax_mode = FAX_MODE_GW_GW\<rparr>\<rparr>) True 256 = Some (int len, Some buf) \<and>
    sig_msgParse True (Some (take len buf @ ''stale'' @ [NUL])) True =
      Some (0, Message \<lparr>call_id = ''abcd01234'', body =
        Setup \<lparr>src_ip = 3232235777, src_port = 22222, dst_ip = Some 3232235778, dst_port = Some 33333,
               fax_mode = FAX_MODE_GW_GW\<rparr>\<rparr>)"
proof -
  let ?m = "\<lparr>call_id = ''abcd01234'', body =
      Setup \<lparr>src_ip = 3232235777, src_port = 22222, dst_ip = Some 3232235778, dst_port = Some 33333,
             fax_mode = FAX_MODE_GW_GW\<rparr>\<rparr>"
  have "message_ok ?m"
    by (simp add: message_ok_def plain_word_def c_isspace_def ip_ok_def port_ok_def)
  moreover have "stale_ok ?m (''stale'' @ [NUL])" by (simp add: stale_ok_def)
  moreover have "as_received ?m = ?m" by (simp add: as_received_def)
  ultimately show ?thesis using signalling_roundtrip [of ?m "''stale'' @ [NUL]"] by auto
qed

section \<open>Whatever is parsed can be printed\<close>

fun body_parsed :: "sig_body \<Rightarrow> bool" where
  "body_parsed (Setup m) \<longleftrightarrow> 0 \<le> src_port m \<and> src_port m < 65536 \<and> src_ip m \<noteq> 0xFFFFFFFF \<and>
     (fax_mode m = FAX_MODE_GW_GW \<and>
        (\<exists>ip port. dst_ip m = Some ip \<and> dst_port m = Some port \<and>
           ip \<noteq> 0xFFFFFFFF \<and> 0 \<le> port \<and> port < 65536) \<or>
      fax_mode m = FAX_MODE_GW_TERM \<and> dst_ip m = None \<and> dst_port m = None)"
| "body_parsed (Ok m) \<longleftrightarrow> 0 \<le> ok_port m \<and> ok_port m < 65536 \<and> ok_ip m \<noteq> 0xFFFFFFFF"
| "body_parsed Rel \<longleftrightarrow> True"
| "body_parsed (Error e) \<longleftrightarrow> True"

definition message_parsed_ok :: "sig_message \<Rightarrow> bool" where
  "message_parsed_ok m \<longleftrightarrow> plain_word (call_id m) \<and> length (call_id m) < CALL_ID_SIZE \<and> body_parsed (body m)"

lemma port_value_range: "0 \<le> port_value s" "port_value s < 65536"
  by (simp_all add: port_value_def)

lemma parseSetup_result:
  assumes "msg_parseSetup mem_ok mem p = Some (r, mo)"
  shows "r \<le> 0 \<and> (r = 0 \<longrightarrow> mo \<noteq> None) \<and>
    (\<forall>m. mo = Some m \<longrightarrow> r \<in> {0, -4, -7} \<and> body_parsed (Setup m))"
proof -
  obtain pl ws where c: "c_string mem p = Some pl" "c_sscanf [8, 32, 32] pl = Some ws"
    using assms by (auto simp: msg_parseSetup_def bind_eq_Some_conv)
  note r = assms [unfolded msg_parseSetup_def, simplified c, simplified, simplified c, simplified]
  show ?thesis
  proof (cases "length ws < 2 \<or> c_strchr (ws ! Suc 0) CHR '':'' = None")
    case True
    then consider "length ws < 2" | "\<not> length ws < 2" "c_strchr (ws ! Suc 0) CHR '':'' = None"
      by argo
    then show ?thesis by cases (use r in simp_all)
  next
    case False
    then obtain ip port where a: "c_strchr (ws ! Suc 0) CHR '':'' = Some (ip, port)" by auto
    show ?thesis
    proof (cases "ws ! 0 = ''GG'' \<and> 3 \<le> length ws")
      case True
      with r False a show ?thesis
        by (auto simp: Let_def port_value_range split: if_splits option.splits)
    next
      case gt: False
      with r False a show ?thesis
        by (auto simp: Let_def port_value_range split: if_splits)
    qed
  qed
qed

lemma parseOk_result:
  assumes "msg_parseOk mem_ok mem p = Some (r, mo)"
  shows "r \<le> 0 \<and> (r = 0 \<longrightarrow> mo \<noteq> None) \<and>
    (\<forall>m. mo = Some m \<longrightarrow> r \<in> {0, -4} \<and> body_parsed (Ok m))"
  using assms by (auto simp: msg_parseOk_def bind_eq_Some_conv port_value_range split: if_splits option.splits)

lemma parseError_result:
  assumes "msg_parseError mem_ok mem p = Some (r, mo)"
  shows "r \<le> 0 \<and> (r = 0 \<longrightarrow> mo \<noteq> None) \<and> (mo \<noteq> None \<longrightarrow> r = 0)"
  using assms by (auto simp: msg_parseError_def bind_eq_Some_conv split: if_splits)

text \<open>The messages that carry addresses, whose ports can be refused.\<close>

fun is_addressed :: "sig_body \<Rightarrow> bool" where
  "is_addressed (Setup _) = True"
| "is_addressed (Ok _) = True"
| "is_addressed _ = False"

lemma parseBody_result:
  assumes "msg_parseBody mem_ok ty mem p = Some (r, bo)"
  shows "r \<le> 0 \<and> (r = 0 \<longrightarrow> bo \<noteq> None) \<and>
    (\<forall>b. bo = Some b \<longrightarrow> r \<in> {0, -104, -107} \<and> body_parsed b \<and> (r < 0 \<longrightarrow> is_addressed b))"
proof -
  consider "ty = ''SETUP''" | "ty = ''OK''" | "ty = ''ERROR''" | "ty = ''RELEASE''"
    | "ty \<notin> {''SETUP'', ''OK'', ''ERROR'', ''RELEASE''}" by blast
  then show ?thesis
  proof cases
    case 1
    with assms show ?thesis
      by (auto simp: msg_parseBody_def split: if_splits dest!: parseSetup_result)
  next
    case 2
    with assms show ?thesis
      by (auto simp: msg_parseBody_def split: if_splits dest!: parseOk_result)
  next
    case 3
    with assms show ?thesis
      by (auto simp: msg_parseBody_def split: if_splits dest!: parseError_result)
  next
    case 4
    with assms show ?thesis
      by (auto simp: msg_parseBody_def msg_parseRelease_def Let_def split: if_splits)
  next
    case 5
    with assms show ?thesis by (auto simp: msg_parseBody_def)
  qed
qed

lemma c_words_plain: "NUL \<notin> set s \<Longrightarrow> w \<in> set (c_words s) \<Longrightarrow> plain_word w"
proof (induction s rule: c_words.induct)
  case (2 c cs)
  show ?case
  proof (cases "c_isspace c")
    case True
    with 2 show ?thesis by simp
  next
    case False
    have "NUL \<notin> set (dropWhile (\<lambda>x. \<not> c_isspace x) cs)" using 2(3) by (auto dest: set_dropWhileD)
    moreover have "plain_word (c # takeWhile (\<lambda>x. \<not> c_isspace x) cs)"
      using False 2(3) by (auto simp: plain_word_def dest: set_takeWhileD)
    ultimately show ?thesis using 2 False by auto
  qed
qed simp

lemma c_sscanf_plain:
  assumes "c_string mem p = Some s" "c_sscanf sizes s = Some ws" "i < length ws"
  shows "plain_word (ws ! i)" "length (ws ! i) < sizes ! i"
proof -
  have ws: "ws = take (length sizes) (c_words s)" "list_all2 (\<lambda>w n. length w < n) ws (take (length ws) sizes)"
    using assms(2) by (auto simp: c_sscanf_def Let_def split: if_splits)
  have "NUL \<notin> set s" using assms(1) by (auto simp: c_string_def split: if_splits dest: set_takeWhileD)
  moreover have "ws ! i \<in> set (c_words s)"
    using assms(3) ws(1) by (metis in_set_takeD nth_mem)
  ultimately show "plain_word (ws ! i)" by (rule c_words_plain)
  have "length ws \<le> length sizes" using ws(1) by simp
  with assms(3) list_all2_nthD [OF ws(2) assms(3)] show "length (ws ! i) < sizes ! i" by simp
qed

lemma parse_result:
  assumes "sig_msgParse mem_ok buf have_msg = Some (r, mo)"
  shows "r < 0 \<and> (mo = No_message \<or>
      r \<in> {-104, -107} \<and> (\<exists>b. mo = Headless b \<and> is_addressed b \<and> body_parsed b)) \<or>
    r = 0 \<and> (\<exists>m. mo = Message m \<and> message_parsed_ok m)"
proof (cases "buf = None \<or> \<not> have_msg")
  case True
  with assms show ?thesis by (auto simp: sig_msgParse_def split: option.splits)
next
  case False
  then obtain mem where mem: "buf = Some mem" "have_msg" by auto
  with assms obtain str ws where c: "c_string mem 0 = Some str" "c_sscanf [32, 32] str = Some ws"
    by (auto simp: sig_msgParse_def bind_eq_Some_conv)
  show ?thesis
  proof (cases "length ws < 2")
    case True
    with assms mem c show ?thesis by (auto simp: sig_msgParse_def)
  next
    case False
    with assms mem c obtain bo where
      b: "msg_parseBody mem_ok (ws ! 0) mem (length (ws ! 0) + length (ws ! 1) + 2) = Some (r, bo)"
         "mo = (case bo of None \<Rightarrow> No_message
                | Some b \<Rightarrow> if r < 0 then Headless b else Message \<lparr>call_id = ws ! 1, body = b\<rparr>)"
      by (auto simp: sig_msgParse_def bind_eq_Some_conv)
    with parseBody_result [OF b(1)] c_sscanf_plain [OF c, of 1] False show ?thesis
      by (cases bo) (auto simp: message_parsed_ok_def)
  qed
qed

lemma length_replace: "length print_rule = 63"
  by (simp add: print_rule_def)

lemma message_parsed_printed:
  assumes "message_parsed_ok m"
  shows "\<exists>text. sig_msgPrint (Some m) True n = Some (0, Some (c_strncpy text n)) \<and> length text < 512"
proof -
  have t: "length (sig_msgTypeStr t) \<le> 7" for t by (cases t) simp_all
  have f: "length (msg_faxModeStr f) = 2" for f by (cases f) simp_all
  have e: "length (msg_errStr e) \<le> 15" for e by (cases e) simp_all
  have cid: "length (call_id m) < 32" and ok: "body_parsed (body m)"
    using assms by (simp_all add: message_parsed_ok_def)
  have "\<exists>d. (case body m of Setup x \<Rightarrow> msg_printSetup x | Ok x \<Rightarrow> msg_printOk x
      | Rel \<Rightarrow> Some msg_printRelease | Error e \<Rightarrow> Some (msg_printError e)) = Some d \<and> length d \<le> 100"
  proof (cases "body m")
    case (Setup x)
    with ok length_addr [of "src_port x" "src_ip x"] length_addr [of "the (dst_port x)" "the (dst_ip x)"] f
    show ?thesis by (auto simp: msg_printSetup_def addr_text_eq)
  next
    case (Ok x)
    with ok length_addr [of "ok_port x" "ok_ip x"] show ?thesis
      by (simp add: msg_printOk_def addr_text_eq)
  next
    case (Error x)
    with e [of x] show ?thesis by (simp add: msg_printError_def)
  qed (simp add: msg_printRelease_def)
  then obtain d where d: "(case body m of Setup x \<Rightarrow> msg_printSetup x | Ok x \<Rightarrow> msg_printOk x
      | Rel \<Rightarrow> Some msg_printRelease | Error e \<Rightarrow> Some (msg_printError e)) = Some d" "length d \<le> 100" by blast
  define out where "out = sig_msgTypeStr (msg_type (body m)) @ NL @ print_rule @ TAB @ '' call_id: ''
      @ [CHR 0x27] @ call_id m @ [CHR 0x27] @ NL @ d @ print_rule"
  have "length out < 512"
    using t [of "msg_type (body m)"] cid d(2) length_replace by (simp add: out_def)
  then have "c_sprintf 512 out = Some out" "length out < 512" by (simp_all add: c_sprintf_def)
  moreover have "sig_msgPrint (Some m) True n =
      Option.bind (c_sprintf 512 out) (\<lambda>t. Some (0, Some (c_strncpy t n)))"
    unfolding sig_msgPrint_def option.case d(1) out_def by simp
  ultimately show ?thesis by auto
qed

text \<open>
  Property C14. Whatever the receive buffer holds, whenever sig_msgParse returns (over-
  long words overrun its arrays: long_word_overruns), the result is a negative code
  without a message, or the code of a refused port (-104 or -107) with an allocated
  SETUP or OK body whose type and call id were never written, or 0 and a message whose
  call id fits its array, whose ports are 16-bit values and whose destination is set
  exactly in gateway mode; printing that message stays within the 512-character buffer.
\<close>

theorem parsed_message_is_sound:
  assumes "sig_msgParse mem_ok buf have_msg = Some (r, mo)"
  shows "(r < 0 \<and> (mo = No_message \<or>
      r \<in> {-104, -107} \<and> (\<exists>b. mo = Headless b \<and> is_addressed b \<and> body_parsed b))) \<or>
    (r = 0 \<and> (\<exists>m text. mo = Message m \<and> message_parsed_ok m \<and>
       sig_msgPrint (Some m) True 512 = Some (0, Some (c_strncpy text 512)) \<and> length text < 512))"
  using parse_result [OF assms] message_parsed_printed by blast

theorem parsed_message_is_sound_witness:
  "\<exists>m text. sig_msgParse True (Some (message_text \<lparr>call_id = ''x'', body = Ok \<lparr>ok_ip = 9, ok_port = 7\<rparr>\<rparr> @ [NUL])) True =
     Some (0, Message m) \<and> sig_msgPrint (Some m) True 512 = Some (0, Some (c_strncpy text 512))"
proof -
  let ?m = "\<lparr>call_id = ''x'', body = Ok \<lparr>ok_ip = 9, ok_port = 7\<rparr>\<rparr>"
  have "message_ok ?m" "stale_ok ?m [NUL]"
    by (simp_all add: message_ok_def plain_word_def c_isspace_def ip_ok_def port_ok_def stale_ok_def)
  from message_parsed [OF this] parsed_message_is_sound [OF message_parsed [OF this]] show ?thesis by auto
qed

section \<open>Where the parser goes wrong\<close>

text \<open>Neither of the first two words of a text may have more than 31 characters.\<close>

lemma long_word_parse:
  assumes "c_string mem 0 = Some text" "w \<in> set (take 2 (c_words text))" "32 \<le> length w"
  shows "sig_msgParse mem_ok (Some mem) True = None"
proof -
  have "c_sscanf [32, 32] text = None"
    using assms(2,3) by (cases "c_words text"; cases "tl (c_words text)") (auto simp: c_sscanf_def Let_def)
  with assms(1) show ?thesis by (simp add: sig_msgParse_def)
qed

text \<open>
  The port check accepts 4294967297 as port 1 and -5 as port 65531, and
  refuses the valid port 65535.
\<close>

theorem port_check_misses:
  "port_value ''4294967297'' = 1 \<and> \<not> port_refused ''4294967297'' \<and>
   port_value ''-5'' = 65531 \<and> \<not> port_refused ''-5'' \<and> port_refused ''65535''"
  by (simp add: port_value_def port_refused_def c_strtoul_def Let_def c_isspace_def is_digit_of_def
      c_isdigit_def digit_value_def number_value_def c_int_def)

end
