(* ===== verification/T38_Core.thy ===== *)
theory T38_Core
  imports Fax_Prelude
begin

text \<open>
  The T.38 protocol core that the gateway of a session runs on top of UDPTL:
  \<^verbatim>\<open>spandsp/spandsp-0.0.6/src/t38_core.c\<close>. It encodes and decodes IFP packets and keeps
  the receive sequence. The handlers a context holds are not fields: receiving returns the
  handler calls in order, sending returns the packet for \<open>tx_packet_handler\<close>. Logging is
  left out.
\<close>

section \<open>The context\<close>

abbreviation (input) ACCEPTABLE_SEQ_NO_OFFSET :: int where "ACCEPTABLE_SEQ_NO_OFFSET \<equiv> 2000"
abbreviation (input) T38_IND_V17_14400_LONG_TRAINING :: int where "T38_IND_V17_14400_LONG_TRAINING \<equiv> 15"
abbreviation (input) T38_IND_V8_ANSAM :: int where "T38_IND_V8_ANSAM \<equiv> 16"
abbreviation (input) T38_IND_V33_14400_TRAINING :: int where "T38_IND_V33_14400_TRAINING \<equiv> 22"
abbreviation (input) T38_DATA_V17_14400 :: int where "T38_DATA_V17_14400 \<equiv> 8"
abbreviation (input) T38_DATA_V8 :: int where "T38_DATA_V8 \<equiv> 9"
abbreviation (input) T38_DATA_V33_14400 :: int where "T38_DATA_V33_14400 \<equiv> 14"
abbreviation (input) T38_FIELD_T4_NON_ECM_SIG_END :: int where "T38_FIELD_T4_NON_ECM_SIG_END \<equiv> 7"
abbreviation (input) T38_FIELD_CM_MESSAGE :: int where "T38_FIELD_CM_MESSAGE \<equiv> 8"
abbreviation (input) T38_FIELD_V34RATE :: int where "T38_FIELD_V34RATE \<equiv> 11"
abbreviation (input) T38_PACKET_CATEGORY_INDICATOR :: int where "T38_PACKET_CATEGORY_INDICATOR \<equiv> 0"

record t38_core_state =
  data_rate_management_method :: int
  data_transport_protocol :: int
  fill_bit_removal :: int
  mmr_transcoding :: int
  jbig_transcoding :: int
  max_buffer_size :: int
  max_datagram_size :: int
  t38_version :: int
  allow_for_tep :: int
  fastest_image_data_rate :: int
  category_control :: "int list"
  check_sequence_numbers :: bool
  core_tx_seq_no :: int
  core_rx_expected_seq_no :: int
  current_rx_indicator :: int
  current_rx_data_type :: int
  current_rx_field_type :: int
  current_tx_indicator :: int
  v34_rate :: int
  missing_packets :: int

text \<open>The calls of \<open>rx_indicator_handler\<close>, \<open>rx_data_handler\<close> (no octets for \<open>NULL\<close>)
  and \<open>rx_missing_handler\<close>.\<close>

datatype rx_event =
    Rx_indicator int
  | Rx_data int int octets
  | Rx_missing int int

section \<open>Names and constants\<close>

definition name_of :: "string list \<Rightarrow> int \<Rightarrow> string" where
  "name_of names i = (if 0 \<le> i \<and> i < int (length names) then names ! nat i else ''???'')"

definition t38_indicator_to_str :: "int \<Rightarrow> string" where
  "t38_indicator_to_str = name_of
     [''no-signal'', ''cng'', ''ced'', ''v21-preamble'', ''v27-2400-training'', ''v27-4800-training'',
      ''v29-7200-training'', ''v29-9600-training'', ''v17-7200-short-training'',
      ''v17-7200-long-training'', ''v17-9600-short-training'', ''v17-9600-long-training'',
      ''v17-12000-short-training'', ''v17-12000-long-training'', ''v17-14400-short-training'',
      ''v17-14400-long-training'', ''v8-ansam'', ''v8-signal'', ''v34-cntl-channel-1200'',
      ''v34-pri-channel'', ''v34-CC-retrain'', ''v33-12000-training'', ''v33-14400-training'']"

definition t38_data_type_to_str :: "int \<Rightarrow> string" where
  "t38_data_type_to_str = name_of
     [''v21'', ''v27-2400'', ''v27-4800'', ''v29-7200'', ''v29-9600'', ''v17-7200'', ''v17-9600'',
      ''v17-12000'', ''v17-14400'', ''v8'', ''v34-pri-rate'', ''v34-CC-1200'', ''v34-pri-ch'',
      ''v33-12000'', ''v33-14400'']"

definition t38_field_type_to_str :: "int \<Rightarrow> string" where
  "t38_field_type_to_str = name_of
     [''hdlc-data'', ''hdlc-sig-end'', ''hdlc-fcs-OK'', ''hdlc-fcs-BAD'', ''hdlc-fcs-OK-sig-end'',
      ''hdlc-fcs-BAD-sig-end'', ''t4-non-ecm-data'', ''t4-non-ecm-sig-end'', ''cm-message'',
      ''jm-message'', ''ci-message'', ''v34rate'']"

definition t38_cm_profile_to_str :: "int \<Rightarrow> string" where
  "t38_cm_profile_to_str profile = name_of
     [''G3 FAX sending terminal'', ''G3 FAX receiving terminal'',
      ''V.34 HDX and G3 FAX sending terminal'', ''V.34 HDX and G3 FAX receiving terminal'',
      ''V.34 HDX-only FAX sending terminal'', ''V.34 HDX-only FAX receiving terminal''] (profile - 49)"

definition t38_jm_to_str :: "octets \<Rightarrow> string" where
  "t38_jm_to_str data =
     (if length data < 2 then ''???''
      else if data ! 0 = 65 \<and> data ! 1 = 48 then ''ACK''
      else if data ! 0 = 78 \<and> data ! 1 = 48 then ''NACK: No compatible mode available''
      else if data ! 0 = 78 \<and> data ! 1 = 49 then ''NACK: No V.34 FAX, use G3 FAX''
      else if data ! 0 = 78 \<and> data ! 1 = 50 then ''NACK: V.34 only FAX.''
      else ''???'')"

fun v34rate_digits :: "octets \<Rightarrow> int \<Rightarrow> int" where
  "v34rate_digits [] rate = rate * 100"
| "v34rate_digits (d # ds) rate =
     (if uint d < 48 \<or> uint d > 57 then -1 else v34rate_digits ds (rate * 10 + uint d - 48))"

definition t38_v34rate_to_bps :: "octets \<Rightarrow> int" where
  "t38_v34rate_to_bps data = (if length data < 3 then -1 else v34rate_digits (take 3 data) 0)"

text \<open>\<open>modem_startup_time\<close>: TEP, training and flags for each indicator, in microseconds.\<close>

definition modem_startup_time :: "(int \<times> int \<times> int) list" where
  "modem_startup_time =
     [(0, 75000, 0), (0, 0, 0), (0, 3000000, 0), (0, 0, 1000000), (215000, 943000, 200000),
      (215000, 708000, 200000), (215000, 234000, 200000), (215000, 234000, 200000),
      (215000, 142000, 200000), (215000, 1393000, 200000), (215000, 142000, 200000),
      (215000, 1393000, 200000), (215000, 142000, 200000), (215000, 1393000, 200000),
      (215000, 142000, 200000), (215000, 1393000, 200000), (215000, 0, 0), (215000, 0, 0),
      (215000, 0, 0), (215000, 0, 0), (215000, 0, 0), (215000, 0, 0), (215000, 0, 0)]"

definition t38_core_send_flags_delay :: "int \<Rightarrow> int option" where
  "t38_core_send_flags_delay indicator = map_option (\<lambda>(tep, tr, fl). fl) (arr_get modem_startup_time indicator)"

definition t38_core_send_training_delay :: "int \<Rightarrow> int option" where
  "t38_core_send_training_delay indicator = map_option (\<lambda>(tep, tr, fl). tr) (arr_get modem_startup_time indicator)"

section \<open>Initialisation and settings\<close>

definition t38_core_restart :: "t38_core_state \<Rightarrow> t38_core_state" where
  "t38_core_restart s =
     s\<lparr>current_rx_indicator := -1, current_rx_data_type := -1, current_rx_field_type := -1,
       current_tx_indicator := -1, core_rx_expected_seq_no := -1\<rparr>"

definition t38_core_init :: "bool \<Rightarrow> bool \<Rightarrow> t38_core_state option" where
  "t38_core_init have_s malloc_ok =
     (if \<not> have_s \<and> \<not> malloc_ok then None
      else Some (t38_core_restart
        \<lparr>data_rate_management_method = 2, data_transport_protocol = 0, fill_bit_removal = 0,
         mmr_transcoding = 0, jbig_transcoding = 0, max_buffer_size = 400, max_datagram_size = 100,
         t38_version = 0, allow_for_tep = 0, fastest_image_data_rate = 0,
         category_control = [1, 1, 1, 1, 1], check_sequence_numbers = True, core_tx_seq_no = 0,
         core_rx_expected_seq_no = 0, current_rx_indicator = 0, current_rx_data_type = 0,
         current_rx_field_type = 0, current_tx_indicator = 0, v34_rate = 0, missing_packets = 0\<rparr>))"

definition t38_set_data_rate_management_method :: "t38_core_state \<Rightarrow> int \<Rightarrow> t38_core_state" where
  "t38_set_data_rate_management_method s m = s\<lparr>data_rate_management_method := m\<rparr>"

definition t38_set_data_transport_protocol :: "t38_core_state \<Rightarrow> int \<Rightarrow> t38_core_state" where
  "t38_set_data_transport_protocol s p = s\<lparr>data_transport_protocol := p\<rparr>"

definition t38_set_fill_bit_removal :: "t38_core_state \<Rightarrow> int \<Rightarrow> t38_core_state" where
  "t38_set_fill_bit_removal s v = s\<lparr>fill_bit_removal := v\<rparr>"

definition t38_set_mmr_transcoding :: "t38_core_state \<Rightarrow> int \<Rightarrow> t38_core_state" where
  "t38_set_mmr_transcoding s v = s\<lparr>mmr_transcoding := v\<rparr>"

definition t38_set_jbig_transcoding :: "t38_core_state \<Rightarrow> int \<Rightarrow> t38_core_state" where
  "t38_set_jbig_transcoding s v = s\<lparr>jbig_transcoding := v\<rparr>"

definition t38_set_max_buffer_size :: "t38_core_state \<Rightarrow> int \<Rightarrow> t38_core_state" where
  "t38_set_max_buffer_size s v = s\<lparr>max_buffer_size := v\<rparr>"

definition t38_set_max_datagram_size :: "t38_core_state \<Rightarrow> int \<Rightarrow> t38_core_state" where
  "t38_set_max_datagram_size s v = s\<lparr>max_datagram_size := v\<rparr>"

definition t38_set_t38_version :: "t38_core_state \<Rightarrow> int \<Rightarrow> t38_core_state" where
  "t38_set_t38_version s v = s\<lparr>t38_version := v\<rparr>"

definition t38_set_sequence_number_handling :: "t38_core_state \<Rightarrow> bool \<Rightarrow> t38_core_state" where
  "t38_set_sequence_number_handling s check = s\<lparr>check_sequence_numbers := check\<rparr>"

definition t38_set_tep_handling :: "t38_core_state \<Rightarrow> int \<Rightarrow> t38_core_state" where
  "t38_set_tep_handling s v = s\<lparr>allow_for_tep := v\<rparr>"

definition t38_set_redundancy_control :: "t38_core_state \<Rightarrow> int \<Rightarrow> int \<Rightarrow> t38_core_state option" where
  "t38_set_redundancy_control s category setting =
     map_option (\<lambda>cs. s\<lparr>category_control := cs\<rparr>) (arr_set (category_control s) category setting)"

definition t38_set_fastest_image_data_rate :: "t38_core_state \<Rightarrow> int \<Rightarrow> t38_core_state" where
  "t38_set_fastest_image_data_rate s r = s\<lparr>fastest_image_data_rate := r\<rparr>"

definition t38_get_fastest_image_data_rate :: "t38_core_state \<Rightarrow> int" where
  "t38_get_fastest_image_data_rate s = fastest_image_data_rate s"

section \<open>Receiving\<close>

definition classify_seq_no_offset :: "int \<Rightarrow> int \<Rightarrow> int" where
  "classify_seq_no_offset expected actual =
     (if expected > actual then
        (if expected > actual + 0x10000 - ACCEPTABLE_SEQ_NO_OFFSET then 1
         else if expected < actual + ACCEPTABLE_SEQ_NO_OFFSET then -1
         else 0)
      else
        (if expected + ACCEPTABLE_SEQ_NO_OFFSET > actual then 1
         else if expected + 0x10000 - ACCEPTABLE_SEQ_NO_OFFSET < actual then -1
         else 0))"

text \<open>
  The sequence check: \<open>None\<close> for a packet that is dropped as a repeat or as late,
  otherwise the context and the call of the missing handler.
\<close>

definition rx_sequence :: "t38_core_state \<Rightarrow> int \<Rightarrow> (t38_core_state \<times> rx_event list) option" where
  "rx_sequence s seq_no =
     (let expected = core_rx_expected_seq_no s in
      if \<not> check_sequence_numbers s \<or> seq_no = expected then Some (s, [])
      else if expected = -1 then Some (s\<lparr>core_rx_expected_seq_no := seq_no\<rparr>, [])
      else if (seq_no + 1) AND 0xFFFF = expected then None
      else if classify_seq_no_offset expected seq_no = -1 then None
      else if classify_seq_no_offset expected seq_no = 1 then
        Some (s\<lparr>missing_packets := missing_packets s + (seq_no - expected),
                core_rx_expected_seq_no := seq_no\<rparr>, [Rx_missing expected seq_no])
      else
        Some (s\<lparr>missing_packets := missing_packets s + 1, core_rx_expected_seq_no := seq_no\<rparr>,
              [Rx_missing (-1) (-1)]))"

text \<open>Reads of the packet are checked: \<open>None\<close> is a read beyond its end.\<close>

definition octet_at :: "octets \<Rightarrow> nat \<Rightarrow> int option" where
  "octet_at buf i = map_option uint (arr_get buf (int i))"

definition rx_indicator :: "t38_core_state \<Rightarrow> octets \<Rightarrow> (int \<times> t38_core_state \<times> rx_event list) option" where
  "rx_indicator s buf =
     do {
       b0 \<leftarrow> octet_at buf 0;
       if drop_bit 7 b0 AND 1 \<noteq> 0 then Some (-1, s, [])
       else
         (let s1 = s\<lparr>current_rx_data_type := -1, current_rx_field_type := -1\<rparr> in
          if b0 AND 0x20 \<noteq> 0 then
            (if length buf \<noteq> 2 then Some (-1, s1, [])
             else do {
               b1 \<leftarrow> octet_at buf 1;
               let ind = T38_IND_V8_ANSAM + ((push_bit 2 b0 AND 0x3C) OR (drop_bit 6 b1 AND 3));
               if ind > T38_IND_V33_14400_TRAINING then Some (-1, s1, [])
               else Some (0, s1\<lparr>current_rx_indicator := ind\<rparr>, [Rx_indicator ind])
             })
          else if length buf \<noteq> 1 then Some (-1, s1, [])
          else
            (let ind = drop_bit 1 b0 AND 0xF in
             Some (0, s1\<lparr>current_rx_indicator := ind\<rparr>, [Rx_indicator ind])))
     }"

text \<open>
  The head of one field: whether data is present, its type, the position after it and
  whether the next field starts in the lower half of the octet. The inner \<open>None\<close> is the
  error return of the code.
\<close>

definition field_header ::
    "int \<Rightarrow> octets \<Rightarrow> nat \<Rightarrow> bool \<Rightarrow> (bool \<times> int \<times> nat \<times> bool) option option" where
  "field_header version buf ptr other_half =
     do {
       b \<leftarrow> octet_at buf ptr;
       if version = 0 then
         (let (present, ft, ptr', half) =
            (if other_half then (drop_bit 3 b AND 1 \<noteq> 0, b AND 7, ptr + 1, False)
             else if drop_bit 7 b AND 1 \<noteq> 0 then (True, drop_bit 4 b AND 7, ptr + 1, False)
             else (False, drop_bit 4 b AND 7, ptr, True))
          in Some (if ft > T38_FIELD_T4_NON_ECM_SIG_END then None else Some (present, ft, ptr', half)))
       else if b AND 0x40 \<noteq> 0 then
         (if int ptr > int (length buf) - 2 then Some None
          else do {
            b1 \<leftarrow> octet_at buf (ptr + 1);
            let ft = T38_FIELD_CM_MESSAGE + ((push_bit 2 b AND 0x3C) OR (drop_bit 6 b1 AND 3));
            Some (if ft > T38_FIELD_V34RATE then None
                  else Some (drop_bit 7 b AND 1 \<noteq> 0, ft, ptr + 2, other_half))
          })
       else Some (Some (drop_bit 7 b AND 1 \<noteq> 0, drop_bit 3 b AND 7, ptr + 1, other_half))
     }"

text \<open>The data of a field: its octets and the position after them.\<close>

definition field_data :: "octets \<Rightarrow> nat \<Rightarrow> bool \<Rightarrow> (octets \<times> nat) option option" where
  "field_data buf ptr present =
     (if \<not> present then Some (if ptr > length buf then None else Some ([], ptr))
      else if int ptr > int (length buf) - 2 then Some None
      else do {
        b0 \<leftarrow> octet_at buf ptr;
        b1 \<leftarrow> octet_at buf (ptr + 1);
        let numocts = nat ((push_bit 8 b0 OR b1) + 1);
        if ptr + numocts + 2 > length buf then Some None
        else do {
          msg \<leftarrow> mem_read buf (ptr + 2) numocts;
          Some (Some (msg, ptr + numocts + 2))
        }
      })"

text \<open>The loop over \<open>count\<close> fields.\<close>

fun rx_fields ::
    "t38_core_state \<Rightarrow> octets \<Rightarrow> int \<Rightarrow> nat \<Rightarrow> nat \<Rightarrow> bool \<Rightarrow>
     (int \<times> nat \<times> bool \<times> t38_core_state \<times> rx_event list) option" where
  "rx_fields s buf t30_data 0 ptr other_half = Some (0, ptr, other_half, s, [])"
| "rx_fields s buf t30_data (Suc n) ptr other_half =
     (if ptr \<ge> length buf then Some (-1, ptr, other_half, s, [])
      else
        (case field_header (t38_version s) buf ptr other_half of
           None \<Rightarrow> None
         | Some None \<Rightarrow> Some (-1, ptr, other_half, s, [])
         | Some (Some (present, ft, ptr1, half)) \<Rightarrow>
             (case field_data buf ptr1 present of
                None \<Rightarrow> None
              | Some None \<Rightarrow> Some (-1, ptr1, half, s, [])
              | Some (Some (msg, ptr2)) \<Rightarrow>
                  map_option (\<lambda>(r, p, h, s', es). (r, p, h, s', Rx_data t30_data ft msg # es))
                    (rx_fields (s\<lparr>current_rx_data_type := t30_data, current_rx_field_type := ft\<rparr>)
                       buf t30_data n ptr2 half))))"

definition rx_data_fields ::
    "t38_core_state \<Rightarrow> octets \<Rightarrow> int \<Rightarrow> bool \<Rightarrow> nat \<Rightarrow> (int \<times> t38_core_state \<times> rx_event list) option" where
  "rx_data_fields s buf t30_data present ptr =
     (if \<not> present then Some (if ptr \<noteq> length buf then -1 else 0, s, [])
      else if ptr \<ge> length buf then Some (-1, s, [])
      else do {
        count \<leftarrow> octet_at buf ptr;
        (r, ptr', half, s', es) \<leftarrow> rx_fields s buf t30_data (nat count) (ptr + 1) False;
        Some (if r < 0 then -1
              else if ptr' \<noteq> length buf \<and>
                 (t38_version s \<noteq> 0 \<or> int ptr' \<noteq> int (length buf) - 1 \<or> \<not> half) then -1
              else 0, s', es)
      })"

definition rx_data :: "t38_core_state \<Rightarrow> octets \<Rightarrow> (int \<times> t38_core_state \<times> rx_event list) option" where
  "rx_data s buf =
     do {
       b0 \<leftarrow> octet_at buf 0;
       let present = (drop_bit 7 b0 AND 1 \<noteq> 0);
       if b0 AND 0x20 \<noteq> 0 then
         (if length buf < 2 then Some (-1, s, [])
          else do {
            b1 \<leftarrow> octet_at buf 1;
            let t30_data = T38_DATA_V8 + ((push_bit 2 b0 AND 0x3C) OR (drop_bit 6 b1 AND 3));
            if t30_data > T38_DATA_V33_14400 then Some (-1, s, [])
            else rx_data_fields s buf t30_data present 2
          })
       else
         (let t30_data = drop_bit 1 b0 AND 0xF in
          if t30_data > T38_DATA_V17_14400 then Some (-1, s, [])
          else rx_data_fields s buf t30_data present 1)
     }"

definition t38_core_rx_ifp_packet ::
    "t38_core_state \<Rightarrow> octets \<Rightarrow> u16 \<Rightarrow> (int \<times> t38_core_state \<times> rx_event list) option" where
  "t38_core_rx_ifp_packet s buf seq_no =
     (if length buf < 1 then Some (-1, s, [])
      else
        (case rx_sequence s (uint seq_no) of
           None \<Rightarrow> Some (0, s, [])
         | Some (s1, missing) \<Rightarrow>
             (let s2 = s1\<lparr>core_rx_expected_seq_no := (core_rx_expected_seq_no s1 + 1) AND 0xFFFF\<rparr> in
              do {
                b0 \<leftarrow> octet_at buf 0;
                (r, s3, es) \<leftarrow> (if drop_bit 6 b0 AND 1 = 0 then rx_indicator s2 buf else rx_data s2 buf);
                Some (r, s3, missing @ es)
              })))"

section \<open>Sending\<close>

definition t38_encode_indicator :: "int \<Rightarrow> int \<Rightarrow> int \<times> octets" where
  "t38_encode_indicator version indicator =
     (if indicator \<le> T38_IND_V17_14400_LONG_TRAINING then (1, [word_of_int (push_bit 1 indicator)])
      else if version \<noteq> 0 \<and> indicator \<le> T38_IND_V33_14400_TRAINING then
        (2, [word_of_int (0x20 OR drop_bit 2 ((indicator - T38_IND_V8_ANSAM) AND 0xF)),
             word_of_int (push_bit 6 (indicator - T38_IND_V8_ANSAM) AND 0xFF)])
      else (-1, []))"

record t38_data_field =
  field_type :: int
  field :: octets

text \<open>
  One element: 0, or \<open>-1\<close> for a field that cannot be sent, and the octets written.
\<close>

definition encode_field :: "int \<Rightarrow> t38_data_field \<Rightarrow> int \<times> octets" where
  "encode_field version q =
     (let present = (if field q \<noteq> [] then 1 else 0 :: int);
          ft = field_type q;
          n = int (length (field q));
          head =
            (if version = 0 then
               (if ft > T38_FIELD_T4_NON_ECM_SIG_END then None
                else Some [word_of_int (push_bit 7 present OR push_bit 4 ft)])
             else if ft \<le> T38_FIELD_T4_NON_ECM_SIG_END then
               Some [word_of_int (push_bit 7 present OR push_bit 3 ft)]
             else if ft \<le> T38_FIELD_V34RATE then
               Some [word_of_int (push_bit 7 present OR 0x40 OR drop_bit 2 (ft - T38_FIELD_CM_MESSAGE)),
                     word_of_int (push_bit 6 (ft - T38_FIELD_CM_MESSAGE) AND 0xC0)]
             else None) in
      case head of
        None \<Rightarrow> (-1, [])
      | Some h \<Rightarrow>
          if present = 0 then (0, h)
          else if n > 65535 then (-1, h)
          else (0, h @ [word_of_int (drop_bit 8 (n - 1) AND 0xFF), word_of_int ((n - 1) AND 0xFF)] @ field q))"

fun encode_fields :: "int \<Rightarrow> t38_data_field list \<Rightarrow> int \<times> octets" where
  "encode_fields version [] = (0, [])"
| "encode_fields version (q # qs) =
     (let (r, bs) = encode_field version q in
      if r < 0 then (-1, bs)
      else (let (r', bs') = encode_fields version qs in (r', bs @ bs')))"

text \<open>
  The count of elements, in one or two octets, or a fragment: the octets and the number
  of elements announced.
\<close>

definition encode_count :: "nat \<Rightarrow> octets \<times> nat" where
  "encode_count v =
     (if v < 0x80 then ([word_of_int (int v)], v)
      else if v < 0x4000 then
        ([word_of_int (0x80 OR (drop_bit 8 (int v) AND 0xFF)), word_of_int (int v AND 0xFF)], v)
      else
        (let m = (if v div 0x4000 < 4 then v div 0x4000 else 4) in
         ([word_of_int (0xC0 OR int m)], 0x4000 * m)))"

lemma encode_count_progress:
  "v < 16384 \<Longrightarrow> snd (encode_count v) = v"
  "16384 \<le> v \<Longrightarrow> 16384 \<le> snd (encode_count v)"
proof -
  show "v < 16384 \<Longrightarrow> snd (encode_count v) = v" by (auto simp: encode_count_def)
  assume v: "16384 \<le> v"
  then have "1 \<le> v div 16384" by (simp add: Suc_leI div_greater_zero_iff)
  with v show "16384 \<le> snd (encode_count v)" by (simp add: encode_count_def Let_def)
qed

text \<open>
  The \<open>do ... while\<close> loop: each pass encodes \<open>encoded_len\<close> elements, counted from the
  start, beginning with element \<open>no\<close>. \<open>None\<close> when that reads beyond the array of fields.
\<close>

function encode_fragments ::
    "int \<Rightarrow> t38_data_field list \<Rightarrow> nat \<Rightarrow> nat \<Rightarrow> (int \<times> octets) option" where
  "encode_fragments version fs encoded_len no =
     (let (cnt, fragment_len) = encode_count (length fs - encoded_len);
          encoded_len' = encoded_len + fragment_len in
      if no + encoded_len' > length fs then None
      else
        (let (r, bs) = encode_fields version (take encoded_len' (drop no fs)) in
         if r < 0 then Some (-1, cnt @ bs)
         else if length fs \<noteq> encoded_len' \<or> fragment_len \<ge> 16384 then
           map_option (\<lambda>(r', bs'). (r', cnt @ bs @ bs'))
             (encode_fragments version fs encoded_len' (no + encoded_len'))
         else Some (0, cnt @ bs)))"
  by pat_completeness auto
termination
proof (relation "measure (\<lambda>(version, fs, encoded_len, no). length fs - encoded_len)")
  fix version :: int and fs :: "t38_data_field list" and encoded_len no :: nat and x y z u v w
  assume c: "x = encode_count (length fs - encoded_len)" "(y, z) = x" "u = encoded_len + z"
    and fits: "\<not> length fs < no + u" and more: "length fs \<noteq> u \<or> 16384 \<le> z"
  have z: "z = snd (encode_count (length fs - encoded_len))" using c(1,2) by (metis snd_conv)
  have big: "16384 \<le> length fs - encoded_len"
  proof (rule ccontr)
    assume "\<not> 16384 \<le> length fs - encoded_len"
    then have "z = length fs - encoded_len" "z < 16384" using encode_count_progress(1) z by simp_all
    with fits more c(3) show False by linarith
  qed
  then have "16384 \<le> z" using encode_count_progress(2) z by simp
  with big c(3) show "((version, fs, u, no + u), version, fs, encoded_len, no)
      \<in> measure (\<lambda>(version, fs, encoded_len, no). length fs - encoded_len)"
    by simp
qed simp

declare encode_fragments.simps [simp del]

definition t38_encode_data :: "int \<Rightarrow> int \<Rightarrow> t38_data_field list \<Rightarrow> (int \<times> octets) option" where
  "t38_encode_data version data_type fs =
     (let head =
        (if data_type \<le> T38_DATA_V17_14400 then Some [word_of_int (0x80 OR 0x40 OR push_bit 1 data_type)]
         else if version \<noteq> 0 \<and> data_type \<le> T38_DATA_V33_14400 then
           Some [word_of_int (0x80 OR 0x60 OR drop_bit 2 ((data_type - T38_DATA_V8) AND 0xF)),
                 word_of_int (push_bit 6 (data_type - T38_DATA_V8) AND 0xFF)]
         else None) in
      case head of
        None \<Rightarrow> Some (-1, [])
      | Some h \<Rightarrow>
          map_option (\<lambda>(r, bs). (if r < 0 then -1 else int (length (h @ bs)), h @ bs))
            (encode_fragments version fs 0 0))"

text \<open>
  The two send functions write into a local buffer of \<open>1000\<close> octets. The result is the
  return value, the context and the call of \<open>tx_packet_handler\<close>: packet and number of
  transmissions.
\<close>

definition t38_core_send_data_multi_field ::
    "t38_core_state \<Rightarrow> int \<Rightarrow> t38_data_field list \<Rightarrow> int \<Rightarrow>
     (int \<times> t38_core_state \<times> (octets \<times> int) option) option" where
  "t38_core_send_data_multi_field s data_type fs category =
     do {
       (r, bs) \<leftarrow> t38_encode_data (t38_version s) data_type fs;
       if length bs > 1000 then None
       else if r < 0 then Some (r, s, None)
       else do {
         count \<leftarrow> arr_get (category_control s) category;
         Some (0, s\<lparr>core_tx_seq_no := (core_tx_seq_no s + 1) AND 0xFFFF\<rparr>, Some (bs, count))
       }
     }"

definition t38_core_send_data ::
    "t38_core_state \<Rightarrow> int \<Rightarrow> int \<Rightarrow> octets \<Rightarrow> int \<Rightarrow>
     (int \<times> t38_core_state \<times> (octets \<times> int) option) option" where
  "t38_core_send_data s data_type ft octs category =
     t38_core_send_data_multi_field s data_type [\<lparr>field_type = ft, field = octs\<rparr>] category"

definition t38_core_send_indicator ::
    "t38_core_state \<Rightarrow> int \<Rightarrow> (int \<times> t38_core_state \<times> (octets \<times> int) option) option" where
  "t38_core_send_indicator s indicator =
     (if current_tx_indicator s = indicator then Some (0, s, None)
      else do {
        control \<leftarrow> arr_get (category_control s) T38_PACKET_CATEGORY_INDICATOR;
        let transmissions = (if indicator AND 0x100 \<noteq> 0 then 1 else control);
        let ind = indicator AND 0xFF;
        let s1 = s\<lparr>current_tx_indicator := ind\<rparr>;
        if control \<noteq> 0 then
          (case t38_encode_indicator (t38_version s) ind of
             (len, bs) \<Rightarrow>
               if len < 0 then Some (len, s, None)
               else do {
                 (tep, training, fl) \<leftarrow> arr_get modem_startup_time ind;
                 Some (training + (if allow_for_tep s \<noteq> 0 then tep else 0),
                       s1\<lparr>core_tx_seq_no := (core_tx_seq_no s + 1) AND 0xFFFF\<rparr>,
                       Some (bs, transmissions))
               })
        else Some (0, s1, None)
      })"

end
