(* ===== verification/T38_Ifp.thy ===== *)
theory T38_Ifp
  imports T38_Core
begin

text \<open>
  What the T.38 core promises: receiving stays within the packet whatever its octets; what
  is encoded is decoded back; repeated and late packets have no effect. And the field lists
  that the original (version 0) syntax does not carry.
\<close>

section \<open>The distance of sequence numbers\<close>

lemma classify_is_distance_lemma:
  assumes "0 \<le> expected" "expected < 65536" "0 \<le> actual" "actual < 65536" "expected \<noteq> actual"
  shows "classify_seq_no_offset expected actual =
    (if (actual - expected) mod 65536 < 2000 then 1
     else if (expected - actual) mod 65536 < 2000 then -1 else 0)"
proof -
  have m: "x mod 65536 = (if x < 0 then x + 65536 else x)" if "-65536 < x" "x < 65536" for x :: int
  proof (cases "x < 0")
    case True
    then have "(x + 65536) mod 65536 = x + 65536" using that by (intro mod_pos_pos_trivial) auto
    then show ?thesis using True by simp
  qed (use that in simp)
  have d: "(actual - expected) mod 65536 = (if actual < expected then actual - expected + 65536 else actual - expected)"
    "(expected - actual) mod 65536 = (if expected < actual then expected - actual + 65536 else expected - actual)"
    using assms by (subst m; auto)+
  show ?thesis unfolding classify_seq_no_offset_def d using assms by auto
qed

text \<open>
  Property C37. classify_seq_no_offset is the distance modulo 65536: 1 for fewer than
  2000 ahead, -1 for fewer than 2000 behind, 0 otherwise.
\<close>

theorem classify_is_distance:
  assumes "0 \<le> expected" "expected < 65536" "0 \<le> actual" "actual < 65536" "expected \<noteq> actual"
  shows "classify_seq_no_offset expected actual =
    (if (actual - expected) mod 65536 < 2000 then 1
     else if (expected - actual) mod 65536 < 2000 then -1 else 0)"
  by (rule classify_is_distance_lemma [OF assms])

theorem classify_is_distance_witness:
  "classify_seq_no_offset 65530 3 = 1 \<and> classify_seq_no_offset 3 65530 = -1 \<and>
   classify_seq_no_offset 100 30000 = 0"
  using classify_is_distance [of 65530 3] classify_is_distance [of 3 65530] classify_is_distance [of 100 30000]
  by simp

section \<open>Receiving stays within the packet\<close>

lemma octet_at_in: "i < length buf \<Longrightarrow> octet_at buf i = Some (uint (buf ! i))"
  by (simp add: octet_at_def arr_get_def)

lemma octet_at_nth [simp]: "octet_at (pre @ x # rest) (length pre) = Some (uint x)"
  by (simp add: octet_at_in)

lemma field_header_total: "ptr < length buf \<Longrightarrow> \<exists>r. field_header v buf ptr half = Some r"
  by (auto simp: field_header_def octet_at_in Let_def split: if_splits)

lemma field_data_total: "\<exists>r. field_data buf ptr present = Some r"
  by (auto simp: field_data_def octet_at_in mem_read_in Let_def)

lemma rx_fields_total: "\<exists>r p h s' es. rx_fields s buf d n ptr half = Some (r, p, h, s', es)"
proof (induction n arbitrary: s ptr half)
  case (Suc n)
  show ?case
  proof (cases "ptr < length buf")
    case True
    then obtain hd where hd: "field_header (t38_version s) buf ptr half = Some hd"
      using field_header_total by blast
    show ?thesis
    proof (cases hd)
      case (Some x)
      obtain present ft ptr1 half1 where x: "x = (present, ft, ptr1, half1)" by (cases x)
      obtain dt where dt: "field_data buf ptr1 present = Some dt" using field_data_total by blast
      show ?thesis
      proof (cases dt)
        case (Some y)
        obtain msg ptr2 where y: "y = (msg, ptr2)" by (cases y)
        from Suc.IH [of "s\<lparr>current_rx_data_type := d, current_rx_field_type := ft\<rparr>" ptr2 half1]
        show ?thesis using True hd \<open>hd = Some x\<close> x dt Some y by auto
      qed (use True hd Some x dt in simp)
    qed (use True hd in simp)
  qed simp
qed simp

lemma rx_data_fields_total: "\<exists>r. rx_data_fields s buf d present ptr = Some r"
proof (cases "present \<and> ptr < length buf")
  case True
  then obtain r p h s' es where
    "rx_fields s buf d (nat (uint (buf ! ptr))) (ptr + 1) False = Some (r, p, h, s', es)"
    using rx_fields_total by blast
  with True show ?thesis by (simp add: rx_data_fields_def octet_at_in)
qed (auto simp: rx_data_fields_def)

text \<open>
  Property C27. Whatever octets an IFP packet holds, t38_core_rx_ifp_packet reads none
  beyond its end, hands the data handler no octets beyond its end, and returns.
\<close>

theorem rx_ifp_total: "\<exists>r s' es. t38_core_rx_ifp_packet s buf seq_no = Some (r, s', es)"
proof (cases "length buf < 1 \<or> rx_sequence s (uint seq_no) = None")
  case True
  then show ?thesis by (cases "length buf < 1") (auto simp: t38_core_rx_ifp_packet_def)
next
  case False
  then obtain s1 ms where s1: "rx_sequence s (uint seq_no) = Some (s1, ms)" and l: "0 < length buf" by auto
  let ?s2 = "s1\<lparr>core_rx_expected_seq_no := (core_rx_expected_seq_no s1 + 1) AND 0xFFFF\<rparr>"
  have "\<exists>r. rx_indicator ?s2 buf = Some r"
    using l by (auto simp: rx_indicator_def octet_at_in Let_def)
  moreover have "\<exists>r. rx_data ?s2 buf = Some r"
    using l rx_data_fields_total by (auto simp: rx_data_def octet_at_in Let_def)
  ultimately show ?thesis
    using s1 l by (auto simp: t38_core_rx_ifp_packet_def octet_at_in Let_def)
qed

section \<open>Round trips\<close>

text \<open>A context that takes the packet: first of all, or in sequence.\<close>

definition in_sequence :: "t38_core_state \<Rightarrow> u16 \<Rightarrow> bool" where
  "in_sequence s seq_no \<longleftrightarrow> \<not> check_sequence_numbers s \<or>
     core_rx_expected_seq_no s = -1 \<or> core_rx_expected_seq_no s = uint seq_no"

lemma rx_in_sequence:
  assumes "in_sequence s seq_no" "buf \<noteq> []"
  shows "\<exists>s2. (\<forall>b0. octet_at buf 0 = Some b0 \<longrightarrow> t38_core_rx_ifp_packet s buf seq_no =
      (if drop_bit 6 b0 AND 1 = 0 then rx_indicator s2 buf else rx_data s2 buf)) \<and>
    t38_version s2 = t38_version s \<and> check_sequence_numbers s2 = check_sequence_numbers s \<and>
    (check_sequence_numbers s \<longrightarrow> core_rx_expected_seq_no s2 = (uint seq_no + 1) mod 65536)"
proof -
  obtain s1 where s1: "rx_sequence s (uint seq_no) = Some (s1, [])" "t38_version s1 = t38_version s"
      "check_sequence_numbers s1 = check_sequence_numbers s"
      "check_sequence_numbers s \<longrightarrow> core_rx_expected_seq_no s1 = uint seq_no"
  proof (cases "check_sequence_numbers s \<and> core_rx_expected_seq_no s = -1")
    case True
    then show ?thesis
      by (intro that [of "s\<lparr>core_rx_expected_seq_no := uint seq_no\<rparr>"])
        (auto simp: rx_sequence_def Let_def dest: arg_cong [where f = "\<lambda>x. x < 0"])
  next
    case False
    with assms(1) show ?thesis
      by (intro that [of s]) (auto simp: in_sequence_def rx_sequence_def)
  qed
  let ?s2 = "s1\<lparr>core_rx_expected_seq_no := (core_rx_expected_seq_no s1 + 1) AND 0xFFFF\<rparr>"
  have "t38_core_rx_ifp_packet s buf seq_no =
      (if drop_bit 6 b0 AND 1 = 0 then rx_indicator ?s2 buf else rx_data ?s2 buf)"
    if "octet_at buf 0 = Some b0" for b0
    using s1(1) assms(2) that by (cases buf) (auto simp: t38_core_rx_ifp_packet_def Let_def)
  then show ?thesis using s1 by (intro exI [of _ ?s2]) (simp add: int_masks)
qed

text \<open>
  Property C25. An indicator that t38_encode_indicator encodes is decoded to the same
  indicator, in both syntax versions.
\<close>

theorem indicator_roundtrip:
  assumes "0 \<le> ind" "ind \<le> 15 \<or> t38_version tx \<noteq> 0 \<and> ind \<le> 22" "in_sequence s seq_no"
  shows "\<exists>bs s'. t38_encode_indicator (t38_version tx) ind = (int (length bs), bs) \<and>
    t38_core_rx_ifp_packet s bs seq_no = Some (0, s', [Rx_indicator ind]) \<and> current_rx_indicator s' = ind"
proof (cases "ind \<le> 15")
  case True
  define b where "b = (word_of_int (push_bit 1 ind) :: u8)"
  have "ind \<in> {0, 1, 2, 3, 4, 5, 6, 7, 8, 9, 10, 11, 12, 13, 14, 15}"
    using True assms(1) by (simp only: insert_iff empty_iff) presburger
  then have b: "drop_bit 7 (uint b) AND 1 = 0" "drop_bit 6 (uint b) AND 1 = 0" "uint b AND 0x20 = 0"
      "drop_bit 1 (uint b) AND 0xF = ind"
    unfolding b_def by (elim insertE emptyE; simp)+
  have e: "t38_encode_indicator (t38_version tx) ind = (1, [b])"
    using True by (simp add: t38_encode_indicator_def b_def)
  obtain s2 where s2: "\<And>b0. octet_at [b] 0 = Some b0 \<Longrightarrow> t38_core_rx_ifp_packet s [b] seq_no =
      (if drop_bit 6 b0 AND 1 = 0 then rx_indicator s2 [b] else rx_data s2 [b])"
    using rx_in_sequence [OF assms(3), of "[b]"] by auto
  have "t38_core_rx_ifp_packet s [b] seq_no = rx_indicator s2 [b]"
    using s2 [of "uint b"] b by (simp add: octet_at_in)
  then show ?thesis using e b by (auto simp: rx_indicator_def octet_at_in Let_def)
next
  case False
  then have v: "t38_version tx \<noteq> 0" "ind \<le> 22" using assms(2) by auto
  define b c where "b = (word_of_int (0x20 OR drop_bit 2 ((ind - 16) AND 0xF)) :: u8)"
    and "c = (word_of_int (push_bit 6 (ind - 16) AND 0xFF) :: u8)"
  have "ind \<in> {16, 17, 18, 19, 20, 21, 22}"
    using False v(2) by (simp only: insert_iff empty_iff) presburger
  then have b: "drop_bit 7 (uint b) AND 1 = 0" "drop_bit 6 (uint b) AND 1 = 0" "uint b AND 0x20 \<noteq> 0"
      "16 + ((push_bit 2 (uint b) AND 0x3C) OR (drop_bit 6 (uint c) AND 3)) = ind"
    unfolding b_def c_def by (elim insertE emptyE; simp)+
  have e: "t38_encode_indicator (t38_version tx) ind = (2, [b, c])"
    using False v by (simp add: t38_encode_indicator_def b_def c_def)
  obtain s2 where s2: "\<And>b0. octet_at [b, c] 0 = Some b0 \<Longrightarrow> t38_core_rx_ifp_packet s [b, c] seq_no =
      (if drop_bit 6 b0 AND 1 = 0 then rx_indicator s2 [b, c] else rx_data s2 [b, c])"
    using rx_in_sequence [OF assms(3), of "[b, c]"] by auto
  have "t38_core_rx_ifp_packet s [b, c] seq_no = rx_indicator s2 [b, c]"
    using s2 [of "uint b"] b by (simp add: octet_at_in)
  then show ?thesis using e b v by (auto simp: rx_indicator_def octet_at_in Let_def)
qed

theorem indicator_roundtrip_witness:
  "\<exists>tx s'. t38_core_init True True = Some tx \<and>
     t38_core_rx_ifp_packet tx (snd (t38_encode_indicator 0 4)) 77 = Some (0, s', [Rx_indicator 4])"
proof -
  obtain tx where tx: "t38_core_init True True = Some tx" by (simp add: t38_core_init_def)
  then have "in_sequence tx 77" "t38_version tx = 0"
    by (auto simp: t38_core_init_def t38_core_restart_def in_sequence_def)
  with indicator_roundtrip [of 4 tx tx 77] tx show ?thesis by auto
qed

text \<open>The fields that can be sent: known types, and data of at most 65535 octets.\<close>

definition field_ok :: "int \<Rightarrow> t38_data_field \<Rightarrow> bool" where
  "field_ok version q \<longleftrightarrow> 0 \<le> field_type q \<and> field_type q \<le> (if version = 0 then 7 else 11) \<and>
     length (field q) \<le> 65535"

text \<open>In version 0 only the last field may come without data.\<close>

definition fields_ok :: "int \<Rightarrow> t38_data_field list \<Rightarrow> bool" where
  "fields_ok version fs \<longleftrightarrow> (\<forall>q \<in> set fs. field_ok version q) \<and>
     (version = 0 \<longrightarrow> (\<forall>q \<in> set (butlast fs). field q \<noteq> []))"

definition length_octets :: "octets \<Rightarrow> octets" where
  "length_octets m = [word_of_int (drop_bit 8 (int (length m) - 1) AND 0xFF),
                      word_of_int ((int (length m) - 1) AND 0xFF)]"

lemma length_octets_value:
  assumes "m \<noteq> []" "length m \<le> 65535"
  shows "nat ((push_bit 8 (uint (length_octets m ! 0)) OR uint (length_octets m ! 1)) + 1) = length m"
proof -
  let ?n = "int (length m) - 1"
  have n: "0 \<le> ?n" "?n < 65536" using assms by (simp_all add: Suc_le_eq)
  have q: "0 \<le> ?n div 256" "?n div 256 < 256"
    using n(1) n(2) by (simp only: pos_imp_zdiv_nonneg_iff, linarith)
  have h: "uint (length_octets m ! 0) = ?n div 256"
    using uint_word_of_int_8 [OF q] mod_pos_pos_trivial [OF q]
    by (simp add: length_octets_def int_masks drop_bit_eq_div)
  have l: "uint (length_octets m ! 1) = ?n mod 256"
    using uint_word_of_int_8 [of "?n mod 256"] by (simp add: length_octets_def int_masks)
  have "push_bit 8 (?n div 256) OR ?n mod 256 = ?n div 256 * 256 + ?n mod 256"
    using int_or_add [of "?n mod 256" 8 "?n div 256"] by (simp add: push_bit_eq_mult)
  also have "\<dots> = ?n" by simp
  finally show ?thesis unfolding h l using n by simp
qed

lemma field_data_octets:
  assumes "buf = pre @ length_octets m @ m @ rest" "m \<noteq> []" "length m \<le> 65535"
  shows "field_data buf (length pre) True = Some (Some (m, length pre + length m + 2))"
proof -
  have l: "length (length_octets m) = 2" by (simp add: length_octets_def)
  have b: "octet_at buf (length pre) = Some (uint (length_octets m ! 0))"
    "octet_at buf (length pre + 1) = Some (uint (length_octets m ! 1))"
    using l assms(1) by (simp_all add: octet_at_in nth_append)
  have "take (length m) (drop (length pre + 2) buf) = m" "length pre + 2 + length m \<le> length buf"
    using l assms(1) by simp_all
  then show ?thesis
    unfolding field_data_def b Let_def bind.bind_lunit length_octets_value [OF assms(2,3)]
    by (simp add: mem_read_def add.commute add.left_commute)
qed

lemma small_types:
  "0 \<le> (ft :: int) \<Longrightarrow> ft \<le> 7 \<Longrightarrow> ft \<in> {0, 1, 2, 3, 4, 5, 6, 7}"
  "8 \<le> (ft :: int) \<Longrightarrow> ft \<le> 11 \<Longrightarrow> ft \<in> {8, 9, 10, 11}"
  by (simp only: insert_iff empty_iff, presburger)+

text \<open>The octets of one field.\<close>

definition field_head :: "int \<Rightarrow> t38_data_field \<Rightarrow> octets" where
  "field_head version q =
     (let present = (if field q \<noteq> [] then 1 else 0 :: int); ft = field_type q in
      if version = 0 then [word_of_int (push_bit 7 present OR push_bit 4 ft)]
      else if ft \<le> 7 then [word_of_int (push_bit 7 present OR push_bit 3 ft)]
      else [word_of_int (push_bit 7 present OR 0x40 OR drop_bit 2 (ft - 8)),
            word_of_int (push_bit 6 (ft - 8) AND 0xC0)])"

definition field_octets :: "int \<Rightarrow> t38_data_field \<Rightarrow> octets" where
  "field_octets version q =
     field_head version q @ (if field q = [] then [] else length_octets (field q) @ field q)"

lemma encode_field_ok: "field_ok v q \<Longrightarrow> encode_field v q = (0, field_octets v q)"
  by (cases "v = 0") (auto simp: field_ok_def encode_field_def field_octets_def field_head_def
      length_octets_def Let_def)

lemma field_header_head:
  assumes "field_ok v q" "buf = pre @ field_head v q @ rest"
  shows "field_header v buf (length pre) False =
    Some (Some (field q \<noteq> [], field_type q,
      (if v = 0 \<and> field q = [] then length pre else length pre + length (field_head v q)),
      v = 0 \<and> field q = []))"
proof -
  define p where "p = (if field q \<noteq> [] then 1 else 0 :: int)"
  have p: "p \<in> {0, 1}" by (simp add: p_def)
  show ?thesis
  proof (cases "v = 0")
    case True
    define b where "b = (word_of_int (push_bit 7 p OR push_bit 4 (field_type q)) :: u8)"
    have "field_type q \<in> {0, 1, 2, 3, 4, 5, 6, 7}" using assms(1) True by (intro small_types) (simp_all add: field_ok_def)
    then have "drop_bit 7 (uint b) AND 1 = p" "drop_bit 4 (uint b) AND 7 = field_type q"
      using p unfolding b_def by (elim insertE emptyE; simp)+
    moreover have "buf = pre @ b # rest" "length (field_head v q) = 1"
      using assms(2) True by (simp_all add: field_head_def b_def p_def Let_def)
    moreover have "field_type q \<le> 7" using assms(1) True by (simp add: field_ok_def)
    ultimately show ?thesis using True by (simp add: field_header_def Let_def p_def)
  next
    case v: False
    show ?thesis
    proof (cases "field_type q \<le> 7")
      case True
      define b where "b = (word_of_int (push_bit 7 p OR push_bit 3 (field_type q)) :: u8)"
      have "field_type q \<in> {0, 1, 2, 3, 4, 5, 6, 7}" using assms(1) True by (intro small_types) (simp_all add: field_ok_def)
      then have "drop_bit 7 (uint b) AND 1 = p" "drop_bit 3 (uint b) AND 7 = field_type q" "uint b AND 0x40 = 0"
        using p unfolding b_def by (elim insertE emptyE; simp)+
      moreover have "buf = pre @ b # rest" "length (field_head v q) = 1"
        using assms(2) v True by (simp_all add: field_head_def b_def p_def Let_def)
      ultimately show ?thesis using v by (simp add: field_header_def Let_def p_def)
    next
      case False
      define b c where "b = (word_of_int (push_bit 7 p OR 0x40 OR drop_bit 2 (field_type q - 8)) :: u8)"
        and "c = (word_of_int (push_bit 6 (field_type q - 8) AND 0xC0) :: u8)"
      have "field_type q \<in> {8, 9, 10, 11}" using assms(1) v False by (intro small_types) (simp_all add: field_ok_def)
      then have "drop_bit 7 (uint b) AND 1 = p" "uint b AND 0x40 \<noteq> 0"
          "8 + ((push_bit 2 (uint b) AND 0x3C) OR (drop_bit 6 (uint c) AND 3)) = field_type q"
        using p unfolding b_def c_def by (elim insertE emptyE; simp)+
      moreover have bc: "buf = pre @ b # c # rest" "length (field_head v q) = 2"
        using assms(2) v False by (simp_all add: field_head_def b_def c_def p_def Let_def)
      moreover have "octet_at buf (length pre + 1) = Some (uint c)"
        using bc(1) by (simp add: octet_at_in nth_append)
      moreover have "field_type q \<le> 11" using assms(1) v by (simp add: field_ok_def)
      ultimately show ?thesis using v by (simp add: field_header_def Let_def p_def)
    qed
  qed
qed

definition fields_octets :: "int \<Rightarrow> t38_data_field list \<Rightarrow> octets" where
  "fields_octets v fs = concat (map (field_octets v) fs)"

lemma encode_fields_ok: "\<forall>q \<in> set fs. field_ok v q \<Longrightarrow> encode_fields v fs = (0, fields_octets v fs)"
  by (induction fs) (simp_all add: encode_field_ok fields_octets_def)

lemma field_head_length: "0 < length (field_head v q)"
  by (simp add: field_head_def Let_def)

lemma rx_fields_step:
  assumes "ptr < length buf" "field_header (t38_version s) buf ptr half = Some (Some (present, ft, ptr1, half1))"
    and "field_data buf ptr1 present = Some (Some (msg, ptr2))"
    and "rx_fields (s\<lparr>current_rx_data_type := d, current_rx_field_type := ft\<rparr>) buf d n ptr2 half1 =
      Some (r, p, h, s', es)"
  shows "rx_fields s buf d (Suc n) ptr half = Some (r, p, h, s', Rx_data d ft msg # es)"
  using assms by simp

lemma rx_fields_octets:
  assumes "fields_ok (t38_version s) fs" "buf = pre @ fields_octets (t38_version s) fs @ rest"
  shows "\<exists>s' dangling. dangling = (t38_version s = 0 \<and> fs \<noteq> [] \<and> field (last fs) = []) \<and>
    rx_fields s buf d (length fs) (length pre) False =
      Some (0, length pre + length (fields_octets (t38_version s) fs) - (if dangling then 1 else 0),
            dangling, s', map (\<lambda>q. Rx_data d (field_type q) (field q)) fs) \<and>
    t38_version s' = t38_version s \<and> core_rx_expected_seq_no s' = core_rx_expected_seq_no s \<and>
    check_sequence_numbers s' = check_sequence_numbers s"
  using assms
proof (induction fs arbitrary: s pre)
  case (Cons q fs)
  let ?v = "t38_version s" and ?s1 = "s\<lparr>current_rx_data_type := d, current_rx_field_type := field_type q\<rparr>"
  have q: "field_ok ?v q" using Cons.prems(1) by (simp add: fields_ok_def)
  have buf: "buf = pre @ field_head ?v q @ (if field q = [] then [] else length_octets (field q) @ field q)
      @ fields_octets ?v fs @ rest"
    using Cons.prems(2) by (simp add: fields_octets_def field_octets_def)
  note head = field_header_head [OF q buf]
  have in_buf: "length pre < length buf" using field_head_length [of ?v q] buf by simp
  have ok: "fields_ok (t38_version ?s1) fs" using Cons.prems(1)
    by (cases fs) (auto simp: fields_ok_def)
  note step = rx_fields_step [OF in_buf head]
  show ?case
  proof (cases "field q = []")
    case False
    have len: "length (field q) \<le> 65535" using q by (simp add: field_ok_def)
    let ?pre = "pre @ field_octets ?v q"
    have "field_data buf (length (pre @ field_head ?v q)) True =
        Some (Some (field q, length (pre @ field_head ?v q) + length (field q) + 2))"
      using buf False len by (intro field_data_octets [of _ _ _ "fields_octets ?v fs @ rest"]) simp_all
    moreover have "length (pre @ field_head ?v q) + length (field q) + 2 = length ?pre"
      using False by (simp add: field_octets_def length_octets_def)
    ultimately have data: "field_data buf (if ?v = 0 \<and> field q = [] then length pre
        else length pre + length (field_head ?v q)) (field q \<noteq> []) = Some (Some (field q, length ?pre))"
      using False by simp
    have "buf = ?pre @ fields_octets (t38_version ?s1) fs @ rest"
      using buf False by (simp add: field_octets_def)
    from Cons.IH [OF ok this] obtain s' dangling where IH:
      "dangling = (?v = 0 \<and> fs \<noteq> [] \<and> field (last fs) = [])"
      "rx_fields ?s1 buf d (length fs) (length ?pre) False =
        Some (0, length ?pre + length (fields_octets ?v fs) - (if dangling then 1 else 0),
              dangling, s', map (\<lambda>q. Rx_data d (field_type q) (field q)) fs)"
      "t38_version s' = ?v" "core_rx_expected_seq_no s' = core_rx_expected_seq_no s"
      "check_sequence_numbers s' = check_sequence_numbers s" by auto
    have half: "(?v = 0 \<and> field q = []) = False" using False by simp
    have "length pre + length (fields_octets ?v (q # fs)) = length ?pre + length (fields_octets ?v fs)"
      by (simp add: fields_octets_def)
    with step [OF data, unfolded half, OF IH(2)] IH(1,3,4,5) False show ?thesis
      by (intro exI [of _ s'] exI [of _ dangling]) auto
  next
    case True
    note empty = True
    show ?thesis
    proof (cases "?v = 0")
      case True
      with empty Cons.prems(1) have fs: "fs = []" by (cases fs) (auto simp: fields_ok_def)
      have l: "length (fields_octets ?v (q # fs)) = 1"
        using True empty fs by (simp add: fields_octets_def field_octets_def field_head_def Let_def)
      have data: "field_data buf (if ?v = 0 \<and> field q = [] then length pre
          else length pre + length (field_head ?v q)) (field q \<noteq> []) = Some (Some (field q, length pre))"
        using in_buf True empty by (simp add: field_data_def)
      have "rx_fields ?s1 buf d (length fs) (length pre) (?v = 0 \<and> field q = []) =
          Some (0, length pre, True, ?s1, [])" using fs True empty by simp
      from step [OF data this] l fs empty True show ?thesis
        by (intro exI [of _ ?s1] exI [of _ True]) simp
    next
      case False
      let ?pre = "pre @ field_octets ?v q"
      have "length ?pre = length pre + length (field_head ?v q)" using empty by (simp add: field_octets_def)
      moreover have "length ?pre \<le> length buf" using buf empty by (simp add: field_octets_def)
      ultimately have data: "field_data buf (if ?v = 0 \<and> field q = [] then length pre
          else length pre + length (field_head ?v q)) (field q \<noteq> []) = Some (Some (field q, length ?pre))"
        using False empty by (simp add: field_data_def)
      have "buf = ?pre @ fields_octets (t38_version ?s1) fs @ rest"
        using buf empty by (simp add: field_octets_def)
      from Cons.IH [OF ok this] obtain s' where IH:
        "rx_fields ?s1 buf d (length fs) (length ?pre) False =
          Some (0, length ?pre + length (fields_octets ?v fs), False, s',
                map (\<lambda>q. Rx_data d (field_type q) (field q)) fs)"
        "t38_version s' = ?v" "core_rx_expected_seq_no s' = core_rx_expected_seq_no s"
        "check_sequence_numbers s' = check_sequence_numbers s" using False by auto
      have half: "(?v = 0 \<and> field q = []) = False" using False by simp
      have "length pre + length (fields_octets ?v (q # fs)) = length ?pre + length (fields_octets ?v fs)"
        by (simp add: fields_octets_def)
      with step [OF data, unfolded half, OF IH(1)] IH(2,3,4) False show ?thesis
        by (intro exI [of _ s'] exI [of _ False]) auto
    qed
  qed
qed (auto simp: fields_octets_def)

text \<open>The packet of a list of fields.\<close>

definition data_type_ok :: "int \<Rightarrow> int \<Rightarrow> bool" where
  "data_type_ok version d \<longleftrightarrow> 0 \<le> d \<and> d \<le> (if version = 0 then 8 else 14)"

definition data_head :: "int \<Rightarrow> octets" where
  "data_head d =
     (if d \<le> 8 then [word_of_int (0x80 OR 0x40 OR push_bit 1 d)]
      else [word_of_int (0x80 OR 0x60 OR drop_bit 2 ((d - 9) AND 0xF)), word_of_int (push_bit 6 (d - 9) AND 0xFF)])"

definition data_octets :: "int \<Rightarrow> int \<Rightarrow> t38_data_field list \<Rightarrow> octets" where
  "data_octets version d fs = data_head d @ word_of_int (int (length fs)) # fields_octets version fs"

lemma encode_data_all:
  assumes "data_type_ok version d" "\<forall>q \<in> set fs. field_ok version q" "length fs < 128"
  shows "t38_encode_data version d fs =
    Some (int (length (data_octets version d fs)), data_octets version d fs)"
proof -
  have "encode_count (length fs) = ([word_of_int (int (length fs))], length fs)"
    using assms(3) by (simp add: encode_count_def)
  then have "encode_fragments version fs 0 0 =
      Some (0, word_of_int (int (length fs)) # fields_octets version fs)"
    using encode_fields_ok [of fs version] assms(2,3)
    by (simp add: encode_fragments.simps [of version fs 0 0])
  then show ?thesis
    using assms(1) by (auto simp: t38_encode_data_def data_octets_def data_head_def data_type_ok_def Let_def split: if_splits)
qed

lemma encode_data_octets:
  assumes "data_type_ok version d" "fields_ok version fs" "length fs < 128"
  shows "t38_encode_data version d fs =
    Some (int (length (data_octets version d fs)), data_octets version d fs)"
  using assms by (intro encode_data_all) (simp_all add: fields_ok_def)

lemma data_head_bits:
  assumes "data_type_ok version d"
  shows "\<exists>b. octet_at (data_head d @ rest) 0 = Some b \<and> drop_bit 6 b AND 1 \<noteq> 0 \<and>
    rx_data s (data_head d @ rest) = rx_data_fields s (data_head d @ rest) d True (length (data_head d))"
proof (cases "d \<le> 8")
  case True
  define b where "b = (word_of_int (0x80 OR 0x40 OR push_bit 1 d) :: u8)"
  have "d \<in> {0, 1, 2, 3, 4, 5, 6, 7, 8}"
    using True assms unfolding data_type_ok_def by (simp only: insert_iff empty_iff) presburger
  then have b: "drop_bit 7 (uint b) AND 1 \<noteq> 0" "drop_bit 6 (uint b) AND 1 \<noteq> 0" "uint b AND 0x20 = 0"
      "drop_bit 1 (uint b) AND 0xF = d"
    unfolding b_def by (elim insertE emptyE; simp)+
  have h: "data_head d = [b]" using True by (simp add: data_head_def b_def)
  then show ?thesis using b True by (simp add: rx_data_def octet_at_in Let_def)
next
  case False
  define b c where "b = (word_of_int (0x80 OR 0x60 OR drop_bit 2 ((d - 9) AND 0xF)) :: u8)"
    and "c = (word_of_int (push_bit 6 (d - 9) AND 0xFF) :: u8)"
  have d: "d \<le> 14" using assms by (auto simp: data_type_ok_def split: if_splits)
  have "d \<in> {9, 10, 11, 12, 13, 14}"
    using False d by (simp only: insert_iff empty_iff) presburger
  then have b: "drop_bit 7 (uint b) AND 1 \<noteq> 0" "drop_bit 6 (uint b) AND 1 \<noteq> 0" "uint b AND 0x20 \<noteq> 0"
      "9 + ((push_bit 2 (uint b) AND 0x3C) OR (drop_bit 6 (uint c) AND 3)) = d"
    unfolding b_def c_def by (elim insertE emptyE; simp)+
  have h: "data_head d = [b, c]" using False by (simp add: data_head_def b_def c_def)
  then show ?thesis using b d by (simp add: rx_data_def octet_at_in Let_def numeral_2_eq_2)
qed

lemma rx_data_octets:
  assumes "data_type_ok (t38_version s) d" "fields_ok (t38_version s) fs" "length fs < 128"
  shows "\<exists>s'. rx_data s (data_octets (t38_version s) d fs) =
      Some (0, s', map (\<lambda>q. Rx_data d (field_type q) (field q)) fs) \<and>
    t38_version s' = t38_version s \<and> core_rx_expected_seq_no s' = core_rx_expected_seq_no s \<and>
    check_sequence_numbers s' = check_sequence_numbers s"
proof -
  let ?v = "t38_version s" and ?buf = "data_octets (t38_version s) d fs"
  define cnt where "cnt = (word_of_int (int (length fs)) :: u8)"
  have "uint cnt = int (length fs)"
    unfolding cnt_def by (rule uint_word_of_int_8) (use assms(3) in simp_all)
  then have cnt: "nat (uint cnt) = length fs" by simp
  have buf: "?buf = data_head d @ cnt # fields_octets ?v fs" by (simp add: data_octets_def cnt_def)
  have "?buf = (data_head d @ [cnt]) @ fields_octets ?v fs @ []" using buf by simp
  from rx_fields_octets [OF assms(2) this, of d] obtain s' dangling where f:
    "dangling = (?v = 0 \<and> fs \<noteq> [] \<and> field (last fs) = [])"
    "rx_fields s ?buf d (length fs) (length (data_head d) + 1) False =
      Some (0, length (data_head d) + 1 + length (fields_octets ?v fs) - (if dangling then 1 else 0),
            dangling, s', map (\<lambda>q. Rx_data d (field_type q) (field q)) fs)"
    "t38_version s' = ?v" "core_rx_expected_seq_no s' = core_rx_expected_seq_no s"
    "check_sequence_numbers s' = check_sequence_numbers s" by auto
  have len: "length ?buf = length (data_head d) + 1 + length (fields_octets ?v fs)" by (simp add: buf)
  have "0 < length (fields_octets ?v fs)" if dangling
    using f(1) that field_head_length [of ?v "hd fs"] by (cases fs) (auto simp: fields_octets_def field_octets_def)
  then have "rx_data_fields s ?buf d True (length (data_head d)) =
      Some (0, s', map (\<lambda>q. Rx_data d (field_type q) (field q)) fs)"
    using f(1,2) len cnt buf by (auto simp: rx_data_fields_def octet_at_in nth_append)
  moreover have "rx_data s ?buf = rx_data_fields s ?buf d True (length (data_head d))"
    unfolding buf using data_head_bits [OF assms(1), of "cnt # fields_octets ?v fs" s] by blast
  ultimately show ?thesis using f(3,4,5) by auto
qed

text \<open>Whatever the fields, the packet gets to the loop over them.\<close>

lemma ifp_data_dispatch:
  assumes "data_type_ok (t38_version s) d" "in_sequence s seq_no"
  shows "\<exists>s2. t38_core_rx_ifp_packet s (data_octets (t38_version s) d fs) seq_no =
      rx_data s2 (data_octets (t38_version s) d fs) \<and>
    t38_version s2 = t38_version s \<and> check_sequence_numbers s2 = check_sequence_numbers s \<and>
    (check_sequence_numbers s \<longrightarrow> core_rx_expected_seq_no s2 = (uint seq_no + 1) mod 65536)"
proof -
  let ?buf = "data_octets (t38_version s) d fs"
  have ne: "?buf \<noteq> []" by (simp add: data_octets_def)
  obtain s2 where s2: "\<forall>b0. octet_at ?buf 0 = Some b0 \<longrightarrow> t38_core_rx_ifp_packet s ?buf seq_no =
      (if drop_bit 6 b0 AND 1 = 0 then rx_indicator s2 ?buf else rx_data s2 ?buf)"
    "t38_version s2 = t38_version s" "check_sequence_numbers s2 = check_sequence_numbers s"
    "check_sequence_numbers s \<longrightarrow> core_rx_expected_seq_no s2 = (uint seq_no + 1) mod 65536"
    using rx_in_sequence [OF assms(2) ne] by blast
  have "t38_core_rx_ifp_packet s ?buf seq_no = rx_data s2 ?buf"
    using s2(1) data_head_bits [OF assms(1), of "word_of_int (int (length fs)) # fields_octets (t38_version s) fs" s]
    by (auto simp: data_octets_def)
  with s2(2-4) show ?thesis by blast
qed

lemma ifp_data_received:
  assumes "data_type_ok (t38_version s) d" "fields_ok (t38_version s) fs" "length fs < 128"
    and "in_sequence s seq_no"
  shows "\<exists>s'. t38_core_rx_ifp_packet s (data_octets (t38_version s) d fs) seq_no =
      Some (0, s', map (\<lambda>q. Rx_data d (field_type q) (field q)) fs) \<and>
    t38_version s' = t38_version s \<and> check_sequence_numbers s' = check_sequence_numbers s \<and>
    (check_sequence_numbers s \<longrightarrow> core_rx_expected_seq_no s' = (uint seq_no + 1) mod 65536)"
proof -
  obtain s2 where "t38_core_rx_ifp_packet s (data_octets (t38_version s) d fs) seq_no =
      rx_data s2 (data_octets (t38_version s) d fs)"
    "t38_version s2 = t38_version s" "check_sequence_numbers s2 = check_sequence_numbers s"
    "check_sequence_numbers s \<longrightarrow> core_rx_expected_seq_no s2 = (uint seq_no + 1) mod 65536"
    using ifp_data_dispatch [OF assms(1,4)] by blast
  with rx_data_octets [of s2 d fs] assms(1-3) show ?thesis by auto
qed

text \<open>
  Property C24. A data packet that t38_encode_data makes from at most 127 fields, each
  with a type of the syntax version and at most 65535 octets, and in version 0 with data
  in all of them but possibly the last, is decoded by a context of that version that
  takes it in sequence into exactly these fields: one call of the data handler for each,
  with its type and octets.
\<close>

theorem data_roundtrip:
  assumes "t38_version rx = t38_version tx" "data_type_ok (t38_version tx) d"
    and "fields_ok (t38_version tx) fs" "length fs < 128" "in_sequence rx seq_no"
  shows "\<exists>bs rx'. t38_encode_data (t38_version tx) d fs = Some (int (length bs), bs) \<and>
    t38_core_rx_ifp_packet rx bs seq_no =
      Some (0, rx', map (\<lambda>q. Rx_data d (field_type q) (field q)) fs)"
  using encode_data_octets [OF assms(2,3,4)] ifp_data_received [of rx d fs seq_no] assms by auto

theorem data_roundtrip_witness:
  "\<exists>tx bs rx'. t38_core_init True True = Some tx \<and>
    t38_encode_data 0 6 [\<lparr>field_type = 0, field = [1, 2, 3]\<rparr>, \<lparr>field_type = 2, field = []\<rparr>] =
      Some (int (length bs), bs) \<and>
    t38_core_rx_ifp_packet tx bs 9 = Some (0, rx', [Rx_data 6 0 [1, 2, 3], Rx_data 6 2 []])"
proof -
  obtain tx where tx: "t38_core_init True True = Some tx" by (simp add: t38_core_init_def)
  then have s: "in_sequence tx 9" "t38_version tx = 0"
    by (auto simp: t38_core_init_def t38_core_restart_def in_sequence_def)
  have "\<exists>bs rx'. t38_encode_data (t38_version tx) 6
        [\<lparr>field_type = 0, field = [1, 2, 3]\<rparr>, \<lparr>field_type = 2, field = []\<rparr>] = Some (int (length bs), bs) \<and>
      t38_core_rx_ifp_packet tx bs 9 = Some (0, rx', map (\<lambda>q. Rx_data 6 (field_type q) (field q))
        [\<lparr>field_type = 0, field = [1, 2, 3]\<rparr>, \<lparr>field_type = 2, field = []\<rparr>])"
    by (rule data_roundtrip) (use s in \<open>simp_all add: fields_ok_def field_ok_def data_type_ok_def\<close>)
  with tx s(2) show ?thesis by auto
qed

section \<open>A field without data before another one\<close>

text \<open>
  In version 0 such a field is read as two: the next header is expected in the lower half
  of its octet, which is zero. The loop over the fields in two parts:
\<close>

lemma rx_fields_append:
  "rx_fields s buf d m ptr half = Some (0, p, h, s1, es) \<Longrightarrow>
   rx_fields s buf d (m + n) ptr half =
     map_option (\<lambda>(r, p', h', s', es'). (r, p', h', s', es @ es')) (rx_fields s1 buf d n p h)"
proof (induction m arbitrary: s ptr half es)
  case 0
  then show ?case by (simp add: option.map_ident_strong split_beta)
next
  case (Suc m)
  then have ptr: "ptr < length buf" by (auto split: if_splits)
  from Suc.prems ptr obtain present ft ptr1 half1 where
    head: "field_header (t38_version s) buf ptr half = Some (Some (present, ft, ptr1, half1))"
    by (auto split: option.splits)
  from Suc.prems ptr head obtain msg ptr2 where
    data: "field_data buf ptr1 present = Some (Some (msg, ptr2))"
    by (auto split: option.splits)
  let ?s = "s\<lparr>current_rx_data_type := d, current_rx_field_type := ft\<rparr>"
  from Suc.prems ptr head data obtain es1 where
    rest: "rx_fields ?s buf d m ptr2 half1 = Some (0, p, h, s1, es1)" "es = Rx_data d ft msg # es1"
    by auto
  show ?case
    using ptr head data rest(2) Suc.IH [OF rest(1)]
    by (simp add: option.map_comp comp_def split_beta)
qed

lemma rx_fields_phantom:
  assumes "t38_version s = 0" "field_ok 0 q" "field q = []" "buf = pre @ field_octets 0 q @ rest"
  shows "\<exists>s'. rx_fields s buf d 2 (length pre) False =
      Some (0, length pre + 1, False, s', [Rx_data d (field_type q) [], Rx_data d 0 []]) \<and>
    t38_version s' = 0"
proof -
  have head: "field_octets 0 q = field_head 0 q" "length (field_head 0 q) = 1"
    using assms(3) by (simp_all add: field_octets_def field_head_def Let_def)
  have in_buf: "length pre < length buf" using assms(4) head by simp
  have fh: "field_header 0 buf (length pre) False = Some (Some (False, field_type q, length pre, True))"
    using field_header_head [OF assms(2), of buf pre rest] assms(3,4) head(1) by simp
  define b where "b = (word_of_int (push_bit 4 (field_type q)) :: u8)"
  have b: "buf ! length pre = b"
    using assms(3,4) by (simp add: field_octets_def field_head_def b_def Let_def)
  have "field_type q \<in> {0, 1, 2, 3, 4, 5, 6, 7}"
    using assms(2) by (intro small_types) (simp_all add: field_ok_def)
  then have "drop_bit 3 (uint b) AND 1 = 0" "uint b AND 7 = 0"
    unfolding b_def by (elim insertE emptyE; simp)+
  then have lower: "field_header 0 buf (length pre) True = Some (Some (False, 0, length pre + 1, False))"
    using in_buf b by (simp add: field_header_def octet_at_in Let_def)
  show ?thesis
    using in_buf fh lower assms(1) by (simp add: field_data_def numeral_2_eq_2 Suc_leI)
qed

lemma rx_fields_data:
  assumes "t38_version s = 0" "fields_ok 0 fs" "\<forall>q \<in> set fs. field q \<noteq> []"
    and "buf = pre @ fields_octets 0 fs @ rest"
  shows "\<exists>s'. rx_fields s buf d (length fs) (length pre) False =
      Some (0, length (pre @ fields_octets 0 fs), False, s', map (\<lambda>q. Rx_data d (field_type q) (field q)) fs) \<and>
    t38_version s' = 0"
proof -
  have "(t38_version s = 0 \<and> fs \<noteq> [] \<and> field (last fs) = []) = False"
    using assms(3) last_in_set by blast
  with rx_fields_octets [of s fs buf pre rest d] assms(1,2,4) show ?thesis by auto
qed

lemma rx_data_fields_stopped:
  assumes "octet_at buf ptr = Some (int n)" "p < length buf"
    and "rx_fields s buf d n (ptr + 1) False = Some (0, p, False, s', es)"
  shows "rx_data_fields s buf d True ptr = Some (-1, s', es)"
proof -
  have "ptr < length buf" using assms(1) by (auto simp: octet_at_def arr_get_def split: if_splits)
  with assms show ?thesis by (simp add: rx_data_fields_def)
qed

lemma fields_octets_snoc: "fields_octets v (fs @ [q]) = fields_octets v fs @ field_octets v q"
  by (simp add: fields_octets_def)

lemma rx_fields_misread:
  assumes "t38_version s = 0" "fields_ok 0 xs" "\<forall>q \<in> set xs. field q \<noteq> []"
    and "fields_ok 0 ys" "\<forall>q \<in> set ys. field q \<noteq> []" "field_ok 0 q" "field q = []"
    and buf: "buf = h0 @ fields_octets 0 xs @ field_octets 0 q @ fields_octets 0 ys @ rest"
  shows "\<exists>s'. rx_fields s buf d (length xs + (2 + length ys)) (length h0) False =
    Some (0, length (h0 @ fields_octets 0 xs @ field_octets 0 q @ fields_octets 0 ys), False, s',
      map (\<lambda>q. Rx_data d (field_type q) (field q)) xs @ [Rx_data d (field_type q) [], Rx_data d 0 []] @
      map (\<lambda>q. Rx_data d (field_type q) (field q)) ys)"
proof -
  let ?ev = "\<lambda>q. Rx_data d (field_type q) (field q)" and ?p1 = "h0 @ fields_octets 0 xs"
  let ?p2 = "?p1 @ field_octets 0 q"
  obtain s1 where s1: "rx_fields s buf d (length xs) (length h0) False =
      Some (0, length ?p1, False, s1, map ?ev xs)" "t38_version s1 = 0"
    using rx_fields_data [OF assms(1-3) buf] by blast
  obtain s2 where s2: "rx_fields s1 buf d 2 (length ?p1) False =
      Some (0, length ?p1 + 1, False, s2, [Rx_data d (field_type q) [], Rx_data d 0 []])" "t38_version s2 = 0"
    using rx_fields_phantom [OF s1(2) assms(6,7) buf [folded append_assoc [of h0]]] by blast
  have "buf = ?p2 @ fields_octets 0 ys @ rest" unfolding buf append_assoc ..
  then obtain s3 where s3: "rx_fields s2 buf d (length ys) (length ?p2) False =
      Some (0, length (?p2 @ fields_octets 0 ys), False, s3, map ?ev ys)"
    using rx_fields_data [OF s2(2) assms(4,5)] by blast
  have p: "length ?p1 + 1 = length ?p2"
    using assms(7) by (simp add: field_octets_def field_head_def Let_def)
  show ?thesis
    unfolding rx_fields_append [OF s1(1)] rx_fields_append [OF s2(1)] p s3 by simp
qed

text \<open>
  Property C40. In syntax version 0, which the sessions use, take at most 127 fields of
  which one without data is followed by others, the fields before it and all after it
  but the last having data. The packet that t38_encode_data makes of them is refused by
  a context that takes it in sequence, after calls of the data handler for the fields
  before, for the field without data, for a field of type 0 that was never sent, and for
  all later fields but the last.
\<close>

theorem dataless_field_misread:
  assumes "t38_version rx = 0" "in_sequence rx seq_no" "data_type_ok 0 d"
    and "fields_ok 0 (pre @ post)" "post \<noteq> []" "field_ok 0 q" "field q = []"
    and "length (pre @ q # post) < 128"
  shows "\<exists>bs rx'. t38_encode_data 0 d (pre @ q # post) = Some (int (length bs), bs) \<and>
    t38_core_rx_ifp_packet rx bs seq_no =
      Some (-1, rx', map (\<lambda>q. Rx_data d (field_type q) (field q)) pre @
        [Rx_data d (field_type q) [], Rx_data d 0 []] @
        map (\<lambda>q. Rx_data d (field_type q) (field q)) (butlast post))"
proof -
  let ?fs = "pre @ q # post" and ?ev = "\<lambda>q. Rx_data d (field_type q) (field q)"
  let ?buf = "data_octets 0 d ?fs" and ?hd = "data_head d @ [word_of_int (int (length ?fs))]"
  have all: "\<forall>q \<in> set ?fs. field_ok 0 q" using assms(4,6) by (auto simp: fields_ok_def)
  have data: "\<forall>q \<in> set pre. field q \<noteq> []" "\<forall>q \<in> set (butlast post). field q \<noteq> []"
    using assms(4,5) by (auto simp: fields_ok_def butlast_append)
  have ok: "fields_ok 0 pre" "fields_ok 0 (butlast post)"
    using all data by (auto simp: fields_ok_def dest: in_set_butlastD)
  obtain s2 where s2: "t38_core_rx_ifp_packet rx ?buf seq_no = rx_data s2 ?buf" "t38_version s2 = 0"
    using ifp_data_dispatch [of rx d seq_no ?fs] assms(1-3) by auto
  have post: "fields_octets 0 post = fields_octets 0 (butlast post) @ field_octets 0 (last post)"
    using assms(5) fields_octets_snoc [of 0 "butlast post" "last post"] by simp
  have buf: "?buf = ?hd @ fields_octets 0 pre @ field_octets 0 q @ fields_octets 0 (butlast post) @ field_octets 0 (last post)"
    by (simp add: data_octets_def fields_octets_def flip: post [unfolded fields_octets_def])
  have n: "length ?fs = length pre + (2 + length (butlast post))" using assms(5) by (cases post) auto
  obtain s5 where fields: "rx_fields s2 ?buf d (length ?fs) (length ?hd) False =
      Some (0, length (?hd @ fields_octets 0 pre @ field_octets 0 q @ fields_octets 0 (butlast post)), False, s5,
        map ?ev pre @ [Rx_data d (field_type q) [], Rx_data d 0 []] @ map ?ev (butlast post))"
    using rx_fields_misread [OF s2(2) ok(1) data(1) ok(2) data(2) assms(6,7) buf, of d] unfolding n by blast
  have short: "length (?hd @ fields_octets 0 pre @ field_octets 0 q @ fields_octets 0 (butlast post)) < length ?buf"
    using field_head_length [of 0 "last post"] by (simp add: buf field_octets_def)
  have count: "octet_at ?buf (length (data_head d)) = Some (int (length ?fs))"
    using uint_word_of_int_8 [of "int (length ?fs)"] assms(8) by (simp add: data_octets_def)
  have "rx_data s2 ?buf = rx_data_fields s2 ?buf d True (length (data_head d))"
    using data_head_bits [OF assms(3)] by (auto simp: data_octets_def)
  also have "\<dots> = Some (-1, s5, map ?ev pre @ [Rx_data d (field_type q) [], Rx_data d 0 []] @
      map ?ev (butlast post))"
    using fields by (intro rx_data_fields_stopped [OF count short]) simp
  finally have "rx_data s2 ?buf = \<dots>" .
  with encode_data_all [OF assms(3) all assms(8)] s2(1) show ?thesis by auto
qed

theorem dataless_field_misread_witness:
  "\<exists>rx bs rx'. t38_core_init True True = Some rx \<and>
    t38_encode_data 0 6 [\<lparr>field_type = 0, field = [1, 2]\<rparr>, \<lparr>field_type = 2, field = []\<rparr>, \<lparr>field_type = 1, field = []\<rparr>] =
      Some (int (length bs), bs) \<and>
    t38_core_rx_ifp_packet rx bs 9 = Some (-1, rx', [Rx_data 6 0 [1, 2], Rx_data 6 2 [], Rx_data 6 0 []])"
proof -
  obtain rx where rx: "t38_core_init True True = Some rx" by (simp add: t38_core_init_def)
  then have s: "t38_version rx = 0" "in_sequence rx 9"
    by (auto simp: t38_core_init_def t38_core_restart_def in_sequence_def)
  from dataless_field_misread [OF s, of 6 "[\<lparr>field_type = 0, field = [1, 2]\<rparr>]"
      "[\<lparr>field_type = 1, field = []\<rparr>]" "\<lparr>field_type = 2, field = []\<rparr>"] rx
  show ?thesis by (auto simp: data_type_ok_def fields_ok_def field_ok_def)
qed

section \<open>Repeated and late packets\<close>

text \<open>
  Property C26. A packet up to 1999 behind the expected sequence number, as the
  redundancy of UDPTL repeats them, changes nothing and calls no handler, also across
  the wrap of the sequence number.
\<close>

theorem old_packets_ignored:
  assumes "check_sequence_numbers s" "0 \<le> core_rx_expected_seq_no s" "core_rx_expected_seq_no s < 65536"
    and "1 \<le> k" "k < 2000" "seq_no = word_of_int (core_rx_expected_seq_no s - k)" "buf \<noteq> []"
  shows "t38_core_rx_ifp_packet s buf seq_no = Some (0, s, [])"
proof -
  let ?e = "core_rx_expected_seq_no s"
  have seq: "uint seq_no = (?e - k) mod 65536"
    unfolding assms(6) by (simp only: uint_word_of_int) simp
  have range: "0 \<le> uint seq_no" "uint seq_no < 65536" by (simp_all add: seq)
  have dist: "(?e - uint seq_no) mod 65536 = k"
  proof -
    have "(?e - (?e - k) mod 65536) mod 65536 = (?e - (?e - k)) mod 65536" by (rule mod_diff_right_eq)
    then show ?thesis using assms(4,5) by (simp add: seq)
  qed
  then have ne: "?e \<noteq> uint seq_no" using assms(4) by auto
  have behind: "(uint seq_no - ?e) mod 65536 = 65536 - k"
  proof -
    have "(uint seq_no - ?e) mod 65536 = (- (?e - uint seq_no)) mod 65536" by simp
    also have "\<dots> = (- ((?e - uint seq_no) mod 65536)) mod 65536" by (rule mod_minus_eq [symmetric])
    also have "\<dots> = (- k) mod 65536" by (simp only: dist)
    also have "\<dots> = (65536 - k) mod 65536" by (metis minus_mod_self2 uminus_add_conv_diff add.commute mod_add_self2)
    also have "\<dots> = 65536 - k" using assms(4,5) by (intro mod_pos_pos_trivial) auto
    finally show ?thesis .
  qed
  have "classify_seq_no_offset ?e (uint seq_no) = -1"
    using classify_is_distance_lemma [OF assms(2,3) range ne] dist behind assms(5) by simp
  then have "rx_sequence s (uint seq_no) = None"
    using ne assms(1,2) by (auto simp: rx_sequence_def Let_def)
  then show ?thesis using assms(7) by (cases buf) (auto simp: t38_core_rx_ifp_packet_def)
qed

theorem old_packets_ignored_witness:
  "\<exists>s. core_rx_expected_seq_no s = 3 \<and> t38_core_rx_ifp_packet s [0] 65530 = Some (0, s, [])"
proof -
  obtain s where "t38_core_init True True = Some s" by (simp add: t38_core_init_def)
  then have "check_sequence_numbers s" by (auto simp: t38_core_init_def t38_core_restart_def)
  then have "t38_core_rx_ifp_packet (s\<lparr>core_rx_expected_seq_no := 3\<rparr>) [0] 65530 =
      Some (0, s\<lparr>core_rx_expected_seq_no := 3\<rparr>, [])"
    by (intro old_packets_ignored [of _ 9]) simp_all
  then show ?thesis by (intro exI [of _ "s\<lparr>core_rx_expected_seq_no := 3\<rparr>"]) simp
qed

end
