(* ===== verification/T38_Gateway.thy ===== *)
theory T38_Gateway
  imports T38_Core
begin

text \<open>
  The part of \<^verbatim>\<open>spandsp/spandsp-0.0.6/src/t38_gateway.c\<close> that sets a gateway up and
  that the application calls: initialisation, the setters, the packetisation and indicator
  choice, the timeout of the audio side and the framing of transmitted audio. The modems
  themselves (signal processing) are not modelled: their handlers are parameters.
\<close>

abbreviation (input) T30_SUPPORT_V27TER :: int where "T30_SUPPORT_V27TER \<equiv> 1"
abbreviation (input) T30_SUPPORT_V29 :: int where "T30_SUPPORT_V29 \<equiv> 2"
abbreviation (input) T30_SUPPORT_V17 :: int where "T30_SUPPORT_V17 \<equiv> 4"

datatype fast_rx = T38_NONE | T38_V27TER_RX | T38_V29_RX | T38_V17_RX

datatype timed_mode =
    TIMED_MODE_STARTUP
  | TIMED_MODE_IDLE
  | TIMED_MODE_TCF_PREDICTABLE_MODEM_START_FAST_MODEM_ANNOUNCED
  | TIMED_MODE_TCF_PREDICTABLE_MODEM_START_FAST_MODEM_SEEN
  | TIMED_MODE_TCF_PREDICTABLE_MODEM_START_PAST_V21_MODEM
  | TIMED_MODE_TCF_PREDICTABLE_MODEM_START_BEGIN

record t38_gateway_state =
  gw_core :: t38_core_state
  transmit_on_idle :: int
  use_tep :: int
  ecm_allowed :: int
  supported_modems :: int
  suppress_nsx_len :: "int \<times> int"
  gw_fill_bit_removal :: int
  octets_per_data_packet :: int
  current_tx_data_type :: int
  fast_rx_active :: fast_rx
  fast_bit_rate :: int
  short_train :: bool
  gw_timed_mode :: timed_mode
  samples_to_timeout :: int

section \<open>Settings\<close>

definition t38_gateway_set_ecm_capability :: "t38_gateway_state \<Rightarrow> int \<Rightarrow> t38_gateway_state" where
  "t38_gateway_set_ecm_capability s v = s\<lparr>ecm_allowed := v\<rparr>"

definition t38_gateway_set_transmit_on_idle :: "t38_gateway_state \<Rightarrow> int \<Rightarrow> t38_gateway_state" where
  "t38_gateway_set_transmit_on_idle s v = s\<lparr>transmit_on_idle := v\<rparr>"

definition t38_gateway_set_supported_modems :: "t38_gateway_state \<Rightarrow> int \<Rightarrow> t38_gateway_state" where
  "t38_gateway_set_supported_modems s modems =
     (let s1 = s\<lparr>supported_modems := modems\<rparr>;
          rate = (if modems AND T30_SUPPORT_V17 \<noteq> 0 then 14400
                  else if modems AND T30_SUPPORT_V29 \<noteq> 0 then 9600 else 4800)
      in s1\<lparr>gw_core := t38_set_fastest_image_data_rate (gw_core s1) rate\<rparr>)"

definition t38_gateway_set_nsx_suppression :: "t38_gateway_state \<Rightarrow> int \<Rightarrow> int \<Rightarrow> t38_gateway_state" where
  "t38_gateway_set_nsx_suppression s from_t38_len from_modem_len =
     s\<lparr>suppress_nsx_len :=
        (if from_t38_len < 0 \<or> from_t38_len < 10 then from_t38_len + 3 else 0,
         if from_modem_len < 0 \<or> from_modem_len < 10 then from_modem_len + 3 else 0)\<rparr>"

definition t38_gateway_set_tep_mode :: "t38_gateway_state \<Rightarrow> int \<Rightarrow> t38_gateway_state" where
  "t38_gateway_set_tep_mode s v = s\<lparr>use_tep := v\<rparr>"

definition t38_gateway_set_fill_bit_removal :: "t38_gateway_state \<Rightarrow> int \<Rightarrow> t38_gateway_state" where
  "t38_gateway_set_fill_bit_removal s v = s\<lparr>gw_fill_bit_removal := v\<rparr>"

text \<open>The numbers of transmissions of the five packet categories.\<close>

definition t38_gateway_t38_init :: "t38_core_state option" where
  "t38_gateway_t38_init =
     do {
       c \<leftarrow> t38_core_init True True;
       c \<leftarrow> t38_set_redundancy_control c 0 3;
       c \<leftarrow> t38_set_redundancy_control c 1 1;
       c \<leftarrow> t38_set_redundancy_control c 2 3;
       c \<leftarrow> t38_set_redundancy_control c 3 1;
       t38_set_redundancy_control c 4 3
     }"

text \<open>
  \<open>have_handler\<close> says that the packet handler is not \<open>NULL\<close>, \<open>have_s\<close> that a state is
  passed, \<open>malloc_ok\<close> that one can be allocated. The result \<open>None\<close> is \<open>NULL\<close>.
\<close>

definition t38_gateway_init :: "bool \<Rightarrow> bool \<Rightarrow> bool \<Rightarrow> t38_gateway_state option" where
  "t38_gateway_init have_handler have_s malloc_ok =
     (if \<not> have_handler then None
      else if \<not> have_s \<and> \<not> malloc_ok then None
      else do {
        core \<leftarrow> t38_gateway_t38_init;
        let s0 = \<lparr>gw_core = core, transmit_on_idle = 0, use_tep = 0, ecm_allowed = 0,
                  supported_modems = 0, suppress_nsx_len = (0, 0), gw_fill_bit_removal = 0,
                  octets_per_data_packet = 0, current_tx_data_type = 0, fast_rx_active = T38_NONE,
                  fast_bit_rate = 0, short_train = False, gw_timed_mode = TIMED_MODE_IDLE,
                  samples_to_timeout = 0\<rparr>;
        let s1 = t38_gateway_set_supported_modems s0
                   (T30_SUPPORT_V27TER OR T30_SUPPORT_V29 OR T30_SUPPORT_V17);
        let s2 = t38_gateway_set_nsx_suppression s1 3 3;
        Some (s2\<lparr>octets_per_data_packet := 1, ecm_allowed := 1,
                 gw_timed_mode := TIMED_MODE_STARTUP, samples_to_timeout := 1\<rparr>)
      })"

section \<open>Packetisation and training indicators\<close>

definition set_octets_per_data_packet :: "t38_gateway_state \<Rightarrow> int \<Rightarrow> t38_gateway_state" where
  "set_octets_per_data_packet s bit_rate =
     (let octs = 30 * bit_rate div 8000 in
      s\<lparr>octets_per_data_packet := (if octs < 1 then 1 else octs)\<rparr>)"

definition set_slow_packetisation :: "t38_gateway_state \<Rightarrow> t38_gateway_state \<times> int" where
  "set_slow_packetisation s = ((set_octets_per_data_packet s 300)\<lparr>current_tx_data_type := 0\<rparr>, 3)"

definition set_fast_packetisation :: "t38_gateway_state \<Rightarrow> t38_gateway_state \<times> int" where
  "set_fast_packetisation s =
     (case fast_rx_active s of
        T38_V17_RX \<Rightarrow>
          (let s1 = set_octets_per_data_packet s (fast_bit_rate s); short = short_train s in
           if fast_bit_rate s = 7200 then (s1\<lparr>current_tx_data_type := 5\<rparr>, if short then 8 else 9)
           else if fast_bit_rate s = 9600 then (s1\<lparr>current_tx_data_type := 6\<rparr>, if short then 10 else 11)
           else if fast_bit_rate s = 12000 then (s1\<lparr>current_tx_data_type := 7\<rparr>, if short then 12 else 13)
           else (s1\<lparr>current_tx_data_type := 8\<rparr>, if short then 14 else 15))
      | T38_V27TER_RX \<Rightarrow>
          (let s1 = set_octets_per_data_packet s (fast_bit_rate s) in
           if fast_bit_rate s = 2400 then (s1\<lparr>current_tx_data_type := 1\<rparr>, 4)
           else (s1\<lparr>current_tx_data_type := 2\<rparr>, 5))
      | T38_V29_RX \<Rightarrow>
          (let s1 = set_octets_per_data_packet s (fast_bit_rate s) in
           if fast_bit_rate s = 7200 then (s1\<lparr>current_tx_data_type := 3\<rparr>, 6)
           else (s1\<lparr>current_tx_data_type := 4\<rparr>, 7))
      | T38_NONE \<Rightarrow> (s, 0))"

text \<open>The packet handed to \<open>tx_packet_handler\<close>, if any, is part of the result.\<close>

definition gateway_send_indicator ::
    "t38_gateway_state \<Rightarrow> int \<Rightarrow> (t38_gateway_state \<times> (octets \<times> int) option) option" where
  "gateway_send_indicator s ind =
     map_option (\<lambda>(delay, c, p). (s\<lparr>gw_core := c\<rparr>, p)) (t38_core_send_indicator (gw_core s) ind)"

definition announce_training ::
    "t38_gateway_state \<Rightarrow> (t38_gateway_state \<times> (octets \<times> int) option) option" where
  "announce_training s = (let (s1, ind) = set_fast_packetisation s in gateway_send_indicator s1 ind)"

definition update_rx_timing ::
    "t38_gateway_state \<Rightarrow> int \<Rightarrow> (t38_gateway_state \<times> (octets \<times> int) option) option" where
  "update_rx_timing s len =
     (if samples_to_timeout s > 0 then
        (let s1 = s\<lparr>samples_to_timeout := samples_to_timeout s - len\<rparr> in
         if samples_to_timeout s1 \<le> 0 then
           (case gw_timed_mode s1 of
              TIMED_MODE_TCF_PREDICTABLE_MODEM_START_PAST_V21_MODEM \<Rightarrow>
                announce_training
                  (s1\<lparr>gw_timed_mode := TIMED_MODE_TCF_PREDICTABLE_MODEM_START_FAST_MODEM_ANNOUNCED\<rparr>)
            | TIMED_MODE_TCF_PREDICTABLE_MODEM_START_FAST_MODEM_SEEN \<Rightarrow>
                announce_training
                  (s1\<lparr>samples_to_timeout := 4000,
                     gw_timed_mode := TIMED_MODE_TCF_PREDICTABLE_MODEM_START_FAST_MODEM_ANNOUNCED\<rparr>)
            | TIMED_MODE_TCF_PREDICTABLE_MODEM_START_FAST_MODEM_ANNOUNCED \<Rightarrow>
                Some (s1\<lparr>gw_timed_mode := TIMED_MODE_IDLE\<rparr>, None)
            | TIMED_MODE_STARTUP \<Rightarrow>
                map_option (\<lambda>(s2, p). (s2\<lparr>gw_timed_mode := TIMED_MODE_IDLE\<rparr>, p))
                  (gateway_send_indicator s1 0)
            | _ \<Rightarrow> Some (s1, None))
         else Some (s1, None))
      else Some (s, None))"

section \<open>Audio\<close>

text \<open>
  \<open>t38_gateway_tx\<close>: \<open>first\<close> and \<open>second\<close> are the numbers of samples the transmit
  handler produces in the first call and, when \<open>set_next_tx_type\<close> finds something to
  send (\<open>next_ok\<close>), in the second one. The result is the number of samples returned.
\<close>

definition t38_gateway_tx :: "t38_gateway_state \<Rightarrow> int \<Rightarrow> bool \<Rightarrow> int \<Rightarrow> int \<Rightarrow> int" where
  "t38_gateway_tx s first next_ok second max_len =
     (let len = first;
          len = (if len < max_len \<and> next_ok then len + second else len)
      in if transmit_on_idle s \<noteq> 0 then max_len else len)"

text \<open>\<open>t38_gateway_rx\<close> always returns 0; what it sends comes from the timeout.\<close>

definition t38_gateway_rx ::
    "t38_gateway_state \<Rightarrow> int \<Rightarrow> (int \<times> t38_gateway_state \<times> (octets \<times> int) option) option" where
  "t38_gateway_rx s len = map_option (\<lambda>(s', p). (0, s', p)) (update_rx_timing s len)"

definition t38_gateway_release :: "t38_gateway_state \<Rightarrow> int" where
  "t38_gateway_release s = 0"

end
