(* ===== verification/Fax.thy ===== *)
theory Fax
  imports Udptl_Rx T38_Gateway C_Library
begin

text \<open>
  The fax part of a session (\<^verbatim>\<open>src/fax.c\<close>, \<open>fax_params_t\<close> of
  \<^verbatim>\<open>include/session.h\<close>): it owns a T.38 gateway and a UDPTL context and connects them.
  What the operating system decides is an argument: whether \<open>malloc\<close> and \<open>strdup\<close>
  succeed, and what the \<open>x\<close>-th \<open>sendto\<close> returns. Traces and the optional logging are left
  out.
\<close>

section \<open>State\<close>

text \<open>A pointer to an owned block: \<open>NULL\<close>, allocated but not initialised, or initialised.\<close>

datatype 'a block = Null | Raw | Block 'a

record t38_options =
  T38FaxVersion :: int
  T38MaxBitRate :: int
  T38FaxMaxBuffer :: int
  T38FaxMaxDatagram :: int
  T38FaxRateManagement :: "string option"
  T38FaxUdpEC :: "string option"
  T38VendorInfo :: "string option"
  T38FaxFillBitRemoval :: int
  T38FaxTranscodingMMR :: int
  T38FaxTranscodingJBIG :: int

text \<open>
  \<open>t38_core\<close> points into the gateway block, so only whether it is set is kept; the same
  holds for the callback \<open>send_cb\<close> and for \<open>session\<close>, the pointer back to the owner.
\<close>

record fax_params =
  t38_gw_state :: "t38_gateway_state block"
  have_t38_core :: bool
  udptl_state_ptr :: "udptl_state block"
  ident :: "string option"
  header :: "string option"
  use_ecm :: int
  disable_v17 :: int
  fax_verbose :: int
  fax_done :: int
  options :: t38_options
  log_tag :: string
  have_send_cb :: bool
  have_session :: bool

text \<open>What \<open>calloc\<close> leaves in a new session.\<close>

definition fax_params_zero :: fax_params where
  "fax_params_zero =
     \<lparr>t38_gw_state = Null, have_t38_core = False, udptl_state_ptr = Null, ident = None, header = None,
      use_ecm = 0, disable_v17 = 0, fax_verbose = 0, fax_done = 0,
      options = \<lparr>T38FaxVersion = 0, T38MaxBitRate = 0, T38FaxMaxBuffer = 0, T38FaxMaxDatagram = 0,
        T38FaxRateManagement = None, T38FaxUdpEC = None, T38VendorInfo = None,
        T38FaxFillBitRemoval = 0, T38FaxTranscodingMMR = 0, T38FaxTranscodingJBIG = 0\<rparr>,
      log_tag = [], have_send_cb = False, have_session = False\<rparr>"

text \<open>The allocations of \<open>fax_sessionInit\<close>, in the order they are made.\<close>

record fax_env =
  gw_mem :: bool
  udptl_mem :: bool
  header_mem :: bool
  rate_mem :: bool
  ec_mem :: bool
  vendor_mem :: bool
  udptl_own_mem :: bool

definition fax_mem_ok :: "fax_env \<Rightarrow> bool" where
  "fax_mem_ok env \<longleftrightarrow> gw_mem env \<and> udptl_mem env"

definition strdup :: "bool \<Rightarrow> string \<Rightarrow> string option" where
  "strdup mem_ok s = (if mem_ok then Some s else None)"

section \<open>Initialisation\<close>

definition fax_paramsInit :: "fax_env \<Rightarrow> fax_params \<Rightarrow> fax_params" where
  "fax_paramsInit env fp =
     fp\<lparr>t38_gw_state := (if gw_mem env then Raw else Null),
        udptl_state_ptr := (if udptl_mem env then Raw else Null),
        header := None, ident := None,
        options := (options fp)\<lparr>T38FaxUdpEC := None, T38VendorInfo := None, T38FaxRateManagement := None\<rparr>\<rparr>"

text \<open>\<open>%04x\<close>: at least four digits of the value as an unsigned 32-bit integer.\<close>

function hex_digits :: "nat \<Rightarrow> nat \<Rightarrow> string" where
  "hex_digits k n =
     (if k = 0 \<and> n = 0 then []
      else hex_digits (k - 1) (n div 16) @
        [char_of (if n mod 16 < 10 then 48 + n mod 16 else 87 + n mod 16)])"
  by pat_completeness auto
termination
  by (relation "measure (\<lambda>(k, n). k + n)") (auto intro: add_le_less_mono add_less_le_mono)

declare hex_digits.simps [simp del]

definition hex4 :: "int \<Rightarrow> string" where
  "hex4 i = hex_digits 4 (nat (i mod 2 ^ 32))"

definition fax_paramsSetDefault :: "fax_env \<Rightarrow> int \<Rightarrow> string \<Rightarrow> fax_params \<Rightarrow> fax_params option" where
  "fax_paramsSetDefault env session_id cid fp =
     (let fp1 = fp\<lparr>disable_v17 := 1, fax_done := 0, header := strdup (header_mem env) ''FAX_DEFAULT_HEADER'',
                   fax_verbose := 0, use_ecm := 1,
                   options := (options fp)\<lparr>T38FaxVersion := 0, T38FaxMaxBuffer := 72, T38FaxMaxDatagram := 316,
                     T38FaxRateManagement := strdup (rate_mem env) ''transferredTCF'',
                     T38FaxTranscodingJBIG := 0, T38FaxTranscodingMMR := 0,
                     T38FaxUdpEC := strdup (ec_mem env) ''t38UDPRedundancy'', T38MaxBitRate := 9600,
                     T38VendorInfo := strdup (vendor_mem env) ''Tyryshkin M V''\<rparr>\<rparr>
      in map_option (\<lambda>t. fp1\<lparr>log_tag := t\<rparr>) (c_sprintf 64 (hex4 session_id @ ''-'' @ cid)))"

text \<open>
  \<open>fax_initGW\<close>. \<open>memset\<close> on a gateway that could not be allocated writes through
  \<open>NULL\<close>. Without memory for the UDPTL context \<open>udptl_init\<close> allocates another one, whose
  address is not kept.
\<close>

definition fax_initGW :: "fax_env \<Rightarrow> fax_params \<Rightarrow> (int \<times> fax_params) option" where
  "fax_initGW env fp =
     (if \<not> have_session fp \<or> t38_gw_state fp = Null then None
      else
        (case t38_gateway_init True True True of
           None \<Rightarrow> Some (-2, fp)
         | Some gw \<Rightarrow>
             (let gw1 = t38_gateway_set_tep_mode (t38_gateway_set_transmit_on_idle gw 1) 0;
                  fp1 = fp\<lparr>t38_gw_state := Block gw1, have_t38_core := True\<rparr>
              in case udptl_init (udptl_state_ptr fp \<noteq> Null) (udptl_own_mem env)
                        UDPTL_ERROR_CORRECTION_REDUNDANCY 3 3 True of
                   None \<Rightarrow> Some (-3, fp1)
                 | Some u \<Rightarrow>
                     (let fp2 = (if udptl_state_ptr fp = Null then fp1 else fp1\<lparr>udptl_state_ptr := Block u\<rparr>);
                          supported = T30_SUPPORT_V29 OR T30_SUPPORT_V27TER;
                          supported = (if disable_v17 fp = 0 then supported OR T30_SUPPORT_V17 else supported);
                          gw2 = t38_gateway_set_ecm_capability
                                  (t38_gateway_set_supported_modems gw1 supported) (use_ecm fp)
                      in Some (0, fp2\<lparr>t38_gw_state := Block gw2\<rparr>)))))"

text \<open>\<open>strcasecmp (a, b) == 0\<close>\<close>

definition c_tolower :: "char \<Rightarrow> char" where
  "c_tolower c = (let n = of_char c :: nat in if 65 \<le> n \<and> n \<le> 90 then char_of (n + 32) else c)"

definition c_strcaseeq :: "string \<Rightarrow> string \<Rightarrow> bool" where
  "c_strcaseeq a b \<longleftrightarrow> map c_tolower a = map c_tolower b"

definition configure_core :: "t38_options \<Rightarrow> t38_core_state \<Rightarrow> t38_core_state" where
  "configure_core opts c =
     (let c = t38_set_t38_version c (T38FaxVersion opts);
          c = t38_set_max_buffer_size c (T38FaxMaxBuffer opts);
          c = t38_set_fastest_image_data_rate c (T38MaxBitRate opts);
          c = t38_set_fill_bit_removal c (T38FaxFillBitRemoval opts);
          c = t38_set_mmr_transcoding c (T38FaxTranscodingMMR opts);
          c = t38_set_jbig_transcoding c (T38FaxTranscodingJBIG opts);
          c = t38_set_max_datagram_size c (T38FaxMaxDatagram opts);
          method = (case T38FaxRateManagement opts of
                      None \<Rightarrow> 2
                    | Some m \<Rightarrow> if c_strcaseeq m ''transferredTCF'' then 1 else 2)
      in t38_set_data_rate_management_method c method)"

definition configure_t38 :: "fax_params \<Rightarrow> fax_params option" where
  "configure_t38 fp =
     (if \<not> have_t38_core fp then None
      else
        (case t38_gw_state fp of
           Block gw \<Rightarrow> Some (fp\<lparr>t38_gw_state := Block (gw\<lparr>gw_core := configure_core (options fp) (gw_core gw)\<rparr>)\<rparr>)
         | _ \<Rightarrow> None))"

definition fax_sessionInit :: "fax_env \<Rightarrow> int \<Rightarrow> string \<Rightarrow> fax_params \<Rightarrow> (int \<times> fax_params) option" where
  "fax_sessionInit env session_id cid fp =
     (let fp1 = fax_paramsInit env (fp\<lparr>have_session := True, have_send_cb := True\<rparr>) in
      do {
        fp2 \<leftarrow> fax_paramsSetDefault env session_id cid fp1;
        (ret, fp3) \<leftarrow> fax_initGW env fp2;
        if ret = 0 then map_option (\<lambda>fp4. (0, fp4)) (configure_t38 fp3) else Some (ret, fp3)
      })"

text \<open>
  \<open>fax_releaseGW\<close> reads \<open>session->ses_id\<close> through the pointer that only
  \<open>fax_sessionInit\<close> sets; the two release functions it calls do nothing but return 0.
  \<open>fax_paramsDestroy\<close> frees what is owned; the session itself
  is freed next, so nothing is returned.
\<close>

definition fax_releaseGW :: "fax_params \<Rightarrow> int option" where
  "fax_releaseGW fp =
     (if \<not> have_session fp then None else Some 0)"

definition fax_sessionDestroy :: "fax_params \<Rightarrow> int option" where
  "fax_sessionDestroy fp = map_option (\<lambda>_. 0) (fax_releaseGW fp)"

section \<open>Sending\<close>

text \<open>\<open>for (x = 0; x < count; x++)\<close>: the result and the number of datagrams handed to the socket.\<close>

function send_copies :: "(nat \<Rightarrow> int) \<Rightarrow> int \<Rightarrow> nat \<Rightarrow> int \<times> nat" where
  "send_copies send_res count x =
     (if int x < count then
        (if send_res x < 0 then (-1, x) else send_copies send_res count (x + 1))
      else (0, x))"
  by pat_completeness auto
termination
  by (relation "measure (\<lambda>(send_res, count, x). nat (count - int x))") auto

declare send_copies.simps [simp del]

text \<open>
  The UDPTL packet is built in \<open>pkt[400]\<close>. The result is the return value, the state and
  the datagrams sent.
\<close>

definition t38_tx_packet_handler ::
    "(nat \<Rightarrow> int) \<Rightarrow> fax_params \<Rightarrow> octets \<Rightarrow> int \<Rightarrow> (int \<times> fax_params \<times> octets list) option" where
  "t38_tx_packet_handler send_res fp buf count =
     (case udptl_state_ptr fp of
        Block u \<Rightarrow>
          do {
            (len, pkt, u') \<leftarrow> udptl_build_packet u buf;
            let fp' = fp\<lparr>udptl_state_ptr := Block u'\<rparr>;
            if length pkt > 400 then None
            else if len > 0 then
              (case send_copies send_res count 0 of (ret, n) \<Rightarrow> Some (ret, fp', replicate n pkt))
            else Some (0, fp', [])
          }
      | _ \<Rightarrow> None)"

section \<open>Receiving\<close>

text \<open>
  The calls of \<open>t38_core_rx_ifp_packet\<close> that \<open>udptl_rx_packet\<close> makes, in order: the
  gateway afterwards and the calls of its own handlers. What these handlers do is the
  subject of \<open>Gateway_Rx\<close>. The only field of the core they write is
  \<open>current_rx_indicator\<close> (\<open>process_rx_indicator\<close> to the value the core stores anyway,
  \<open>queue_missing_indicator\<close> to the indicator it makes up for data that came without one);
  the core never reads it, so decoding does not depend on the write, which is left out here.
\<close>

fun deliver_ifp :: "t38_gateway_state \<Rightarrow> delivery list \<Rightarrow> (t38_gateway_state \<times> rx_event list) option" where
  "deliver_ifp gw [] = Some (gw, [])"
| "deliver_ifp gw ((msg, seq_no) # ds) =
     (case t38_core_rx_ifp_packet (gw_core gw) msg seq_no of
        None \<Rightarrow> None
      | Some (r, c, es) \<Rightarrow>
          map_option (\<lambda>(gw', es'). (gw', es @ es')) (deliver_ifp (gw\<lparr>gw_core := c\<rparr>) ds))"

text \<open>\<open>None\<close> for the parameters is a \<open>NULL\<close> session.\<close>

definition fax_rxUDPTL ::
    "fax_params option \<Rightarrow> octets option \<Rightarrow> (int \<times> fax_params option \<times> rx_event list) option" where
  "fax_rxUDPTL session buf =
     (case (session, buf) of
        (Some fp, Some octs) \<Rightarrow>
          (case (udptl_state_ptr fp, t38_gw_state fp) of
             (Block u, Block gw) \<Rightarrow>
               do {
                 (res, u', ds) \<leftarrow> udptl_rx_packet u octs;
                 (gw', es) \<leftarrow> deliver_ifp gw ds;
                 Some (if res \<noteq> 0 then -2 else 0,
                       Some (fp\<lparr>udptl_state_ptr := Block u', t38_gw_state := Block gw'\<rparr>), es)
               }
           | _ \<Rightarrow> None)
      | _ \<Rightarrow> Some (-1, session, []))"

text \<open>
  Audio from the peer leg: \<open>len\<close> octets are \<open>len / 2\<close> samples. An indicator that the
  gateway sends goes through \<open>t38_tx_packet_handler\<close> before the call returns.
\<close>

definition fax_rxAUDIO ::
    "(nat \<Rightarrow> int) \<Rightarrow> fax_params option \<Rightarrow> bool \<Rightarrow> int \<Rightarrow> (int \<times> fax_params option \<times> octets list) option" where
  "fax_rxAUDIO send_res session have_buf len =
     (case session of
        Some fp \<Rightarrow>
          if \<not> have_buf then Some (-1, session, [])
          else
            (case t38_gw_state fp of
               Block gw \<Rightarrow>
                 do {
                   (res, gw', packet) \<leftarrow> t38_gateway_rx gw (c_div len 2);
                   let fp1 = fp\<lparr>t38_gw_state := Block gw'\<rparr>;
                   (fp2, sent) \<leftarrow> (case packet of
                       None \<Rightarrow> Some (fp1, [])
                     | Some (pkt, count) \<Rightarrow>
                         map_option (\<lambda>(r, fp', sent). (fp', sent)) (t38_tx_packet_handler send_res fp1 pkt count));
                   Some (if res \<noteq> 0 then -2 else 0, Some fp2, sent)
                 }
             | _ \<Rightarrow> None)
      | None \<Rightarrow> Some (-1, None, []))"

text \<open>
  \<open>fax_txAUDIO\<close> asks for 160 samples; the second component is what \<open>*len\<close> is set to, if
  anything. What the modem handlers produce are the arguments of \<open>t38_gateway_tx\<close>.
\<close>

definition fax_txAUDIO ::
    "int \<Rightarrow> bool \<Rightarrow> int \<Rightarrow> fax_params option \<Rightarrow> bool \<Rightarrow> (int \<times> int option) option" where
  "fax_txAUDIO first next_ok second session have_buf =
     (case session of
        Some fp \<Rightarrow>
          if \<not> have_buf then Some (-1, None)
          else
            (case t38_gw_state fp of
               Block gw \<Rightarrow>
                 (let res = t38_gateway_tx gw first next_ok second 160
                  in Some (if res < 0 then -2 else 0, Some (res * 2)))
             | _ \<Rightarrow> None)
      | None \<Rightarrow> Some (-1, None))"

end
