(* ===== verification/Session.thy ===== *)
theory Session
  imports Fax Msg_Proc Slot_Alloc
begin

text \<open>
  Sessions and the application (\<^verbatim>\<open>src/session.c\<close>, \<^verbatim>\<open>src/app.c\<close>): the state of the
  process with its heap of sessions, and every operation of the main thread and of the fax
  threads. Each call of the operating system is an argument (an \<open>env\<close> record): what
  \<open>socket\<close>, \<open>bind\<close>, \<open>recvfrom\<close>, \<open>pthread_create\<close> return. \<open>None\<close> is a
  step that dereferences \<open>NULL\<close> or freed memory or leaves an array.
\<close>

section \<open>State\<close>

datatype session_state =
  FAX_SESSION_STATE_NULL | FAX_SESSION_STATE_SETUP | FAX_SESSION_STATE_PROGRESS | FAX_SESSION_STATE_COMPLETE

datatype session_mode =
  FAX_SESSION_MODE_UNKNOWN | FAX_SESSION_MODE_CTRL | FAX_SESSION_MODE_GATEWAY | FAX_SESSION_MODE_TERMINAL

datatype session_dir = FAX_SESSION_DIR_OUT | FAX_SESSION_DIR_IN

abbreviation (input) FAX_MAX_SESSIONS :: nat where "FAX_MAX_SESSIONS \<equiv> 80"
abbreviation (input) FAX_CTRL_FD_IDX :: nat where "FAX_CTRL_FD_IDX \<equiv> 0"
abbreviation (input) FAX_CONTROL_PORT :: int where "FAX_CONTROL_PORT \<equiv> 23232"

text \<open>Pointers to sessions are numbers; \<open>None\<close> is \<open>NULL\<close>.\<close>

type_synonym session_ptr = "nat option"

record session =
  ses_id :: int
  ses_call_id :: string
  sidx :: int
  fds :: int
  peer_ses :: session_ptr
  rem_ip :: int
  rem_port :: int
  loc_ip :: int
  loc_port :: int
  remaddr :: "int \<times> int"
  ses_state :: session_state
  mode :: session_mode
  FLAG_IN :: bool
  FLAG_THREAD_ACTIVE :: bool
  fax :: fax_params

record pollfd =
  poll_fd :: int
  revents :: bool

text \<open>A fax thread is known by the session it was started with.\<close>

datatype thread_phase = Starting | Running

record fax_thread =
  thread_arg :: nat
  thread_phase :: thread_phase
  cancelled :: bool

text \<open>
  The process: \<open>cfg_t\<close>, the static tables, the sessions that are allocated, the open
  sockets and the fax threads that exist.
\<close>

record app =
  local_ip :: int
  local_port :: int
  pfds :: "pollfd list"
  sessions :: "session_ptr list"
  session_cnt :: int
  heap :: "nat \<Rightarrow> session option"
  next_ptr :: nat
  port_pool_of :: port_pool
  id_pool_of :: id_pool
  open_fds :: "int list"
  threads :: "fax_thread list"
  app_run :: bool

definition deref :: "app \<Rightarrow> session_ptr \<Rightarrow> session option" where
  "deref st p = (case p of None \<Rightarrow> None | Some a \<Rightarrow> heap st a)"

definition put :: "app \<Rightarrow> nat \<Rightarrow> session \<Rightarrow> app" where
  "put st a s = st\<lparr>heap := (heap st)(a \<mapsto> s)\<rparr>"

fun session_modeStr :: "session_mode \<Rightarrow> string" where
  "session_modeStr FAX_SESSION_MODE_CTRL = ''MODE_CTRL''"
| "session_modeStr FAX_SESSION_MODE_GATEWAY = ''MODE_GATEWAY''"
| "session_modeStr FAX_SESSION_MODE_TERMINAL = ''MODE_TERMINAL''"
| "session_modeStr FAX_SESSION_MODE_UNKNOWN = ''MODE_UNKNOWN''"

text \<open>
  \<open>msg2str\<close>: the text up to the first CR, LF or NUL, copied into one of two static arrays
  of 256 characters; \<open>char\<close> is signed. \<open>i\<close> is the static index.
\<close>

definition msg2str_char :: "char \<Rightarrow> char" where
  "msg2str_char c = (if 32 \<le> (of_char c :: nat) \<and> (of_char c :: nat) < 126 then c else CHR ''.'')"

definition msg2str :: "nat \<Rightarrow> string \<Rightarrow> (nat \<times> string) option" where
  "msg2str i m =
     (let s = takeWhile (\<lambda>c. c \<notin> {CHR 0x0D, CHR 0x0A, NUL}) m in
      if length s = length m \<or> length s \<ge> MSG_BUF_LEN then None
      else Some (i mod 2 + 1, map msg2str_char s))"

section \<open>Creating and destroying\<close>

definition session_create ::
    "bool \<Rightarrow> session_mode \<Rightarrow> int \<Rightarrow> session_dir \<Rightarrow> app \<Rightarrow> session_ptr \<times> app" where
  "session_create mem_ok m idx dir st =
     (if idx < 0 \<or> m = FAX_SESSION_MODE_UNKNOWN then (None, st)
      else if \<not> mem_ok then (None, st)
      else
        (let (i, ids) = session_idGetNext (dir = FAX_SESSION_DIR_IN) (id_pool_of st);
             a = next_ptr st;
             s = \<lparr>ses_id = i, ses_call_id = [], sidx = idx, fds = -1, peer_ses = None, rem_ip = 0,
                  rem_port = 0, loc_ip = 0, loc_port = 0, remaddr = (0, 0),
                  ses_state = FAX_SESSION_STATE_NULL, mode = m, FLAG_IN = (dir = FAX_SESSION_DIR_IN),
                  FLAG_THREAD_ACTIVE = False, fax = fax_params_zero\<rparr>
         in (Some a, (put st a s)\<lparr>id_pool_of := ids, next_ptr := a + 1\<rparr>)))"

text \<open>\<open>pthread_cancel\<close> is a request: the thread ends at its next cancellation point.\<close>

definition pthread_cancel :: "nat \<Rightarrow> fax_thread list \<Rightarrow> fax_thread list" where
  "pthread_cancel a ts = map (\<lambda>t. if thread_arg t = a then t\<lparr>cancelled := True\<rparr> else t) ts"

definition session_destroy :: "session_ptr \<Rightarrow> app \<Rightarrow> app option" where
  "session_destroy p st =
     (case p of
        None \<Rightarrow> Some st
      | Some a \<Rightarrow>
          do {
            s \<leftarrow> heap st a;
            _ \<leftarrow> (if mode s \<noteq> FAX_SESSION_MODE_CTRL then fax_sessionDestroy (fax s) else Some 0);
            Some (st\<lparr>threads := (if FLAG_THREAD_ACTIVE s then pthread_cancel a (threads st) else threads st),
                     id_pool_of := snd (session_idRelease (id_pool_of st) (ses_id s)),
                     port_pool_of := snd (app_portRelease (port_pool_of st) (loc_port s)),
                     open_fds := (if fds s > 0 then remove1 (fds s) (open_fds st) else open_fds st),
                     heap := (heap st)(a := None)\<rparr>)
          })"

text \<open>What the operating system does while a session is created and initialised.\<close>

record init_env =
  ses_mem :: bool
  resolve_res :: int
  sock_res :: int
  sockopt_ok :: bool
  bind_ok :: bool
  fax_mem :: fax_env

definition session_createListener :: "init_env \<Rightarrow> app \<Rightarrow> int \<times> app" where
  "session_createListener env st =
     (if sock_res env < 0 then (-2, st)
      else
        (let st' = st\<lparr>open_fds := sock_res env # open_fds st\<rparr> in
         if \<not> sockopt_ok env then (-3, st')
         else if \<not> bind_ok env then (-4, st')
         else (sock_res env, st')))"

text \<open>\<open>getaddrinfo\<close> is called on a numeric address and port and yields just these.\<close>

definition get_hostAddr :: "init_env \<Rightarrow> int \<Rightarrow> int \<Rightarrow> int \<times> int \<Rightarrow> int \<times> (int \<times> int)" where
  "get_hostAddr env ip port sa = (resolve_res env, if resolve_res env = 0 then (ip, port) else sa)"

definition session_init ::
    "init_env \<Rightarrow> session_ptr \<Rightarrow> string \<Rightarrow> int \<Rightarrow> int \<Rightarrow> app \<Rightarrow> (int \<times> app) option" where
  "session_init env p cid remote_ip remote_port st =
     (case p of
        None \<Rightarrow> Some (-1, st)
      | Some a \<Rightarrow>
          do {
            s \<leftarrow> heap st a;
            let (port, pool) = app_portGetFree (port_pool_of st);
            cid' \<leftarrow> c_sprintf CALL_ID_SIZE cid;
            let (res, sa) = get_hostAddr env remote_ip remote_port (remaddr s);
            let s1 = s\<lparr>loc_ip := local_ip st, loc_port := port mod 65536, rem_ip := remote_ip,
                       rem_port := remote_port, ses_call_id := cid', remaddr := sa\<rparr>;
            let st1 = (put st a s1)\<lparr>port_pool_of := pool\<rparr>;
            if res \<noteq> 0 then Some (res + 100, st1)
            else
              (case session_createListener env st1 of (fd, st2) \<Rightarrow>
                 if fd \<le> 0 then Some (-2, st2)
                 else do {
                   (res, fp) \<leftarrow> fax_sessionInit (fax_mem env) (ses_id s1) cid' (fax s1);
                   if res \<noteq> 0 then Some (-3, put st2 a (s1\<lparr>fax := fp\<rparr>))
                   else Some (0, put st2 a (s1\<lparr>fax := fp, fds := fd\<rparr>))
                 })
          })"

definition session_initCtrl :: "init_env \<Rightarrow> session_ptr \<Rightarrow> app \<Rightarrow> (int \<times> app) option" where
  "session_initCtrl env p st =
     (case p of
        None \<Rightarrow> Some (-1, st)
      | Some a \<Rightarrow>
          do {
            s \<leftarrow> heap st a;
            let s1 = s\<lparr>loc_ip := local_ip st, loc_port := local_port st\<rparr>;
            case session_createListener env (put st a s1) of (fd, st2) \<Rightarrow>
              if fd \<le> 0 then Some (-2, st2) else Some (0, put st2 a (s1\<lparr>fds := fd\<rparr>))
          })"

section \<open>Datagrams\<close>

text \<open>
  The outcome of \<open>recvfrom\<close>: the datagram and its sender. After an error the address
  buffer holds whatever was on the stack, which the control session stores all the same.
\<close>

datatype recv_outcome = Received octets int int | Recv_error int int

definition session_recvMsg :: "recv_outcome \<Rightarrow> nat \<Rightarrow> app \<Rightarrow> nat \<Rightarrow> (octets option \<times> app) option" where
  "session_recvMsg r a st msglen =
     do {
       s \<leftarrow> heap st a;
       let (data, ip, port) = (case r of
             Received d ip port \<Rightarrow> (Some (take msglen d), ip, port)
           | Recv_error ip port \<Rightarrow> (None, ip, port));
       Some (data,
             if mode s = FAX_SESSION_MODE_CTRL
             then put st a (s\<lparr>remaddr := (ip, port), rem_ip := ip, rem_port := port\<rparr>) else st)
     }"

text \<open>A datagram handed to the network: socket, destination, octets.\<close>

type_synonym datagram = "int \<times> (int \<times> int) \<times> octets"

definition session_sendMsg :: "session \<Rightarrow> octets \<Rightarrow> datagram" where
  "session_sendMsg s data = (fds s, remaddr s, data)"

definition session_proc :: "recv_outcome \<Rightarrow> session_ptr \<Rightarrow> app \<Rightarrow> (int \<times> app \<times> rx_event list) option" where
  "session_proc r p st =
     (case p of
        None \<Rightarrow> None
      | Some a \<Rightarrow>
          do {
            (data, st1) \<leftarrow> session_recvMsg r a st MSG_BUF_LEN;
            case data of
              None \<Rightarrow> Some (-1, st1, [])
            | Some octs \<Rightarrow>
                do {
                  s \<leftarrow> heap st1 a;
                  (res, fp, es) \<leftarrow> fax_rxUDPTL (Some (fax s)) (Some octs);
                  fp' \<leftarrow> fp;
                  Some (if res < 0 then -2 else 0, put st1 a (s\<lparr>fax := fp'\<rparr>), es)
                }
          })"

section \<open>The fax thread\<close>

record audio_env =
  tx_first :: int
  tx_next_ok :: bool
  tx_second :: int
  tx_send :: "nat \<Rightarrow> int"

text \<open>
  \<open>session_procFax\<close>: what the first leg transmits is received by its peer; datagrams
  leave through the socket of the peer.
\<close>

definition session_procFax :: "audio_env \<Rightarrow> session_ptr \<Rightarrow> app \<Rightarrow> (app \<times> datagram list) option" where
  "session_procFax env p st =
     do {
       s \<leftarrow> deref st p;
       (_, len) \<leftarrow> fax_txAUDIO (tx_first env) (tx_next_ok env) (tx_second env) (Some (fax s)) True;
       len \<leftarrow> len;
       case peer_ses s of
         None \<Rightarrow> Some (st, [])
       | Some b \<Rightarrow>
           do {
             t \<leftarrow> heap st b;
             (_, fp, sent) \<leftarrow> fax_rxAUDIO (tx_send env) (Some (fax t)) True len;
             fp' \<leftarrow> fp;
             Some (put st b (t\<lparr>fax := fp'\<rparr>), map (session_sendMsg t) sent)
           }
     }"

text \<open>One pass of the loop of \<open>fax_ses_proc_thread_routine\<close> for the thread of session \<open>a\<close>.\<close>

definition fax_thread_pass :: "audio_env \<Rightarrow> audio_env \<Rightarrow> nat \<Rightarrow> app \<Rightarrow> (app \<times> datagram list) option" where
  "fax_thread_pass env1 env2 a st =
     do {
       (st1, sent1) \<leftarrow> session_procFax env1 (Some a) st;
       s \<leftarrow> heap st1 a;
       (st2, sent2) \<leftarrow> session_procFax env2 (peer_ses s) st1;
       Some (st2, sent1 @ sent2)
     }"

end
