(* ===== verification/Session_Control.thy ===== *)
theory Session_Control
  imports Session
begin

text \<open>
  The control session (\<^verbatim>\<open>src/session.c\<close>, from \<open>proc_setup\<close> to \<open>session_procCMD\<close>):
  what a signalling message does to the sessions, and its answer.
\<close>

section \<open>SETUP\<close>

text \<open>\<open>thread_res\<close> is the result of \<open>pthread_create\<close>.\<close>

record setup_env =
  in_env :: init_env
  out_env :: init_env
  thread_res :: int
  answer_mem :: bool

text \<open>One entry of \<open>cfg->session\<close> and \<open>cfg->pfds\<close>; \<open>session_cnt\<close> is a \<open>uint8_t\<close>.\<close>

definition cfg_add :: "nat \<Rightarrow> app \<Rightarrow> app option" where
  "cfg_add a st =
     do {
       s \<leftarrow> heap st a;
       ss \<leftarrow> arr_set (sessions st) (session_cnt st) (Some a);
       p \<leftarrow> arr_get (pfds st) (session_cnt st);
       ps \<leftarrow> arr_set (pfds st) (session_cnt st) (p\<lparr>poll_fd := fds s\<rparr>);
       Some (st\<lparr>sessions := ss, pfds := ps, session_cnt := (session_cnt st + 1) mod 256\<rparr>)
     }"

definition start_thread :: "nat \<Rightarrow> app \<Rightarrow> app" where
  "start_thread a st =
     st\<lparr>threads := \<lparr>thread_arg = a, thread_phase = Starting, cancelled = False\<rparr> # threads st\<rparr>"

text \<open>\<open>peer_ses\<close> of the two legs, and the flag of the one that owns the thread.\<close>

definition link_legs :: "nat \<Rightarrow> nat \<Rightarrow> app \<Rightarrow> app option" where
  "link_legs a b st =
     do {
       s \<leftarrow> heap st a;
       let st1 = put st a (s\<lparr>FLAG_THREAD_ACTIVE := True, peer_ses := Some b\<rparr>);
       t \<leftarrow> heap st1 b;
       Some (put st1 b (t\<lparr>peer_ses := Some a\<rparr>))
     }"

definition out_session_mode :: "fax_mode \<Rightarrow> session_mode option" where
  "out_session_mode m =
     (case m of
        FAX_MODE_GW_GW \<Rightarrow> Some FAX_SESSION_MODE_GATEWAY
      | FAX_MODE_GW_TERM \<Rightarrow> Some FAX_SESSION_MODE_TERMINAL
      | FAX_MODE_UNKNOWN \<Rightarrow> None)"

text \<open>
  The output leg and the thread, once the input leg \<open>a\<close> is up. A destination the message
  leaves indeterminate cannot be used.
\<close>

definition setup_output ::
    "setup_env \<Rightarrow> string \<Rightarrow> sig_message_setup \<Rightarrow> session_mode \<Rightarrow> nat \<Rightarrow> app \<Rightarrow> (session_ptr \<times> app) option" where
  "setup_output env cid m out_mode a st =
     (case session_create (ses_mem (out_env env)) out_mode (session_cnt st + 1) FAX_SESSION_DIR_OUT st of
        (None, st1) \<Rightarrow> map_option (Pair None) (session_destroy (Some a) st1)
      | (Some b, st1) \<Rightarrow>
          do {
            dip \<leftarrow> dst_ip m;
            dport \<leftarrow> dst_port m;
            (res, st2) \<leftarrow> session_init (out_env env) (Some b) cid dip dport st1;
            if res \<noteq> 0 \<or> thread_res env \<noteq> 0 then
              do {
                st3 \<leftarrow> session_destroy (Some b) st2;
                map_option (Pair None) (session_destroy (Some a) st3)
              }
            else
              do {
                st3 \<leftarrow> link_legs a b (start_thread a st2);
                st4 \<leftarrow> cfg_add a st3;
                st5 \<leftarrow> cfg_add b st4;
                Some (Some a, st5)
              }
          })"

definition proc_setup ::
    "setup_env \<Rightarrow> string \<Rightarrow> sig_message_setup \<Rightarrow> app \<Rightarrow> (session_ptr \<times> app) option" where
  "proc_setup env cid m st =
     (if session_cnt st \<ge> int FAX_MAX_SESSIONS then Some (None, st)
      else
        (case out_session_mode (fax_mode m) of
           None \<Rightarrow> Some (None, st)
         | Some out_mode \<Rightarrow>
             (case session_create (ses_mem (in_env env)) FAX_SESSION_MODE_GATEWAY (session_cnt st)
                     FAX_SESSION_DIR_IN st of
                (None, st1) \<Rightarrow> Some (None, st1)
              | (Some a, st1) \<Rightarrow>
                  do {
                    (res, st2) \<leftarrow> session_init (in_env env) (Some a) cid (src_ip m) (src_port m) st1;
                    if res \<noteq> 0 then map_option (Pair (Some a)) (session_destroy (Some a) st2)
                    else setup_output env cid m out_mode a st2
                  })))"

definition create_setup_answer_msg :: "bool \<Rightarrow> string \<Rightarrow> session_ptr \<Rightarrow> app \<Rightarrow> sig_message option option" where
  "create_setup_answer_msg mem_ok cid in_session st =
     (case in_session of
        None \<Rightarrow> map_option snd (sig_msgCreateError mem_ok (Some cid) FAX_ERROR_INTERNAL True)
      | Some a \<Rightarrow>
          do {
            s \<leftarrow> heap st a;
            map_option snd (sig_msgCreateOk mem_ok (Some cid) (loc_ip s) (loc_port s) True)
          })"

section \<open>RELEASE\<close>

definition cfg_clear :: "int \<Rightarrow> app \<Rightarrow> app option" where
  "cfg_clear i st =
     do {
       ss \<leftarrow> arr_set (sessions st) i None;
       p \<leftarrow> arr_get (pfds st) i;
       ps \<leftarrow> arr_set (pfds st) i (p\<lparr>poll_fd := -1\<rparr>);
       Some (st\<lparr>sessions := ss, pfds := ps\<rparr>)
     }"

text \<open>Both legs of the call that the session \<open>cs\<close> at index \<open>i\<close> belongs to.\<close>

definition release_call :: "nat \<Rightarrow> nat \<Rightarrow> app \<Rightarrow> app option" where
  "release_call i cs st =
     do {
       st1 \<leftarrow> cfg_clear (int i) st;
       s \<leftarrow> heap st1 cs;
       t \<leftarrow> deref st1 (peer_ses s);
       st2 \<leftarrow> cfg_clear (sidx t) st1;
       st3 \<leftarrow> session_destroy (peer_ses s) st2;
       session_destroy (Some cs) st3
     }"

text \<open>\<open>for (i = FAX_CTRL_FD_IDX + 1; i < session_cnt; i++)\<close> over \<open>n\<close> more indices.\<close>

fun release_loop :: "string \<Rightarrow> nat \<Rightarrow> nat \<Rightarrow> app \<Rightarrow> app option" where
  "release_loop cid i 0 st = Some st"
| "release_loop cid i (Suc n) st =
     do {
       p \<leftarrow> arr_get (sessions st) (int i);
       case p of
         None \<Rightarrow> release_loop cid (i + 1) n st
       | Some a \<Rightarrow>
           do {
             s \<leftarrow> heap st a;
             if ses_call_id s = cid then release_call i a st
             else release_loop cid (i + 1) n st
           }
     }"

definition proc_release :: "string \<Rightarrow> app \<Rightarrow> app option" where
  "proc_release cid st = release_loop cid (FAX_CTRL_FD_IDX + 1) (nat (session_cnt st - 1)) st"

section \<open>A signalling message\<close>

definition process_sig_message ::
    "setup_env \<Rightarrow> sig_message \<Rightarrow> app \<Rightarrow> (int \<times> sig_message option \<times> app) option" where
  "process_sig_message env m st =
     (case body m of
        Setup x \<Rightarrow>
          do {
            (in_session, st1) \<leftarrow> proc_setup env (call_id m) x st;
            answer \<leftarrow> create_setup_answer_msg (answer_mem env) (call_id m) in_session st1;
            Some (if in_session = None then -1 else 0, answer, st1)
          }
      | Rel \<Rightarrow> map_option (\<lambda>st1. (0, None, st1)) (proc_release (call_id m) st)
      | _ \<Rightarrow> Some (0, None, st))"

definition octets_of :: "string \<Rightarrow> octets" where
  "octets_of s = map (\<lambda>c. word_of_nat (of_char c)) s"

definition chars_of :: "octets \<Rightarrow> string" where
  "chars_of bs = map (\<lambda>b. char_of (unat b)) bs"

text \<open>
  The environment of one command: the datagram, what follows it in memory, the memory for
  the message it is parsed into and the result of \<open>sendto\<close>. \<open>msg2str\<close> is called for the
  traces, so its array bounds matter; its static index is left out.
\<close>

record cmd_env =
  cmd_recv :: recv_outcome
  cmd_stale :: string
  cmd_parse_mem :: bool
  cmd_setup :: setup_env
  cmd_send_res :: int

definition send_answer ::
    "cmd_env \<Rightarrow> nat \<Rightarrow> int \<Rightarrow> sig_message option \<Rightarrow> app \<Rightarrow> (int \<times> app \<times> datagram list) option" where
  "send_answer env a ret_val answer st =
     (case answer of
        None \<Rightarrow> Some (ret_val, st, [])
      | Some m \<Rightarrow>
          do {
            _ \<leftarrow> sig_msgPrint (Some m) True MSG_PRINT_BUF_LEN;
            (len, text) \<leftarrow> sig_msgCompose (Some m) True MSG_BUF_LEN;
            buf \<leftarrow> text;
            s \<leftarrow> heap st a;
            if len < 0 \<or> len > int MSG_BUF_LEN then None
            else do {
              _ \<leftarrow> msg2str 0 buf;
              Some (if cmd_send_res env < 0 then -4 else ret_val, st,
                    [session_sendMsg s (octets_of (take (nat len) buf))])
            }
          })"

definition session_procCMD ::
    "cmd_env \<Rightarrow> session_ptr \<Rightarrow> app \<Rightarrow> (int \<times> app \<times> datagram list) option" where
  "session_procCMD env ctrl st =
     (case ctrl of
        None \<Rightarrow> None
      | Some a \<Rightarrow>
          do {
            (data, st1) \<leftarrow> session_recvMsg (cmd_recv env) a st MSG_BUF_LEN;
            case data of
              None \<Rightarrow> Some (-1, st1, [])
            | Some octs \<Rightarrow>
                (let m = chars_of octs @ cmd_stale env in
                 do {
                   _ \<leftarrow> msg2str 0 m;
                   (res, message) \<leftarrow> sig_msgParse (cmd_parse_mem env) (Some m) True;
                   if res < 0 then
                     do {
                       (_, answer) \<leftarrow> sig_msgCreateError (answer_mem (cmd_setup env)) (Some ''FAIL'')
                                        FAX_ERROR_INVALID_MESSAGE True;
                       send_answer env a (-2) answer st1
                     }
                   else
                     do {
                       msg \<leftarrow> (case message of Message msg \<Rightarrow> Some msg | _ \<Rightarrow> None);
                       _ \<leftarrow> sig_msgPrint (Some msg) True MSG_PRINT_BUF_LEN;
                       (res, answer, st2) \<leftarrow> process_sig_message (cmd_setup env) msg st1;
                       send_answer env a (if res \<noteq> 0 then -3 else 0) answer st2
                     }
                 })
          })"

end
