(* ===== verification/App.thy ===== *)
theory App
  imports Session_Control
begin

text \<open>
  The application (\<^verbatim>\<open>src/app.c\<close>, \<^verbatim>\<open>src/main.c\<close>): configuration, the poll loop
  that serves the sessions and the control session, and shutdown. Memory, sockets, the
  results of \<open>poll\<close> and signals are arguments.
\<close>

section \<open>Start\<close>

text \<open>The zero-initialised static variables; \<open>app_run\<close> starts as 1.\<close>

definition app_zero :: app where
  "app_zero =
     \<lparr>local_ip = 0, local_port = 0, pfds = [], sessions = [], session_cnt = 0, heap = (\<lambda>_. None),
      next_ptr = 0, port_pool_of = port_pool_init, id_pool_of = id_pool_init, open_fds = [],
      threads = [], app_run = True\<rparr>"

record start_env =
  iface_ip :: int
  pfds_mem :: bool
  sessions_mem :: bool
  ctrl_env :: init_env

definition app_InitControlFD :: "init_env \<Rightarrow> app \<Rightarrow> (int \<times> app) option" where
  "app_InitControlFD env st =
     (case session_create (ses_mem env) FAX_SESSION_MODE_CTRL (int FAX_CTRL_FD_IDX) FAX_SESSION_DIR_IN st of
        (None, st1) \<Rightarrow> Some (-1, st1)
      | (Some a, st1) \<Rightarrow>
          do {
            (res, st2) \<leftarrow> session_initCtrl env (Some a) st1;
            if res \<noteq> 0 then map_option (Pair (-2)) (session_destroy (Some a) st2)
            else do {
              s \<leftarrow> heap st2 a;
              p \<leftarrow> arr_get (pfds st2) (int FAX_CTRL_FD_IDX);
              ps \<leftarrow> arr_set (pfds st2) (int FAX_CTRL_FD_IDX) (p\<lparr>poll_fd := fds s\<rparr>);
              ss \<leftarrow> arr_set (sessions st2) (int FAX_CTRL_FD_IDX) (Some a);
              Some (0, st2\<lparr>pfds := ps, sessions := ss, session_cnt := 1\<rparr>)
            }
          })"

text \<open>\<open>calloc\<close> gives descriptors 0 without events and \<open>NULL\<close> sessions.\<close>

definition app_cfgInit :: "start_env \<Rightarrow> app \<Rightarrow> (int \<times> app) option" where
  "app_cfgInit env st =
     (let st1 = st\<lparr>local_ip := iface_ip env, local_port := FAX_CONTROL_PORT\<rparr> in
      if \<not> pfds_mem env then Some (-1, st1)
      else if \<not> sessions_mem env then Some (-2, st1)
      else do {
        (res, st2) \<leftarrow> app_InitControlFD (ctrl_env env)
          (st1\<lparr>pfds := replicate FAX_MAX_SESSIONS \<lparr>poll_fd = 0, revents = False\<rparr>,
               sessions := replicate FAX_MAX_SESSIONS None\<rparr>);
        if res \<noteq> 0 then Some (-3, st2\<lparr>pfds := [], sessions := []\<rparr>) else Some (0, st2)
      })"

definition app_init :: "start_env \<Rightarrow> app \<Rightarrow> (int \<times> app) option" where
  "app_init env st =
     map_option (\<lambda>(res, st1). (if res \<noteq> 0 then -1 else 0, st1)) (app_cfgInit env st)"

section \<open>Serving the sessions\<close>

text \<open>
  One index of the loop: an entry without descriptor is counted, another one moves down by
  the number counted so far. Then a datagram, if there is one, is processed.
\<close>

definition move_down :: "nat \<Rightarrow> nat \<Rightarrow> app \<Rightarrow> app option" where
  "move_down i skip st =
     do {
       v \<leftarrow> arr_get (sessions st) (int i);
       p \<leftarrow> arr_get (pfds st) (int i);
       ss \<leftarrow> arr_set (sessions st) (int i - int skip) v;
       ps \<leftarrow> arr_set (pfds st) (int i - int skip) p;
       a \<leftarrow> v;
       s \<leftarrow> heap st a;
       Some ((put st a (s\<lparr>sidx := int i - int skip\<rparr>))\<lparr>sessions := ss, pfds := ps\<rparr>)
     }"

definition serve :: "recv_outcome \<Rightarrow> nat \<Rightarrow> app \<Rightarrow> app option" where
  "serve r i st =
     do {
       p \<leftarrow> arr_get (pfds st) (int i);
       if revents p then
         do {
           v \<leftarrow> arr_get (sessions st) (int i);
           map_option (\<lambda>(res, st', es). st') (session_proc r v st)
         }
       else Some st
     }"

fun proc_sessions_loop :: "(nat \<Rightarrow> recv_outcome) \<Rightarrow> nat \<Rightarrow> nat \<Rightarrow> nat \<Rightarrow> app \<Rightarrow> (nat \<times> app) option" where
  "proc_sessions_loop recv i 0 skip st = Some (skip, st)"
| "proc_sessions_loop recv i (Suc n) skip st =
     do {
       p \<leftarrow> arr_get (pfds st) (int i);
       if poll_fd p = -1 then proc_sessions_loop recv (i + 1) n (skip + 1) st
       else do {
         st1 \<leftarrow> (if skip > 0 then move_down i skip st else Some st);
         st2 \<leftarrow> serve (recv i) i st1;
         proc_sessions_loop recv (i + 1) n skip st2
       }
     }"

definition app_procSessions :: "(nat \<Rightarrow> recv_outcome) \<Rightarrow> app \<Rightarrow> app option" where
  "app_procSessions recv st =
     do {
       (skip, st1) \<leftarrow> proc_sessions_loop recv (FAX_CTRL_FD_IDX + 1) (nat (session_cnt st - 1)) 0 st;
       Some (st1\<lparr>session_cnt := (session_cnt st1 - int skip) mod 256\<rparr>)
     }"

definition app_procCMD :: "cmd_env \<Rightarrow> app \<Rightarrow> (int \<times> app \<times> datagram list) option" where
  "app_procCMD env st =
     do {
       p \<leftarrow> arr_get (pfds st) (int FAX_CTRL_FD_IDX);
       if revents p then
         do {
           v \<leftarrow> arr_get (sessions st) (int FAX_CTRL_FD_IDX);
           session_procCMD env v st
         }
       else Some (-1, st, [])
     }"

section \<open>The loop\<close>

text \<open>
  What happens during one pass: the result of \<open>poll\<close>, the ready descriptors, the
  datagrams and possibly a signal. When \<open>poll\<close> fails it leaves \<open>revents\<close> alone.
\<close>

record pass_env =
  poll_res :: int
  poll_ready :: "nat \<Rightarrow> bool"
  pass_recv :: "nat \<Rightarrow> recv_outcome"
  pass_cmd :: cmd_env
  pass_signal :: "int option"

definition poll :: "pass_env \<Rightarrow> app \<Rightarrow> app" where
  "poll env st =
     (if poll_res env < 0 then st
      else st\<lparr>pfds := map (\<lambda>(i, p).
                if int i < session_cnt st
                then p\<lparr>revents := (0 < poll_res env \<and> poll_ready env i \<and> 0 \<le> poll_fd p)\<rparr> else p)
              (enumerate 0 (pfds st))\<rparr>)"

definition sigint_handler :: "int \<Rightarrow> app \<Rightarrow> app" where
  "sigint_handler s st = (if s = 2 \<or> s = 1 \<or> s = 15 then st\<lparr>app_run := False\<rparr> else st)"

definition app_pass :: "pass_env \<Rightarrow> app \<Rightarrow> (app \<times> datagram list) option" where
  "app_pass env st =
     do {
       let st1 = poll env st;
       st2 \<leftarrow> app_procSessions (pass_recv env) st1;
       (st3, sent) \<leftarrow> (if poll_res env > 0
          then map_option (\<lambda>(r, st', sent). (st', sent)) (app_procCMD (pass_cmd env) st2)
          else Some (st2, []));
       Some ((case pass_signal env of None \<Rightarrow> st3 | Some s \<Rightarrow> sigint_handler s st3), sent)
     }"

text \<open>\<open>while(app_run)\<close> over the passes the environment provides.\<close>

fun app_start :: "pass_env list \<Rightarrow> app \<Rightarrow> (app \<times> datagram list) option" where
  "app_start [] st = Some (st, [])"
| "app_start (env # envs) st =
     (if app_run st then
        do {
          (st1, sent) \<leftarrow> app_pass env st;
          map_option (\<lambda>(st', sent'). (st', sent @ sent')) (app_start envs st1)
        }
      else Some (st, []))"

section \<open>Shutdown\<close>

fun destroy_loop :: "nat \<Rightarrow> nat \<Rightarrow> app \<Rightarrow> app option" where
  "destroy_loop i 0 st = Some st"
| "destroy_loop i (Suc n) st =
     do {
       v \<leftarrow> arr_get (sessions st) (int i);
       st1 \<leftarrow> session_destroy v st;
       st2 \<leftarrow> cfg_clear (int i) st1;
       destroy_loop (i + 1) n st2
     }"

definition app_cfgDestroy :: "app \<Rightarrow> app option" where
  "app_cfgDestroy st =
     map_option (\<lambda>st'. st'\<lparr>pfds := [], sessions := []\<rparr>) (destroy_loop 0 (nat (session_cnt st)) st)"

definition app_destroy :: "app \<Rightarrow> int option" where
  "app_destroy st = map_option (\<lambda>_. 0) (app_cfgDestroy st)"

definition main :: "start_env \<Rightarrow> pass_env list \<Rightarrow> int option" where
  "main env envs =
     do {
       (res, st) \<leftarrow> app_init env app_zero;
       if res \<noteq> 0 then Some (-1)
       else do {
         (st1, sent) \<leftarrow> app_start envs st;
         _ \<leftarrow> app_destroy st1;
         Some 0
       }
     }"

end
