(* ===== verification/Session_Resources.thy ===== *)
theory Session_Resources
  imports App
begin

text \<open>
  Who holds which port and identifier: the tables of the two allocators mark exactly what
  the live sessions hold, each once. Every operation on sessions keeps that; the proofs use
  the laws of \<open>slot_allocator\<close> only.
\<close>

section \<open>Ownership\<close>

text \<open>The handles given out are those of the owners \<open>A\<close>, one each.\<close>

definition owned :: "int set \<Rightarrow> 'a set \<Rightarrow> ('a \<Rightarrow> int) \<Rightarrow> bool" where
  "owned used A f \<longleftrightarrow> inj_on f A \<and> used = f ` A"

lemma owned_cong: "\<lbrakk>owned u A f; A = B; \<And>a. a \<in> A \<Longrightarrow> f a = g a\<rbrakk> \<Longrightarrow> owned u B g"
  by (auto simp: owned_def inj_on_def)

lemma owned_insert: "\<lbrakk>owned u A f; a \<notin> A; h \<notin> u\<rbrakk> \<Longrightarrow> owned (insert h u) (insert a A) (f(a := h))"
  by (auto simp: owned_def inj_on_def)

lemma owned_remove: "\<lbrakk>owned u A f; a \<in> A\<rbrakk> \<Longrightarrow> owned (u - {f a}) (A - {a}) f"
  by (auto simp: owned_def inj_on_def)

lemma owned_card: "owned u A f \<Longrightarrow> card u = card A"
  by (simp add: owned_def card_image)

context slot_allocator
begin

lemma owned_alloc:
  assumes "pool_ok s" "owned (used s) A f" "a \<notin> A" "card A < card handles" "alloc s = (h, s')"
  shows "pool_ok s'" "h \<in> handles" "owned (used s') (insert a A) (f(a := h))"
proof -
  have "used s \<noteq> handles" using owned_card [OF assms(2)] assms(4) by auto
  with alloc_free [OF assms(1)] assms(5) have h: "h \<in> handles" "h \<notin> used s" "used s' = insert h (used s)" "pool_ok s'"
    by auto
  from h show "pool_ok s'" "h \<in> handles" by simp_all
  from h(3) owned_insert [OF assms(2,3) h(2)] show "owned (used s') (insert a A) (f(a := h))" by simp
qed

lemma owned_release:
  assumes "pool_ok s" "owned (used s) A f" "a \<in> A"
  shows "owned (used (snd (release s (f a)))) (A - {a}) f"
  using owned_remove [OF assms(2,3)] by (simp add: release_eq [OF assms(1)])

lemma owned_release_other:
  assumes "pool_ok s" "owned (used s) A f" "h \<notin> handles"
  shows "owned (used (snd (release s h))) A f"
proof -
  have "h \<notin> used s" using used_handles [OF assms(1)] assms(3) by blast
  then show ?thesis using assms(2) by (simp add: release_eq [OF assms(1)])
qed

end

section \<open>Ports and identifiers of the sessions\<close>

definition ses_of :: "app \<Rightarrow> nat \<Rightarrow> session" where
  "ses_of st a = the (heap st a)"

definition holders :: "app \<Rightarrow> nat set" where
  "holders st = {a. \<exists>s. heap st a = Some s \<and> loc_port s \<in> port_handles}"

definition facing :: "app \<Rightarrow> bool \<Rightarrow> nat set" where
  "facing st d = {a. \<exists>s. heap st a = Some s \<and> FLAG_IN s = d}"

definition resources :: "app \<Rightarrow> bool" where
  "resources st \<longleftrightarrow>
     finite (dom (heap st)) \<and> (\<forall>a \<in> dom (heap st). a < next_ptr st) \<and>
     port_pool_ok (port_pool_of st) \<and> id_pool_ok (id_pool_of st) \<and>
     owned (ports_used (port_pool_of st)) (holders st) (\<lambda>a. loc_port (ses_of st a)) \<and>
     (\<forall>d. owned (ids_used d (id_pool_of st)) (facing st d) (\<lambda>a. ses_id (ses_of st a)))"

lemma resources_owned:
  assumes "resources st"
  shows "owned (ports_used (port_pool_of st)) (holders st) (\<lambda>a. loc_port (ses_of st a))"
    and "owned (ids_used d (id_pool_of st)) (facing st d) (\<lambda>a. ses_id (ses_of st a))"
    and "port_pool_ok (port_pool_of st)" "id_pool_ok (id_pool_of st)" "finite (dom (heap st))"
  using assms unfolding resources_def by blast+

lemma holders_dom: "holders st \<subseteq> dom (heap st)"
  by (auto simp: holders_def)

lemma facing_dom: "facing st d \<subseteq> dom (heap st)"
  by (auto simp: facing_def)

lemma card_port_handles: "card port_handles = 200"
  by (simp add: port_handles_def)

lemma card_id_handles: "card (id_handles d) = 1024"
  by (simp add: id_handles_def)

text \<open>Changes that leave ports, identifiers and directions alone.\<close>

definition same_resources :: "app \<Rightarrow> app \<Rightarrow> bool" where
  "same_resources st st' \<longleftrightarrow>
     port_pool_of st' = port_pool_of st \<and> id_pool_of st' = id_pool_of st \<and> next_ptr st' = next_ptr st \<and>
     (\<forall>a. map_option (\<lambda>s. (loc_port s, ses_id s, FLAG_IN s)) (heap st' a) =
          map_option (\<lambda>s. (loc_port s, ses_id s, FLAG_IN s)) (heap st a))"

lemma same_resources_get:
  assumes "same_resources st st'"
  shows "heap st a = None \<longleftrightarrow> heap st' a = None"
    and "heap st a = Some s \<Longrightarrow> \<exists>s'. heap st' a = Some s' \<and> loc_port s' = loc_port s \<and> ses_id s' = ses_id s \<and>
           FLAG_IN s' = FLAG_IN s"
proof -
  have m: "map_option (\<lambda>s. (loc_port s, ses_id s, FLAG_IN s)) (heap st' a) =
      map_option (\<lambda>s. (loc_port s, ses_id s, FLAG_IN s)) (heap st a)" for a
    using assms by (simp add: same_resources_def)
  show "heap st a = None \<longleftrightarrow> heap st' a = None" using m [of a] by (cases "heap st a"; cases "heap st' a"; simp)
  show "heap st a = Some s \<Longrightarrow> \<exists>s'. heap st' a = Some s' \<and> loc_port s' = loc_port s \<and> ses_id s' = ses_id s \<and>
           FLAG_IN s' = FLAG_IN s"
    using m [of a] by (cases "heap st' a") auto
qed

lemma same_resources_sym: "same_resources st st' \<Longrightarrow> same_resources st' st"
  by (simp add: same_resources_def)

lemma same_resources_trans: "same_resources st st1 \<Longrightarrow> same_resources st1 st2 \<Longrightarrow> same_resources st st2"
  by (simp add: same_resources_def)

lemma same_resources_refl [simp]: "same_resources st st"
  by (simp add: same_resources_def)

lemma same_resources_put:
  assumes "heap st a = Some s" "loc_port s' = loc_port s" "ses_id s' = ses_id s" "FLAG_IN s' = FLAG_IN s"
  shows "same_resources st (put st a s')"
  using assms by (simp add: same_resources_def put_def)

lemma resources_same:
  assumes "resources st" "same_resources st st'"
  shows "resources st'"
proof -
  note g = same_resources_get [OF assms(2)] and g' = same_resources_get [OF same_resources_sym [OF assms(2)]]
  have d: "dom (heap st') = dom (heap st)" using g(1) by (auto simp: dom_def)
  have h1: "holders st = holders st'"
    unfolding holders_def by (rule Collect_cong) (metis g(2) g'(2))
  have h2: "facing st d = facing st' d" for d
    unfolding facing_def by (rule Collect_cong) (metis g(2) g'(2))
  note h = h1 h2
  have v: "loc_port (ses_of st a) = loc_port (ses_of st' a)" "ses_id (ses_of st a) = ses_id (ses_of st' a)"
    if "a \<in> dom (heap st)" for a
    using that g(2) [of a] by (auto simp: ses_of_def)
  note own = resources_owned [OF assms(1)]
  have ports: "owned (ports_used (port_pool_of st)) (holders st') (\<lambda>a. loc_port (ses_of st' a))"
    by (rule owned_cong [OF own(1) h(1)]) (use holders_dom [of st] v(1) in blast)
  have ids: "owned (ids_used d (id_pool_of st)) (facing st' d) (\<lambda>a. ses_id (ses_of st' a))" for d
    by (rule owned_cong [OF own(2) h(2)]) (use facing_dom [of st d] v(2) in blast)
  show ?thesis using assms d ports ids by (simp add: resources_def same_resources_def)
qed

section \<open>Creating, initialising and destroying\<close>

lemma ids_alloc: "slot_allocator (session_idGetNext d) session_idRelease (ids_used d) (id_handles d) id_pool_ok"
  by (rule ids_allocator)

lemma create_some:
  assumes "session_create mem_ok m idx dir st = (Some a, st')"
  shows "a = next_ptr st" "next_ptr st' = a + 1"
    and "\<exists>s. heap st' = (heap st)(a \<mapsto> s) \<and> ses_id s = fst (session_idGetNext (dir = FAX_SESSION_DIR_IN) (id_pool_of st)) \<and>
      sidx s = idx \<and> mode s = m \<and> FLAG_IN s = (dir = FAX_SESSION_DIR_IN) \<and> loc_port s = 0 \<and> fds s = -1 \<and>
      \<not> FLAG_THREAD_ACTIVE s \<and> peer_ses s = None \<and> fax s = fax_params_zero \<and> m \<noteq> FAX_SESSION_MODE_UNKNOWN"
    and "st' = st\<lparr>heap := heap st', next_ptr := next_ptr st',
           id_pool_of := snd (session_idGetNext (dir = FAX_SESSION_DIR_IN) (id_pool_of st))\<rparr>"
  using assms by (auto simp: session_create_def put_def Let_def split: if_splits prod.splits)

lemma create_none: "session_create mem_ok m idx dir st = (None, st') \<Longrightarrow> st' = st"
  by (auto simp: session_create_def Let_def split: if_splits prod.splits)

lemma port_zero: "0 \<notin> port_handles"
  by (simp add: port_handles_def)

lemma resources_create:
  assumes "resources st" "card (dom (heap st)) < 1024" "session_create mem_ok m idx dir st = (Some a, st')"
  shows "resources st'"
proof -
  let ?d = "dir = FAX_SESSION_DIR_IN"
  obtain h ids where ids: "session_idGetNext ?d (id_pool_of st) = (h, ids)" by force
  note c = create_some [OF assms(3)]
  obtain s where s: "heap st' = (heap st)(a \<mapsto> s)" "ses_id s = h" "FLAG_IN s = ?d" "loc_port s = 0"
    using c(3) ids by auto
  have pools: "port_pool_of st' = port_pool_of st" "id_pool_of st' = ids"
    by (subst c(4), simp add: ids)+
  have fresh: "heap st a = None" using assms(1) c(1) by (auto simp: resources_def)
  have fin: "finite (facing st ?d)" "card (facing st ?d) \<le> card (dom (heap st))"
    using assms(1) facing_dom [of st ?d] by (auto simp: resources_def intro: finite_subset card_mono)
  have notin: "a \<notin> facing st ?d" using fresh by (auto simp: facing_def)
  have own: "owned (ids_used ?d (id_pool_of st)) (facing st ?d) (\<lambda>a. ses_id (ses_of st a))"
    using assms(1) unfolding resources_def by blast
  have "card (facing st ?d) < card (id_handles ?d)" using fin assms(2) by (simp add: card_id_handles)
  note al = slot_allocator.owned_alloc [OF ids_alloc _ own notin this ids]
  have idok: "id_pool_ok (id_pool_of st)" using assms(1) by (simp add: resources_def)
  have fac: "facing st' d = (if d = ?d then insert a (facing st d) else facing st d)" for d
    using fresh s by (auto simp: facing_def)
  have hol: "holders st' = holders st" using fresh s port_zero by (auto simp: holders_def)
  have ses: "ses_of st' x = (if x = a then s else ses_of st x)" for x by (simp add: ses_of_def s(1))
  have ports: "owned (ports_used (port_pool_of st)) (holders st) (\<lambda>x. loc_port (ses_of st' x))"
    by (rule owned_cong [OF resources_owned(1) [OF assms(1)]])
      (use fresh holders_dom [of st] in \<open>auto simp: ses\<close>)
  have ids': "owned (ids_used d ids) (facing st' d) (\<lambda>x. ses_id (ses_of st' x))" for d
  proof (cases "d = ?d")
    case True
    show ?thesis unfolding True
      by (rule owned_cong [OF al(3) [OF idok]]) (auto simp: fac ses s(2))
  next
    case False
    then have d: "d = (\<not> ?d)" by blast
    have "ids_used (\<not> ?d) ids = ids_used (\<not> ?d) (id_pool_of st)"
      using session_idGetNext_other [OF idok, of ?d] unfolding ids snd_conv .
    then have "ids_used d ids = ids_used d (id_pool_of st)" unfolding d [symmetric] .
    with resources_owned(2) [OF assms(1), of d]
    have "owned (ids_used d ids) (facing st d) (\<lambda>x. ses_id (ses_of st x))" by simp
    then show ?thesis
      by (rule owned_cong) (use False facing_dom [of st d] fresh in \<open>auto simp: fac ses\<close>)
  qed
  show ?thesis
    unfolding resources_def using assms(1) al(1) [OF idok] ports ids' c(1,2) s(1)
    by (auto simp: pools hol resources_def less_Suc_eq)
qed

text \<open>A session without port gets one.\<close>

lemma resources_take_port:
  assumes "resources st" "heap st a = Some s" "loc_port s \<notin> port_handles" "card (dom (heap st)) \<le> 200"
    and "app_portGetFree (port_pool_of st) = (h, pool)"
    and "loc_port s' = h mod 65536" "ses_id s' = ses_id s" "FLAG_IN s' = FLAG_IN s"
  shows "resources ((put st a s')\<lparr>port_pool_of := pool\<rparr>)" "loc_port s' = h" "h \<in> port_handles"
proof -
  let ?st = "(put st a s')\<lparr>port_pool_of := pool\<rparr>"
  have notin: "a \<notin> holders st" using assms(2,3) by (auto simp: holders_def)
  have fin: "finite (dom (heap st))" using assms(1) by (simp add: resources_def)
  have "holders st \<subset> dom (heap st)" using notin holders_dom [of st] assms(2) by auto
  then have "card (holders st) < card port_handles"
    using psubset_card_mono [OF fin, of "holders st"] assms(4) unfolding card_port_handles by linarith
  note al = ports.owned_alloc [OF _ _ notin this assms(5)]
  have ok: "port_pool_ok (port_pool_of st)"
    and own: "owned (ports_used (port_pool_of st)) (holders st) (\<lambda>a. loc_port (ses_of st a))"
    using assms(1) by (simp_all add: resources_def)
  show h: "h \<in> port_handles" by (rule al(2) [OF ok own])
  then show port: "loc_port s' = h" using assms(6) by (auto simp: port_handles_def)
  have ses: "ses_of ?st x = (if x = a then s' else ses_of st x)" for x by (simp add: ses_of_def put_def)
  have hol: "holders ?st = insert a (holders st)" using port h by (auto simp: holders_def put_def)
  have fac: "facing ?st d = facing st d" for d using assms(2,8) by (auto simp: facing_def put_def)
  have ports: "owned (ports_used pool) (holders ?st) (\<lambda>x. loc_port (ses_of ?st x))"
    by (rule owned_cong [OF al(3) [OF ok own]]) (auto simp: hol ses port)
  have ids: "owned (ids_used d (id_pool_of st)) (facing ?st d) (\<lambda>x. ses_id (ses_of ?st x))" for d
  proof (rule owned_cong [of _ "facing st d" "\<lambda>a. ses_id (ses_of st a)"])
    show "owned (ids_used d (id_pool_of st)) (facing st d) (\<lambda>a. ses_id (ses_of st a))"
      using assms(1) unfolding resources_def by blast
    show "ses_id (ses_of st x) = ses_id (ses_of ?st x)" for x
      using assms(2,7) by (simp add: ses) (simp add: ses_of_def)
  qed (simp add: fac)
  have "dom (heap ?st) = dom (heap st)" using assms(2) by (auto simp: put_def)
  then show "resources ?st"
    using assms(1) al(1) [OF ok own] ports ids by (auto simp: resources_def put_def)
qed

lemma resources_destroy:
  assumes "resources st" "heap st a = Some s"
    and "pools = (snd (session_idRelease (id_pool_of st) (ses_id s)), snd (app_portRelease (port_pool_of st) (loc_port s)))"
    and "heap st' = (heap st)(a := None)" "next_ptr st' = next_ptr st"
    and "id_pool_of st' = fst pools" "port_pool_of st' = snd pools"
  shows "resources st'"
proof -
  have ok: "port_pool_ok (port_pool_of st)" "id_pool_ok (id_pool_of st)"
    and own: "owned (ports_used (port_pool_of st)) (holders st) (\<lambda>a. loc_port (ses_of st a))"
    using assms(1) by (simp_all add: resources_def)
  have owni: "owned (ids_used d (id_pool_of st)) (facing st d) (\<lambda>a. ses_id (ses_of st a))" for d
    using assms(1) unfolding resources_def by blast
  have a: "ses_of st a = s" by (simp add: ses_of_def assms(2))
  have hol: "holders st' = holders st - {a}" and fac: "facing st' d = facing st d - {a}" for d
    by (auto simp: holders_def facing_def assms(4))
  have ses: "x \<noteq> a \<Longrightarrow> ses_of st' x = ses_of st x" for x by (simp add: ses_of_def assms(4))
  have "owned (ports_used (port_pool_of st')) (holders st - {a}) (\<lambda>a. loc_port (ses_of st a))"
  proof (cases "a \<in> holders st")
    case True
    from ports.owned_release [OF ok(1) own True] show ?thesis by (simp add: assms a)
  next
    case False
    then have "loc_port s \<notin> port_handles" using assms(2) by (auto simp: holders_def)
    from ports.owned_release_other [OF ok(1) own this] False show ?thesis by (simp add: assms)
  qed
  then have ports: "owned (ports_used (port_pool_of st')) (holders st') (\<lambda>a. loc_port (ses_of st' a))"
    by (rule owned_cong) (auto simp: hol ses)
  have "owned (ids_used d (id_pool_of st')) (facing st d - {a}) (\<lambda>a. ses_id (ses_of st a))" for d
  proof (cases "a \<in> facing st d")
    case True
    from slot_allocator.owned_release [OF ids_alloc ok(2) owni True] show ?thesis by (simp add: assms a)
  next
    case False
    then have "d \<noteq> FLAG_IN s" "a \<in> facing st (FLAG_IN s)" using assms(2) by (auto simp: facing_def)
    moreover from this(2) have "ses_id s \<in> id_handles (FLAG_IN s)"
      using owni [of "FLAG_IN s"] slot_allocator.used_handles [OF ids_alloc ok(2), of "FLAG_IN s"] a
      by (auto simp: owned_def)
    ultimately have "ses_id s \<notin> id_handles d" using id_handles_disjoint by blast
    from slot_allocator.owned_release_other [OF ids_alloc ok(2) owni this] False show ?thesis by (simp add: assms)
  qed
  then have ids: "owned (ids_used d (id_pool_of st')) (facing st' d) (\<lambda>a. ses_id (ses_of st' a))" for d
    by (rule owned_cong) (auto simp: fac ses)
  have "dom (heap st') = dom (heap st) - {a}" by (auto simp: assms(4))
  then show ?thesis
    using assms(1) ports ids ports.release_ok [OF ok(1)] session_idRelease_used(2) [OF ok(2)]
    by (auto simp: resources_def assms(3,5-7))
qed

end
