(* ===== verification/Fax_Facts.thy ===== *)
theory Fax_Facts
  imports Fax Udptl_Safety
begin

text \<open>
  What the rest of the development uses of \<open>Fax\<close>: the states a session can be in after
  \<open>fax_sessionInit\<close>, and that the receive functions keep them.
\<close>

section \<open>States of the fax part\<close>

text \<open>
  \<open>fax_live\<close>: initialised; the UDPTL context may be missing when there was no memory for
  it. \<open>fax_ready\<close>: with its UDPTL context.
\<close>

definition fax_live :: "fax_params \<Rightarrow> bool" where
  "fax_live fp \<longleftrightarrow> have_session fp \<and> (\<exists>gw. t38_gw_state fp = Block gw) \<and>
     (udptl_state_ptr fp = Null \<or> (\<exists>u. udptl_state_ptr fp = Block u \<and> udptl_ok u))"

definition fax_ready :: "fax_params \<Rightarrow> bool" where
  "fax_ready fp \<longleftrightarrow> have_session fp \<and> (\<exists>gw. t38_gw_state fp = Block gw) \<and>
     (\<exists>u. udptl_state_ptr fp = Block u \<and> udptl_ok u)"

lemma fax_ready_live: "fax_ready fp \<Longrightarrow> fax_live fp"
  by (simp add: fax_ready_def fax_live_def)

lemma fax_live_destroy: "fax_live fp \<Longrightarrow> fax_sessionDestroy fp = Some 0"
  by (simp add: fax_live_def fax_sessionDestroy_def fax_releaseGW_def)

section \<open>Initialisation\<close>

lemma length_hex_digits: "n < 16 ^ m \<Longrightarrow> length (hex_digits k n) \<le> max k m"
proof (induction k n arbitrary: m rule: hex_digits.induct)
  case (1 k n)
  show ?case
  proof (cases "k = 0 \<and> n = 0")
    case False
    show ?thesis
    proof (cases m)
      case 0
      with "1.prems" False have n: "n = 0" "0 < k" by simp_all
      have "length (hex_digits (k - 1) (n div 16)) \<le> max (k - 1) 0"
        using "1.IH" [OF False, of 0] n by simp
      with n 0 show ?thesis by (subst hex_digits.simps) simp
    next
      case (Suc j)
      with "1.prems" have "n div 16 < 16 ^ j" by (simp add: less_mult_imp_div_less mult.commute)
      from "1.IH" [OF False this] Suc False show ?thesis by (subst hex_digits.simps) auto
    qed
  qed (simp add: hex_digits.simps)
qed

lemma length_hex4: "length (hex4 i) \<le> 8"
proof -
  have "nat (i mod 2 ^ 32) < 16 ^ 8" by simp
  from length_hex_digits [OF this, of 4] show ?thesis by (simp add: hex4_def)
qed

lemma c_sprintf_iff: "c_sprintf n s = Some t \<longleftrightarrow> length s < n \<and> t = s"
  by (auto simp: c_sprintf_def)

lemma gateway_init_some: "\<exists>gw. t38_gateway_init True True True = Some gw"
  by (simp add: t38_gateway_init_def t38_gateway_t38_init_def t38_core_init_def t38_core_restart_def
      t38_set_redundancy_control_def arr_set_def Let_def)

lemma udptl_init_some:
  "udptl_init have own sch sp en True = Some u \<Longrightarrow> udptl_ok u"
  by (rule udptl_init_ok)

lemma paramsSetDefault_cases:
  assumes "fax_paramsSetDefault env i cid fp = Some fp'"
  shows "have_session fp' = have_session fp" "t38_gw_state fp' = t38_gw_state fp"
    "udptl_state_ptr fp' = udptl_state_ptr fp"
  using assms by (auto simp: fax_paramsSetDefault_def Let_def c_sprintf_iff)

lemma initGW_cases:
  assumes "fax_initGW env fp = Some (r, fp')" "udptl_state_ptr fp = Null \<or> udptl_state_ptr fp = Raw"
  shows "have_session fp' \<and> have_t38_core fp' \<and> (\<exists>gw. t38_gw_state fp' = Block gw) \<and>
    (r = -3 \<or> r = 0 \<and> fax_live fp' \<and> (udptl_state_ptr fp = Raw \<longrightarrow> fax_ready fp'))"
  using assms gateway_init_some
  by (auto simp: fax_initGW_def Let_def fax_live_def fax_ready_def
      split: if_splits option.splits dest!: udptl_init_some)

lemma configure_cases:
  assumes "configure_t38 fp = Some fp'"
  shows "have_session fp' = have_session fp" "\<exists>gw. t38_gw_state fp' = Block gw"
    "udptl_state_ptr fp' = udptl_state_ptr fp"
  using assms by (auto simp: configure_t38_def split: if_splits block.splits)

lemma configure_total: "have_t38_core fp \<Longrightarrow> t38_gw_state fp = Block gw \<Longrightarrow> \<exists>fp'. configure_t38 fp = Some fp'"
  by (simp add: configure_t38_def)

lemma sessionInit_cases:
  assumes "fax_sessionInit env i cid fp = Some (r, fp')"
  shows "have_session fp'" "r = 0 \<and> fax_live fp' \<or> r = -3"
proof -
  obtain fp2 fp3 r3 where fp2: "fax_paramsSetDefault env i cid
      (fax_paramsInit env (fp\<lparr>have_session := True, have_send_cb := True\<rparr>)) = Some fp2"
    and fp3: "fax_initGW env fp2 = Some (r3, fp3)"
    and r: "if r3 = 0 then r = 0 \<and> configure_t38 fp3 = Some fp' else r = r3 \<and> fp' = fp3"
    using assms by (auto simp: fax_sessionInit_def Let_def split: if_splits bind_splits)
  have "udptl_state_ptr fp2 = Null \<or> udptl_state_ptr fp2 = Raw"
    using paramsSetDefault_cases [OF fp2] by (simp add: fax_paramsInit_def)
  note c = initGW_cases [OF fp3 this]
  from r c configure_cases [of fp3 fp'] show "have_session fp'" by (auto split: if_splits)
  from r c configure_cases [of fp3 fp'] show "r = 0 \<and> fax_live fp' \<or> r = -3"
    by (auto simp: fax_live_def split: if_splits)
qed

lemma sessionInit_total:
  assumes "fax_mem_ok env" "length cid < 32"
  shows "\<exists>fp'. fax_sessionInit env i cid fp = Some (0, fp') \<and> fax_ready fp'"
proof -
  let ?fp1 = "fax_paramsInit env (fp\<lparr>have_session := True, have_send_cb := True\<rparr>)"
  have "length (hex4 i @ ''-'' @ cid) < 64" using length_hex4 [of i] assms(2) by simp
  then obtain fp2 where fp2: "fax_paramsSetDefault env i cid ?fp1 = Some fp2"
    by (auto simp: fax_paramsSetDefault_def c_sprintf_def Let_def)
  note p = paramsSetDefault_cases [OF fp2]
  have raw: "have_session fp2" "t38_gw_state fp2 = Raw" "udptl_state_ptr fp2 = Raw"
    using p assms(1) by (simp_all add: fax_paramsInit_def fax_mem_ok_def)
  obtain fp3 where fp3: "fax_initGW env fp2 = Some (0, fp3)"
    using raw gateway_init_some by (auto simp: fax_initGW_def udptl_init_def Let_def)
  from initGW_cases [OF fp3] raw have c: "have_t38_core fp3" "\<exists>gw. t38_gw_state fp3 = Block gw" "fax_ready fp3"
    by auto
  then obtain fp4 where fp4: "configure_t38 fp3 = Some fp4" using configure_total by blast
  with configure_cases [OF fp4] c have "fax_ready fp4" by (auto simp: fax_ready_def)
  with fp2 fp3 fp4 show ?thesis by (simp add: fax_sessionInit_def Let_def)
qed

section \<open>Receiving and the audio side\<close>

lemma rxUDPTL_cases:
  assumes "fax_rxUDPTL (Some fp) (Some octs) = Some (r, fp', es)" "fax_live fp"
  shows "\<exists>f. fp' = Some f \<and> fax_ready f" "r = 0 \<or> r = -2"
  using assms rx_packet_ok
  by (auto simp: fax_rxUDPTL_def fax_live_def fax_ready_def split: block.splits bind_splits if_splits)

end
