(* ===== verification/Session_Inv.thy ===== *)
theory Session_Inv
  imports Session_Resources Fax_Facts
begin

text \<open>
  The shape of the process between two steps: the control session at index 0, then the
  calls, each two legs at neighbouring indices (or two cleared entries until the next
  compaction), nothing else allocated. Every operation keeps it.
\<close>

section \<open>The shape\<close>

text \<open>
  A call is the two pointers of its legs, \<open>None\<close> once it is released. An entry of the two
  arrays stands for a leg, its peer and whether it is the incoming one, or is cleared.
\<close>

type_synonym call = "(nat \<times> nat) option"
type_synonym entry = "(nat \<times> nat \<times> bool) option"

definition entries_of :: "call \<Rightarrow> entry list" where
  "entries_of c =
     (case c of None \<Rightarrow> [None, None] | Some (a, b) \<Rightarrow> [Some (a, b, True), Some (b, a, False)])"

definition entries :: "call list \<Rightarrow> entry list" where
  "entries calls = concat (map entries_of calls)"

definition ptrs :: "entry list \<Rightarrow> nat list" where
  "ptrs es = map (\<lambda>e. fst (the e)) (filter (\<lambda>e. e \<noteq> None) es)"

definition slot_holds :: "app \<Rightarrow> nat \<Rightarrow> session_ptr \<Rightarrow> bool" where
  "slot_holds st i p \<longleftrightarrow> sessions st ! i = p \<and>
     poll_fd (pfds st ! i) = (case p of None \<Rightarrow> -1 | Some a \<Rightarrow> fds (ses_of st a))"

definition leg_session :: "nat \<Rightarrow> nat \<Rightarrow> bool \<Rightarrow> session \<Rightarrow> bool" where
  "leg_session peer i inward s \<longleftrightarrow> sidx s = int i \<and> peer_ses s = Some peer \<and>
     mode s \<noteq> FAX_SESSION_MODE_CTRL \<and> FLAG_IN s = inward \<and> FLAG_THREAD_ACTIVE s = inward \<and>
     0 < fds s \<and> fax_live (fax s) \<and> loc_port s \<in> port_handles"

definition entry_at :: "app \<Rightarrow> nat \<Rightarrow> entry \<Rightarrow> bool" where
  "entry_at st i e \<longleftrightarrow> slot_holds st i (map_option fst e) \<and>
     (\<forall>a peer inward. e = Some (a, peer, inward) \<longrightarrow> (\<exists>s. heap st a = Some s \<and> leg_session peer i inward s))"

definition control_at :: "app \<Rightarrow> nat \<Rightarrow> bool" where
  "control_at st c \<longleftrightarrow> slot_holds st 0 (Some c) \<and>
     (\<exists>s. heap st c = Some s \<and> mode s = FAX_SESSION_MODE_CTRL \<and> 0 < fds s \<and> \<not> FLAG_THREAD_ACTIVE s)"

text \<open>A thread that is not cancelled runs on a live session that owns it.\<close>

definition threads_ok :: "app \<Rightarrow> bool" where
  "threads_ok st \<longleftrightarrow> (\<forall>t \<in> set (threads st). thread_arg t < next_ptr st \<and>
     (\<not> cancelled t \<longrightarrow> (\<exists>s. heap st (thread_arg t) = Some s \<and> FLAG_THREAD_ACTIVE s)))"

text \<open>\<open>pos\<close> says at which index an entry stands.\<close>

definition shape :: "app \<Rightarrow> nat \<Rightarrow> (nat \<Rightarrow> nat) \<Rightarrow> entry list \<Rightarrow> bool" where
  "shape st c pos es \<longleftrightarrow>
     length (sessions st) = FAX_MAX_SESSIONS \<and> length (pfds st) = FAX_MAX_SESSIONS \<and>
     control_at st c \<and> (\<forall>k < length es. entry_at st (pos k) (es ! k)) \<and>
     distinct (c # ptrs es) \<and> dom (heap st) = set (c # ptrs es) \<and> threads_ok st"

text \<open>The two legs of a call carry its identifier.\<close>

definition twins :: "app \<Rightarrow> call list \<Rightarrow> bool" where
  "twins st calls \<longleftrightarrow>
     (\<forall>a b. Some (a, b) \<in> set calls \<longrightarrow> ses_call_id (ses_of st a) = ses_call_id (ses_of st b))"

definition app_ok :: "app \<Rightarrow> nat \<Rightarrow> call list \<Rightarrow> bool" where
  "app_ok st c calls \<longleftrightarrow> resources st \<and> shape st c Suc (entries calls) \<and> twins st calls \<and>
     session_cnt st = 1 + 2 * int (length calls) \<and> length calls \<le> 39"

section \<open>Frames\<close>

lemma ptrs_simps [simp]:
  "ptrs [] = []"
  "ptrs (None # es) = ptrs es"
  "ptrs (Some (a, p) # es) = a # ptrs es"
  "ptrs (es @ ds) = ptrs es @ ptrs ds"
  by (simp_all add: ptrs_def)

lemma in_ptrs: "a \<in> set (ptrs es) \<longleftrightarrow> (\<exists>p. Some (a, p) \<in> set es)"
  by (induction es rule: list.induct) (auto simp: ptrs_def)

lemma ptrs_filter [simp]: "ptrs (filter (\<lambda>e. e \<noteq> None) es) = ptrs es"
  by (simp add: ptrs_def)

lemma entries_simps [simp]:
  "entries [] = []"
  "entries (c # cs) = entries_of c @ entries cs"
  "entries (cs @ ds) = entries cs @ entries ds"
  by (simp_all add: entries_def)

lemma entries_of_simps [simp]:
  "entries_of None = [None, None]"
  "entries_of (Some (a, b)) = [Some (a, b, True), Some (b, a, False)]"
  by (simp_all add: entries_of_def)

lemma length_entries_of [simp]: "length (entries_of c) = 2"
  by (cases c) auto

lemma length_entries [simp]: "length (entries calls) = 2 * length calls"
  by (induction calls) auto

lemma nth_entries:
  "k < length calls \<Longrightarrow> entries calls ! (2 * k) = entries_of (calls ! k) ! 0"
  "k < length calls \<Longrightarrow> entries calls ! (2 * k + 1) = entries_of (calls ! k) ! 1"
proof (induction calls arbitrary: k)
  case (Cons c cs)
  { case 1 then show ?case using Cons(1) by (cases k) (auto simp: nth_append) }
  { case 2 then show ?case using Cons(2) by (cases k) (auto simp: nth_append) }
qed simp_all

lemma set_entries:
  "Some (a, b) \<in> set calls \<Longrightarrow> Some (a, b, True) \<in> set (entries calls) \<and> Some (b, a, False) \<in> set (entries calls)"
  by (auto simp: entries_def entries_of_def split: option.splits intro!: bexI [of _ "Some (a, b)"])

lemma filter_entries: "filter (\<lambda>e. e \<noteq> None) (entries calls) = entries (filter (\<lambda>c. c \<noteq> None) calls)"
proof (induction calls)
  case (Cons c cs)
  then show ?case by (cases c) auto
qed simp

lemma length_ptrs: "length (ptrs es) \<le> length es"
  by (simp add: ptrs_def)

lemma card_live: "shape st c pos es \<Longrightarrow> card (dom (heap st)) \<le> 1 + length es"
  using distinct_card [of "c # ptrs es"] length_ptrs [of es] by (auto simp: shape_def)

lemma entry_at_cong:
  assumes "sessions st' ! i = sessions st ! i" "poll_fd (pfds st' ! i) = poll_fd (pfds st ! i)"
    and "\<And>a p. e = Some (a, p) \<Longrightarrow> heap st' a = heap st a"
  shows "entry_at st' i e = entry_at st i e"
proof (cases e)
  case None
  then show ?thesis using assms by (simp add: entry_at_def slot_holds_def)
next
  case (Some x)
  obtain a p where x: "x = (a, p)" by (rule prod.exhaust)
  with assms(3) Some have "heap st' a = heap st a" by blast
  then show ?thesis using assms(1,2) Some x by (simp add: entry_at_def slot_holds_def ses_of_def)
qed

lemma entry_at_leg:
  "entry_at st i (Some (a, b, d)) \<longleftrightarrow>
     slot_holds st i (Some a) \<and> (\<exists>s. heap st a = Some s \<and> leg_session b i d s)"
  by (auto simp: entry_at_def)

lemma entry_at_None: "entry_at st i None \<longleftrightarrow> sessions st ! i = None \<and> poll_fd (pfds st ! i) = -1"
  by (auto simp: entry_at_def slot_holds_def)

text \<open>Updates of one session that the shape does not see.\<close>

definition keeps :: "session \<Rightarrow> session \<Rightarrow> bool" where
  "keeps s s' \<longleftrightarrow> sidx s' = sidx s \<and> peer_ses s' = peer_ses s \<and> mode s' = mode s \<and> FLAG_IN s' = FLAG_IN s \<and>
     FLAG_THREAD_ACTIVE s' = FLAG_THREAD_ACTIVE s \<and> fds s' = fds s \<and> loc_port s' = loc_port s \<and>
     ses_id s' = ses_id s \<and> ses_call_id s' = ses_call_id s \<and> (fax_live (fax s) \<longrightarrow> fax_live (fax s'))"

lemma keeps_refl [simp]: "keeps s s"
  by (simp add: keeps_def)

lemma put_simps [simp]:
  "sessions (put st a s) = sessions st" "pfds (put st a s) = pfds st" "session_cnt (put st a s) = session_cnt st"
  "threads (put st a s) = threads st" "next_ptr (put st a s) = next_ptr st" "open_fds (put st a s) = open_fds st"
  "port_pool_of (put st a s) = port_pool_of st" "id_pool_of (put st a s) = id_pool_of st"
  "local_ip (put st a s) = local_ip st" "local_port (put st a s) = local_port st" "app_run (put st a s) = app_run st"
  "heap (put st a s) = (heap st)(a \<mapsto> s)"
  by (simp_all add: put_def)

lemma ses_of_put: "ses_of (put st a s) x = (if x = a then s else ses_of st x)"
  by (simp add: ses_of_def)

lemma entry_at_keeps:
  assumes "heap st a = Some s" "keeps s s'" "entry_at st i e"
  shows "entry_at (put st a s') i e"
  using assms by (cases e) (auto simp: entry_at_def slot_holds_def ses_of_put keeps_def leg_session_def ses_of_def)

lemma shape_keeps:
  assumes "shape st c pos es" "heap st a = Some s" "keeps s s'"
  shows "shape (put st a s') c pos es"
proof -
  have ctrl: "control_at (put st a s') c"
    using assms by (auto simp: shape_def control_at_def slot_holds_def ses_of_put keeps_def ses_of_def)
  have thr: "threads_ok (put st a s')"
    using assms by (auto simp: shape_def threads_ok_def keeps_def)
  have "dom (heap (put st a s')) = dom (heap st)" using assms(2) by auto
  with entry_at_keeps [OF assms(2,3)] ctrl thr assms(1) show ?thesis by (simp add: shape_def)
qed

lemma resources_keeps: "resources st \<Longrightarrow> heap st a = Some s \<Longrightarrow> keeps s s' \<Longrightarrow> resources (put st a s')"
  by (rule resources_same [OF _ same_resources_put]) (auto simp: keeps_def)

lemma twins_cong:
  "twins st calls \<Longrightarrow> (\<And>a. ses_call_id (ses_of st' a) = ses_call_id (ses_of st a)) \<Longrightarrow> twins st' calls"
  by (simp add: twins_def)

lemma app_ok_keeps:
  assumes "app_ok st c calls" "heap st a = Some s" "keeps s s'"
  shows "app_ok (put st a s') c calls"
proof -
  have "ses_call_id (ses_of (put st a s') x) = ses_call_id (ses_of st x)" for x
    using assms(2,3) by (simp add: ses_of_put keeps_def) (simp add: ses_of_def)
  with assms shape_keeps resources_keeps twins_cong show ?thesis by (auto simp: app_ok_def)
qed

lemma shape_leg:
  assumes "shape st c pos es" "k < length es" "es ! k = Some (a, b, d)"
  obtains s where "heap st a = Some s" "leg_session b (pos k) d s" "sessions st ! pos k = Some a"
    "poll_fd (pfds st ! pos k) = fds s"
proof -
  have "entry_at st (pos k) (Some (a, b, d))" using assms by (metis shape_def)
  with that show ?thesis by (auto simp: entry_at_leg slot_holds_def ses_of_def)
qed

section \<open>Serving and compaction\<close>

lemma session_proc_keeps:
  assumes "heap st a = Some s" "leg_session b i d s" "session_proc r (Some a) st = Some (res, st', evs)"
  shows "\<exists>s'. keeps s s' \<and> rem_ip s' = rem_ip s \<and> rem_port s' = rem_port s \<and> st' = put st a s'"
proof -
  have leg: "mode s \<noteq> FAX_SESSION_MODE_CTRL" "fax_live (fax s)" using assms(2) by (simp_all add: leg_session_def)
  have same: "put st a s = st" using assms(1) by (cases st) (auto simp: put_def fun_eq_iff)
  obtain data where data: "session_recvMsg r a st 256 = Some (data, st)"
    using assms(1) leg(1) by (cases r) (auto simp: session_recvMsg_def)
  show ?thesis
  proof (cases data)
    case None
    with assms(1,3) data have "st' = st" by (simp add: session_proc_def)
    with same show ?thesis by (intro exI [of _ s]) simp
  next
    case (Some octs)
    with assms(1,3) data obtain r' fp fp' es where
      "fax_rxUDPTL (Some (fax s)) (Some octs) = Some (r', fp, es)" "fp = Some fp'" "st' = put st a (s\<lparr>fax := fp'\<rparr>)"
      by (auto simp: session_proc_def split: bind_splits)
    with rxUDPTL_cases(1) [OF this(1) leg(2)] show ?thesis
      by (intro exI [of _ "s\<lparr>fax := fp'\<rparr>"]) (auto simp: keeps_def intro: fax_ready_live)
  qed
qed

text \<open>What serving and compaction leave of the process.\<close>

definition moved :: "session \<Rightarrow> session \<Rightarrow> bool" where
  "moved s s' \<longleftrightarrow> keeps (s\<lparr>sidx := sidx s'\<rparr>) s' \<and> rem_ip s' = rem_ip s \<and> rem_port s' = rem_port s"

definition served :: "app \<Rightarrow> app \<Rightarrow> bool" where
  "served st st' \<longleftrightarrow> (\<forall>a. rel_option moved (heap st a) (heap st' a)) \<and>
     local_ip st' = local_ip st \<and> local_port st' = local_port st \<and> session_cnt st' = session_cnt st \<and>
     next_ptr st' = next_ptr st \<and> port_pool_of st' = port_pool_of st \<and> id_pool_of st' = id_pool_of st \<and>
     open_fds st' = open_fds st \<and> threads st' = threads st \<and> app_run st' = app_run st"

lemma moved_refl [simp]: "moved s s"
  by (simp add: moved_def keeps_def)

lemma moved_trans: "moved s t \<Longrightarrow> moved t u \<Longrightarrow> moved s u"
  by (simp add: moved_def keeps_def)

lemma served_refl [simp]: "served st st"
  by (simp add: served_def option.rel_refl)

lemma served_trans:
  assumes "served st st1" "served st1 st2"
  shows "served st st2"
proof -
  have "rel_option moved (heap st a) (heap st2 a)" for a
  proof -
    have "rel_option moved (heap st a) (heap st1 a)" "rel_option moved (heap st1 a) (heap st2 a)"
      using assms by (simp_all add: served_def)
    then show ?thesis by (cases "heap st a"; cases "heap st1 a"; cases "heap st2 a") (auto intro: moved_trans)
  qed
  then show ?thesis using assms by (simp add: served_def)
qed

lemma served_put: "heap st a = Some s \<Longrightarrow> moved s s' \<Longrightarrow> served st (put st a s')"
  by (auto simp: served_def option.rel_refl)

lemma served_tables: "served st (st\<lparr>sessions := ss, pfds := ps\<rparr>)"
  by (simp add: served_def option.rel_refl)

lemma served_same_resources:
  assumes "served st st'"
  shows "same_resources st st'"
proof -
  have "map_option (\<lambda>s. (loc_port s, ses_id s, FLAG_IN s)) (heap st' a) =
      map_option (\<lambda>s. (loc_port s, ses_id s, FLAG_IN s)) (heap st a)" for a
  proof -
    have "rel_option moved (heap st a) (heap st' a)" using assms by (simp add: served_def)
    then show ?thesis by (cases "heap st a"; cases "heap st' a") (auto simp: moved_def keeps_def)
  qed
  then show ?thesis using assms by (simp add: served_def same_resources_def)
qed

text \<open>Moving the entry at index \<open>i\<close> down over \<open>g\<close> cleared ones.\<close>

definition gap_pos :: "nat \<Rightarrow> nat \<Rightarrow> nat \<Rightarrow> nat" where
  "gap_pos n g k = (if k < n then k + 1 else k + 1 + g)"

lemma move_down_shape:
  assumes shape: "shape st c (gap_pos (length ds) g) (ds @ Some (a, b, d) # rest)"
    and g: "0 < g" and fits: "length ds + g + length rest + 1 < 80" and i: "i = length ds + g + 1"
  shows "\<exists>st1. move_down i g st = Some st1 \<and> served st st1 \<and>
    shape st1 c (gap_pos (length ds + 1) g) (ds @ Some (a, b, d) # rest) \<and> sessions st1 ! i = Some a"
proof -
  let ?es = "ds @ Some (a, b, d) # rest" and ?j = "length ds + 1"
  have k: "length ds < length ?es" "?es ! length ds = Some (a, b, d)" by simp_all
  have pos: "gap_pos (length ds) g (length ds) = i" by (simp add: gap_pos_def i)
  obtain s where s: "heap st a = Some s" "leg_session b i d s" "sessions st ! i = Some a"
    "poll_fd (pfds st ! i) = fds s"
    using shape_leg [OF shape k] unfolding pos by blast
  have len: "length (sessions st) = 80" "length (pfds st) = 80" using shape by (simp_all add: shape_def)
  let ?s' = "s\<lparr>sidx := int ?j\<rparr>"
  let ?st1 = "(put st a ?s')\<lparr>sessions := (sessions st)[?j := Some a], pfds := (pfds st)[?j := pfds st ! i]\<rparr>"
  have idx: "nat (int i - int g) = ?j" "int i - int g = int ?j" "?j < 80" "i < 80" "?j \<noteq> i" "?j \<noteq> 0"
    using g fits i by simp_all
  have move: "move_down i g st = Some ?st1"
    using idx len s(1,3) by (simp add: move_down_def array_simps)
  have other: "x \<noteq> a" if "Some (x, p) \<in> set ds \<union> set rest" for x p
  proof
    assume "x = a"
    with that have "a \<in> set (ptrs ds) \<or> a \<in> set (ptrs rest)" unfolding in_ptrs by blast
    then show False using shape by (auto simp: shape_def)
  qed
  have heap: "heap ?st1 x = heap st x" if "x \<noteq> a" for x using that by simp
  have "entry_at ?st1 (gap_pos (length ds + 1) g k) (?es ! k)" if "k < length ?es" for k
  proof (cases "k = length ds")
    case True
    have "leg_session b ?j d ?s'" using s(2) by (simp add: leg_session_def)
    then show ?thesis using True len idx s(4)
      by (simp add: gap_pos_def entry_at_leg slot_holds_def ses_of_def)
  next
    case False
    have p: "gap_pos (length ds + 1) g k = gap_pos (length ds) g k" "gap_pos (length ds) g k \<noteq> ?j"
      using False by (auto simp: gap_pos_def)
    have "?es ! k \<in> set ds \<union> set rest" using False that by (auto simp: nth_append nth_Cons')
    then have "\<And>x p. ?es ! k = Some (x, p) \<Longrightarrow> heap ?st1 x = heap st x" using other heap by metis
    then have "entry_at ?st1 (gap_pos (length ds) g k) (?es ! k) = entry_at st (gap_pos (length ds) g k) (?es ! k)"
      using p(2) by (intro entry_at_cong) simp_all
    with that shape p(1) show ?thesis by (simp add: shape_def)
  qed
  moreover have "control_at ?st1 c"
    using shape idx(6) s(1) by (auto simp: shape_def control_at_def slot_holds_def ses_of_def leg_session_def)
  moreover have "threads_ok ?st1" using shape s(1) by (auto simp: shape_def threads_ok_def)
  moreover have "dom (heap ?st1) = dom (heap st)" using s(1) by auto
  ultimately have "shape ?st1 c (gap_pos (length ds + 1) g) ?es" using shape by (simp add: shape_def)
  moreover have "served st ?st1"
    using s(1) by (intro served_trans [OF served_put served_tables]) (auto simp: moved_def keeps_def)
  ultimately show ?thesis using move s(3) idx(5) by auto
qed

lemma serve_shape:
  assumes "shape st c pos es" "k < length es" "es ! k = Some (a, b, d)"
    and "sessions st ! i = Some a" "i < 80" "serve r i st = Some st'"
  shows "served st st' \<and> shape st' c pos es \<and> sessions st' = sessions st \<and> pfds st' = pfds st"
proof -
  obtain s where s: "heap st a = Some s" "leg_session b (pos k) d s" by (rule shape_leg [OF assms(1-3)])
  have len: "length (sessions st) = 80" "length (pfds st) = 80" using assms(1) by (simp_all add: shape_def)
  show ?thesis
  proof (cases "revents (pfds st ! i)")
    case True
    with assms(4-6) len obtain res evs where "session_proc r (Some a) st = Some (res, st', evs)"
      by (auto simp: serve_def array_simps)
    then obtain s' where "keeps s s'" "rem_ip s' = rem_ip s" "rem_port s' = rem_port s" "st' = put st a s'"
      using session_proc_keeps [OF s] by blast
    with shape_keeps [OF assms(1) s(1)] served_put [OF s(1), of s'] show ?thesis
      by (auto simp: moved_def keeps_def)
  next
    case False
    with assms(1,5,6) len show ?thesis by (simp add: serve_def array_simps)
  qed
qed

text \<open>The loop over the rest of the entries, after \<open>g\<close> cleared ones.\<close>

lemma proc_sessions_loop_shape:
  assumes "shape st c (gap_pos (length ds) g) (ds @ rest)" "length ds + g + length rest < 80"
    and "proc_sessions_loop recv (length ds + g + 1) (length rest) g st = Some (skip, st')"
  shows "served st st' \<and> shape st' c Suc (ds @ filter (\<lambda>e. e \<noteq> None) rest) \<and>
    skip = g + (length rest - length (filter (\<lambda>e. e \<noteq> None) rest))"
  using assms
proof (induction rest arbitrary: ds g st)
  case Nil
  have "shape st c Suc ds" using Nil(1) by (simp add: shape_def gap_pos_def)
  with Nil(3) show ?case by simp
next
  case (Cons e rest)
  let ?i = "length ds + g + 1" and ?es = "ds @ e # rest"
  have len: "length (sessions st) = 80" "length (pfds st) = 80" using Cons.prems(1) by (simp_all add: shape_def)
  have i: "?i < 80" using Cons.prems(2) by simp
  have "\<forall>k < length ?es. entry_at st (gap_pos (length ds) g k) (?es ! k)"
    using Cons.prems(1) unfolding shape_def by blast
  from spec [OF this, of "length ds"] have at: "entry_at st ?i e" by (simp add: gap_pos_def)
  have read: "arr_get (pfds st) (int ?i) = Some (pfds st ! ?i)"
    using len i by (intro arr_get_nat) simp
  show ?case
  proof (cases e)
    case None
    have "poll_fd (pfds st ! ?i) = -1" using at None by (simp add: entry_at_None)
    with Cons.prems(3) read have "proc_sessions_loop recv (length ds + (g + 1) + 1) (length rest) (g + 1) st = Some (skip, st')"
      by (simp add: array_simps)
    moreover have "shape st c (gap_pos (length ds) (g + 1)) (ds @ rest)"
    proof -
      have "entry_at st (gap_pos (length ds) (g + 1) k) ((ds @ rest) ! k)" if k: "k < length (ds @ rest)" for k
      proof (cases "k < length ds")
        case True
        then have "entry_at st (gap_pos (length ds) g k) (?es ! k)" using Cons.prems(1) by (simp add: shape_def)
        with True show ?thesis by (simp add: gap_pos_def nth_append)
      next
        case False
        then have "entry_at st (gap_pos (length ds) g (Suc k)) (?es ! Suc k)"
          using Cons.prems(1) k by (simp add: shape_def)
        with False show ?thesis by (simp add: gap_pos_def nth_append Suc_diff_le)
      qed
      with Cons.prems(1) None show ?thesis by (simp add: shape_def)
    qed
    ultimately have "served st st' \<and> shape st' c Suc (ds @ filter (\<lambda>e. e \<noteq> None) rest) \<and>
        skip = g + 1 + (length rest - length (filter (\<lambda>e. e \<noteq> None) rest))"
      using Cons.prems(2) by (intro Cons.IH) simp_all
    with None show ?thesis by (simp add: Suc_diff_le length_filter_le)
  next
    case (Some x)
    obtain a b d where x: "e = Some (a, b, d)" using Some by (metis prod_cases3)
    from at x obtain s where s: "heap st a = Some s" "leg_session b ?i d s" "sessions st ! ?i = Some a"
      "poll_fd (pfds st ! ?i) = fds s" by (auto simp: entry_at_leg slot_holds_def ses_of_def)
    have pos_fd: "poll_fd (pfds st ! ?i) \<noteq> -1" using s(2,4) by (simp add: leg_session_def)
    obtain st1 st2 where st1: "(if g > 0 then move_down ?i g st else Some st) = Some st1"
      and st2: "serve (recv ?i) ?i st1 = Some st2"
      and loop: "proc_sessions_loop recv (?i + 1) (length rest) g st2 = Some (skip, st')"
      using Cons.prems(3) read pos_fd by (auto split: bind_splits if_splits)
    have "served st st1 \<and> shape st1 c (gap_pos (length ds + 1) g) ?es \<and> sessions st1 ! ?i = Some a"
    proof (cases "g > 0")
      case True
      with move_down_shape [OF Cons.prems(1) [unfolded x] True, of ?i] Cons.prems(2) st1 x show ?thesis by auto
    next
      case False
      then have "gap_pos (length ds + 1) g = gap_pos (length ds) g" by (auto simp: gap_pos_def)
      with False st1 Cons.prems(1) s(3) show ?thesis by simp
    qed
    with serve_shape [of st1 c "gap_pos (length ds + 1) g" ?es "length ds" a b d ?i] st2 i x
    have st2': "served st1 st2" "shape st2 c (gap_pos (length (ds @ [e])) g) ((ds @ [e]) @ rest)" "served st st1"
      by auto
    have "served st2 st' \<and> shape st' c Suc ((ds @ [e]) @ filter (\<lambda>e. e \<noteq> None) rest) \<and>
        skip = g + (length rest - length (filter (\<lambda>e. e \<noteq> None) rest))"
      using Cons.prems(2) loop st2'(2) by (intro Cons.IH) simp_all
    with st2' x show ?thesis by (auto intro: served_trans)
  qed
qed

lemma procSessions_ok:
  assumes "app_ok st c calls" "app_procSessions recv st = Some st'"
  shows "app_ok st' c (filter (\<lambda>x. x \<noteq> None) calls)"
    and "\<exists>st1. served st st1 \<and> st' = st1\<lparr>session_cnt := session_cnt st'\<rparr>"
proof -
  let ?es = "entries calls" and ?calls = "filter (\<lambda>x. x \<noteq> None) calls"
  have n: "nat (session_cnt st - 1) = length ?es" "length ?es \<le> 78" using assms(1) by (simp_all add: app_ok_def)
  have shape: "shape st c (gap_pos (length ([] :: entry list)) 0) ([] @ ?es)"
    using assms(1) by (simp add: app_ok_def shape_def gap_pos_def)
  obtain skip st1 where loop: "proc_sessions_loop recv 1 (length ?es) 0 st = Some (skip, st1)"
    and st': "st' = st1\<lparr>session_cnt := (session_cnt st1 - int skip) mod 256\<rparr>"
    using assms(2) n(1) by (auto simp: app_procSessions_def split: bind_splits)
  note loop_shape = proc_sessions_loop_shape [OF shape, of recv skip st1, unfolded append_Nil filter_entries]
  have "length ([] :: entry list) + 0 + length ?es < 80" using n(2) by simp
  note loop_shape [OF this]
  then have st1: "served st st1" "shape st1 c Suc (entries ?calls)" "skip = length ?es - length (entries ?calls)"
    using loop by simp_all
  have le: "length ?calls \<le> length calls" by (rule length_filter_le)
  have cnt: "session_cnt st1 = 1 + 2 * int (length calls)" "length calls \<le> 39"
    using st1(1) assms(1) by (simp_all add: served_def app_ok_def)
  have "session_cnt st1 - int skip = 1 + 2 * int (length ?calls)" using st1(3) le cnt(1) by simp
  moreover have "(1 + 2 * int m) mod 256 = 1 + 2 * int m" if "m \<le> 39" for m
    using that by (intro mod_pos_pos_trivial) simp_all
  note this [OF le_trans [OF le cnt(2)]]
  moreover have "session_cnt st' = (session_cnt st1 - int skip) mod 256" unfolding st' by simp
  ultimately have cnt': "session_cnt st' = 1 + 2 * int (length ?calls)" by (simp only:)
  have "same_resources st1 st'" unfolding st' by (simp add: same_resources_def)
  then have res: "resources st'"
    using assms(1) st1(1) by (auto simp: app_ok_def intro: resources_same same_resources_trans served_same_resources)
  have ent: "entry_at st' i e = entry_at st1 i e" for i e by (rule entry_at_cong) (simp_all add: st')
  have "control_at st' c = control_at st1 c" by (simp add: st' control_at_def slot_holds_def ses_of_def)
  with st1(2) ent have "shape st' c Suc (entries ?calls)" by (simp add: shape_def st' threads_ok_def)
  moreover have "twins st' ?calls"
  proof -
    have "ses_call_id (ses_of st' x) = ses_call_id (ses_of st x)" for x
    proof -
      have "rel_option moved (heap st x) (heap st1 x)" using st1(1) by (simp add: served_def)
      then show ?thesis by (cases "heap st x"; cases "heap st1 x") (auto simp: st' ses_of_def moved_def keeps_def)
    qed
    then show ?thesis using assms(1) by (simp add: twins_def app_ok_def)
  qed
  ultimately show "app_ok st' c ?calls" using res cnt' le_trans [OF le cnt(2)] unfolding app_ok_def by blast
  show "\<exists>st1. served st st1 \<and> st' = st1\<lparr>session_cnt := session_cnt st'\<rparr>"
    using st1(1) st' by (intro exI [of _ st1]) simp
qed

section \<open>Release\<close>

definition destroyed :: "app \<Rightarrow> nat \<Rightarrow> session \<Rightarrow> app" where
  "destroyed st a s =
     st\<lparr>threads := (if FLAG_THREAD_ACTIVE s then pthread_cancel a (threads st) else threads st),
        id_pool_of := snd (session_idRelease (id_pool_of st) (ses_id s)),
        port_pool_of := snd (app_portRelease (port_pool_of st) (loc_port s)),
        open_fds := (if fds s > 0 then remove1 (fds s) (open_fds st) else open_fds st),
        heap := (heap st)(a := None)\<rparr>"

lemma destroyed_simps [simp]:
  "heap (destroyed st a s) = (heap st)(a := None)" "sessions (destroyed st a s) = sessions st"
  "pfds (destroyed st a s) = pfds st" "session_cnt (destroyed st a s) = session_cnt st"
  "next_ptr (destroyed st a s) = next_ptr st" "local_ip (destroyed st a s) = local_ip st"
  "local_port (destroyed st a s) = local_port st" "app_run (destroyed st a s) = app_run st"
  by (simp_all add: destroyed_def)

lemma session_destroy_leg:
  "heap st a = Some s \<Longrightarrow> fax_live (fax s) \<or> mode s = FAX_SESSION_MODE_CTRL \<Longrightarrow>
   session_destroy (Some a) st = Some (destroyed st a s)"
  by (auto simp: session_destroy_def destroyed_def fax_live_destroy)

lemma destroyed_resources: "resources st \<Longrightarrow> heap st a = Some s \<Longrightarrow> resources (destroyed st a s)"
  by (rule resources_destroy [OF _ _ refl]) (simp_all add: destroyed_def)

lemma destroyed_threads:
  assumes "threads_ok st" "heap st a = Some s"
  shows "threads_ok (destroyed st a s)"
  using assms by (auto simp: threads_ok_def destroyed_def pthread_cancel_def)

lemma cfg_clear_eq:
  "i < length (sessions st) \<Longrightarrow> i < length (pfds st) \<Longrightarrow> cfg_clear (int i) st =
     Some (st\<lparr>sessions := (sessions st)[i := None], pfds := (pfds st)[i := (pfds st ! i)\<lparr>poll_fd := -1\<rparr>]\<rparr>)"
  by (simp add: cfg_clear_def arr_get_nat arr_set_nat)

lemma entries_split:
  assumes "k < length calls" "calls ! k = Some (a, b)"
  shows "entries calls = entries (take k calls) @ [Some (a, b, True), Some (b, a, False)] @ entries (drop (Suc k) calls)"
    and "entries (calls[k := None]) = entries (take k calls) @ [None, None] @ entries (drop (Suc k) calls)"
proof -
  have "calls = take k calls @ Some (a, b) # drop (Suc k) calls" using assms id_take_nth_drop by metis
  then show "entries calls = entries (take k calls) @ [Some (a, b, True), Some (b, a, False)] @ entries (drop (Suc k) calls)"
    by (metis append_Cons append_Nil entries_of_simps(2) entries_simps(2,3))
  have "calls[k := None] = take k calls @ None # drop (Suc k) calls" using assms(1) by (simp add: upd_conv_take_nth_drop)
  then show "entries (calls[k := None]) = entries (take k calls) @ [None, None] @ entries (drop (Suc k) calls)"
    by simp
qed

text \<open>Both legs of call \<open>k\<close>, as the shape gives them.\<close>

lemma app_ok_call:
  assumes "app_ok st c calls" "k < length calls" "calls ! k = Some (a, b)"
  obtains s t where "heap st a = Some s" "leg_session b (2 * k + 1) True s" "heap st b = Some t"
    "leg_session a (2 * k + 2) False t" "a \<noteq> b" "a \<noteq> c" "b \<noteq> c" "2 * k + 2 < 80"
    "sessions st ! (2 * k + 1) = Some a" "sessions st ! (2 * k + 2) = Some b"
    "poll_fd (pfds st ! (2 * k + 1)) = fds s" "poll_fd (pfds st ! (2 * k + 2)) = fds t"
proof -
  have shape: "shape st c Suc (entries calls)" and "length calls \<le> 39" using assms(1) by (simp_all add: app_ok_def)
  have e: "entries calls ! (2 * k) = Some (a, b, True)" "entries calls ! (2 * k + 1) = Some (b, a, False)"
    using nth_entries [OF assms(2)] assms(3) by simp_all
  have l: "2 * k < length (entries calls)" "2 * k + 1 < length (entries calls)" using assms(2) by simp_all
  have "distinct (c # ptrs (entries calls))" using shape by (simp add: shape_def)
  then have "distinct (c # [a, b])" unfolding entries_split(1) [OF assms(2,3)] by auto
  moreover have "2 * k + 2 < 80" using assms(2) \<open>length calls \<le> 39\<close> by simp
  moreover obtain s where "heap st a = Some s" "leg_session b (2 * k + 1) True s"
    "sessions st ! (2 * k + 1) = Some a" "poll_fd (pfds st ! (2 * k + 1)) = fds s"
    using shape_leg [OF shape l(1) e(1)] by auto
  moreover obtain t where "heap st b = Some t" "leg_session a (2 * k + 2) False t"
    "sessions st ! (2 * k + 2) = Some b" "poll_fd (pfds st ! (2 * k + 2)) = fds t"
    using shape_leg [OF shape l(2) e(2)] by auto
  ultimately show ?thesis by (intro that) auto
qed

lemma release_call_ok:
  assumes ok: "app_ok st c calls" and k: "k < length calls" "calls ! k = Some (a, b)"
    and i: "i = 2 * k + 1 \<and> x = a \<and> y = b \<and> j = 2 * k + 2 \<or> i = 2 * k + 2 \<and> x = b \<and> y = a \<and> j = 2 * k + 1"
  shows "\<exists>st'. release_call i x st = Some st' \<and> app_ok st' c (calls[k := None]) \<and>
    heap st' = (heap st)(a := None, b := None) \<and> next_ptr st' = next_ptr st \<and> app_run st' = app_run st"
proof -
  from app_ok_call [OF ok k] obtain s t where
    s: "heap st a = Some s" "leg_session b (2 * k + 1) True s" and t: "heap st b = Some t" "leg_session a (2 * k + 2) False t"
    and ne: "a \<noteq> b" "a \<noteq> c" "b \<noteq> c" "2 * k + 2 < 80" .
  have shape: "shape st c Suc (entries calls)" and res: "resources st" using ok by (simp_all add: app_ok_def)
  then have len: "length (sessions st) = 80" "length (pfds st) = 80" by (simp_all add: shape_def)
  have "\<exists>u v. heap st x = Some u \<and> leg_session y i (x = a) u \<and> heap st y = Some v \<and> leg_session x j (y = a) v"
    using i s t ne(1) by (elim disjE) auto
  then obtain u v where u: "heap st x = Some u" "leg_session y i (x = a) u"
    and v: "heap st y = Some v" "leg_session x j (y = a) v" by blast
  have xy: "x \<noteq> y" "i \<noteq> j" "i < 80" "j < 80" "{i, j} = {2 * k + 1, 2 * k + 2}" "{x, y} = {a, b}" using i ne by auto
  let ?st1 = "st\<lparr>sessions := (sessions st)[i := None], pfds := (pfds st)[i := (pfds st ! i)\<lparr>poll_fd := -1\<rparr>]\<rparr>"
  let ?st2 = "?st1\<lparr>sessions := (sessions ?st1)[j := None], pfds := (pfds ?st1)[j := (pfds ?st1 ! j)\<lparr>poll_fd := -1\<rparr>]\<rparr>"
  let ?st3 = "destroyed ?st2 y v"
  let ?st' = "destroyed ?st3 x u"
  have "cfg_clear (int i) st = Some ?st1" using len xy(3) by (intro cfg_clear_eq) simp_all
  moreover have "cfg_clear (sidx v) ?st1 = Some ?st2"
    using len xy(4) v(2) cfg_clear_eq [of j ?st1] by (simp add: leg_session_def)
  moreover have "session_destroy (Some y) ?st2 = Some ?st3"
    using v by (intro session_destroy_leg) (simp_all add: leg_session_def)
  moreover have "session_destroy (Some x) ?st3 = Some ?st'"
    using u xy(1) by (intro session_destroy_leg) (simp_all add: leg_session_def)
  moreover have "peer_ses u = Some y" using u(2) by (simp add: leg_session_def)
  ultimately have run: "release_call i x st = Some ?st'"
    using u(1) v(1) by (simp add: release_call_def deref_def)
  have heap: "heap ?st' = (heap st)(a := None, b := None)" using i ne(1) by (auto simp: fun_upd_twist)
  have "same_resources st ?st2" by (simp add: same_resources_def)
  then have "resources ?st2" using res resources_same by blast
  then have res': "resources ?st'" using u(1) v(1) xy(1) by (intro destroyed_resources) simp_all
  have "threads_ok ?st2" using shape by (simp add: shape_def threads_ok_def)
  then have thr: "threads_ok ?st'" using u(1) v(1) xy(1) by (intro destroyed_threads) simp_all
  have tab: "sessions ?st' ! m = (if m \<in> {i, j} then None else sessions st ! m)"
    "poll_fd (pfds ?st' ! m) = (if m \<in> {i, j} then -1 else poll_fd (pfds st ! m))" if "m < 80" for m
    using that len xy(2-4) by (auto simp: nth_list_update)
  let ?pre = "entries (take k calls)" and ?post = "entries (drop (Suc k) calls)"
  note split = entries_split [OF k]
  have lp: "length ?pre = 2 * k" using k(1) by simp
  have dist: "distinct (c # ptrs ?pre @ [a, b] @ ptrs ?post)" "dom (heap st) = insert c (set (ptrs ?pre) \<union> {a, b} \<union> set (ptrs ?post))"
    using shape unfolding shape_def split(1) by auto
  have entry: "entry_at ?st' (Suc m) ((?pre @ [None, None] @ ?post) ! m)" if m: "m < length (?pre @ [None, None] @ ?post)" for m
  proof (cases "m = 2 * k \<or> m = 2 * k + 1")
    case True
    then have "Suc m \<in> {i, j}" using xy(5) by auto
    moreover have "(?pre @ [None, None] @ ?post) ! m = None" using True lp by (auto simp: nth_append)
    moreover have "Suc m < 80" using True ne(4) by auto
    ultimately show ?thesis using tab [of "Suc m"] by (simp add: entry_at_None)
  next
    case False
    let ?e = "(?pre @ [None, None] @ ?post) ! m"
    have same: "?e = entries calls ! m"
    proof (cases "m < 2 * k")
      case True
      then show ?thesis unfolding split(1) using lp by (simp add: nth_append)
    next
      case f: False
      then obtain n where n: "m = 2 * k + 2 + n" using False by (metis Suc_eq_plus1 add_2_eq_Suc' le_Suc_ex not_less not_less_eq not_less_iff_gr_or_eq)
      show ?thesis unfolding split(1) n using lp by (simp add: nth_append)
    qed
    have "m < length (entries calls)" using m unfolding split(1) by simp
    then have at: "entry_at st (Suc m) ?e" and m78: "Suc m < 80"
      using shape ok unfolding same by (auto simp: shape_def app_ok_def)
    have "?e \<in> set ?pre \<union> set ?post"
      using m False lp nth_mem [of m "?pre"] nth_mem [of "m - (2 * k + 2)" ?post]
      by (auto simp: nth_append not_less)
    then have "y' \<in> set (ptrs ?pre) \<union> set (ptrs ?post)" if "?e = Some (y', p)" for y' p
      using that unfolding Un_iff in_ptrs by metis
    then have "heap ?st' y' = heap st y'" if "?e = Some (y', p)" for y' p
      using that dist(1) unfolding heap by fastforce
    moreover have "Suc m \<notin> {i, j}" using False xy(5) by auto
    ultimately have "entry_at ?st' (Suc m) ?e = entry_at st (Suc m) ?e"
      using tab [OF m78] by (intro entry_at_cong) auto
    with at show ?thesis by simp
  qed
  have "control_at ?st' c"
    using shape ne tab [of 0] xy i by (auto simp: shape_def control_at_def slot_holds_def ses_of_def)
  moreover have "dom (heap ?st') = set (c # ptrs (?pre @ [None, None] @ ?post))"
    using dist ne unfolding heap by auto
  ultimately have "shape ?st' c Suc (entries (calls[k := None]))"
    unfolding shape_def split(2) using entry thr dist(1) len by auto
  moreover have "twins ?st' (calls[k := None])"
  proof (unfold twins_def, intro allI impI)
    fix p q
    assume "Some (p, q) \<in> set (calls[k := None])"
    then have in': "Some (p, q, True) \<in> set (?pre @ ?post)" "Some (q, p, False) \<in> set (?pre @ ?post)"
      and "Some (p, q) \<in> set calls"
      using k(1) set_entries [of p q "take k calls"] set_entries [of p q "drop (Suc k) calls"]
      by (auto simp: upd_conv_take_nth_drop dest: in_set_takeD in_set_dropD)
    then have "ses_call_id (ses_of st p) = ses_call_id (ses_of st q)" using ok by (simp add: app_ok_def twins_def)
    moreover have "p \<in> set (ptrs ?pre) \<union> set (ptrs ?post)" "q \<in> set (ptrs ?pre) \<union> set (ptrs ?post)"
      using in' unfolding Un_iff in_ptrs set_append by blast+
    then have "heap ?st' p = heap st p" "heap ?st' q = heap st q" using dist(1) unfolding heap by auto
    ultimately show "ses_call_id (ses_of ?st' p) = ses_call_id (ses_of ?st' q)" by (simp add: ses_of_def)
  qed
  ultimately have "app_ok ?st' c (calls[k := None])" using ok res' by (simp add: app_ok_def)
  with run heap show ?thesis by auto
qed

end
