(* ===== verification/Session_Calls.thy ===== *)
theory Session_Calls
  imports Session_Inv
begin

text \<open>
  What the control session promises, as operations on a table of calls, and that the code
  implements them: SETUP appends a call, RELEASE removes the first call of that name, the
  compaction changes nothing.
\<close>

section \<open>The call table\<close>

text \<open>One call as its peers see it: name, and for both legs the local port and the remote address.\<close>

record call_row =
  row_id :: string
  row_in :: "int \<times> int \<times> int"
  row_out :: "int \<times> int \<times> int"

definition leg_row :: "app \<Rightarrow> nat \<Rightarrow> int \<times> int \<times> int" where
  "leg_row st a = (let s = ses_of st a in (loc_port s, rem_ip s, rem_port s))"

definition call_row_of :: "app \<Rightarrow> nat \<times> nat \<Rightarrow> call_row" where
  "call_row_of st p =
     \<lparr>row_id = ses_call_id (ses_of st (fst p)), row_in = leg_row st (fst p), row_out = leg_row st (snd p)\<rparr>"

definition active :: "call list \<Rightarrow> (nat \<times> nat) list" where
  "active calls = map the (filter (\<lambda>x. x \<noteq> None) calls)"

definition table :: "app \<Rightarrow> call list \<Rightarrow> call_row list" where
  "table st calls = map (call_row_of st) (active calls)"

fun remove_call :: "string \<Rightarrow> call_row list \<Rightarrow> call_row list" where
  "remove_call cid [] = []"
| "remove_call cid (r # rs) = (if row_id r = cid then rs else r # remove_call cid rs)"

lemma active_simps [simp]:
  "active [] = []" "active (None # cs) = active cs" "active (Some p # cs) = p # active cs"
  "active (cs @ ds) = active cs @ active ds"
  by (simp_all add: active_def)

lemma active_filter [simp]: "active (filter (\<lambda>x. x \<noteq> None) calls) = active calls"
  by (simp add: active_def)

lemma in_active: "p \<in> set (active calls) \<longleftrightarrow> Some p \<in> set calls"
proof (induction calls)
  case (Cons c cs)
  then show ?case by (cases c) auto
qed simp

lemma table_cong:
  assumes "\<And>a b x. (a, b) \<in> set (active calls) \<Longrightarrow> x \<in> {a, b} \<Longrightarrow> ses_call_id (ses_of st' x) = ses_call_id (ses_of st x) \<and>
      leg_row st' x = leg_row st x"
  shows "table st' calls = table st calls"
  using assms by (auto simp: table_def call_row_of_def)

lemma remove_call_append:
  "(\<And>r. r \<in> set rs \<Longrightarrow> row_id r \<noteq> cid) \<Longrightarrow> remove_call cid (rs @ ts) = rs @ remove_call cid ts"
  by (induction rs) auto

lemma remove_call_none: "(\<And>r. r \<in> set rs \<Longrightarrow> row_id r \<noteq> cid) \<Longrightarrow> remove_call cid rs = rs"
  using remove_call_append [of rs cid "[]"] by simp

section \<open>RELEASE\<close>

text \<open>The name a call has, and the search for it.\<close>

definition named :: "app \<Rightarrow> string \<Rightarrow> call \<Rightarrow> bool" where
  "named st cid x \<longleftrightarrow> (\<exists>a b. x = Some (a, b) \<and> ses_call_id (ses_of st a) = cid)"

lemma release_loop_skip:
  assumes ok: "app_ok st c calls" and k: "m + n \<le> k" "k \<le> length calls"
    and none: "\<forall>j < k. \<not> named st cid (calls ! j)"
  shows "release_loop cid (2 * m + 1) (2 * n + r) st = release_loop cid (2 * (m + n) + 1) r st"
  using k(1)
proof (induction n arbitrary: m)
  case (Suc n)
  have m: "m < length calls" "\<not> named st cid (calls ! m)" using Suc.prems k(2) none by auto
  have len: "length (sessions st) = 80" "2 * m + 2 < 80"
    using ok m(1) by (auto simp: app_ok_def shape_def)
  have step: "release_loop cid (2 * m + 1) (Suc (Suc q)) st = release_loop cid (2 * m + 3) q st" for q
  proof (cases "calls ! m")
    case None
    have shape: "shape st c Suc (entries calls)" using ok by (simp add: app_ok_def)
    have "entry_at st (Suc (2 * m)) (entries calls ! (2 * m))" "entry_at st (Suc (2 * m + 1)) (entries calls ! (2 * m + 1))"
      using shape m(1) by (simp_all add: shape_def)
    then have "sessions st ! (2 * m + 1) = None" "sessions st ! (2 * m + 2) = None"
      using nth_entries [OF m(1)] None by (simp_all add: entry_at_None)
    then show ?thesis using len arr_get_nat [of "2 * m + 1" "sessions st"] arr_get_nat [of "2 * m + 2" "sessions st"]
      by (simp add: numeral_3_eq_3)
  next
    case (Some p)
    obtain a b where p: "p = (a, b)" by force
    from app_ok_call [OF ok m(1), of a b] Some p obtain s t where
      st: "heap st a = Some s" "heap st b = Some t" "sessions st ! (2 * m + 1) = Some a" "sessions st ! (2 * m + 2) = Some b"
      by metis
    have "Some (a, b) \<in> set calls" using Some p m(1) by (metis nth_mem)
    then have "ses_call_id s = ses_call_id t"
      using ok st(1,2) by (metis app_ok_def twins_def ses_of_def option.sel)
    moreover have "ses_call_id s \<noteq> cid" using m(2) Some p st by (simp add: named_def ses_of_def)
    ultimately show ?thesis
      using st len arr_get_nat [of "2 * m + 1" "sessions st"] arr_get_nat [of "2 * m + 2" "sessions st"]
      by (simp add: numeral_3_eq_3)
  qed
  have e: "2 * Suc n + r = Suc (Suc (2 * n + r))" "2 * m + 3 = 2 * Suc m + 1" "Suc m + n = m + Suc n" by simp_all
  have "release_loop cid (2 * Suc m + 1) (2 * n + r) st = release_loop cid (2 * (Suc m + n) + 1) r st"
    using Suc.prems by (intro Suc.IH) simp
  then show ?case unfolding e(1) step unfolding e(2) e(3) .
qed simp

text \<open>RELEASE always returns, and removes the first call of that name.\<close>

lemma proc_release_ok:
  assumes "app_ok st c calls"
  shows "\<exists>st' calls'. proc_release cid st = Some st' \<and> app_ok st' c calls' \<and>
    table st' calls' = remove_call cid (table st calls)"
proof -
  have n: "nat (session_cnt st - 1) = 2 * length calls" using assms by (simp add: app_ok_def)
  show ?thesis
  proof (cases "\<exists>k < length calls. named st cid (calls ! k)")
    case False
    then have "proc_release cid st = Some st"
      using release_loop_skip [OF assms, of 0 "length calls" "length calls" cid 0] n by (simp add: proc_release_def)
    moreover have "remove_call cid (table st calls) = table st calls"
    proof (rule remove_call_none)
      fix r assume "r \<in> set (table st calls)"
      then obtain a b where "Some (a, b) \<in> set calls" "r = call_row_of st (a, b)"
        by (auto simp: table_def in_active)
      with False show "row_id r \<noteq> cid" by (auto simp: call_row_of_def named_def in_set_conv_nth)
    qed
    ultimately show ?thesis using assms by auto
  next
    case True
    define k where "k = (LEAST k. k < length calls \<and> named st cid (calls ! k))"
    have k: "k < length calls" "named st cid (calls ! k)" "\<forall>j < k. \<not> named st cid (calls ! j)"
      using LeastI_ex [OF True] not_less_Least [of _ "\<lambda>k. k < length calls \<and> named st cid (calls ! k)"]
      unfolding k_def [symmetric] by (blast, blast, meson less_trans)
    obtain a b where ab: "calls ! k = Some (a, b)" "ses_call_id (ses_of st a) = cid"
      using k(2) by (auto simp: named_def)
    from app_ok_call [OF assms k(1) ab(1)] obtain s where
      s: "heap st a = Some s" "sessions st ! (2 * k + 1) = Some a" "2 * k + 2 < 80" by metis
    have len: "length (sessions st) = 80" using assms by (simp add: app_ok_def shape_def)
    define r where "r = 2 * length calls - Suc (2 * k)"
    have "2 * length calls = 2 * k + Suc r" using k(1) by (simp add: r_def)
    with n have r: "nat (session_cnt st - 1) = 2 * k + Suc r" by (simp only:)
    have "release_loop cid (2 * 0 + 1) (2 * k + Suc r) st = release_loop cid (2 * (0 + k) + 1) (Suc r) st"
      using k by (intro release_loop_skip [OF assms]) simp_all
    then have "proc_release cid st = release_loop cid (2 * k + 1) (Suc r) st"
      unfolding proc_release_def r by simp
    also have "\<dots> = release_call (2 * k + 1) a st"
      using s len ab(2) arr_get_nat [of "2 * k + 1" "sessions st"] by (simp add: ses_of_def)
    finally have run: "proc_release cid st = release_call (2 * k + 1) a st" .
    obtain st' where st': "release_call (2 * k + 1) a st = Some st'" "app_ok st' c (calls[k := None])"
      "heap st' = (heap st)(a := None, b := None)"
      using release_call_ok [OF assms k(1) ab(1), of "2 * k + 1" a b "2 * k + 2"] by blast
    have eq: "calls = take k calls @ Some (a, b) # drop (Suc k) calls" using k(1) ab(1) id_take_nth_drop by metis
    have eq': "calls[k := None] = take k calls @ None # drop (Suc k) calls" using k(1) by (simp add: upd_conv_take_nth_drop)
    have dom: "x \<noteq> a \<and> x \<noteq> b" if "(p, q) \<in> set (active (calls[k := None]))" "x \<in> {p, q}" for p q x
    proof -
      have "Some (p, q) \<in> set (calls[k := None])" using that(1) by (simp add: in_active)
      then obtain j where j: "j < length (calls[k := None])" "calls[k := None] ! j = Some (p, q)"
        by (auto simp: in_set_conv_nth)
      from app_ok_call [OF st'(2) j] have "heap st' p \<noteq> None" "heap st' q \<noteq> None" by (metis option.discI)+
      with that(2) show ?thesis unfolding st'(3) by (auto split: if_splits)
    qed
    have "table st' (calls[k := None]) = table st (calls[k := None])"
      by (rule table_cong) (use dom in \<open>auto simp: leg_row_def ses_of_def st'(3)\<close>)
    also have "\<dots> = table st (take k calls) @ table st (drop (Suc k) calls)"
      unfolding eq' by (simp add: table_def)
    also have "\<dots> = remove_call cid (table st calls)"
    proof -
      have "table st calls = table st (take k calls) @ call_row_of st (a, b) # table st (drop (Suc k) calls)"
        by (subst eq) (simp add: table_def)
      moreover have "row_id r \<noteq> cid" if row: "r \<in> set (table st (take k calls))" for r
      proof -
        obtain p q where "Some (p, q) \<in> set (take k calls)" "r = call_row_of st (p, q)"
          using row by (auto simp: table_def in_active)
        then obtain j where "j < k" "calls ! j = Some (p, q)" by (auto simp: in_set_conv_nth)
        with k(3) \<open>r = call_row_of st (p, q)\<close> show ?thesis by (auto simp: named_def call_row_of_def)
      qed
      ultimately show ?thesis using ab(2) by (simp add: remove_call_append) (simp add: call_row_of_def)
    qed
    finally show ?thesis using run st'(1,2) by auto
  qed
qed

end
