(* ===== verification/Session_Setup.thy ===== *)
theory Session_Setup
  imports Session_Calls
begin

text \<open>
  SETUP: the two legs it creates, or nothing at all. \<open>os_ok\<close> is what the code relies on of
  \<open>getaddrinfo\<close>: it never returns \<open>-100\<close> (in glibc \<open>EAI_INPROGRESS\<close>, a result of
  \<open>gai_error\<close> only), which \<open>session_init\<close> would turn into success.
\<close>

definition os_ok :: "setup_env \<Rightarrow> bool" where
  "os_ok env \<longleftrightarrow> resolve_res (in_env env) \<noteq> -100 \<and> resolve_res (out_env env) \<noteq> -100"

section \<open>Initialising one leg\<close>

definition tables_same :: "app \<Rightarrow> app \<Rightarrow> bool" where
  "tables_same st st' \<longleftrightarrow> sessions st' = sessions st \<and> pfds st' = pfds st \<and> session_cnt st' = session_cnt st \<and>
     threads st' = threads st \<and> next_ptr st' = next_ptr st \<and> local_ip st' = local_ip st \<and>
     local_port st' = local_port st \<and> app_run st' = app_run st"

lemma tables_same_refl [simp]: "tables_same st st"
  by (simp add: tables_same_def)

lemma tables_same_trans: "tables_same st st1 \<Longrightarrow> tables_same st1 st2 \<Longrightarrow> tables_same st st2"
  by (simp add: tables_same_def)

text \<open>What \<open>session_init\<close> makes of a new session.\<close>

definition inited :: "session \<Rightarrow> string \<Rightarrow> int \<Rightarrow> int \<Rightarrow> session \<Rightarrow> bool" where
  "inited s cid ip port s' \<longleftrightarrow> sidx s' = sidx s \<and> peer_ses s' = peer_ses s \<and> mode s' = mode s \<and>
     FLAG_IN s' = FLAG_IN s \<and> FLAG_THREAD_ACTIVE s' = FLAG_THREAD_ACTIVE s \<and> ses_id s' = ses_id s \<and>
     ses_call_id s' = cid \<and> rem_ip s' = ip \<and> rem_port s' = port \<and> loc_port s' \<in> port_handles"

lemma resources_open_fds: "resources (st\<lparr>open_fds := x\<rparr>) = resources st"
  by (rule iffI; erule resources_same) (simp_all add: same_resources_def)

lemma createListener_cases:
  assumes "session_createListener env st = (fd, st')"
  shows "heap st' = heap st" "tables_same st st'" "resources st' = resources st" "fd > 0 \<Longrightarrow> fd = sock_res env"
  using assms by (auto simp: session_createListener_def Let_def tables_same_def resources_open_fds split: if_splits)

lemma session_init_cases:
  assumes init: "session_init env (Some a) cid ip port st = Some (r, st')"
    and s: "heap st a = Some s" "loc_port s \<notin> port_handles" "fds s = -1"
    and res: "resources st" "card (dom (heap st)) \<le> 200" and os: "resolve_res env \<noteq> -100"
  shows "tables_same st st'" "resources st'" "length cid < 32"
    and "\<exists>s'. heap st' = (heap st)(a \<mapsto> s') \<and> inited s cid ip port s' \<and>
      (if r = 0 then 0 < fds s' \<and> fax_live (fax s') else fds s' = -1)"
proof -
  obtain p pool where pool: "app_portGetFree (port_pool_of st) = (p, pool)" by force
  obtain rr sa where sa: "get_hostAddr env ip port (remaddr s) = (rr, sa)"
    by (rule prod.exhaust)
  have rr: "rr = resolve_res env" using sa by (simp add: get_hostAddr_def)
  show cid: "length cid < 32"
    using init s by (auto simp: session_init_def pool c_sprintf_def split: if_splits)
  let ?s1 = "s\<lparr>loc_ip := local_ip st, loc_port := p mod 65536, rem_ip := ip, rem_port := port, ses_call_id := cid, remaddr := sa\<rparr>"
  let ?st1 = "(put st a ?s1)\<lparr>port_pool_of := pool\<rparr>"
  note port = resources_take_port [OF res(1) s(1,2) res(2) pool, of ?s1]
  have p1: "resources ?st1" "p mod 65536 \<in> port_handles" using port by simp_all
  have in1: "inited s cid ip port (?s1\<lparr>fax := f, fds := d\<rparr>)" "inited s cid ip port (?s1\<lparr>fax := f\<rparr>)"
    "inited s cid ip port ?s1" for f d using p1(2) by (simp_all add: inited_def)
  have t1: "tables_same st ?st1" by (simp add: tables_same_def)
  have "tables_same st st' \<and> resources st' \<and> (\<exists>s'. heap st' = (heap st)(a \<mapsto> s') \<and> inited s cid ip port s' \<and>
      (if r = 0 then 0 < fds s' \<and> fax_live (fax s') else fds s' = -1))"
  proof (cases "rr = 0")
    case False
    with init s(1) cid have "st' = ?st1" "r = rr + 100"
      by (auto simp: session_init_def pool sa c_sprintf_def)
    with p1 t1 in1(3) s(3) rr os show ?thesis by auto
  next
    case True
    obtain fd st2 where fd: "session_createListener env ?st1 = (fd, st2)" by force
    note st2 = createListener_cases [OF fd]
    note heap2 = st2(1) and t2 = tables_same_trans [OF t1 st2(2)]
    have res2: "resources st2" using p1(1) st2(3) by blast
    show ?thesis
    proof (cases "fd \<le> 0")
      case True
      with init s(1) cid \<open>rr = 0\<close> have "st' = st2" "r = -2"
        by (auto simp: session_init_def pool sa c_sprintf_def fd)
      with res2 t2 in1(3) s(3) heap2 show ?thesis by auto
    next
      case False
      from init s(1) cid \<open>rr = 0\<close> False obtain r' fp where
        fax: "fax_sessionInit (fax_mem env) (ses_id ?s1) cid (fax ?s1) = Some (r', fp)"
        and out: "if r' \<noteq> 0 then r = -3 \<and> st' = put st2 a (?s1\<lparr>fax := fp\<rparr>)
          else r = 0 \<and> st' = put st2 a (?s1\<lparr>fax := fp, fds := fd\<rparr>)"
        by (auto simp: session_init_def pool sa c_sprintf_def fd Let_def split: bind_splits if_splits)
      have put2: "resources (put st2 a s')" if "loc_port s' = loc_port ?s1" "ses_id s' = ses_id s" "FLAG_IN s' = FLAG_IN s" for s'
        using that heap2 by (intro resources_same [OF res2 same_resources_put [of _ _ ?s1]]) simp_all
      have put_t: "tables_same st (put st2 a s')" for s' using t2 by (simp add: tables_same_def)
      have heap3: "heap (put st2 a s') = (heap st)(a \<mapsto> s')" for s' by (simp add: heap2)
      show ?thesis
      proof (cases "r' = 0")
        case True
        with sessionInit_cases(2) [OF fax] have "fax_live fp" by simp
        with True out put2 put_t heap3 in1(1) False show ?thesis by auto
      next
        case f: False
        with out put2 put_t heap3 in1(2) s(3) show ?thesis by auto
      qed
    qed
  qed
  then show "tables_same st st'" "resources st'" "\<exists>s'. heap st' = (heap st)(a \<mapsto> s') \<and> inited s cid ip port s' \<and>
      (if r = 0 then 0 < fds s' \<and> fax_live (fax s') else fds s' = -1)" by blast+
qed

lemma destroy_cases:
  assumes "session_destroy (Some a) st = Some st'"
  obtains s where "heap st a = Some s" "st' = destroyed st a s"
  using assms by (auto simp: session_destroy_def destroyed_def split: bind_splits if_splits)

lemma destroyed_tables:
  "\<not> FLAG_THREAD_ACTIVE s \<Longrightarrow> tables_same st (destroyed st a s)"
  by (simp add: tables_same_def) (simp add: destroyed_def)

section \<open>A new leg\<close>

text \<open>All that a step on one leg leaves alone.\<close>

definition cfg_same :: "app \<Rightarrow> app \<Rightarrow> bool" where
  "cfg_same st st' \<longleftrightarrow> sessions st' = sessions st \<and> pfds st' = pfds st \<and> session_cnt st' = session_cnt st \<and>
     threads st' = threads st \<and> next_ptr st \<le> next_ptr st' \<and> local_ip st' = local_ip st \<and>
     local_port st' = local_port st \<and> app_run st' = app_run st"

lemma cfg_same_refl [simp]: "cfg_same st st"
  by (simp add: cfg_same_def)

lemma cfg_same_trans: "cfg_same st st1 \<Longrightarrow> cfg_same st1 st2 \<Longrightarrow> cfg_same st st2"
  by (simp add: cfg_same_def)

lemma tables_cfg_same: "tables_same st st' \<Longrightarrow> cfg_same st st'"
  by (simp add: tables_same_def cfg_same_def)

definition new_leg :: "int \<Rightarrow> session_mode \<Rightarrow> session_dir \<Rightarrow> string \<Rightarrow> int \<Rightarrow> int \<Rightarrow> session \<Rightarrow> bool" where
  "new_leg idx m dir cid ip port s \<longleftrightarrow> sidx s = idx \<and> mode s = m \<and> FLAG_IN s = (dir = FAX_SESSION_DIR_IN) \<and>
     \<not> FLAG_THREAD_ACTIVE s \<and> ses_call_id s = cid \<and> rem_ip s = ip \<and> rem_port s = port \<and> loc_port s \<in> port_handles"

lemma new_leg_cases:
  assumes create: "session_create mem_ok m idx dir st = (Some a, st1)"
    and init: "session_init env (Some a) cid ip port st1 = Some (r, st2)"
    and res: "resources st" "card (dom (heap st)) < 200" and os: "resolve_res env \<noteq> -100"
  shows "a = next_ptr st" "next_ptr st2 = a + 1" "heap st a = None" "resources st2" "cfg_same st st2" "length cid < 32"
    and "\<exists>s. heap st2 = (heap st)(a \<mapsto> s) \<and> new_leg idx m dir cid ip port s \<and> m \<noteq> FAX_SESSION_MODE_UNKNOWN \<and>
      (if r = 0 then 0 < fds s \<and> fax_live (fax s) else fds s = -1)"
proof -
  note c = create_some [OF create]
  obtain s where s: "heap st1 = (heap st)(a \<mapsto> s)" "sidx s = idx" "mode s = m" "FLAG_IN s = (dir = FAX_SESSION_DIR_IN)"
    "loc_port s = 0" "fds s = -1" "\<not> FLAG_THREAD_ACTIVE s" "m \<noteq> FAX_SESSION_MODE_UNKNOWN"
    using c(3) by blast
  show a: "a = next_ptr st" by (rule c(1))
  show fresh: "heap st a = None" using res(1) a by (auto simp: resources_def)
  have res1: "resources st1" using resources_create [OF res(1) _ create] res(2) by simp
  have "dom (heap st1) = insert a (dom (heap st))" by (auto simp: s(1))
  then have card: "card (dom (heap st1)) \<le> 200" using res(2) fresh resources_owned(5) [OF res(1)]
    by (simp add: card_insert_if)
  have cfg: "cfg_same st st1" by (subst c(4)) (simp add: cfg_same_def c(1,2))
  have h: "heap st1 a = Some s" "loc_port s \<notin> port_handles" using s(1,5) port_zero by simp_all
  note i = session_init_cases [OF init h s(6) res1 card os]
  show "resources st2" "length cid < 32" by (rule i(2), rule i(3))
  show "next_ptr st2 = a + 1" using i(1) c(2) by (simp add: tables_same_def)
  show "cfg_same st st2" using cfg tables_cfg_same [OF i(1)] by (rule cfg_same_trans)
  from i(4) obtain s' where s': "heap st2 = (heap st1)(a \<mapsto> s')" "inited s cid ip port s'"
    "if r = 0 then 0 < fds s' \<and> fax_live (fax s') else fds s' = -1" by blast
  then show "\<exists>s. heap st2 = (heap st)(a \<mapsto> s) \<and> new_leg idx m dir cid ip port s \<and> m \<noteq> FAX_SESSION_MODE_UNKNOWN \<and>
      (if r = 0 then 0 < fds s \<and> fax_live (fax s) else fds s = -1)"
    using s by (intro exI [of _ s']) (auto simp: inited_def new_leg_def)
qed

lemma destroy_new_leg:
  assumes "session_destroy (Some a) st = Some st'" "heap st = h(a \<mapsto> s)" "\<not> FLAG_THREAD_ACTIVE s" "resources st" "h a = None"
  shows "heap st' = h" "resources st'" "cfg_same st st'" "next_ptr st' = next_ptr st"
proof -
  obtain s' where s': "heap st a = Some s'" "st' = destroyed st a s'" by (rule destroy_cases [OF assms(1)])
  with assms have "s' = s" by simp
  then show "heap st' = h" "cfg_same st st'" "next_ptr st' = next_ptr st"
    using s' assms(2,3,5) tables_cfg_same [OF destroyed_tables] by (auto simp: fun_upd_idem_iff)
  show "resources st'" using assms(4) s' by (simp add: destroyed_resources)
qed

text \<open>A failed SETUP leaves the process as it was, up to rovers, pointers and lost descriptors.\<close>

lemma app_ok_cfg_same:
  assumes "app_ok st c calls" "cfg_same st st'" "heap st' = heap st" "resources st'"
  shows "app_ok st' c calls" "table st' calls = table st calls"
proof -
  have e: "entry_at st' i x = entry_at st i x" for i x
    using assms(2,3) by (intro entry_at_cong) (simp_all add: cfg_same_def)
  have ses: "ses_of st' x = ses_of st x" for x by (simp add: ses_of_def assms(3))
  have "control_at st' c = control_at st c"
    using assms(2,3) by (simp add: control_at_def slot_holds_def cfg_same_def ses)
  moreover have "threads_ok st'" using assms by (fastforce simp: app_ok_def shape_def threads_ok_def cfg_same_def)
  ultimately have "shape st' c Suc (entries calls)" using assms e by (simp add: app_ok_def shape_def cfg_same_def)
  then show "app_ok st' c calls" using assms twins_cong [of st calls st'] by (simp add: app_ok_def cfg_same_def ses)
  show "table st' calls = table st calls" by (rule table_cong) (simp_all add: leg_row_def ses)
qed

section \<open>Both legs\<close>

lemma cfg_add_cases:
  assumes "cfg_add a st = Some st'" "0 \<le> session_cnt st"
  obtains s where "heap st a = Some s" "nat (session_cnt st) < length (sessions st)" "nat (session_cnt st) < length (pfds st)"
    "st' = st\<lparr>sessions := (sessions st)[nat (session_cnt st) := Some a],
             pfds := (pfds st)[nat (session_cnt st) := (pfds st ! nat (session_cnt st))\<lparr>poll_fd := fds s\<rparr>],
             session_cnt := (session_cnt st + 1) mod 256\<rparr>"
  using assms by (auto simp: cfg_add_def arr_get_def arr_set_def split: bind_splits if_splits)

definition linked :: "nat \<Rightarrow> nat \<Rightarrow> session \<Rightarrow> session \<Rightarrow> session \<times> session" where
  "linked a b s t = (s\<lparr>FLAG_THREAD_ACTIVE := True, peer_ses := Some b\<rparr>, t\<lparr>peer_ses := Some a\<rparr>)"

lemma link_legs_eq:
  "heap st a = Some s \<Longrightarrow> heap st b = Some t \<Longrightarrow> a \<noteq> b \<Longrightarrow> link_legs a b st =
     Some (put (put st a (fst (linked a b s t))) b (snd (linked a b s t)))"
  by (simp add: link_legs_def linked_def)

lemma setup_link:
  assumes ok: "app_ok st c calls" and cfg: "cfg_same st st2" "resources st2"
    and heap2: "heap st2 = (heap st)(a \<mapsto> s, b \<mapsto> t)" and fresh: "heap st a = None" "heap st b = None" "a \<noteq> b" "a < next_ptr st2"
    and s: "new_leg (session_cnt st) m1 FAX_SESSION_DIR_IN cid ip1 port1 s" "0 < fds s" "fax_live (fax s)" "m1 \<noteq> FAX_SESSION_MODE_CTRL"
    and t: "new_leg (session_cnt st + 1) m2 FAX_SESSION_DIR_OUT cid ip2 port2 t" "0 < fds t" "fax_live (fax t)" "m2 \<noteq> FAX_SESSION_MODE_CTRL"
    and run: "link_legs a b (start_thread a st2) = Some st3" "cfg_add a st3 = Some st4" "cfg_add b st4 = Some st5"
  shows "app_ok st5 c (calls @ [Some (a, b)])"
    and "table st5 (calls @ [Some (a, b)]) = table st calls @
      [\<lparr>row_id = cid, row_in = (loc_port s, ip1, port1), row_out = (loc_port t, ip2, port2)\<rparr>]"
    and "loc_ip (ses_of st5 a) = loc_ip s" "loc_port (ses_of st5 a) = loc_port s" "heap st5 c = heap st c"
proof -
  let ?L = "length calls"
  define s' t' where st': "s' = fst (linked a b s t)" "t' = snd (linked a b s t)"
  have shape: "shape st c Suc (entries calls)" and cnt: "session_cnt st = 1 + 2 * int ?L" "?L \<le> 39"
    using ok by (simp_all add: app_ok_def)
  then have len: "length (sessions st) = 80" "length (pfds st) = 80" by (simp_all add: shape_def)
  have st3: "st3 = put (put (start_thread a st2) a s') b t'"
    using run(1) link_legs_eq [of "start_thread a st2" a s b t] heap2 fresh(3) unfolding st'
    by (simp add: start_thread_def)
  have tab3: "sessions st3 = sessions st" "pfds st3 = pfds st" "session_cnt st3 = session_cnt st"
    "heap st3 = (heap st)(a \<mapsto> s', b \<mapsto> t')" "next_ptr st3 = next_ptr st2" "app_run st3 = app_run st"
    "threads st3 = \<lparr>thread_arg = a, thread_phase = Starting, cancelled = False\<rparr> # threads st"
    using cfg(1) fresh(3) heap2 by (auto simp: st3 start_thread_def cfg_same_def)
  let ?i = "2 * ?L + 1" and ?j = "2 * ?L + 2"
  have nat_i: "nat (session_cnt st3) = ?i" using cnt tab3(3) by simp
  have pos3: "0 \<le> session_cnt st3" using cnt tab3(3) by simp
  obtain s4 where st4: "st4 = st3\<lparr>sessions := (sessions st3)[?i := Some a], pfds := (pfds st3)[?i := (pfds st3 ! ?i)\<lparr>poll_fd := fds s4\<rparr>],
      session_cnt := (session_cnt st3 + 1) mod 256\<rparr>" and s4: "heap st3 a = Some s4"
    by (rule cfg_add_cases [OF run(2) pos3, unfolded nat_i]) blast
  have "(2 + 2 * int m) mod 256 = 2 + 2 * int m" if "m \<le> 39" for m using that by (intro mod_pos_pos_trivial) simp_all
  then have cnt4: "session_cnt st4 = 2 + 2 * int ?L" using cnt(2) by (simp add: st4 tab3(3) cnt(1))
  have nat_j: "nat (session_cnt st4) = ?j" and pos4: "0 \<le> session_cnt st4" using cnt4 by simp_all
  obtain t4 where st5: "st5 = st4\<lparr>sessions := (sessions st4)[?j := Some b], pfds := (pfds st4)[?j := (pfds st4 ! ?j)\<lparr>poll_fd := fds t4\<rparr>],
      session_cnt := (session_cnt st4 + 1) mod 256\<rparr>" and t4: "heap st4 b = Some t4" and fits: "?j < length (sessions st4)"
    by (rule cfg_add_cases [OF run(3) pos4, unfolded nat_j]) blast
  have L: "?L \<le> 38" using fits len by (simp add: st4 tab3)
  have "(3 + 2 * int m) mod 256 = 3 + 2 * int m" if "m \<le> 39" for m using that by (intro mod_pos_pos_trivial) simp_all
  then have cnt5: "session_cnt st5 = 1 + 2 * int (length (calls @ [Some (a, b)]))" using cnt(2) by (simp add: st5 cnt4)
  have fd: "fds s4 = fds s" "fds t4 = fds t" using s4 t4 fresh(3) by (auto simp: st4 tab3(4) st' linked_def)
  have heap5: "heap st5 = (heap st)(a \<mapsto> s', b \<mapsto> t')" by (simp add: st5 st4 tab3(4))
  have dist: "distinct (c # ptrs (entries calls))" "dom (heap st) = set (c # ptrs (entries calls))" using shape by (simp_all add: shape_def)
  have new: "a \<notin> set (c # ptrs (entries calls))" "b \<notin> set (c # ptrs (entries calls))"
    using fresh(1,2) unfolding dist(2) [symmetric] by auto
  have legs: "leg_session b ?i True s'" "leg_session a ?j False t'"
    using s t by (simp_all add: st' linked_def leg_session_def new_leg_def cnt(1))
  have bounds: "?j < 80" using L by simp
  have e_new: "entry_at st5 ?i (Some (a, b, True))" "entry_at st5 ?j (Some (b, a, False))"
    using legs bounds len fd fresh(3) heap5
    by (simp_all add: entry_at_leg slot_holds_def st5 st4 tab3 ses_of_def st' linked_def nth_list_update)
  have e_old: "entry_at st5 (Suc k) (entries calls ! k)" if k: "k < length (entries calls)" for k
  proof -
    have "entries calls ! k \<in> set (entries calls)" using k by simp
    then have "\<And>x p. entries calls ! k = Some (x, p) \<Longrightarrow> x \<in> set (ptrs (entries calls))" unfolding in_ptrs by metis
    then have "\<And>x p. entries calls ! k = Some (x, p) \<Longrightarrow> heap st5 x = heap st x" using new unfolding heap5 by fastforce
    moreover have "Suc k \<noteq> ?i" "Suc k \<noteq> ?j" using k by simp_all
    ultimately have "entry_at st5 (Suc k) (entries calls ! k) = entry_at st (Suc k) (entries calls ! k)"
      by (intro entry_at_cong) (simp_all add: st5 st4 tab3)
    with shape k show ?thesis by (simp add: shape_def)
  qed
  have e: "entry_at st5 (Suc k) (entries (calls @ [Some (a, b)]) ! k)" if k: "k < length (entries (calls @ [Some (a, b)]))" for k
  proof -
    consider "k < length (entries calls)" | "k = 2 * ?L" | "k = 2 * ?L + 1" using k by (auto simp: less_Suc_eq)
    then show ?thesis using e_old e_new by cases (simp_all add: nth_append)
  qed
  have ctrl: "control_at st5 c"
    using shape new len by (auto simp: shape_def control_at_def slot_holds_def st5 st4 tab3 ses_of_def)
  have thr: "threads_ok st5"
  proof (unfold threads_ok_def, intro ballI)
    fix t0 assume "t0 \<in> set (threads st5)"
    then consider "t0 = \<lparr>thread_arg = a, thread_phase = Starting, cancelled = False\<rparr>" | "t0 \<in> set (threads st)"
      by (auto simp: st5 st4 tab3)
    then show "thread_arg t0 < next_ptr st5 \<and>
      (\<not> cancelled t0 \<longrightarrow> (\<exists>s. heap st5 (thread_arg t0) = Some s \<and> FLAG_THREAD_ACTIVE s))"
    proof cases
      case 1
      then show ?thesis using fresh(3,4) by (simp add: heap5 st' linked_def st5 st4 tab3)
    next
      case 2
      have "threads_ok st" using shape by (simp add: shape_def)
      with 2 have old: "thread_arg t0 < next_ptr st"
        "\<not> cancelled t0 \<Longrightarrow> \<exists>s. heap st (thread_arg t0) = Some s \<and> FLAG_THREAD_ACTIVE s"
        unfolding threads_ok_def by blast+
      have "next_ptr st \<le> next_ptr st5" using cfg(1) by (simp add: st5 st4 tab3 cfg_same_def)
      moreover have "\<exists>s. heap st5 (thread_arg t0) = Some s \<and> FLAG_THREAD_ACTIVE s" if live: "\<not> cancelled t0"
      proof -
        from old(2) [OF live] obtain s0 where "heap st (thread_arg t0) = Some s0" "FLAG_THREAD_ACTIVE s0" by blast
        moreover from this(1) fresh(1,2) have "thread_arg t0 \<noteq> a" "thread_arg t0 \<noteq> b" by auto
        ultimately show ?thesis by (simp add: heap5)
      qed
      ultimately show ?thesis using old(1) by simp
    qed
  qed
  have shape5: "shape st5 c Suc (entries (calls @ [Some (a, b)]))"
    using e ctrl thr len dist new fresh(3) unfolding shape_def heap5 by (auto simp: st5 st4 tab3)
  have res: "resources st5"
  proof (rule resources_same [OF cfg(2)])
    show "same_resources st2 st5"
      unfolding same_resources_def heap5 heap2
      using fresh(3) by (auto simp: st5 st4 st3 start_thread_def st' linked_def)
  qed
  have cids: "ses_call_id s' = cid" "ses_call_id t' = cid" using s(1) t(1) by (simp_all add: st' linked_def new_leg_def)
  have old: "ses_of st5 x = ses_of st x" if "Some (p, q) \<in> set calls" "x = p \<or> x = q" for p q x
  proof -
    have "x \<in> set (ptrs (entries calls))" using set_entries [OF that(1)] that(2) unfolding in_ptrs by blast
    with new show ?thesis by (auto simp: ses_of_def heap5)
  qed
  have twins: "twins st5 (calls @ [Some (a, b)])"
    using ok old fresh(3) cids by (auto simp: twins_def app_ok_def ses_of_def [of st5 a] ses_of_def [of st5 b] heap5)
  show "app_ok st5 c (calls @ [Some (a, b)])" using res shape5 twins cnt5 L by (simp add: app_ok_def)
  have "table st5 calls = table st calls"
    by (rule table_cong) (use old in \<open>auto simp: leg_row_def in_active\<close>)
  moreover have "call_row_of st5 (a, b) = \<lparr>row_id = cid, row_in = (loc_port s, ip1, port1), row_out = (loc_port t, ip2, port2)\<rparr>"
    using s(1) t(1) fresh(3) by (simp add: call_row_of_def leg_row_def ses_of_def heap5 st' linked_def new_leg_def)
  ultimately show "table st5 (calls @ [Some (a, b)]) = table st calls @
      [\<lparr>row_id = cid, row_in = (loc_port s, ip1, port1), row_out = (loc_port t, ip2, port2)\<rparr>]"
    by (simp add: table_def)
  show "loc_ip (ses_of st5 a) = loc_ip s" "loc_port (ses_of st5 a) = loc_port s"
    using fresh(3) by (simp_all add: ses_of_def heap5 st' linked_def)
  show "heap st5 c = heap st c" using new by (simp add: heap5)
qed

section \<open>\<open>proc_setup\<close>\<close>

text \<open>The two outcomes: a new call, or the process as before.\<close>

definition call_added :: "app \<Rightarrow> nat \<Rightarrow> call list \<Rightarrow> string \<Rightarrow> sig_message_setup \<Rightarrow> session_ptr \<Rightarrow> app \<Rightarrow> bool" where
  "call_added st c calls cid m p st' \<longleftrightarrow>
     (\<exists>a b dip dport q. p = Some a \<and> app_ok st' c (calls @ [Some (a, b)]) \<and> dst_ip m = Some dip \<and> dst_port m = Some dport \<and>
        table st' (calls @ [Some (a, b)]) = table st calls @
          [\<lparr>row_id = cid, row_in = (loc_port (ses_of st' a), src_ip m, src_port m), row_out = (q, dip, dport)\<rparr>] \<and>
        heap st' c = heap st c)"

definition nothing_added :: "app \<Rightarrow> nat \<Rightarrow> call list \<Rightarrow> session_ptr \<Rightarrow> app \<Rightarrow> bool" where
  "nothing_added st c calls p st' \<longleftrightarrow> app_ok st' c calls \<and> table st' calls = table st calls \<and> heap st' = heap st \<and>
     (\<forall>a. p = Some a \<longrightarrow> heap st' a = None)"

lemma nothing_addedI:
  assumes "app_ok st c calls" "cfg_same st st'" "heap st' = heap st" "resources st'" "\<And>a. p = Some a \<Longrightarrow> heap st a = None"
  shows "nothing_added st c calls p st'"
  using app_ok_cfg_same [OF assms(1-4)] assms(3,5) by (simp add: nothing_added_def)

lemma out_mode_not_ctrl: "out_session_mode m = Some x \<Longrightarrow> x \<noteq> FAX_SESSION_MODE_CTRL"
  by (cases m) (auto simp: out_session_mode_def)

lemma setup_output_cases:
  assumes ok: "app_ok st c calls" and os: "resolve_res (out_env env) \<noteq> -100" and out_mode: "om \<noteq> FAX_SESSION_MODE_CTRL"
    and cfg: "cfg_same st st2" "resources st2" and heap2: "heap st2 = (heap st)(a \<mapsto> s)" and a: "heap st a = None" "a < next_ptr st2"
    and s: "new_leg (session_cnt st) FAX_SESSION_MODE_GATEWAY FAX_SESSION_DIR_IN cid (src_ip m) (src_port m) s" "0 < fds s" "fax_live (fax s)"
    and run: "setup_output env cid m om a st2 = Some (p, st')"
  shows "call_added st c calls cid m p st' \<or> nothing_added st c calls p st'"
proof -
  have nothread: "\<not> FLAG_THREAD_ACTIVE s" using s(1) by (simp add: new_leg_def)
  have "card (dom (heap st)) \<le> 79" "finite (dom (heap st))"
    using ok card_live [of st c Suc "entries calls"] resources_owned(5) [of st] by (auto simp: app_ok_def)
  then have card: "card (dom (heap st2)) < 200" using a(1) by (simp add: heap2 card_insert_if)
  have cnt: "session_cnt st2 = session_cnt st" using cfg(1) by (simp add: cfg_same_def)
  obtain pb st3 where create: "session_create (ses_mem (out_env env)) om (session_cnt st2 + 1) FAX_SESSION_DIR_OUT st2 = (pb, st3)"
    by (rule prod.exhaust)
  show ?thesis
  proof (cases pb)
    case None
    with create_none create have "st3 = st2" by blast
    with run create None have d: "session_destroy (Some a) st2 = Some st'" "p = None" by (auto simp: setup_output_def)
    note del = destroy_new_leg [OF d(1) heap2 nothread cfg(2) a(1)]
    have "nothing_added st c calls p st'"
      using del cfg_same_trans [OF cfg(1) del(3)] d(2) by (intro nothing_addedI [OF ok]) simp_all
    then show ?thesis ..
  next
    case (Some b)
    with run create obtain dip dport r st4 where dst: "dst_ip m = Some dip" "dst_port m = Some dport"
      and init: "session_init (out_env env) (Some b) cid dip dport st3 = Some (r, st4)"
      and rest: "(if r \<noteq> 0 \<or> thread_res env \<noteq> 0 then
          do { st5 \<leftarrow> session_destroy (Some b) st4; map_option (Pair None) (session_destroy (Some a) st5) }
        else do { st5 \<leftarrow> link_legs a b (start_thread a st4); st6 \<leftarrow> cfg_add a st5; st7 \<leftarrow> cfg_add b st6; Some (Some a, st7) }) = Some (p, st')"
      by (auto simp: setup_output_def split: bind_splits)
    note leg = new_leg_cases [OF create [unfolded Some] init cfg(2) card os]
    obtain t where t: "heap st4 = (heap st2)(b \<mapsto> t)" "new_leg (session_cnt st2 + 1) om FAX_SESSION_DIR_OUT cid dip dport t"
      "if r = 0 then 0 < fds t \<and> fax_live (fax t) else fds t = -1" using leg(7) by blast
    have b: "a \<noteq> b" "heap st b = None" using leg(3) by (auto simp: heap2 split: if_splits)
    have cfg4: "cfg_same st st4" by (rule cfg_same_trans [OF cfg(1) leg(5)])
    show ?thesis
    proof (cases "r \<noteq> 0 \<or> thread_res env \<noteq> 0")
      case True
      with rest obtain st5 where d: "session_destroy (Some b) st4 = Some st5" "session_destroy (Some a) st5 = Some st'" "p = None"
        by (auto split: bind_splits)
      have "\<not> FLAG_THREAD_ACTIVE t" using t(2) by (simp add: new_leg_def)
      note d1 = destroy_new_leg [OF d(1) t(1) this leg(4,3)]
      note d2 = destroy_new_leg [OF d(2) d1(1) [unfolded heap2] nothread d1(2) a(1)]
      have "nothing_added st c calls p st'"
        using d2 cfg_same_trans [OF cfg4 cfg_same_trans [OF d1(3) d2(3)]] d(3) by (intro nothing_addedI [OF ok]) simp_all
      then show ?thesis ..
    next
      case False
      with rest obtain st5 st6 where link: "link_legs a b (start_thread a st4) = Some st5" "cfg_add a st5 = Some st6"
        "cfg_add b st6 = Some st'" and p: "p = Some a"
        by (auto split: bind_splits)
      have tl: "0 < fds t" "fax_live (fax t)" using t(3) False by simp_all
      have "a < next_ptr st4" using a(2) leg(1,2) by simp
      note l = setup_link [OF ok cfg4 leg(4) t(1) [unfolded heap2] a(1) b(2,1) this s _ t(2) [unfolded cnt] tl out_mode link]
      have "call_added st c calls cid m p st'"
        unfolding call_added_def using l dst p
        by (rule_tac x = a in exI, rule_tac x = b in exI, rule_tac x = dip in exI, rule_tac x = dport in exI,
            rule_tac x = "loc_port t" in exI) simp
      then show ?thesis ..
    qed
  qed
qed

lemma proc_setup_cases:
  assumes ok: "app_ok st c calls" and os: "os_ok env" and run: "proc_setup env cid m st = Some (p, st')"
  shows "call_added st c calls cid m p st' \<or> nothing_added st c calls p st'"
proof -
  have same: "nothing_added st c calls None st"
    using ok by (simp add: nothing_added_def)
  show ?thesis
  proof (cases "session_cnt st \<ge> 80 \<or> out_session_mode (fax_mode m) = None")
    case True
    with run same show ?thesis by (auto simp: proc_setup_def split: if_splits)
  next
    case False
    then obtain om where om: "out_session_mode (fax_mode m) = Some om" by blast
    obtain pa st1 where create: "session_create (ses_mem (in_env env)) FAX_SESSION_MODE_GATEWAY (session_cnt st) FAX_SESSION_DIR_IN st = (pa, st1)"
      by (rule prod.exhaust)
    show ?thesis
    proof (cases pa)
      case None
      with create_none create have "st1 = st" by blast
      with run create None om False same show ?thesis by (simp add: proc_setup_def)
    next
      case (Some a)
      with run create om False obtain r st2 where
        init: "session_init (in_env env) (Some a) cid (src_ip m) (src_port m) st1 = Some (r, st2)"
        and rest: "(if r \<noteq> 0 then map_option (Pair (Some a)) (session_destroy (Some a) st2)
          else setup_output env cid m om a st2) = Some (p, st')"
        by (auto simp: proc_setup_def split: bind_splits)
      have res: "resources st" using ok by (simp add: app_ok_def)
      have card: "card (dom (heap st)) < 200"
        using ok card_live [of st c Suc "entries calls"] by (auto simp: app_ok_def)
      have "resolve_res (in_env env) \<noteq> -100" using os by (simp add: os_ok_def)
      note leg = new_leg_cases [OF create [unfolded Some] init res card this]
      obtain s where s: "heap st2 = (heap st)(a \<mapsto> s)"
        "new_leg (session_cnt st) FAX_SESSION_MODE_GATEWAY FAX_SESSION_DIR_IN cid (src_ip m) (src_port m) s"
        "if r = 0 then 0 < fds s \<and> fax_live (fax s) else fds s = -1" using leg(7) by blast
      show ?thesis
      proof (cases "r = 0")
        case True
        then have "0 < fds s" "fax_live (fax s)" "setup_output env cid m om a st2 = Some (p, st')"
          using s(3) rest by simp_all
        moreover have "resolve_res (out_env env) \<noteq> -100" using os by (simp add: os_ok_def)
        moreover have "a < next_ptr st2" using leg(2) by simp
        ultimately show ?thesis
          using setup_output_cases [OF ok _ out_mode_not_ctrl [OF om] leg(5,4) s(1) leg(3) _ s(2)] by blast
      next
        case False
        with rest have d: "session_destroy (Some a) st2 = Some st'" "p = Some a" by auto
        have "\<not> FLAG_THREAD_ACTIVE s" using s(2) by (simp add: new_leg_def)
        note del = destroy_new_leg [OF d(1) s(1) this leg(4,3)]
        have "nothing_added st c calls p st'"
          using del cfg_same_trans [OF leg(5) del(3)] d(2) leg(3) by (intro nothing_addedI [OF ok]) simp_all
        then show ?thesis ..
      qed
    qed
  qed
qed

end
