(* ===== verification/Session_Frame.thy ===== *)
theory Session_Frame
  imports Session_Setup
begin

text \<open>
  What no operation on sessions changes: the address of the interface and, outside the
  signal handler, the flag that keeps the main loop running.
\<close>

definition same_config :: "app \<Rightarrow> app \<Rightarrow> bool" where
  "same_config st st' \<longleftrightarrow> local_ip st' = local_ip st \<and> local_port st' = local_port st \<and> app_run st' = app_run st"

lemma same_config_refl [simp]: "same_config st st"
  by (simp add: same_config_def)

lemma same_config_trans: "same_config st st1 \<Longrightarrow> same_config st1 st2 \<Longrightarrow> same_config st st2"
  by (simp add: same_config_def)

lemma same_config_put [simp]: "same_config st (put st a s)"
  by (simp add: same_config_def)

lemma same_config_cfg: "cfg_same st st' \<Longrightarrow> same_config st st'"
  by (simp add: cfg_same_def same_config_def)

lemma same_config_served: "served st st' \<Longrightarrow> same_config st st'"
  by (simp add: served_def same_config_def)

lemma session_create_config: "session_create mem m idx dir st = (p, st') \<Longrightarrow> same_config st st'"
  by (auto simp: session_create_def Let_def same_config_def split: if_splits prod.splits)

lemma session_destroy_config: "session_destroy p st = Some st' \<Longrightarrow> same_config st st'"
proof (cases p)
  case (Some a)
  assume "session_destroy p st = Some st'"
  with Some obtain s where "st' = destroyed st a s" using destroy_cases by blast
  then show ?thesis by (simp add: same_config_def)
qed (simp add: session_destroy_def)

lemma createListener_config: "session_createListener env st = (fd, st') \<Longrightarrow> same_config st st'"
  by (auto simp: session_createListener_def Let_def same_config_def split: if_splits)

lemma session_init_config:
  assumes "session_init env (Some a) cid ip port st = Some (r, st')"
  shows "same_config st st'"
proof -
  obtain s where s: "heap st a = Some s" using assms by (auto simp: session_init_def split: bind_splits)
  obtain p pool where pool: "app_portGetFree (port_pool_of st) = (p, pool)" by (rule prod.exhaust)
  obtain rr sa where sa: "get_hostAddr env ip port (remaddr s) = (rr, sa)" by (rule prod.exhaust)
  let ?s1 = "\<lambda>cid'. s\<lparr>loc_ip := local_ip st, loc_port := p mod 65536, rem_ip := ip, rem_port := port,
      ses_call_id := cid', remaddr := sa\<rparr>"
  have one: "same_config st ((put st a (?s1 cid'))\<lparr>port_pool_of := pool\<rparr>)" for cid' by (simp add: same_config_def)
  obtain cid' where cid': "c_sprintf 32 cid = Some cid'" using assms s by (auto simp: session_init_def pool split: bind_splits)
  let ?st1 = "(put st a (?s1 cid'))\<lparr>port_pool_of := pool\<rparr>"
  show ?thesis
  proof (cases "rr = 0")
    case False
    with assms s cid' one show ?thesis by (auto simp: session_init_def pool sa)
  next
    case True
    obtain fd st2 where l: "session_createListener env ?st1 = (fd, st2)" by (rule prod.exhaust)
    note two = same_config_trans [OF one createListener_config [OF l]]
    have "st' = st2 \<or> (\<exists>s'. st' = put st2 a s')"
      using assms s cid' True by (auto simp: session_init_def pool sa l Let_def split: bind_splits if_splits)
    with two same_config_trans [OF two same_config_put] show ?thesis by auto
  qed
qed

lemma link_legs_config: "link_legs a b st = Some st' \<Longrightarrow> same_config st st'"
  by (auto simp: link_legs_def Let_def same_config_def split: bind_splits)

lemma cfg_add_config: "cfg_add a st = Some st' \<Longrightarrow> same_config st st'"
  by (auto simp: cfg_add_def same_config_def split: bind_splits)

lemma cfg_clear_config: "cfg_clear i st = Some st' \<Longrightarrow> same_config st st'"
  by (auto simp: cfg_clear_def same_config_def split: bind_splits)

lemma start_thread_config [simp]: "same_config st (start_thread a st)"
  by (simp add: start_thread_def same_config_def)

lemma setup_output_config:
  assumes "setup_output env cid m om a st = Some (p, st')"
  shows "same_config st st'"
proof -
  obtain q st1 where c: "session_create (ses_mem (out_env env)) om (session_cnt st + 1) FAX_SESSION_DIR_OUT st = (q, st1)"
    by (rule prod.exhaust)
  note c1 = session_create_config [OF c]
  show ?thesis
  proof (cases q)
    case None
    with assms c have "session_destroy (Some a) st1 = Some st'" by (auto simp: setup_output_def)
    from same_config_trans [OF c1 session_destroy_config [OF this]] show ?thesis .
  next
    case (Some b)
    with assms c obtain dip dport r st2 where init: "session_init (out_env env) (Some b) cid dip dport st1 = Some (r, st2)"
      and rest: "(if r \<noteq> 0 \<or> thread_res env \<noteq> 0 then
          do { st3 \<leftarrow> session_destroy (Some b) st2; map_option (Pair None) (session_destroy (Some a) st3) }
        else do { st3 \<leftarrow> link_legs a b (start_thread a st2); st4 \<leftarrow> cfg_add a st3; st5 \<leftarrow> cfg_add b st4; Some (Some a, st5) }) = Some (p, st')"
      by (auto simp: setup_output_def split: bind_splits)
    note c2 = same_config_trans [OF c1 session_init_config [OF init]]
    show ?thesis
    proof (cases "r \<noteq> 0 \<or> thread_res env \<noteq> 0")
      case True
      with rest obtain st3 where "session_destroy (Some b) st2 = Some st3" "session_destroy (Some a) st3 = Some st'"
        by (auto split: bind_splits)
      from this [THEN session_destroy_config] same_config_trans c2 show ?thesis by metis
    next
      case False
      with rest obtain st3 st4 where "link_legs a b (start_thread a st2) = Some st3" "cfg_add a st3 = Some st4"
        "cfg_add b st4 = Some st'" by (auto split: bind_splits)
      from link_legs_config [OF this(1)] this(2,3) [THEN cfg_add_config] c2 show ?thesis
        by (simp add: same_config_def start_thread_def)
    qed
  qed
qed

lemma proc_setup_config:
  assumes "proc_setup env cid m st = Some (p, st')"
  shows "same_config st st'"
proof (cases "session_cnt st \<ge> 80 \<or> out_session_mode (fax_mode m) = None")
  case True
  with assms show ?thesis by (auto simp: proc_setup_def split: if_splits)
next
  case False
  then obtain om where om: "out_session_mode (fax_mode m) = Some om" by blast
  obtain q st1 where c: "session_create (ses_mem (in_env env)) FAX_SESSION_MODE_GATEWAY (session_cnt st) FAX_SESSION_DIR_IN st = (q, st1)"
    by (rule prod.exhaust)
  note c1 = session_create_config [OF c]
  show ?thesis
  proof (cases q)
    case None
    with assms c False om c1 show ?thesis by (simp add: proc_setup_def)
  next
    case (Some a)
    with assms c False om obtain r st2 where init: "session_init (in_env env) (Some a) cid (src_ip m) (src_port m) st1 = Some (r, st2)"
      and rest: "(if r \<noteq> 0 then map_option (Pair (Some a)) (session_destroy (Some a) st2)
        else setup_output env cid m om a st2) = Some (p, st')"
      by (auto simp: proc_setup_def split: bind_splits)
    have "same_config st2 st'"
      using rest session_destroy_config setup_output_config by (auto split: if_splits)
    with same_config_trans [OF c1 session_init_config [OF init]] same_config_trans show ?thesis by blast
  qed
qed

lemma release_call_config:
  assumes "release_call i a st = Some st'"
  shows "same_config st st'"
proof -
  obtain st1 st2 st3 j p where "cfg_clear (int i) st = Some st1" "cfg_clear j st1 = Some st2"
    "session_destroy p st2 = Some st3" "session_destroy (Some a) st3 = Some st'"
    using assms by (auto simp: release_call_def split: bind_splits)
  from this(1,2) [THEN cfg_clear_config] this(3,4) [THEN session_destroy_config] show ?thesis
    by (simp add: same_config_def)
qed

lemma release_loop_config: "release_loop cid i n st = Some st' \<Longrightarrow> same_config st st'"
proof (induction n arbitrary: i)
  case (Suc n)
  then show ?case by (auto split: bind_splits option.splits if_splits dest: release_call_config)
qed simp

lemma process_message_config: "process_sig_message env m st = Some (r, answer, st') \<Longrightarrow> same_config st st'"
  by (auto simp: process_sig_message_def proc_release_def split: sig_body.splits bind_splits
      dest: proc_setup_config release_loop_config)

lemma send_answer_state: "send_answer env a r answer st = Some (r', st', sent) \<Longrightarrow> st' = st"
  by (auto simp: send_answer_def split: option.splits bind_splits if_splits)

lemma recvMsg_config: "session_recvMsg r a st n = Some (d, st') \<Longrightarrow> same_config st st'"
  by (auto simp: session_recvMsg_def Let_def split: bind_splits recv_outcome.splits if_splits)

lemma procCMD_config:
  assumes "session_procCMD env p st = Some (r, st', sent)"
  shows "same_config st st'"
proof -
  obtain a where p: "p = Some a" using assms by (cases p) (simp_all add: session_procCMD_def)
  obtain data st1 where recv: "session_recvMsg (cmd_recv env) a st 256 = Some (data, st1)"
    using assms p by (auto simp: session_procCMD_def split: bind_splits)
  have "same_config st1 st'"
    using assms p recv
    by (auto simp: session_procCMD_def Let_def dest!: send_answer_state dest: process_message_config
        split: option.splits bind_splits if_splits)
  with recvMsg_config [OF recv] same_config_trans show ?thesis by blast
qed

end
