(* ===== verification/Session_System.thy ===== *)
theory Session_System
  imports Session_Frame
begin

text \<open>
  The whole process: the main thread's passes and the fax threads as a step relation, the
  invariant of its reachable states, and the refinement of the call table by every command
  and every pass.
\<close>

section \<open>A command refines the call table\<close>

text \<open>The message a command carries, when it is well formed.\<close>

definition parsed :: "cmd_env \<Rightarrow> sig_message option" where
  "parsed env =
     (case cmd_recv env of
        Recv_error _ _ \<Rightarrow> None
      | Received d _ _ \<Rightarrow>
          (case sig_msgParse (cmd_parse_mem env) (Some (chars_of (take MSG_BUF_LEN d) @ cmd_stale env)) True of
             Some (r, Message m) \<Rightarrow> if r < 0 then None else Some m
           | _ \<Rightarrow> None))"

text \<open>What a message may do to the call table.\<close>

inductive table_step :: "sig_message option \<Rightarrow> call_row list \<Rightarrow> call_row list \<Rightarrow> bool" where
  nothing: "(\<And>x. m = Some x \<Longrightarrow> body x \<noteq> Rel) \<Longrightarrow> table_step m t t"
| added: "\<lbrakk>body x = Setup s; dst_ip s = Some dip; dst_port s = Some dport\<rbrakk> \<Longrightarrow>
    table_step (Some x) t (t @ [\<lparr>row_id = call_id x, row_in = (p, src_ip s, src_port s), row_out = (q, dip, dport)\<rparr>])"
| removed: "body x = Rel \<Longrightarrow> table_step (Some x) t (remove_call (call_id x) t)"

inductive_cases table_step_releaseE: "table_step (Some \<lparr>call_id = cid, body = Rel\<rparr>) t t'"

lemma process_message_cases:
  assumes ok: "app_ok st c calls" and os: "os_ok env" and run: "process_sig_message env m st = Some (r, answer, st')"
  shows "\<exists>calls'. app_ok st' c calls' \<and> table_step (Some m) (table st calls) (table st' calls')"
proof (cases "body m")
  case (Setup x)
  with run obtain p where p: "proc_setup env (call_id m) x st = Some (p, st')"
    by (auto simp: process_sig_message_def split: bind_splits)
  from proc_setup_cases [OF ok os p] show ?thesis
  proof
    assume "call_added st c calls (call_id m) x p st'"
    then obtain a b dip dport q where a: "app_ok st' c (calls @ [Some (a, b)])" "dst_ip x = Some dip" "dst_port x = Some dport"
      "table st' (calls @ [Some (a, b)]) = table st calls @
          [\<lparr>row_id = call_id m, row_in = (loc_port (ses_of st' a), src_ip x, src_port x), row_out = (q, dip, dport)\<rparr>]"
      unfolding call_added_def by blast
    from table_step.added [OF Setup a(2,3)] a(1,4) show ?thesis by metis
  next
    assume "nothing_added st c calls p st'"
    then have "app_ok st' c calls" "table st' calls = table st calls" by (simp_all add: nothing_added_def)
    with table_step.nothing [of "Some m" "table st calls"] Setup show ?thesis by auto
  qed
next
  case Rel
  with run have "proc_release (call_id m) st = Some st'" by (auto simp: process_sig_message_def)
  with proc_release_ok [OF ok, of "call_id m"] obtain calls' where
    "app_ok st' c calls'" "table st' calls' = remove_call (call_id m) (table st calls)" by auto
  with table_step.removed [OF Rel, of "table st calls"] show ?thesis by metis
next
  case (Ok x)
  with run have "st' = st" by (auto simp: process_sig_message_def)
  with ok Ok table_step.nothing [of "Some m" "table st calls"] show ?thesis by auto
next
  case (Error x)
  with run have "st' = st" by (auto simp: process_sig_message_def)
  with ok Error table_step.nothing [of "Some m" "table st calls"] show ?thesis by auto
qed

text \<open>The control session: its remote address is all that receiving changes.\<close>

lemma recv_control:
  assumes ok: "app_ok st c calls" and r: "session_recvMsg r c st n = Some (data, st1)"
  shows "app_ok st1 c calls" "table st1 calls = table st calls"
    and "data = (case r of Received d _ _ \<Rightarrow> Some (take n d) | Recv_error _ _ \<Rightarrow> None)"
    and "\<exists>s ip port. heap st c = Some s \<and> st1 = put st c (s\<lparr>remaddr := (ip, port), rem_ip := ip, rem_port := port\<rparr>) \<and>
      (\<forall>d ip' port'. r = Received d ip' port' \<longrightarrow> ip = ip' \<and> port = port')"
proof -
  obtain s where s: "heap st c = Some s" "mode s = FAX_SESSION_MODE_CTRL"
    using ok by (auto simp: app_ok_def shape_def control_at_def)
  from r s obtain ip port where st1: "st1 = put st c (s\<lparr>remaddr := (ip, port), rem_ip := ip, rem_port := port\<rparr>)"
    and data: "data = (case r of Received d _ _ \<Rightarrow> Some (take n d) | Recv_error _ _ \<Rightarrow> None)"
    and src: "\<forall>d ip' port'. r = Received d ip' port' \<longrightarrow> ip = ip' \<and> port = port'"
    by (cases r) (auto simp: session_recvMsg_def)
  show "data = (case r of Received d _ _ \<Rightarrow> Some (take n d) | Recv_error _ _ \<Rightarrow> None)" by (rule data)
  show "app_ok st1 c calls" unfolding st1 by (rule app_ok_keeps [OF ok s(1)]) (simp add: keeps_def)
  have "c \<notin> set (ptrs (entries calls))" using ok by (simp add: app_ok_def shape_def)
  then have "x \<noteq> c" if "(a, b) \<in> set (active calls)" "x \<in> {a, b}" for a b x
    using that set_entries [of a b calls] unfolding in_active in_ptrs by blast
  then show "table st1 calls = table st calls"
    by (intro table_cong) (auto simp: st1 ses_of_put leg_row_def)
  show "\<exists>s ip port. heap st c = Some s \<and> st1 = put st c (s\<lparr>remaddr := (ip, port), rem_ip := ip, rem_port := port\<rparr>) \<and>
      (\<forall>d ip' port'. r = Received d ip' port' \<longrightarrow> ip = ip' \<and> port = port')"
    using s(1) st1 src by blast
qed

lemma command_refines:
  assumes ok: "app_ok st c calls" and os: "os_ok (cmd_setup env)"
    and run: "session_procCMD env (Some c) st = Some (r, st', sent)"
  shows "\<exists>calls'. app_ok st' c calls' \<and> table_step (parsed env) (table st calls) (table st' calls')"
proof -
  from run obtain data st1 where recv: "session_recvMsg (cmd_recv env) c st MSG_BUF_LEN = Some (data, st1)"
    by (auto simp: session_procCMD_def split: bind_splits)
  note rc = recv_control [OF ok recv]
  have same: "\<exists>calls'. app_ok st1 c calls' \<and> table_step None (table st calls) (table st1 calls')"
    using rc(1,2) table_step.nothing [of None "table st calls"] by auto
  show ?thesis
  proof (cases "cmd_recv env")
    case (Recv_error ip port)
    with rc(3) run recv have "st' = st1" by (simp add: session_procCMD_def)
    with same Recv_error show ?thesis by (simp add: parsed_def)
  next
    case (Received d ip port)
    let ?m = "chars_of (take 256 d) @ cmd_stale env"
    have data: "data = Some (take 256 d)" using rc(3) Received by simp
    with run recv obtain res message where p: "sig_msgParse (cmd_parse_mem env) (Some ?m) True = Some (res, message)"
      by (auto simp: session_procCMD_def Let_def split: bind_splits)
    show ?thesis
    proof (cases "res < 0")
      case True
      then have none: "parsed env = None" using p Received by (simp add: parsed_def split: parse_output.split)
      from run recv data p True have "st' = st1"
        by (auto simp: session_procCMD_def Let_def dest!: send_answer_state split: bind_splits)
      with same none show ?thesis by simp
    next
      case False
      from run recv data p False obtain msg r' answer st2 where msg: "message = Message msg"
        and proc: "process_sig_message (cmd_setup env) msg st1 = Some (r', answer, st2)" and "st' = st2"
        by (auto simp: session_procCMD_def Let_def dest!: send_answer_state
            split: bind_splits parse_output.splits)
      moreover have "parsed env = Some msg" using p False msg Received by (simp add: parsed_def)
      ultimately show ?thesis using process_message_cases [OF rc(1) os proc] rc(2) by simp
    qed
  qed
qed

end
