(* ===== verification/Process.thy ===== *)
theory Process
  imports Session_System
begin

text \<open>
  The process as a transition system: passes of the main loop and steps of the fax threads,
  in any order. The state after start-up satisfies the invariant, every step keeps it, and
  every step refines the table of calls as it can be read off the session array.
\<close>

section \<open>Start-up\<close>

lemma resources_put_control:
  assumes "resources st" "heap st a = Some s" "loc_port s \<notin> port_handles" "loc_port s' \<notin> port_handles"
    and "ses_id s' = ses_id s" "FLAG_IN s' = FLAG_IN s"
  shows "resources (put st a s')"
proof -
  let ?st = "put st a s'"
  have hol: "holders ?st = holders st" and fac: "facing ?st d = facing st d" for d
    using assms(2-6) by (auto simp: holders_def facing_def split: if_splits)
  have a: "a \<notin> holders st" using assms(2,3) by (simp add: holders_def)
  have ports: "owned (ports_used (port_pool_of st)) (holders st) (\<lambda>x. loc_port (ses_of ?st x))"
    by (rule owned_cong [OF resources_owned(1) [OF assms(1)] refl]) (use a in \<open>auto simp: ses_of_put\<close>)
  have ids: "owned (ids_used d (id_pool_of st)) (facing st d) (\<lambda>x. ses_id (ses_of ?st x))" for d
    by (rule owned_cong [OF resources_owned(2) [OF assms(1)] refl])
      (use assms(2,5) in \<open>auto simp: ses_of_put\<close>, simp add: ses_of_def)
  have "dom (heap ?st) = dom (heap st)" using assms(2) by auto
  then show ?thesis using assms(1) ports ids by (simp add: resources_def hol fac)
qed

lemma resources_start: "heap st = (\<lambda>_. None) \<Longrightarrow> port_pool_of st = port_pool_init \<Longrightarrow> id_pool_of st = id_pool_init \<Longrightarrow> resources st"
proof -
  assume h: "heap st = (\<lambda>_. None)" "port_pool_of st = port_pool_init" "id_pool_of st = id_pool_init"
  have "ids_used d id_pool_init = {}" for d
    using id_pool_init_ok(2) all_ids_used_dir [of id_pool_init d] by simp
  with h port_pool_init_ok id_pool_init_ok(1) show ?thesis
    by (simp add: resources_def owned_def holders_def facing_def)
qed

lemma ctrl_port: "FAX_CONTROL_PORT \<notin> port_handles"
  by (simp add: port_handles_def)

lemma app_init_ok:
  assumes "app_init env app_zero = Some (0, st)"
  shows "\<exists>c. app_ok st c [] \<and> local_ip st = iface_ip env \<and> next_ptr st = 1 \<and> threads st = []"
proof -
  let ?st1 = "app_zero\<lparr>local_ip := iface_ip env, local_port := FAX_CONTROL_PORT,
      pfds := replicate 80 \<lparr>poll_fd = 0, revents = False\<rparr>, sessions := replicate 80 None\<rparr>"
  obtain st2 where fd: "app_InitControlFD (ctrl_env env) ?st1 = Some (0, st2)" and st: "st = st2"
    using assms by (auto simp: app_init_def app_cfgInit_def Let_def split: bind_splits if_splits)
  obtain p st3 where create: "session_create (ses_mem (ctrl_env env)) FAX_SESSION_MODE_CTRL 0 FAX_SESSION_DIR_IN ?st1 = (p, st3)"
    by (rule prod.exhaust)
  with fd obtain a where p: "p = Some a" by (cases p) (simp_all add: app_InitControlFD_def)
  note c = create_some [OF create [unfolded p]]
  have zero: "heap ?st1 = (\<lambda>_. None)" "port_pool_of ?st1 = port_pool_init" "id_pool_of ?st1 = id_pool_init"
    unfolding app_zero_def app.simps by (rule refl)+
  have "card (dom (heap ?st1)) < 1024" unfolding zero(1) by simp
  note res3 = resources_create [OF resources_start [OF zero] this create [unfolded p]]
  obtain s where s: "heap st3 = (heap ?st1)(a \<mapsto> s)" "mode s = FAX_SESSION_MODE_CTRL" "loc_port s = 0" "\<not> FLAG_THREAD_ACTIVE s"
    using c(3) by auto
  have tab3: "sessions st3 = sessions ?st1" "pfds st3 = pfds ?st1" "local_port st3 = local_port ?st1"
    "local_ip st3 = local_ip ?st1" "threads st3 = []" "next_ptr st3 = 1" "a = 0"
    using arg_cong [OF c(4), of sessions] arg_cong [OF c(4), of pfds] arg_cong [OF c(4), of local_port]
      arg_cong [OF c(4), of local_ip] arg_cong [OF c(4), of threads] c(1,2)
    unfolding app_zero_def by simp_all
  obtain res st4 where ctl: "session_initCtrl (ctrl_env env) (Some a) st3 = Some (res, st4)" and res: "res = 0"
    using fd create p
    by (auto simp: app_InitControlFD_def split: bind_splits if_splits)
  let ?s1 = "s\<lparr>loc_ip := local_ip st3, loc_port := local_port st3\<rparr>"
  obtain fd' st5 where l: "session_createListener (ctrl_env env) (put st3 a ?s1) = (fd', st5)" by (rule prod.exhaust)
  with ctl res s(1) have fd': "0 < fd'" and st4: "st4 = put st5 a (?s1\<lparr>fds := fd'\<rparr>)"
    by (auto simp: session_initCtrl_def split: if_splits)
  note l5 = createListener_cases [OF l]
  have lp: "loc_port s \<notin> port_handles" "loc_port ?s1 \<notin> port_handles"
    using s(3) port_zero ctrl_port tab3(3) by simp_all
  have "resources (put st3 a ?s1)"
    using s(1) lp by (intro resources_put_control [OF res3, of _ s]) simp_all
  then have res5: "resources st5" using l5(3) by blast
  have heap5: "heap st5 a = Some ?s1" using l5(1) by simp
  have res4: "resources st4" unfolding st4
    by (rule resources_put_control [OF res5 heap5 lp(2)]) (use lp in simp_all)
  have tab4: "sessions st4 = sessions ?st1" "pfds st4 = pfds ?st1" "threads st4 = []" "local_ip st4 = iface_ip env" "next_ptr st4 = 1"
    using l5(2) tab3 by (simp_all add: st4 tables_same_def)
  have heap4: "heap st4 = [a \<mapsto> ?s1\<lparr>fds := fd'\<rparr>]" using l5(1) s(1) by (simp add: st4 app_zero_def)
  have st2: "st2 = st4\<lparr>pfds := (pfds st4)[0 := (pfds st4 ! 0)\<lparr>poll_fd := fd'\<rparr>], sessions := (sessions st4)[0 := Some a], session_cnt := 1\<rparr>"
    using fd create p ctl res heap4 tab4 by (auto simp: app_InitControlFD_def array_simps)
  have ctrl: "control_at st2 a"
    using s(2,4) fd' heap4 tab4 by (simp add: control_at_def slot_holds_def st2 ses_of_def)
  have "same_resources st4 st2" by (simp add: st2 same_resources_def)
  with res4 have "resources st2" using resources_same by blast
  moreover have "shape st2 a Suc (entries [])"
    using ctrl tab4 heap4 by (simp add: shape_def st2 threads_ok_def)
  ultimately have "app_ok st a []" by (simp add: app_ok_def twins_def st st2)
  moreover have "local_ip st = iface_ip env" "next_ptr st = 1" "threads st = []" using tab4 by (simp_all add: st st2)
  ultimately show ?thesis by blast
qed

section \<open>The table of calls in the state\<close>

text \<open>
  \<open>calls_of\<close> reads the calls off the session array: a row for every incoming leg. It is the
  abstraction function; in the shape of the invariant it is the table of the calls.
\<close>

definition slot_rows :: "app \<Rightarrow> session_ptr \<Rightarrow> call_row list" where
  "slot_rows st p =
     (case p of
        None \<Rightarrow> []
      | Some a \<Rightarrow>
          (case heap st a of
             None \<Rightarrow> []
           | Some s \<Rightarrow> if FLAG_IN s then [call_row_of st (a, the (peer_ses s))] else []))"

definition calls_of :: "app \<Rightarrow> call_row list" where
  "calls_of st = concat (map (\<lambda>i. slot_rows st (sessions st ! i)) [1..<nat (session_cnt st)])"

definition entry_rows :: "app \<Rightarrow> entry \<Rightarrow> call_row list" where
  "entry_rows st e = (case e of Some (a, b, True) \<Rightarrow> [call_row_of st (a, b)] | _ \<Rightarrow> [])"

lemma entry_rows_entries: "concat (map (entry_rows st) (entries calls)) = table st calls"
proof (induction calls)
  case (Cons x calls)
  then show ?case
    by (cases x) (auto simp: entry_rows_def table_def)
qed (simp add: table_def)

lemma calls_of_table:
  assumes "app_ok st c calls"
  shows "calls_of st = table st calls"
proof -
  have shape: "shape st c Suc (entries calls)" and n: "nat (session_cnt st) = Suc (length (entries calls))"
    using assms by (simp_all add: app_ok_def)
  have row: "slot_rows st (sessions st ! Suc k) = entry_rows st (entries calls ! k)" if k: "k < length (entries calls)" for k
  proof -
    have at: "entry_at st (Suc k) (entries calls ! k)" using shape k by (simp add: shape_def)
    show ?thesis
    proof (cases "entries calls ! k")
      case None
      with at show ?thesis by (simp add: entry_at_None slot_rows_def entry_rows_def)
    next
      case (Some x)
      obtain a b d where "x = (a, b, d)" by (metis prod_cases3)
      with Some at show ?thesis
        by (auto simp: entry_at_leg slot_holds_def slot_rows_def entry_rows_def leg_session_def split: bool.splits)
    qed
  qed
  have "[1..<Suc (length (entries calls))] = map Suc [0..<length (entries calls)]" by (simp only: map_Suc_upt One_nat_def)
  then have "map (\<lambda>i. slot_rows st (sessions st ! i)) [1..<Suc (length (entries calls))] =
      map (\<lambda>k. slot_rows st (sessions st ! Suc k)) [0..<length (entries calls)]" by (simp add: comp_def)
  also have "\<dots> = map (\<lambda>k. entry_rows st (entries calls ! k)) [0..<length (entries calls)]"
    by (rule map_cong [OF refl]) (simp add: row)
  also have "\<dots> = map (entry_rows st) (entries calls)"
    using arg_cong [OF map_nth [of "entries calls"], of "map (entry_rows st)"] unfolding map_map comp_def .
  finally show ?thesis unfolding calls_of_def n entry_rows_entries [symmetric] by (rule arg_cong)
qed

section \<open>Passes\<close>

lemma poll_ok:
  assumes "app_ok st c calls"
  shows "app_ok (poll env st) c calls" "table (poll env st) calls = table st calls"
proof -
  let ?st = "poll env st"
  have same: "heap ?st = heap st" "sessions ?st = sessions st" "session_cnt ?st = session_cnt st" "threads ?st = threads st"
    "next_ptr ?st = next_ptr st" "same_resources st ?st" "length (pfds ?st) = length (pfds st)"
    by (simp_all add: poll_def same_resources_def)
  have fd: "poll_fd (pfds ?st ! i) = poll_fd (pfds st ! i)" if "i < length (pfds st)" for i
    using that by (simp add: poll_def nth_enumerate_eq)
  have ses: "ses_of ?st x = ses_of st x" for x by (simp add: ses_of_def same(1))
  have shape: "shape st c Suc (entries calls)" "length calls \<le> 39" "resources st" "session_cnt st = 1 + 2 * int (length calls)" "twins st calls"
    using assms by (simp_all add: app_ok_def)
  have len: "length (pfds st) = 80" using shape(1) by (simp add: shape_def)
  have "entry_at ?st (Suc k) (entries calls ! k)" if k: "k < length (entries calls)" for k
  proof -
    have "Suc k < 80" using k shape(2) by simp
    then have "entry_at ?st (Suc k) (entries calls ! k) = entry_at st (Suc k) (entries calls ! k)"
      using fd len by (intro entry_at_cong) (simp_all add: same)
    with shape(1) k show ?thesis by (simp add: shape_def)
  qed
  moreover have "control_at ?st c"
    using shape(1) fd [of 0] len by (simp add: shape_def control_at_def slot_holds_def ses same)
  moreover have "threads_ok ?st" using shape(1) by (simp add: shape_def threads_ok_def same)
  ultimately have "shape ?st c Suc (entries calls)" using shape(1) by (simp add: shape_def same)
  moreover have "resources ?st" by (rule resources_same [OF shape(3) same(6)])
  moreover have "twins ?st calls" using shape(5) by (simp add: twins_def ses)
  ultimately show "app_ok ?st c calls" using shape(2,4) by (simp add: app_ok_def same)
  show "table ?st calls = table st calls" by (rule table_cong) (simp_all add: leg_row_def ses)
qed

lemma procSessions_table:
  assumes "app_ok st c calls" "app_procSessions recv st = Some st'"
  shows "app_ok st' c (filter (\<lambda>x. x \<noteq> None) calls)" "table st' (filter (\<lambda>x. x \<noteq> None) calls) = table st calls"
proof -
  show "app_ok st' c (filter (\<lambda>x. x \<noteq> None) calls)" by (rule procSessions_ok(1) [OF assms])
  obtain st1 where st1: "served st st1" "st' = st1\<lparr>session_cnt := session_cnt st'\<rparr>"
    using procSessions_ok(2) [OF assms] by blast
  have heap: "heap st' = heap st1" using arg_cong [OF st1(2), of heap] by simp
  have "table st' calls = table st calls"
  proof (rule table_cong)
    fix x
    have "rel_option moved (heap st x) (heap st' x)" using st1(1) by (simp add: served_def heap)
    then show "ses_call_id (ses_of st' x) = ses_call_id (ses_of st x) \<and> leg_row st' x = leg_row st x"
      by (cases "heap st x"; cases "heap st' x") (auto simp: ses_of_def leg_row_def moved_def keeps_def)
  qed
  then show "table st' (filter (\<lambda>x. x \<noteq> None) calls) = table st calls"
    by (simp only: table_def active_filter)
qed

lemma app_ok_run:
  assumes "app_ok st c calls"
  shows "app_ok (st\<lparr>app_run := r\<rparr>) c calls" "table (st\<lparr>app_run := r\<rparr>) calls = table st calls"
proof -
  let ?st = "st\<lparr>app_run := r\<rparr>"
  have ses: "ses_of ?st x = ses_of st x" for x by (simp add: ses_of_def)
  have e: "entry_at ?st i x = entry_at st i x" for i x by (rule entry_at_cong) simp_all
  have "same_resources st ?st" by (simp add: same_resources_def)
  then have "resources ?st" using assms resources_same by (auto simp: app_ok_def)
  moreover have "control_at ?st c = control_at st c" by (simp add: control_at_def slot_holds_def ses)
  ultimately show "app_ok ?st c calls"
    using assms by (simp add: app_ok_def shape_def threads_ok_def twins_def e ses)
  show "table ?st calls = table st calls" by (rule table_cong) (simp_all add: leg_row_def ses)
qed

text \<open>One pass of the main loop: nothing, or what the command does.\<close>

lemma pass_refines_lemma:
  assumes ok: "app_ok st c calls" and os: "os_ok (cmd_setup (pass_cmd env))" and run: "app_pass env st = Some (st', sent)"
  shows "\<exists>calls' m. app_ok st' c calls' \<and> (m = None \<or> m = parsed (pass_cmd env)) \<and>
    table_step m (table st calls) (table st' calls')"
proof -
  let ?calls = "filter (\<lambda>x. x \<noteq> None) calls"
  obtain st2 st3 where st2: "app_procSessions (pass_recv env) (poll env st) = Some st2"
    and st3: "(if poll_res env > 0 then map_option (\<lambda>(r, st', sent). (st', sent)) (app_procCMD (pass_cmd env) st2)
        else Some (st2, [])) = Some (st3, sent)"
    and st': "st' = (case pass_signal env of None \<Rightarrow> st3 | Some s \<Rightarrow> sigint_handler s st3)"
    using run unfolding app_pass_def Let_def by (auto split: bind_splits)
  note ok1 = poll_ok [OF ok, of env]
  note ok2 = procSessions_table [OF ok1(1) st2]
  have "\<exists>calls' m. app_ok st3 c calls' \<and> (m = None \<or> m = parsed (pass_cmd env)) \<and>
    table_step m (table st2 ?calls) (table st3 calls')"
  proof (cases "poll_res env > 0 \<and> revents (pfds st2 ! 0)")
    case True
    have shape: "sessions st2 ! 0 = Some c" "length (sessions st2) = 80" "length (pfds st2) = 80"
      using ok2(1) by (simp_all add: app_ok_def shape_def control_at_def slot_holds_def)
    obtain r where "session_procCMD (pass_cmd env) (Some c) st2 = Some (r, st3, sent)"
      using st3 True shape by (auto simp: app_procCMD_def array_simps)
    from command_refines [OF ok2(1) os this] show ?thesis by blast
  next
    case False
    have "length (pfds st2) = 80" using ok2(1) by (simp add: app_ok_def shape_def)
    with False st3 have "st3 = st2" by (auto simp: app_procCMD_def array_simps split: if_splits)
    with ok2(1) table_step.nothing [of None "table st2 ?calls"] show ?thesis by auto
  qed
  then obtain calls' m where r: "app_ok st3 c calls'" "m = None \<or> m = parsed (pass_cmd env)"
    "table_step m (table st2 ?calls) (table st3 calls')" by blast
  have "app_ok st' c calls' \<and> table st' calls' = table st3 calls'"
    using app_ok_run [OF r(1), of False] r(1) by (auto simp: st' sigint_handler_def split: option.splits)
  moreover have "table st2 ?calls = table st calls" using ok1(2) ok2(2) by (simp only:)
  ultimately have "app_ok st' c calls'" "table_step m (table st calls) (table st' calls')" using r(3) by simp_all
  with r(2) show ?thesis by blast
qed

section \<open>The fax threads\<close>

lemma build_keeps_ok:
  assumes "udptl_build_packet u msg = Some (len, pkt, u')" "udptl_ok u"
  shows "udptl_ok u'"
proof (cases "valid_message msg")
  case True
  then have s: "udptl_ok (stored u msg)" using assms(2) by (intro stored_ok)
  moreover from this have "udptl_ok ((stored u msg)\<lparr>tx_seq_no := tx_seq_no u + 1\<rparr>)"
    using assms(2) by (simp add: udptl_ok_def)
  ultimately show ?thesis
    using assms(1) unfolding build_packet_eq [OF True assms(2)]
    by (auto simp: Let_def split: option.splits if_splits)
next
  case False
  then have "int (length msg) < 1 \<or> int (length msg) > int LOCAL_FAX_MAX_DATAGRAM" by (auto simp: valid_message_def not_le)
  with assms show ?thesis by (auto simp: udptl_build_packet_def)
qed

lemma tx_handler_live:
  assumes "t38_tx_packet_handler send fp buf count = Some (r, fp', sent)" "fax_live fp"
  shows "fax_live fp'"
  using assms build_keeps_ok
  by (fastforce simp: t38_tx_packet_handler_def fax_live_def Let_def split: block.splits bind_splits if_splits prod.splits)

lemma rxAUDIO_live:
  assumes "fax_rxAUDIO send (Some fp) True len = Some (r, fp', sent)" "fax_live fp"
  shows "\<exists>f. fp' = Some f \<and> fax_live f"
proof -
  obtain gw where gw: "t38_gw_state fp = Block gw" using assms(2) by (auto simp: fax_live_def)
  obtain res gw' packet where rx: "t38_gateway_rx gw (c_div len 2) = Some (res, gw', packet)"
    using assms(1) gw by (auto simp: fax_rxAUDIO_def split: bind_splits)
  have live: "fax_live (fp\<lparr>t38_gw_state := Block gw'\<rparr>)" using assms(2) by (auto simp: fax_live_def)
  show ?thesis
  proof (cases packet)
    case None
    with assms(1) gw rx live show ?thesis by (auto simp: fax_rxAUDIO_def Let_def)
  next
    case (Some p)
    obtain pkt count where "p = (pkt, count)" by (rule prod.exhaust)
    with assms(1) gw rx Some obtain r' fp2 where
      "t38_tx_packet_handler send (fp\<lparr>t38_gw_state := Block gw'\<rparr>) pkt count = Some (r', fp2, sent)" "fp' = Some fp2"
      by (auto simp: fax_rxAUDIO_def Let_def split: bind_splits)
    with tx_handler_live live show ?thesis by blast
  qed
qed

lemma procFax_ok:
  assumes ok: "app_ok st c calls" and run: "session_procFax env p st = Some (st', sent)"
  shows "app_ok st' c calls" "table st' calls = table st calls"
proof -
  obtain s len where s: "deref st p = Some s"
    and rest: "(case peer_ses s of None \<Rightarrow> Some (st, [])
       | Some b \<Rightarrow> do { t \<leftarrow> heap st b; (_, fp, sent) \<leftarrow> fax_rxAUDIO (tx_send env) (Some (fax t)) True len;
           fp' \<leftarrow> fp; Some (put st b (t\<lparr>fax := fp'\<rparr>), map (session_sendMsg t) sent) }) = Some (st', sent)"
    using run by (auto simp: session_procFax_def split: bind_splits)
  have "app_ok st' c calls \<and> table st' calls = table st calls"
  proof (cases "peer_ses s")
    case None
    with rest ok show ?thesis by simp
  next
    case (Some b)
    with rest obtain t r fp f sent' where t: "heap st b = Some t"
      and rx: "fax_rxAUDIO (tx_send env) (Some (fax t)) True len = Some (r, fp, sent')" "fp = Some f"
      and st': "st' = put st b (t\<lparr>fax := f\<rparr>)"
      by (auto split: bind_splits)
    have "fax_live (fax t) \<Longrightarrow> fax_live f" using rxAUDIO_live [OF rx(1)] rx(2) by auto
    then have "keeps t (t\<lparr>fax := f\<rparr>)" by (simp add: keeps_def)
    then have "app_ok st' c calls" unfolding st' by (rule app_ok_keeps [OF ok t])
    moreover have "table st' calls = table st calls"
      by (rule table_cong) (use t in \<open>auto simp: st' ses_of_put leg_row_def ses_of_def\<close>)
    ultimately show ?thesis ..
  qed
  then show "app_ok st' c calls" "table st' calls = table st calls" by blast+
qed

lemma thread_pass_ok:
  assumes "app_ok st c calls" "fax_thread_pass e1 e2 a st = Some (st', sent)"
  shows "app_ok st' c calls" "table st' calls = table st calls"
proof -
  obtain st1 sent1 sent2 q where "session_procFax e1 (Some a) st = Some (st1, sent1)"
    and "session_procFax e2 q st1 = Some (st', sent2)"
    using assms(2) by (auto simp: fax_thread_pass_def split: bind_splits)
  with procFax_ok [OF assms(1)] procFax_ok [of st1 c calls] show "app_ok st' c calls" "table st' calls = table st calls"
    by metis+
qed

lemma app_ok_threads:
  assumes "app_ok st c calls" "\<And>t. t \<in> set ts \<Longrightarrow> \<exists>u \<in> set (threads st). thread_arg t = thread_arg u \<and> (cancelled u \<longrightarrow> cancelled t)"
  shows "app_ok (st\<lparr>threads := ts\<rparr>) c calls" "table (st\<lparr>threads := ts\<rparr>) calls = table st calls"
proof -
  let ?st = "st\<lparr>threads := ts\<rparr>"
  have ses: "ses_of ?st x = ses_of st x" for x by (simp add: ses_of_def)
  have e: "entry_at ?st i x = entry_at st i x" for i x by (rule entry_at_cong) simp_all
  have "same_resources st ?st" by (simp add: same_resources_def)
  then have "resources ?st" using assms resources_same by (auto simp: app_ok_def)
  moreover have "control_at ?st c = control_at st c" by (simp add: control_at_def slot_holds_def ses)
  moreover have "threads_ok ?st"
    unfolding threads_ok_def
  proof
    fix t assume "t \<in> set (threads ?st)"
    then obtain u where "u \<in> set (threads st)" "thread_arg t = thread_arg u" "cancelled u \<longrightarrow> cancelled t"
      using assms(2) by auto
    then show "thread_arg t < next_ptr ?st \<and>
        (\<not> cancelled t \<longrightarrow> (\<exists>s. heap ?st (thread_arg t) = Some s \<and> FLAG_THREAD_ACTIVE s))"
      using assms(1) by (auto simp: app_ok_def shape_def threads_ok_def)
  qed
  ultimately show "app_ok ?st c calls"
    using assms by (simp add: app_ok_def shape_def twins_def e ses)
  show "table ?st calls = table st calls" by (rule table_cong) (simp_all add: leg_row_def ses)
qed

section \<open>The transition system\<close>

text \<open>
  \<open>main_pass\<close>: one pass of the main loop. A fax thread sleeps two seconds after its start
  (\<open>wakes\<close>), then runs passes (\<open>works\<close>); a cancelled one ends at its next sleep.
\<close>

inductive step :: "app \<Rightarrow> app \<Rightarrow> bool" where
  main_pass: "\<lbrakk>app_run st; os_ok (cmd_setup (pass_cmd env)); app_pass env st = Some (st', sent)\<rbrakk> \<Longrightarrow> step st st'"
| wakes: "\<lbrakk>threads st = ts @ t # us; thread_phase t = Starting; \<not> cancelled t\<rbrakk> \<Longrightarrow>
    step st (st\<lparr>threads := ts @ t\<lparr>thread_phase := Running\<rparr> # us\<rparr>)"
| works: "\<lbrakk>t \<in> set (threads st); thread_phase t = Running; \<not> cancelled t;
    fax_thread_pass e1 e2 (thread_arg t) st = Some (st', sent)\<rbrakk> \<Longrightarrow> step st st'"
| ends: "\<lbrakk>threads st = ts @ t # us; cancelled t\<rbrakk> \<Longrightarrow> step st (st\<lparr>threads := ts @ us\<rparr>)"

inductive reachable :: "start_env \<Rightarrow> app \<Rightarrow> bool" for env where
  start: "app_init env app_zero = Some (0, st) \<Longrightarrow> reachable env st"
| steps: "reachable env st \<Longrightarrow> step st st' \<Longrightarrow> reachable env st'"

lemma step_ok:
  assumes "step st st'" "app_ok st c calls"
  shows "\<exists>calls' m. app_ok st' c calls' \<and> table_step m (table st calls) (table st' calls')"
  using assms
proof (cases rule: step.cases)
  case (main_pass env sent)
  with pass_refines_lemma [OF assms(2) main_pass(2,3)] show ?thesis by blast
next
  case (wakes ts t us)
  have "app_ok st' c calls" "table st' calls = table st calls"
    unfolding wakes(1) by (rule app_ok_threads [OF assms(2)]; use wakes(2) in auto)+
  with table_step.nothing [of None] show ?thesis by (metis option.distinct(1))
next
  case (works t e1 e2 sent)
  with thread_pass_ok [OF assms(2) works(4)] table_step.nothing [of None] show ?thesis by (metis option.distinct(1))
next
  case (ends ts t us)
  have "app_ok st' c calls" "table st' calls = table st calls"
    unfolding ends(1) by (rule app_ok_threads [OF assms(2)]; use ends(2) in auto)+
  with table_step.nothing [of None] show ?thesis by (metis option.distinct(1))
qed

lemma reachable_ok: "reachable env st \<Longrightarrow> \<exists>c calls. app_ok st c calls"
proof (induction rule: reachable.induct)
  case (start st)
  then show ?case using app_init_ok by blast
next
  case (steps st st')
  then show ?case using step_ok by blast
qed

section \<open>What stays\<close>

lemma poll_config: "same_config st (poll env st)"
  by (simp add: poll_def same_config_def)

lemma pass_config:
  assumes "app_ok st c calls" "app_pass env st = Some (st', sent)"
  shows "local_ip st' = local_ip st" "pass_signal env = None \<Longrightarrow> app_run st' = app_run st"
proof -
  obtain st2 st3 where st2: "app_procSessions (pass_recv env) (poll env st) = Some st2"
    and st3: "(if poll_res env > 0 then map_option (\<lambda>(r, st', sent). (st', sent)) (app_procCMD (pass_cmd env) st2)
        else Some (st2, [])) = Some (st3, sent)"
    and st': "st' = (case pass_signal env of None \<Rightarrow> st3 | Some s \<Rightarrow> sigint_handler s st3)"
    using assms(2) unfolding app_pass_def Let_def by (auto split: bind_splits)
  obtain st1 n where st1: "served (poll env st) st1" "st2 = st1\<lparr>session_cnt := n\<rparr>"
    using procSessions_ok(2) [OF poll_ok(1) [OF assms(1)] st2] by (elim exE conjE) (rule that)
  then have "same_config (poll env st) st2" by (simp add: served_def same_config_def)
  moreover have "same_config st2 st3"
    using st3 procCMD_config by (auto simp: app_procCMD_def split: if_splits bind_splits)
  ultimately have "same_config st st3" using poll_config same_config_trans by metis
  then show "local_ip st' = local_ip st" "pass_signal env = None \<Longrightarrow> app_run st' = app_run st"
    by (auto simp: st' same_config_def sigint_handler_def split: option.splits)
qed

lemma procFax_config: "session_procFax env p st = Some (st', sent) \<Longrightarrow> same_config st st'"
  by (auto simp: session_procFax_def split: bind_splits option.splits)

lemma thread_pass_config: "fax_thread_pass e1 e2 a st = Some (st', sent) \<Longrightarrow> same_config st st'"
  by (auto simp: fax_thread_pass_def split: bind_splits dest!: procFax_config intro: same_config_trans)

lemma reachable_local_ip: "reachable env st \<Longrightarrow> local_ip st = iface_ip env"
proof (induction rule: reachable.induct)
  case (start st)
  then show ?case using app_init_ok by blast
next
  case (steps st st')
  obtain c calls where ok: "app_ok st c calls" using reachable_ok [OF steps(1)] by blast
  from steps(2) have "local_ip st' = local_ip st"
    by (cases rule: step.cases) (use pass_config(1) [OF ok] thread_pass_config in \<open>auto simp: same_config_def\<close>)
  with steps show ?case by simp
qed

section \<open>A pass without datagrams\<close>

text \<open>
  The loop over the sessions always returns when no socket is ready, whatever it has to
  move. After a failed \<open>poll\<close> it works with the old \<open>revents\<close>.
\<close>

lemma proc_sessions_loop_idle:
  assumes "length (sessions st) = 80" "length (pfds st) = 80" "i + n \<le> 80" "skip < i"
    and "\<forall>k. i \<le> k \<and> k < i + n \<longrightarrow> \<not> revents (pfds st ! k) \<and>
      (poll_fd (pfds st ! k) \<noteq> -1 \<longrightarrow> (\<exists>a. sessions st ! k = Some a \<and> heap st a \<noteq> None))"
  shows "\<exists>r. proc_sessions_loop recv i n skip st = Some r"
  using assms
proof (induction n arbitrary: i skip st)
  case (Suc n)
  have i: "i < 80" "arr_get (pfds st) (int i) = Some (pfds st ! i)" using Suc.prems(2,3) by (simp_all add: arr_get_nat)
  have at: "\<not> revents (pfds st ! i)" "poll_fd (pfds st ! i) \<noteq> -1 \<Longrightarrow> \<exists>a. sessions st ! i = Some a \<and> heap st a \<noteq> None"
    using Suc.prems(5) by auto
  show ?case
  proof (cases "poll_fd (pfds st ! i) = -1")
    case True
    have "\<exists>r. proc_sessions_loop recv (i + 1) n (skip + 1) st = Some r"
      using Suc.prems by (intro Suc.IH) auto
    with True i show ?thesis by simp
  next
    case False
    then obtain a s where a: "sessions st ! i = Some a" "heap st a = Some s" using at(2) by auto
    let ?j = "i - skip"
    let ?st1 = "(put st a (s\<lparr>sidx := int i - int skip\<rparr>))\<lparr>sessions := (sessions st)[?j := Some a], pfds := (pfds st)[?j := pfds st ! i]\<rparr>"
    have j: "int i - int skip = int ?j" "?j < 80" "?j \<le> i" using Suc.prems(4) i by simp_all
    define st1 where "st1 = (if skip > 0 then ?st1 else st)"
    have move: "(if skip > 0 then move_down i skip st else Some st) = Some st1"
      using Suc.prems(1,2) i a j(2)
      by (simp add: move_down_def arr_get_nat arr_set_nat st1_def j(1) del: of_nat_diff)
    have same: "pfds st1 ! k = pfds st ! k" "sessions st1 ! k = sessions st ! k" if "i < k" for k
      using that j(3) by (simp_all add: st1_def)
    have len: "length (sessions st1) = 80" "length (pfds st1) = 80" using Suc.prems(1,2) by (simp_all add: st1_def)
    have dom: "heap st1 x = None \<longleftrightarrow> heap st x = None" for x using a(2) by (simp add: st1_def)
    have "pfds st1 ! i = pfds st ! i"
      using Suc.prems(2) i(1) by (simp add: st1_def nth_list_update)
    then have "serve (recv i) i st1 = Some st1"
      using at(1) len i by (simp add: serve_def arr_get_nat)
    moreover have "\<exists>r. proc_sessions_loop recv (i + 1) n skip st1 = Some r"
      using Suc.prems len same dom by (intro Suc.IH) auto
    ultimately show ?thesis using i(2) False move by auto
  qed
qed simp

lemma procSessions_idle:
  assumes "app_ok st c calls" "\<forall>i. 1 \<le> i \<and> int i < session_cnt st \<longrightarrow> \<not> revents (pfds st ! i)"
  shows "\<exists>st'. app_procSessions recv st = Some st'"
proof -
  let ?n = "nat (session_cnt st - 1)"
  have shape: "shape st c Suc (entries calls)" and n: "?n = length (entries calls)" "length calls \<le> 39" "session_cnt st = 1 + int ?n"
    using assms(1) by (simp_all add: app_ok_def)
  have "\<exists>a. sessions st ! k = Some a \<and> heap st a \<noteq> None" if k: "1 \<le> k" "k < 1 + ?n" "poll_fd (pfds st ! k) \<noteq> -1" for k
  proof -
    obtain j where j: "k = Suc j" "j < length (entries calls)" using k(1,2) n(1) by (cases k) auto
    then have "entry_at st k (entries calls ! j)" using shape by (simp add: shape_def)
    with k(3) show ?thesis by (cases "entries calls ! j") (auto simp: entry_at_None entry_at_def slot_holds_def)
  qed
  moreover have "1 + ?n \<le> 80" using n(1,2) by simp
  moreover have "\<not> revents (pfds st ! k)" if "1 \<le> k" "k < 1 + ?n" for k using assms(2) that n(3) by simp
  ultimately have "\<exists>r. proc_sessions_loop recv 1 ?n 0 st = Some r"
    using shape by (intro proc_sessions_loop_idle) (simp_all add: shape_def)
  then show ?thesis by (auto simp: app_procSessions_def)
qed

end
