(* ===== verification/Session_Service.thy ===== *)
theory Session_Service
  imports Process Msg_Roundtrip
begin

text \<open>
  What a peer of the control session can rely on: a SETUP that the operating system does not
  hinder is answered and adds a call; what does not parse is answered with an error; a
  RELEASE always completes; and the cases in which the code fails: a fortieth call, a leg
  whose socket cannot be set up.
\<close>

section \<open>A SETUP that nothing hinders\<close>

definition leg_env_ok :: "init_env \<Rightarrow> bool" where
  "leg_env_ok env \<longleftrightarrow> ses_mem env \<and> resolve_res env = 0 \<and> 0 < sock_res env \<and> sockopt_ok env \<and> bind_ok env \<and>
     fax_mem_ok (fax_mem env)"

definition setup_env_ok :: "setup_env \<Rightarrow> bool" where
  "setup_env_ok env \<longleftrightarrow> leg_env_ok (in_env env) \<and> leg_env_ok (out_env env) \<and> thread_res env = 0 \<and> answer_mem env"

lemma setup_env_os_ok: "setup_env_ok env \<Longrightarrow> os_ok env"
  by (simp add: setup_env_ok_def leg_env_ok_def os_ok_def)

lemma create_good:
  assumes "0 \<le> idx" "m \<noteq> FAX_SESSION_MODE_UNKNOWN"
  shows "\<exists>s st'. session_create True m idx dir st = (Some (next_ptr st), st') \<and>
    heap st' = (heap st)(next_ptr st \<mapsto> s) \<and> local_ip st' = local_ip st"
proof -
  obtain i ids where "session_idGetNext (dir = FAX_SESSION_DIR_IN) (id_pool_of st) = (i, ids)" by (rule prod.exhaust)
  then show ?thesis using assms by (simp add: session_create_def put_def Let_def) auto
qed

lemma session_init_good:
  assumes "heap st a = Some s" "length cid < 32" "leg_env_ok env"
  shows "\<exists>st' s'. session_init env (Some a) cid ip port st = Some (0, st') \<and> heap st' = (heap st)(a \<mapsto> s') \<and>
    loc_ip s' = local_ip st"
proof -
  obtain p pool where pool: "app_portGetFree (port_pool_of st) = (p, pool)" by (rule prod.exhaust)
  let ?s1 = "s\<lparr>loc_ip := local_ip st, loc_port := p mod 65536, rem_ip := ip, rem_port := port,
      ses_call_id := cid, remaddr := (ip, port)\<rparr>"
  have mem: "fax_mem_ok (fax_mem env)" using assms(3) by (simp add: leg_env_ok_def)
  obtain fp where fp: "fax_sessionInit (fax_mem env) (ses_id s) cid (fax s) = Some (0, fp)"
    using sessionInit_total [OF mem assms(2)] by blast
  show ?thesis
    using assms fp
    by (simp add: session_init_def pool c_sprintf_def get_hostAddr_def session_createListener_def leg_env_ok_def Let_def put_def)
      (rule_tac x = "?s1\<lparr>fax := fp, fds := sock_res env\<rparr>" in exI, simp)
qed

lemma cfg_add_good:
  assumes "heap st a = Some s" "session_cnt st = int n" "n < 80" "length (sessions st) = 80" "length (pfds st) = 80"
  obtains st' where "cfg_add a st = Some st'" "heap st' = heap st" "session_cnt st' = int (n + 1)"
    "length (sessions st') = 80" "length (pfds st') = 80"
proof -
  have "(int n + 1) mod 256 = int (n + 1)" using assms(3) by (intro mod_pos_pos_trivial [THEN trans]) simp_all
  then show ?thesis using assms that by (simp add: cfg_add_def arr_get_nat arr_set_nat)
qed

text \<open>Both legs are created, up to their entry in the tables.\<close>

lemma proc_setup_legs:
  assumes ok: "app_ok st c calls" and env: "setup_env_ok env"
    and m: "fax_mode m \<noteq> FAX_MODE_UNKNOWN" "dst_ip m = Some dip" "dst_port m = Some dport" "length cid < 32"
  shows "\<exists>a b s t st1. proc_setup env cid m st =
      do { st2 \<leftarrow> cfg_add a st1; st3 \<leftarrow> cfg_add b st2; Some (Some a, st3) } \<and>
    heap st1 a = Some s \<and> loc_ip s = local_ip st \<and> heap st1 b = Some t \<and>
    session_cnt st1 = int (2 * length calls + 1) \<and> length (sessions st1) = 80 \<and> length (pfds st1) = 80"
proof -
  have n: "length calls \<le> 39" using ok by (simp add: app_ok_def)
  have cnt: "session_cnt st = 1 + 2 * int (length calls)" using ok by (simp add: app_ok_def)
  have le: "in_env env = in_env env" "leg_env_ok (in_env env)" "leg_env_ok (out_env env)" "thread_res env = 0"
    using env by (simp_all add: setup_env_ok_def)
  then have mem: "ses_mem (in_env env)" "ses_mem (out_env env)" by (simp_all add: leg_env_ok_def)
  obtain om where om: "out_session_mode (fax_mode m) = Some om" "om \<noteq> FAX_SESSION_MODE_UNKNOWN"
    using m(1) by (cases "fax_mode m") (simp_all add: out_session_mode_def)
  let ?a = "next_ptr st"
  obtain s1 st1 where c1: "session_create True FAX_SESSION_MODE_GATEWAY (session_cnt st) FAX_SESSION_DIR_IN st = (Some ?a, st1)"
    and h1: "heap st1 = (heap st)(?a \<mapsto> s1)" "local_ip st1 = local_ip st"
    using create_good [of "session_cnt st" FAX_SESSION_MODE_GATEWAY FAX_SESSION_DIR_IN st] cnt by auto
  obtain st2 s2 where i2: "session_init (in_env env) (Some ?a) cid (src_ip m) (src_port m) st1 = Some (0, st2)"
    and h2: "heap st2 = (heap st1)(?a \<mapsto> s2)" "loc_ip s2 = local_ip st"
    using session_init_good [OF _ m(4) le(2), of st1 ?a s1 "src_ip m" "src_port m"] h1 by auto
  have res: "resources st" "resolve_res (in_env env) \<noteq> -100" "resolve_res (out_env env) \<noteq> -100"
    using ok le by (simp_all add: app_ok_def leg_env_ok_def)
  have card0: "card (dom (heap st)) \<le> 79" "finite (dom (heap st))"
    using ok card_live [of st c Suc "entries calls"] resources_owned(5) [of st] by (auto simp: app_ok_def)
  have card: "card (dom (heap st)) < 200" using card0 by simp
  note leg1 = new_leg_cases [OF c1 i2 res(1) card res(2)]
  have h2': "heap st2 = (heap st)(?a \<mapsto> s2)" using h2(1) h1(1) by simp
  have card2: "card (dom (heap st2)) < 200" using card0 leg1(3) by (simp add: h2' card_insert_if)
  have cfg2: "session_cnt st2 = session_cnt st" "sessions st2 = sessions st" "pfds st2 = pfds st"
    using leg1(5) by (simp_all add: cfg_same_def)
  let ?b = "next_ptr st2"
  obtain t3 st3 where c3: "session_create True om (session_cnt st2 + 1) FAX_SESSION_DIR_OUT st2 = (Some ?b, st3)"
    and h3: "heap st3 = (heap st2)(?b \<mapsto> t3)"
    using create_good [of "session_cnt st2 + 1" om FAX_SESSION_DIR_OUT st2] cnt cfg2(1) om(2) by auto
  obtain st4 t4 where i4: "session_init (out_env env) (Some ?b) cid dip dport st3 = Some (0, st4)"
    and h4: "heap st4 = (heap st3)(?b \<mapsto> t4)"
    using session_init_good [OF _ m(4) le(3), of st3 ?b t3 dip dport] h3 by auto
  note leg2 = new_leg_cases [OF c3 i4 leg1(4) card2 res(3)]
  have ab: "?a \<noteq> ?b" using leg1(2) by simp
  have h4': "heap st4 ?a = Some s2" "heap st4 ?b = Some t4" using h4 h3 h2' ab by simp_all
  have cfg4: "session_cnt st4 = int (2 * length calls + 1)" "length (sessions st4) = 80" "length (pfds st4) = 80"
    using leg2(5) cfg2 cnt ok by (simp_all add: cfg_same_def app_ok_def shape_def)
  let ?st4 = "start_thread ?a st4"
  have h: "heap ?st4 ?a = Some s2" "heap ?st4 ?b = Some t4" using h4' by (simp_all add: start_thread_def)
  let ?s' = "s2\<lparr>FLAG_THREAD_ACTIVE := True, peer_ses := Some ?b\<rparr>" and ?t' = "t4\<lparr>peer_ses := Some ?a\<rparr>"
  define st5 where "st5 = put (put ?st4 ?a ?s') ?b ?t'"
  have link: "link_legs ?a ?b ?st4 = Some st5"
    unfolding link_legs_eq [OF h ab] by (simp add: linked_def st5_def)
  have h5: "heap st5 ?a = Some ?s'" "heap st5 ?b = Some ?t'" "session_cnt st5 = int (2 * length calls + 1)"
    "length (sessions st5) = 80" "length (pfds st5) = 80" using ab cfg4 by (simp_all add: st5_def start_thread_def)
  have out: "setup_output env cid m om ?a st2 =
      do { st6 \<leftarrow> cfg_add ?a st5; st7 \<leftarrow> cfg_add ?b st6; Some (Some ?a, st7) }"
    using c3 i4 link m mem le by (simp add: setup_output_def)
  have "proc_setup env cid m st = do { st6 \<leftarrow> cfg_add ?a st5; st7 \<leftarrow> cfg_add ?b st6; Some (Some ?a, st7) }"
    unfolding out [symmetric] using c1 i2 om mem cnt n by (simp add: proc_setup_def)
  with h5 h2(2) show ?thesis
    by (rule_tac x = ?a in exI, rule_tac x = ?b in exI, rule_tac x = ?s' in exI, rule_tac x = ?t' in exI,
        rule_tac x = st5 in exI) simp
qed

lemma proc_setup_good:
  assumes ok: "app_ok st c calls" and n: "length calls \<le> 38" and env: "setup_env_ok env"
    and m: "fax_mode m \<noteq> FAX_MODE_UNKNOWN" "dst_ip m = Some dip" "dst_port m = Some dport" "length cid < 32"
  shows "\<exists>a st'. proc_setup env cid m st = Some (Some a, st') \<and> heap st' a \<noteq> None \<and> loc_ip (ses_of st' a) = local_ip st"
proof -
  obtain a b s t st1 where run: "proc_setup env cid m st =
      do { st2 \<leftarrow> cfg_add a st1; st3 \<leftarrow> cfg_add b st2; Some (Some a, st3) }"
    and h: "heap st1 a = Some s" "loc_ip s = local_ip st" "heap st1 b = Some t"
    and tab: "session_cnt st1 = int (2 * length calls + 1)" "length (sessions st1) = 80" "length (pfds st1) = 80"
    using proc_setup_legs [OF ok env m] by blast
  obtain st2 where a2: "cfg_add a st1 = Some st2" "heap st2 = heap st1" "session_cnt st2 = int (2 * length calls + 1 + 1)"
    "length (sessions st2) = 80" "length (pfds st2) = 80"
    by (rule cfg_add_good [OF h(1) tab(1) _ tab(2,3)]) (use n in auto)
  have hb: "heap st2 b = Some t" using a2(2) h(3) by simp
  obtain st3 where a3: "cfg_add b st2 = Some st3" "heap st3 = heap st2"
    by (rule cfg_add_good [OF hb a2(3) _ a2(4,5)]) (use n in auto)
  have "heap st3 a = Some s" using a3(2) a2(2) h(1) by simp
  with run a2(1) a3(1) h(2) show ?thesis by (simp add: ses_of_def)
qed

text \<open>Beyond the 39th call there is no room left for the second leg.\<close>

lemma proc_setup_full:
  assumes ok: "app_ok st c calls" and n: "length calls = 39" and env: "setup_env_ok env"
    and m: "fax_mode m \<noteq> FAX_MODE_UNKNOWN" "dst_ip m = Some dip" "dst_port m = Some dport" "length cid < 32"
  shows "proc_setup env cid m st = None"
proof -
  obtain a b s t st1 where run: "proc_setup env cid m st =
      do { st2 \<leftarrow> cfg_add a st1; st3 \<leftarrow> cfg_add b st2; Some (Some a, st3) }"
    and h: "heap st1 a = Some s"
    and tab: "session_cnt st1 = int (2 * length calls + 1)" "length (sessions st1) = 80" "length (pfds st1) = 80"
    using proc_setup_legs [OF ok env m] by blast
  obtain st2 where a2: "cfg_add a st1 = Some st2" "session_cnt st2 = int (2 * length calls + 1 + 1)"
    "length (sessions st2) = 80"
    by (rule cfg_add_good [OF h tab(1) _ tab(2,3)]) (use n in auto)
  have "cfg_add b st2 = None" using a2(2,3) n by (auto simp: cfg_add_def arr_set_def split: option.splits)
  with run a2(1) show ?thesis by simp
qed

section \<open>Datagrams\<close>

lemma chars_of_octets: "chars_of (octets_of s) = s"
  by (induction s) (simp_all add: chars_of_def octets_of_def unat_of_nat take_bit_nat_eq_self)

lemma length_octets_of [simp]: "length (octets_of s) = length s"
  by (simp add: octets_of_def)

lemma line_end_CR: "CHR 0x0D \<in> set (line_end ws)"
  by (induction ws) simp_all

text \<open>The first line of a message fits the buffer of \<open>msg2str\<close>.\<close>

lemma msg2str_message:
  assumes "length (message_text m) < 256"
  shows "\<exists>r. msg2str i (message_text m @ tail) = Some r"
proof -
  let ?P = "\<lambda>c. c \<notin> {CHR 0x0D, CHR 0x0A, NUL}" and ?s = "message_text m @ tail"
  have cr: "CHR 0x0D \<in> set (message_text m)" by (simp add: message_text_def line_end_CR)
  then have "takeWhile ?P ?s = takeWhile ?P (message_text m)" by (intro takeWhile_append1) auto
  moreover have "length (takeWhile ?P (message_text m)) < length (message_text m)"
    using cr by (metis (no_types, lifting) insertI1 length_takeWhile_le linorder_neqE_nat not_le set_takeWhileD takeWhile_eq_all_conv
        takeWhile_eq_take take_all_iff order_refl)
  ultimately show ?thesis using assms by (simp add: msg2str_def Let_def)
qed

text \<open>What is printed and sent as an answer: the text of the message, to the sender.\<close>

lemma send_answer_message:
  assumes "message_ok m" "message_parsed_ok m" "heap st c = Some s" "0 \<le> cmd_send_res env"
  shows "send_answer env c r (Some m) st = Some (r, st, [(fds s, remaddr s, octets_of (message_text m))])"
proof -
  let ?t = "message_text m"
  note len = length_message [OF assms(1)]
  have compose: "sig_msgCompose (Some m) True 256 = Some (int (length ?t), Some (c_strncpy ?t 256))"
    by (simp add: sig_msgCompose_def msg_bufCreate_ok [OF assms(1)])
  have buf: "take (length ?t) (c_strncpy ?t 256) = ?t" "\<exists>tail. c_strncpy ?t 256 = ?t @ tail"
    using len by (simp_all add: c_strncpy_def min_def)
  from buf(2) obtain tail where tail: "c_strncpy ?t 256 = ?t @ tail" by blast
  obtain d where "msg2str 0 (c_strncpy ?t 256) = Some d"
    using msg2str_message [OF len, of 0 tail] unfolding tail by blast
  moreover obtain p where "sig_msgPrint (Some m) True 512 = Some p"
    using message_parsed_printed [OF assms(2)] by blast
  ultimately show ?thesis
    using assms(3,4) len compose buf(1) by (simp add: send_answer_def session_sendMsg_def)
qed

text \<open>The control session after a datagram from \<open>(ip, port)\<close>.\<close>

definition heard :: "app \<Rightarrow> nat \<Rightarrow> session \<Rightarrow> int \<Rightarrow> int \<Rightarrow> app" where
  "heard st c s ip port = put st c (s\<lparr>remaddr := (ip, port), rem_ip := ip, rem_port := port\<rparr>)"

lemma recv_datagram:
  assumes "heap st c = Some s" "mode s = FAX_SESSION_MODE_CTRL" "length d \<le> n"
  shows "session_recvMsg (Received d ip port) c st n = Some (Some d, heard st c s ip port)"
  using assms by (simp add: session_recvMsg_def heard_def)

text \<open>A well-formed message is processed, whatever the rest of the buffer holds.\<close>

lemma command_message:
  assumes "heap st c = Some s" "mode s = FAX_SESSION_MODE_CTRL"
    and "cmd_recv env = Received (octets_of (message_text m)) ip port" "cmd_parse_mem env"
    and "message_ok m" "stale_ok m (cmd_stale env)"
  shows "session_procCMD env (Some c) st =
    do { (res, answer, st2) \<leftarrow> process_sig_message (cmd_setup env) (as_received m) (heard st c s ip port);
         send_answer env c (if res \<noteq> 0 then -3 else 0) answer st2 }"
proof -
  let ?t = "message_text m"
  note len = length_message [OF assms(5)]
  have recv: "session_recvMsg (cmd_recv env) c st 256 = Some (Some (octets_of ?t), heard st c s ip port)"
    unfolding assms(3) by (rule recv_datagram [OF assms(1,2)]) (use len in simp)
  note parse = message_parsed [OF assms(5,6)]
  have "message_parsed_ok (as_received m)" using parse_result [OF parse] by simp
  then obtain p where "sig_msgPrint (Some (as_received m)) True 512 = Some p"
    using message_parsed_printed by blast
  moreover obtain d where "msg2str 0 (?t @ cmd_stale env) = Some d" using msg2str_message [OF len] by blast
  ultimately show ?thesis
    using recv parse assms(4) by (simp add: session_procCMD_def chars_of_octets)
qed

lemma app_ok_control:
  assumes "app_ok st c calls"
  obtains s where "heap st c = Some s" "mode s = FAX_SESSION_MODE_CTRL" "sessions st ! 0 = Some c"
    "length (sessions st) = 80" "length (pfds st) = 80"
  using assms by (auto simp: app_ok_def shape_def control_at_def slot_holds_def)

lemma app_ok_heard:
  assumes "app_ok st c calls" "heap st c = Some s" "mode s = FAX_SESSION_MODE_CTRL"
  shows "app_ok (heard st c s ip port) c calls" "table (heard st c s ip port) calls = table st calls"
  using recv_control(1,2) [OF assms(1) recv_datagram [OF assms(2,3), of "[]" 0 ip port]] by simp_all

end
