(* ===== verification/Call_Service.thy ===== *)
theory Call_Service
  imports Session_Service
begin

text \<open>
  The commands of the control session on every reachable state of the process: their effect
  on the table of calls, their answers, and where they fail.
\<close>

section \<open>A process that is up\<close>

lemma app_init_good:
  assumes "pfds_mem env" "sessions_mem env" "leg_env_ok (ctrl_env env)"
  shows "\<exists>st. app_init env app_zero = Some (0, st)"
proof -
  let ?st1 = "app_zero\<lparr>local_ip := iface_ip env, local_port := FAX_CONTROL_PORT,
      pfds := replicate 80 \<lparr>poll_fd = 0, revents = False\<rparr>, sessions := replicate 80 None\<rparr>"
  obtain s st2 where c: "session_create True FAX_SESSION_MODE_CTRL 0 FAX_SESSION_DIR_IN ?st1 = (Some (next_ptr ?st1), st2)"
    "heap st2 = (heap ?st1)(next_ptr ?st1 \<mapsto> s)"
    using create_good [of 0 FAX_SESSION_MODE_CTRL FAX_SESSION_DIR_IN ?st1] by auto
  have tab: "sessions st2 = replicate 80 None" "pfds st2 = replicate 80 \<lparr>poll_fd = 0, revents = False\<rparr>"
    using arg_cong [OF create_some(4) [OF c(1)], of sessions] arg_cong [OF create_some(4) [OF c(1)], of pfds] by simp_all
  let ?s1 = "s\<lparr>loc_ip := local_ip st2, loc_port := local_port st2\<rparr>"
  let ?a = "next_ptr ?st1" and ?fd = "sock_res (ctrl_env env)"
  let ?st3 = "(put st2 ?a ?s1)\<lparr>open_fds := ?fd # open_fds st2\<rparr>"
  have i: "session_initCtrl (ctrl_env env) (Some ?a) st2 = Some (0, put ?st3 ?a (?s1\<lparr>fds := ?fd\<rparr>))"
    using assms(3) c(2) by (simp add: session_initCtrl_def session_createListener_def leg_env_ok_def Let_def)
  have "ses_mem (ctrl_env env)" using assms(3) by (simp add: leg_env_ok_def)
  then show ?thesis
    using c(1) i tab assms(1,2)
    by (simp add: app_init_def app_cfgInit_def app_InitControlFD_def Let_def arr_get_def arr_set_def)
qed

text \<open>Environments without failures, used where a property is tried out.\<close>

definition leg_env_good :: init_env where
  "leg_env_good = \<lparr>ses_mem = True, resolve_res = 0, sock_res = 5, sockopt_ok = True, bind_ok = True,
     fax_mem = \<lparr>gw_mem = True, udptl_mem = True, header_mem = True, rate_mem = True, ec_mem = True,
                vendor_mem = True, udptl_own_mem = True\<rparr>\<rparr>"

definition setup_env_good :: setup_env where
  "setup_env_good = \<lparr>in_env = leg_env_good, out_env = leg_env_good, thread_res = 0, answer_mem = True\<rparr>"

definition start_env_good :: start_env where
  "start_env_good = \<lparr>iface_ip = 3232235876, pfds_mem = True, sessions_mem = True, ctrl_env = leg_env_good\<rparr>"

definition cmd_env_good :: "octets \<Rightarrow> cmd_env" where
  "cmd_env_good d = \<lparr>cmd_recv = Received d 3232235777 5000, cmd_stale = [NUL], cmd_parse_mem = True,
     cmd_setup = setup_env_good, cmd_send_res = 1\<rparr>"

lemma leg_env_good_ok: "leg_env_ok leg_env_good"
  by (simp add: leg_env_ok_def leg_env_good_def fax_mem_ok_def)

lemma setup_env_good_ok: "setup_env_ok setup_env_good"
  by (simp add: setup_env_ok_def setup_env_good_def leg_env_good_ok)

lemma good_start: "\<exists>st. app_init start_env_good app_zero = Some (0, st) \<and> reachable start_env_good st \<and>
    local_ip st = 3232235876 \<and> session_cnt st = 1 \<and> calls_of st = []"
proof -
  obtain st where st: "app_init start_env_good app_zero = Some (0, st)"
    using app_init_good [of start_env_good] leg_env_good_ok by (auto simp: start_env_good_def)
  from app_init_ok [OF st] obtain c where "app_ok st c []" "local_ip st = 3232235876"
    by (auto simp: start_env_good_def)
  with st show ?thesis
    by (intro exI [of _ st]) (auto simp: app_ok_def calls_of_def intro: reachable.start)
qed

section \<open>SETUP\<close>

definition setup_answer :: "app \<Rightarrow> string \<Rightarrow> int \<Rightarrow> sig_message" where
  "setup_answer st cid p = \<lparr>call_id = cid, body = Ok \<lparr>ok_ip = local_ip st, ok_port = p\<rparr>\<rparr>"

lemma port_handles_port: "p \<in> port_handles \<Longrightarrow> port_ok p \<and> p < 65536 \<and> 0 \<le> p"
  by (simp add: port_handles_def port_ok_def)

lemma setup_answer_ok:
  assumes "plain_word cid" "length cid < 32" "ip_ok (local_ip st)" "p \<in> port_handles"
  shows "message_ok (setup_answer st cid p)" "message_parsed_ok (setup_answer st cid p)"
  using assms port_handles_port [OF assms(4)]
  by (auto simp: setup_answer_def message_ok_def message_parsed_ok_def ip_ok_def)

lemma setup_answered_lemma:
  assumes ok: "app_ok st c calls" and ip: "ip_ok (local_ip st)" and n: "length calls \<le> 38"
    and m: "message_ok m" "body m = Setup x" "fax_mode x = FAX_MODE_GW_GW"
    and env: "cmd_recv env = Received (octets_of (message_text m)) ip port" "cmd_parse_mem env"
      "NUL \<in> set (cmd_stale env)" "setup_env_ok (cmd_setup env)" "0 \<le> cmd_send_res env"
  shows "\<exists>s a b st' dip dport q. let p = loc_port (ses_of st' a) in heap st c = Some s \<and>
      session_procCMD env (Some c) st =
        Some (0, st', [(fds s, (ip, port), octets_of (message_text (setup_answer st (call_id m) p)))]) \<and>
      app_ok st' c (calls @ [Some (a, b)]) \<and> p \<in> port_handles \<and> dst_ip x = Some dip \<and> dst_port x = Some dport \<and>
      table st' (calls @ [Some (a, b)]) = table st calls @
        [\<lparr>row_id = call_id m, row_in = (p, src_ip x, src_port x), row_out = (q, dip, dport)\<rparr>]"
proof -
  obtain s where s: "heap st c = Some s" "mode s = FAX_SESSION_MODE_CTRL" by (rule app_ok_control [OF ok])
  let ?h = "heard st c s ip port"
  note okh = app_ok_heard [OF ok s, of ip port]
  have word: "plain_word (call_id m)" "length (call_id m) < 32" and "body_ok (Setup x)"
    using m by (auto simp: message_ok_def)
  then obtain dip dport where d: "dst_ip x = Some dip" "dst_port x = Some dport" using m(3) by auto
  have received: "as_received m = m" using m by (simp add: as_received_def)
  have "fax_mode x \<noteq> FAX_MODE_UNKNOWN" using m(3) by simp
  then obtain a st' where su: "proc_setup (cmd_setup env) (call_id m) x ?h = Some (Some a, st')"
    and a: "heap st' a \<noteq> None" "loc_ip (ses_of st' a) = local_ip ?h"
    using proc_setup_good [OF okh(1) n env(4) _ d word(2)] by blast
  have "\<not> nothing_added ?h c calls (Some a) st'" using a(1) by (simp add: nothing_added_def)
  with proc_setup_cases [OF okh(1) setup_env_os_ok [OF env(4)] su]
  have "call_added ?h c calls (call_id m) x (Some a) st'" by blast
  then obtain b q where added: "app_ok st' c (calls @ [Some (a, b)])" "heap st' c = heap ?h c"
    and table: "table st' (calls @ [Some (a, b)]) = table st calls @
      [\<lparr>row_id = call_id m, row_in = (loc_port (ses_of st' a), src_ip x, src_port x), row_out = (q, dip, dport)\<rparr>]"
    unfolding call_added_def using d okh(2) by auto
  let ?p = "loc_port (ses_of st' a)"
  have "(calls @ [Some (a, b)]) ! length calls = Some (a, b)" "length calls < length (calls @ [Some (a, b)])" by simp_all
  from app_ok_call [OF added(1) this(2,1)] obtain sa where sa: "heap st' a = Some sa" "leg_session b (2 * length calls + 1) True sa" .
  then have p: "?p \<in> port_handles" by (simp add: ses_of_def leg_session_def)
  have lip: "local_ip ?h = local_ip st" by (simp add: heard_def)
  note ans = setup_answer_ok [OF word ip p]
  have "heap st' c = Some (s\<lparr>remaddr := (ip, port), rem_ip := ip, rem_port := port\<rparr>)"
    using added(2) by (simp add: heard_def)
  note send = send_answer_message [OF ans this env(5), of 0]
  have "create_setup_answer_msg (answer_mem (cmd_setup env)) (call_id m) (Some a) st' = Some (Some (setup_answer st (call_id m) ?p))"
    using sa(1) a(2) lip env(4) word(2)
    by (simp add: create_setup_answer_msg_def sig_msgCreateOk_def new_message_def c_sprintf_def setup_answer_def setup_env_ok_def ses_of_def)
  then have "process_sig_message (cmd_setup env) m ?h = Some (0, Some (setup_answer st (call_id m) ?p), st')"
    using su m(2) by (simp add: process_sig_message_def)
  moreover have "stale_ok m (cmd_stale env)" using env(3) m(2,3) by (simp add: stale_ok_def)
  ultimately have "session_procCMD env (Some c) st =
      Some (0, st', [(fds s, (ip, port), octets_of (message_text (setup_answer st (call_id m) ?p)))])"
    using command_message [OF s env(1,2) m(1)] send received by simp
  with s(1) added(1) p table d show ?thesis unfolding Let_def by blast
qed

text \<open>
  Property C4. In every reachable state with at most 38 calls, a well-formed SETUP
  datagram in gateway-to-gateway mode (GG) that the operating system does not hinder is
  answered to its sender with an OK message, which parses back to the interface address
  and the local port of the new call, and the table of calls gains exactly this call
  with the addresses of the message.
\<close>

theorem setup_answered:
  assumes "reachable start st" "ip_ok (iface_ip start)" "session_cnt st \<le> 77"
    and "message_ok m" "body m = Setup x" "fax_mode x = FAX_MODE_GW_GW"
    and "cmd_recv env = Received (octets_of (message_text m)) ip port" "cmd_parse_mem env"
    and "NUL \<in> set (cmd_stale env)" "setup_env_ok (cmd_setup env)" "0 \<le> cmd_send_res env"
  shows "\<exists>st' fd d p q dip dport. session_procCMD env (sessions st ! 0) st = Some (0, st', [(fd, (ip, port), d)]) \<and>
      (\<forall>stale. NUL \<in> set stale \<longrightarrow>
         sig_msgParse True (Some (chars_of d @ stale)) True = Some (0, Message (setup_answer st (call_id m) p))) \<and>
      dst_ip x = Some dip \<and> dst_port x = Some dport \<and>
      calls_of st' = calls_of st @
        [\<lparr>row_id = call_id m, row_in = (p, src_ip x, src_port x), row_out = (q, dip, dport)\<rparr>]"
proof -
  obtain c calls where ok: "app_ok st c calls" using reachable_ok [OF assms(1)] by blast
  have n: "length calls \<le> 38" using ok assms(3) by (simp add: app_ok_def)
  have ctrl: "sessions st ! 0 = Some c" by (rule app_ok_control [OF ok])
  have ip: "ip_ok (local_ip st)" using assms(2) reachable_local_ip [OF assms(1)] by simp
  from setup_answered_lemma [OF ok ip n assms(4-11)] obtain s :: session and a b st' dip dport q where
    run: "session_procCMD env (Some c) st = Some (0, st', [(fds s, (ip, port),
        octets_of (message_text (setup_answer st (call_id m) (loc_port (ses_of st' a)))))])"
    and ok': "app_ok st' c (calls @ [Some (a, b)])" and p: "loc_port (ses_of st' a) \<in> port_handles"
    and d: "dst_ip x = Some dip" "dst_port x = Some dport"
    and table: "table st' (calls @ [Some (a, b)]) = table st calls @
        [\<lparr>row_id = call_id m, row_in = (loc_port (ses_of st' a), src_ip x, src_port x), row_out = (q, dip, dport)\<rparr>]"
    unfolding Let_def by blast
  let ?ans = "setup_answer st (call_id m) (loc_port (ses_of st' a))"
  have "message_ok ?ans"
    using assms(4) by (intro setup_answer_ok(1) ip p) (simp_all add: message_ok_def)
  moreover have "as_received ?ans = ?ans" "stale_ok ?ans stale = (NUL \<in> set stale)" for stale
    by (simp_all add: setup_answer_def as_received_def stale_ok_def)
  ultimately have "\<forall>stale. NUL \<in> set stale \<longrightarrow>
      sig_msgParse True (Some (chars_of (octets_of (message_text ?ans)) @ stale)) True = Some (0, Message ?ans)"
    using message_parsed [of ?ans] by (simp add: chars_of_octets)
  moreover have "calls_of st' = calls_of st @ [\<lparr>row_id = call_id m,
      row_in = (loc_port (ses_of st' a), src_ip x, src_port x), row_out = (q, dip, dport)\<rparr>]"
    unfolding calls_of_table [OF ok] calls_of_table [OF ok'] by (rule table)
  ultimately show ?thesis using run d unfolding ctrl by blast
qed

definition sample_call :: sig_message where
  "sample_call = \<lparr>call_id = ''abcd01234'', body =
     Setup \<lparr>src_ip = 3232235777, src_port = 22222, dst_ip = Some 3232235778, dst_port = Some 33333,
            fax_mode = FAX_MODE_GW_GW\<rparr>\<rparr>"

lemma sample_call_ok: "message_ok sample_call"
  by (simp add: sample_call_def message_ok_def plain_word_def c_isspace_def ip_ok_def port_ok_def)

theorem setup_answered_witness:
  "\<exists>st st' fd d p q. reachable start_env_good st \<and>
     session_procCMD (cmd_env_good (octets_of (message_text sample_call))) (sessions st ! 0) st =
       Some (0, st', [(fd, (3232235777, 5000), d)]) \<and>
     sig_msgParse True (Some (chars_of d @ [NUL])) True = Some (0, Message (setup_answer st ''abcd01234'' p)) \<and>
     calls_of st' = [\<lparr>row_id = ''abcd01234'', row_in = (p, 3232235777, 22222), row_out = (q, 3232235778, 33333)\<rparr>]"
proof -
  obtain st where st: "reachable start_env_good st" "session_cnt st = 1" "calls_of st = []"
    using good_start by blast
  let ?x = "\<lparr>src_ip = 3232235777, src_port = 22222, dst_ip = Some 3232235778, dst_port = Some 33333,
            fax_mode = FAX_MODE_GW_GW\<rparr>"
  have ip: "ip_ok (iface_ip start_env_good)" "session_cnt st \<le> 77" using st(2) by (simp_all add: ip_ok_def start_env_good_def)
  have b: "body sample_call = Setup ?x" "fax_mode ?x = FAX_MODE_GW_GW" by (simp_all add: sample_call_def)
  let ?env = "cmd_env_good (octets_of (message_text sample_call))"
  have e: "cmd_recv ?env = Received (octets_of (message_text sample_call)) 3232235777 5000" "cmd_parse_mem ?env"
    "NUL \<in> set (cmd_stale ?env)" "setup_env_ok (cmd_setup ?env)" "0 \<le> cmd_send_res ?env"
    by (simp_all add: cmd_env_good_def setup_env_good_ok)
  obtain st' fd d p q dip dport where r: "session_procCMD ?env (sessions st ! 0) st = Some (0, st', [(fd, (3232235777, 5000), d)])"
    "\<forall>stale. NUL \<in> set stale \<longrightarrow>
       sig_msgParse True (Some (chars_of d @ stale)) True = Some (0, Message (setup_answer st (call_id sample_call) p))"
    "dst_ip ?x = Some dip" "dst_port ?x = Some dport"
    "calls_of st' = calls_of st @ [\<lparr>row_id = call_id sample_call, row_in = (p, src_ip ?x, src_port ?x), row_out = (q, dip, dport)\<rparr>]"
    using setup_answered [OF st(1) ip sample_call_ok b e] by blast
  have cid: "call_id sample_call = ''abcd01234''" by (simp add: sample_call_def)
  have "sig_msgParse True (Some (chars_of d @ [NUL])) True = Some (0, Message (setup_answer st ''abcd01234'' p))"
    using r(2) unfolding cid by simp
  with st(1) r(1,3-5) show ?thesis unfolding cid st(3)
    by (rule_tac x = st in exI, rule_tac x = st' in exI, rule_tac x = fd in exI, rule_tac x = d in exI,
        rule_tac x = p in exI, rule_tac x = q in exI) simp
qed

section \<open>RELEASE\<close>

text \<open>
  Property C8. In every reachable state a RELEASE datagram is processed without answer
  and removes exactly the first call of that name from the table of calls, if there is
  one.
\<close>

theorem release_completes:
  assumes "reachable start st" "message_ok \<lparr>call_id = cid, body = Rel\<rparr>"
    and "cmd_recv env = Received (octets_of (message_text \<lparr>call_id = cid, body = Rel\<rparr>)) ip port"
    and "cmd_parse_mem env" "NUL \<in> set (cmd_stale env)"
  shows "\<exists>st'. session_procCMD env (sessions st ! 0) st = Some (0, st', []) \<and>
    calls_of st' = remove_call cid (calls_of st)"
proof -
  let ?m = "\<lparr>call_id = cid, body = Rel\<rparr>"
  obtain c calls where ok: "app_ok st c calls" using reachable_ok [OF assms(1)] by blast
  obtain s where s: "heap st c = Some s" "mode s = FAX_SESSION_MODE_CTRL" "sessions st ! 0 = Some c" by (rule app_ok_control [OF ok])
  note okh = app_ok_heard [OF ok s(1,2), of ip port]
  obtain st' calls' where rel: "proc_release cid (heard st c s ip port) = Some st'" "app_ok st' c calls'"
    "table st' calls' = remove_call cid (table st calls)"
    using proc_release_ok [OF okh(1), of cid] okh(2) by auto
  have "as_received ?m = ?m" "stale_ok ?m (cmd_stale env)" using assms(5) by (simp_all add: as_received_def stale_ok_def)
  then have "session_procCMD env (Some c) st = Some (0, st', [])"
    using command_message [OF s(1,2) assms(3,4,2)] rel(1) by (simp add: process_sig_message_def send_answer_def)
  with rel(3) show ?thesis unfolding s(3) calls_of_table [OF ok] using calls_of_table [OF rel(2)] by auto
qed

theorem release_completes_witness:
  "\<exists>st st'. reachable start_env_good st \<and>
     session_procCMD (cmd_env_good (octets_of (message_text \<lparr>call_id = ''abcd01234'', body = Rel\<rparr>))) (sessions st ! 0) st =
       Some (0, st', []) \<and> calls_of st' = []"
proof -
  let ?m = "\<lparr>call_id = ''abcd01234'', body = Rel\<rparr>"
  obtain st where st: "reachable start_env_good st" "calls_of st = []" using good_start by blast
  have "message_ok ?m" by (simp add: message_ok_def plain_word_def c_isspace_def)
  from release_completes [OF st(1) this, of "cmd_env_good (octets_of (message_text ?m))" 3232235777 5000] st
  show ?thesis by (auto simp: cmd_env_good_def)
qed

section \<open>What does not parse\<close>

definition refusal :: sig_message where
  "refusal = \<lparr>call_id = ''FAIL'', body = Error FAX_ERROR_INVALID_MESSAGE\<rparr>"

lemma refusal_ok: "message_ok refusal" "message_parsed_ok refusal"
  by (simp_all add: refusal_def message_ok_def message_parsed_ok_def plain_word_def c_isspace_def)

text \<open>The first line of the datagram fits \<open>msg2str\<close>, and something follows it.\<close>

definition line_ok :: "string \<Rightarrow> bool" where
  "line_ok m \<longleftrightarrow> length (takeWhile (\<lambda>c. c \<notin> {CHR 0x0D, CHR 0x0A, NUL}) m) < min 256 (length m)"

text \<open>
  Property C17. In every reachable state a datagram of at most 256 octets whose first
  line ends within the receive buffer, for which sig_msgParse returns a negative code,
  refused ports included, is answered with ERROR FAIL INVALID_MSG_ERR to its sender, if
  the answer can be allocated and sent, and changes no call.
\<close>

theorem malformed_refused:
  assumes "reachable start st" "cmd_recv env = Received d ip port" "length d \<le> 256"
    and "line_ok (chars_of d @ cmd_stale env)"
    and "sig_msgParse (cmd_parse_mem env) (Some (chars_of d @ cmd_stale env)) True = Some (r, out)" "r < 0"
    and "answer_mem (cmd_setup env)" "0 \<le> cmd_send_res env"
  shows "\<exists>st' fd. session_procCMD env (sessions st ! 0) st =
      Some (-2, st', [(fd, (ip, port), octets_of (message_text refusal))]) \<and> calls_of st' = calls_of st"
proof -
  obtain c calls where ok: "app_ok st c calls" using reachable_ok [OF assms(1)] by blast
  obtain s where s: "heap st c = Some s" "mode s = FAX_SESSION_MODE_CTRL" "sessions st ! 0 = Some c" by (rule app_ok_control [OF ok])
  let ?h = "heard st c s ip port"
  note okh = app_ok_heard [OF ok s(1,2), of ip port]
  have h: "heap ?h c = Some (s\<lparr>remaddr := (ip, port), rem_ip := ip, rem_port := port\<rparr>)" by (simp add: heard_def)
  have "session_recvMsg (cmd_recv env) c st 256 = Some (Some d, ?h)"
    unfolding assms(2) by (rule recv_datagram [OF s(1,2) assms(3)])
  moreover obtain x where "msg2str 0 (chars_of d @ cmd_stale env) = Some x"
    using assms(4) by (simp add: msg2str_def line_ok_def Let_def)
  moreover have "sig_msgCreateError (answer_mem (cmd_setup env)) (Some ''FAIL'') FAX_ERROR_INVALID_MESSAGE True = Some (0, Some refusal)"
    using assms(7) by (simp add: sig_msgCreateError_def new_message_def c_sprintf_def refusal_def)
  ultimately have "session_procCMD env (Some c) st = Some (-2, ?h, [(fds s, (ip, port), octets_of (message_text refusal))])"
    using assms(5,6) send_answer_message [OF refusal_ok h assms(8), of "-2"] by (simp add: session_procCMD_def Let_def)
  moreover have "calls_of ?h = calls_of st" using calls_of_table [OF ok] calls_of_table [OF okh(1)] okh(2) by simp
  ultimately show ?thesis unfolding s(3) by blast
qed

theorem malformed_refused_witness:
  "\<exists>st st' fd. reachable start_env_good st \<and>
     session_procCMD (cmd_env_good (octets_of ''HELLO'')) (sessions st ! 0) st =
       Some (-2, st', [(fd, (3232235777, 5000), octets_of (message_text refusal))]) \<and> calls_of st' = []"
proof -
  obtain st where st: "reachable start_env_good st" "calls_of st = []" using good_start by blast
  let ?env = "cmd_env_good (octets_of ''HELLO'')"
  have "line_ok (''HELLO'' @ [NUL])" "sig_msgParse True (Some (''HELLO'' @ [NUL])) True = Some (-2, No_message)"
    by code_simp+
  then have "\<exists>st' fd. session_procCMD ?env (sessions st ! 0) st =
      Some (-2, st', [(fd, (3232235777, 5000), octets_of (message_text refusal))]) \<and> calls_of st' = calls_of st"
    by (intro malformed_refused [OF st(1), of _ "octets_of ''HELLO''" _ _ "-2"])
      (simp_all only: cmd_env_good_def cmd_env.simps chars_of_octets length_octets_of setup_env_good_def setup_env.simps, simp_all)
  with st show ?thesis by auto
qed

section \<open>Words that are too long\<close>

text \<open>
  Property C39. In every reachable state, a datagram of at most 256 octets that leaves
  in the receive buffer a text whose first or second word has 32 characters or more
  makes sig_msgParse write beyond its 32-character arrays, whatever the message type and
  the rest of the text, so the command is not survived.
\<close>

theorem long_word_overruns:
  assumes "reachable start st" "cmd_recv env = Received d ip port" "length d \<le> 256"
    and "c_string (chars_of d @ cmd_stale env) 0 = Some text"
    and "w \<in> set (take 2 (c_words text))" "32 \<le> length w"
  shows "sig_msgParse (cmd_parse_mem env) (Some (chars_of d @ cmd_stale env)) True = None \<and>
    session_procCMD env (sessions st ! 0) st = None"
proof -
  obtain c calls where ok: "app_ok st c calls" using reachable_ok [OF assms(1)] by blast
  obtain s where s: "heap st c = Some s" "mode s = FAX_SESSION_MODE_CTRL" "sessions st ! 0 = Some c" by (rule app_ok_control [OF ok])
  have "session_recvMsg (cmd_recv env) c st 256 = Some (Some d, heard st c s ip port)"
    unfolding assms(2) by (rule recv_datagram [OF s(1,2) assms(3)])
  moreover have parse: "sig_msgParse (cmd_parse_mem env) (Some (chars_of d @ cmd_stale env)) True = None"
    by (rule long_word_parse [OF assms(4-6)])
  ultimately show ?thesis
    unfolding s(3) by (cases "msg2str 0 (chars_of d @ cmd_stale env)") (simp_all add: session_procCMD_def Let_def)
qed

theorem long_word_overruns_witness:
  "\<exists>st. reachable start_env_good st \<and>
     session_procCMD (cmd_env_good (octets_of (''OK '' @ replicate 40 CHR ''a''))) (sessions st ! 0) st = None"
proof -
  obtain st where st: "reachable start_env_good st" using good_start by blast
  let ?d = "''OK '' @ replicate 40 CHR ''a''" and ?env = "cmd_env_good (octets_of (''OK '' @ replicate 40 CHR ''a''))"
  have "cmd_recv ?env = Received (octets_of ?d) 3232235777 5000" "cmd_stale ?env = [NUL]"
    by (simp_all add: cmd_env_good_def)
  moreover have "c_string (?d @ [NUL]) 0 = Some ?d" "replicate 40 CHR ''a'' \<in> set (take 2 (c_words ?d))"
    by code_simp+
  ultimately have "session_procCMD ?env (sessions st ! 0) st = None"
    using long_word_overruns [OF st, of ?env "octets_of ?d" 3232235777 5000 ?d "replicate 40 CHR ''a''"]
    by (simp only: chars_of_octets length_octets_of) simp
  with st show ?thesis by blast
qed

end
