(* ===== verification/Call_Limits.thy ===== *)
theory Call_Limits
  imports Call_Service
begin

text \<open>
  What holds of every reachable state, and where the commands fail: the fortieth call, a leg
  that cannot be initialised, a fax thread after its call is released.
\<close>

section \<open>Every reachable state\<close>

text \<open>A live session in the table at index \<open>i\<close>, paired with a live peer.\<close>

definition paired :: "app \<Rightarrow> nat \<Rightarrow> nat \<Rightarrow> bool" where
  "paired st i a \<longleftrightarrow> (\<exists>s b t. heap st a = Some s \<and> peer_ses s = Some b \<and> heap st b = Some t \<and> peer_ses t = Some a \<and>
     a \<noteq> b \<and> sidx s = int i \<and> poll_fd (pfds st ! i) = fds s \<and> 0 < fds s \<and> ses_call_id s = ses_call_id t \<and>
     FLAG_IN s = (\<not> FLAG_IN t) \<and> FLAG_THREAD_ACTIVE s = FLAG_IN s \<and>
     0 < sidx t \<and> sidx t < session_cnt st \<and> sessions st ! nat (sidx t) = Some b)"

lemma app_ok_paired:
  assumes ok: "app_ok st c calls" and i: "1 \<le> i" "int i < session_cnt st"
  shows "sessions st ! i = None \<and> poll_fd (pfds st ! i) = -1 \<or> (\<exists>a. sessions st ! i = Some a \<and> paired st i a)"
proof -
  define k where "k = (i - 1) div 2"
  have cnt: "session_cnt st = 1 + 2 * int (length calls)" and shape: "shape st c Suc (entries calls)"
    using ok by (simp_all add: app_ok_def)
  have k: "k < length calls" "i = 2 * k + 1 \<or> i = 2 * k + 2" using i cnt unfolding k_def by auto
  show ?thesis
  proof (cases "calls ! k")
    case None
    have "i - 1 < length (entries calls)" "entries calls ! (i - 1) = None"
      using k nth_entries [OF k(1)] None by auto
    moreover have "Suc (i - 1) = i" using i by simp
    ultimately have "entry_at st i None" using shape by (metis shape_def)
    then show ?thesis by (simp add: entry_at_None)
  next
    case (Some p)
    obtain a b where "p = (a, b)" by (rule prod.exhaust)
    with Some have ab: "calls ! k = Some (a, b)" by simp
    from app_ok_call [OF ok k(1) ab] obtain s t where
      st: "heap st a = Some s" "leg_session b (2 * k + 1) True s" "heap st b = Some t" "leg_session a (2 * k + 2) False t" "a \<noteq> b"
      "sessions st ! (2 * k + 1) = Some a" "sessions st ! (2 * k + 2) = Some b"
      "poll_fd (pfds st ! (2 * k + 1)) = fds s" "poll_fd (pfds st ! (2 * k + 2)) = fds t" by metis
    have "Some (a, b) \<in> set calls" using ab k(1) by (metis nth_mem)
    then have cid: "ses_call_id s = ses_call_id t" using ok st(1,3) by (metis app_ok_def twins_def ses_of_def option.sel)
    have n: "int (2 * k + 2) < session_cnt st" using k(1) cnt by simp
    have idx: "sidx s = int (2 * k + 1)" "sidx t = int (2 * k + 2)" using st(2,4) by (simp_all add: leg_session_def)
    then have slot: "sessions st ! nat (sidx s) = Some a" "sessions st ! nat (sidx t) = Some b"
      using st by (simp_all only: nat_int)
    from k(2) show ?thesis
    proof
      assume "i = 2 * k + 1"
      then have "paired st i a" unfolding paired_def
        using st cid by (rule_tac x = s in exI, rule_tac x = b in exI, rule_tac x = t in exI) (use idx slot n in \<open>auto simp: leg_session_def\<close>)
      with st \<open>i = 2 * k + 1\<close> show ?thesis by blast
    next
      assume "i = 2 * k + 2"
      then have "paired st i b" unfolding paired_def
        using st cid by (rule_tac x = t in exI, rule_tac x = a in exI, rule_tac x = s in exI) (use idx slot n in \<open>auto simp: leg_session_def\<close>)
      with st \<open>i = 2 * k + 2\<close> show ?thesis by blast
    qed
  qed
qed

text \<open>
  Property C5. In every reachable state of the process the table holds 1 to 79 entries,
  each cleared or a live session whose index, descriptor, call identifier, flags and
  live peer agree with it, and every allocated session is in the table: none leaks and
  none dangles.
\<close>

theorem reachable_sessions_paired:
  assumes "reachable start st"
  shows "1 \<le> session_cnt st \<and> session_cnt st \<le> 79 \<and>
    (\<forall>i. 1 \<le> i \<and> int i < session_cnt st \<longrightarrow>
       sessions st ! i = None \<and> poll_fd (pfds st ! i) = -1 \<or> (\<exists>a. sessions st ! i = Some a \<and> paired st i a)) \<and>
    (\<forall>a. heap st a \<noteq> None \<longrightarrow> (\<exists>i. int i < session_cnt st \<and> sessions st ! i = Some a))"
proof -
  obtain c calls where ok: "app_ok st c calls" using reachable_ok [OF assms] by blast
  have cnt: "session_cnt st = 1 + 2 * int (length calls)" "length calls \<le> 39" and shape: "shape st c Suc (entries calls)"
    using ok by (simp_all add: app_ok_def)
  have "\<exists>i. int i < session_cnt st \<and> sessions st ! i = Some a" if a: "heap st a \<noteq> None" for a
  proof (cases "a = c")
    case True
    have "sessions st ! 0 = Some c" by (rule app_ok_control [OF ok])
    with True cnt show ?thesis by (intro exI [of _ 0]) simp
  next
    case False
    with a shape have "a \<in> set (ptrs (entries calls))" by (auto simp: shape_def)
    then obtain p k where "k < length (entries calls)" "entries calls ! k = Some (a, p)"
      unfolding in_ptrs by (metis in_set_conv_nth)
    moreover from this shape have "entry_at st (Suc k) (Some (a, p))" by (metis shape_def)
    ultimately show ?thesis using cnt by (intro exI [of _ "Suc k"]) (simp add: entry_at_def slot_holds_def)
  qed
  moreover have "1 \<le> session_cnt st" "session_cnt st \<le> 79" using cnt by simp_all
  ultimately show ?thesis using app_ok_paired [OF ok] by blast
qed

theorem reachable_sessions_paired_witness:
  "\<exists>st. reachable start_env_good st \<and> 1 \<le> session_cnt st \<and> session_cnt st \<le> 79"
proof -
  obtain st where "reachable start_env_good st" using good_start by blast
  with reachable_sessions_paired [OF this] show ?thesis by blast
qed

text \<open>
  Property C16. In every reachable state two different sessions of the table have
  different local ports and different identifiers, and the port table marks both ports
  as used.
\<close>

theorem reachable_ports_exclusive:
  assumes "reachable start st" "sessions st ! i = Some a" "sessions st ! j = Some b" "i \<noteq> j"
    and "1 \<le> i" "int i < session_cnt st" "1 \<le> j" "int j < session_cnt st"
  shows "loc_port (ses_of st a) \<noteq> loc_port (ses_of st b) \<and> ses_id (ses_of st a) \<noteq> ses_id (ses_of st b) \<and>
    {loc_port (ses_of st a), loc_port (ses_of st b)} \<subseteq> ports_used (port_pool_of st)"
proof -
  obtain c calls where ok: "app_ok st c calls" using reachable_ok [OF assms(1)] by blast
  then have res: "resources st" and shape: "shape st c Suc (entries calls)" by (simp_all add: app_ok_def)
  from app_ok_paired [OF ok assms(5,6)] app_ok_paired [OF ok assms(7,8)] assms(2,3)
  obtain s t where s: "heap st a = Some s" "sidx s = int i" and t: "heap st b = Some t" "sidx t = int j"
    by (auto simp: paired_def)
  with assms(4) have ab: "a \<noteq> b" by auto
  have port: "loc_port u \<in> port_handles" if k: "sessions st ! k = Some x" "1 \<le> k" "int k < session_cnt st" "heap st x = Some u" for k x u
  proof -
    obtain m where m: "k = Suc m" "m < length (entries calls)" using k(2,3) ok by (cases k) (auto simp: app_ok_def)
    then have at: "entry_at st k (entries calls ! m)" using shape by (simp add: shape_def)
    with k(1) obtain p where "entries calls ! m = Some (x, p)"
      by (cases "entries calls ! m") (auto simp: entry_at_None entry_at_def slot_holds_def)
    with at k(4) show ?thesis by (cases p) (auto simp: entry_at_leg leg_session_def)
  qed
  have hold: "a \<in> holders st" "b \<in> holders st"
    using port [OF assms(2,5,6) s(1)] port [OF assms(3,7,8) t(1)] s(1) t(1) by (auto simp: holders_def)
  note own = resources_owned(1,2) [OF res]
  have "loc_port (ses_of st a) \<noteq> loc_port (ses_of st b)"
    using own(1) hold ab unfolding owned_def by (metis inj_onD)
  moreover have "ses_id (ses_of st a) \<noteq> ses_id (ses_of st b)"
  proof (cases "FLAG_IN s = FLAG_IN t")
    case True
    then have "a \<in> facing st (FLAG_IN s)" "b \<in> facing st (FLAG_IN s)" using s t by (auto simp: facing_def)
    with own(2) [of "FLAG_IN s"] ab show ?thesis unfolding owned_def by (metis inj_onD)
  next
    case False
    have used: "ses_id (ses_of st x) \<in> id_handles (FLAG_IN u)" if "heap st x = Some u" for x u
      using own(2) [of "FLAG_IN u"] that slot_allocator.used_handles [OF ids_alloc resources_owned(4) [OF res], of "FLAG_IN u"]
      by (auto simp: owned_def facing_def)
    from used [OF s(1)] used [OF t(1)] False id_handles_disjoint show ?thesis by metis
  qed
  moreover have "{loc_port (ses_of st a), loc_port (ses_of st b)} \<subseteq> ports_used (port_pool_of st)"
    using own(1) hold by (auto simp: owned_def)
  ultimately show ?thesis by blast
qed

section \<open>Refinement of the table of calls\<close>

text \<open>
  Property C6. A pass of the main loop refines the abstract table of calls: nothing, or
  what the received message asks for (a SETUP appends a call, a RELEASE removes the
  first call of that name); compaction and the received datagrams change no call.
\<close>

theorem pass_refines_calls:
  assumes "reachable start st" "os_ok (cmd_setup (pass_cmd env))" "app_pass env st = Some (st', sent)"
  shows "\<exists>m. (m = None \<or> m = parsed (pass_cmd env)) \<and> table_step m (calls_of st) (calls_of st')"
proof -
  obtain c calls where ok: "app_ok st c calls" using reachable_ok [OF assms(1)] by blast
  from pass_refines_lemma [OF ok assms(2,3)] obtain calls' m where
    "app_ok st' c calls'" "m = None \<or> m = parsed (pass_cmd env)" "table_step m (table st calls) (table st' calls')" by blast
  with calls_of_table [OF ok] calls_of_table [OF this(1)] show ?thesis by auto
qed

section \<open>A pass without datagrams\<close>

text \<open>
  Property C15. A pass on which poll times out always returns, keeps the calls and
  leaves a table without cleared entries whose count is exact.
\<close>

theorem idle_pass_compacts:
  assumes "reachable start st" "poll_res env = 0" "pass_signal env = None"
  shows "\<exists>st'. app_pass env st = Some (st', []) \<and> calls_of st' = calls_of st \<and>
    session_cnt st' = 1 + 2 * int (length (calls_of st')) \<and>
    (\<forall>i. 1 \<le> i \<and> int i < session_cnt st' \<longrightarrow> sessions st' ! i \<noteq> None)"
proof -
  obtain c calls where ok: "app_ok st c calls" using reachable_ok [OF assms(1)] by blast
  let ?p = "poll env st" and ?calls = "filter (\<lambda>x. x \<noteq> None) calls"
  note okp = poll_ok [OF ok, of env]
  have cnt: "session_cnt ?p = session_cnt st" using okp(1) ok by (simp add: app_ok_def)
  have len: "length (pfds st) = 80" "session_cnt st \<le> 79"
    using ok by (simp_all add: app_ok_def shape_def)
  have "\<not> revents (pfds ?p ! i)" if "1 \<le> i" "int i < session_cnt ?p" for i
    using that cnt len assms(2) by (simp add: poll_def nth_enumerate_eq)
  then obtain st' where st': "app_procSessions (pass_recv env) ?p = Some st'"
    using procSessions_idle [OF okp(1)] by blast
  note ok' = procSessions_table [OF okp(1) st']
  have "app_pass env st = Some (st', [])" using st' assms(2,3) by (simp add: app_pass_def)
  moreover have "calls_of st' = calls_of st"
    unfolding calls_of_table [OF ok'(1)] calls_of_table [OF ok] ok'(2) okp(2) ..
  moreover have "length (calls_of st') = length ?calls"
    unfolding calls_of_table [OF ok'(1)] table_def active_def by simp
  then have "session_cnt st' = 1 + 2 * int (length (calls_of st'))" using ok'(1) by (simp add: app_ok_def)
  moreover have "sessions st' ! i \<noteq> None" if i: "1 \<le> i" "int i < session_cnt st'" for i
  proof -
    obtain k where k: "i = Suc k" "k < length (entries ?calls)" using i ok'(1) by (cases i) (auto simp: app_ok_def)
    then have at: "entry_at st' i (entries ?calls ! k)" using ok'(1) by (simp add: app_ok_def shape_def)
    have "entries ?calls ! k \<in> set (filter (\<lambda>e. e \<noteq> None) (entries calls))"
      using nth_mem [OF k(2)] by (simp only: filter_entries)
    then have "entries ?calls ! k \<noteq> None" by simp
    with at show ?thesis by (auto simp: entry_at_def slot_holds_def)
  qed
  ultimately show ?thesis by blast
qed

definition idle_pass :: pass_env where
  "idle_pass = \<lparr>poll_res = 0, poll_ready = (\<lambda>_. False), pass_recv = (\<lambda>_. Recv_error 0 0),
     pass_cmd = cmd_env_good [], pass_signal = None\<rparr>"

theorem idle_pass_compacts_witness:
  "\<exists>st st'. reachable start_env_good st \<and> app_pass idle_pass st = Some (st', []) \<and> calls_of st' = []"
proof -
  obtain st where st: "reachable start_env_good st" "calls_of st = []" using good_start by blast
  from idle_pass_compacts [OF st(1), of idle_pass] st show ?thesis by (auto simp: idle_pass_def)
qed

theorem pass_refines_calls_witness:
  "\<exists>st st' m. reachable start_env_good st \<and> app_pass idle_pass st = Some (st', []) \<and>
     table_step m (calls_of st) (calls_of st')"
proof -
  obtain st where st: "reachable start_env_good st" using good_start by blast
  obtain c calls where ok: "app_ok st c calls" using reachable_ok [OF st] by blast
  have "session_cnt (poll idle_pass st) = session_cnt st" "length (pfds st) = 80" "session_cnt st \<le> 79"
    using ok by (simp_all add: app_ok_def shape_def poll_def)
  then have "\<forall>i. 1 \<le> i \<and> int i < session_cnt (poll idle_pass st) \<longrightarrow> \<not> revents (pfds (poll idle_pass st) ! i)"
    by (simp add: poll_def nth_enumerate_eq idle_pass_def)
  from procSessions_idle [OF poll_ok(1) [OF ok] this] obtain st' where
    "app_procSessions (pass_recv idle_pass) (poll idle_pass st) = Some st'" by blast
  moreover have "\<not> poll_res idle_pass > 0" "pass_signal idle_pass = None" by (simp_all add: idle_pass_def)
  ultimately have "app_pass idle_pass st = Some (st', [])" by (simp add: app_pass_def)
  moreover have "os_ok (cmd_setup (pass_cmd idle_pass))"
    by (simp add: idle_pass_def cmd_env_good_def setup_env_os_ok setup_env_good_ok)
  ultimately show ?thesis using pass_refines_calls [OF st] st by blast
qed

section \<open>Shutdown\<close>

lemma destroy_loop_ok:
  assumes "resources st" "threads_ok st" "length (sessions st) = 80" "length (pfds st) = 80" "i + n \<le> 80"
    and "\<forall>k a. i \<le> k \<and> k < i + n \<and> sessions st ! k = Some a \<longrightarrow>
      (\<exists>s. heap st a = Some s \<and> (fax_live (fax s) \<or> mode s = FAX_SESSION_MODE_CTRL))"
    and "\<forall>j k. i \<le> j \<and> j < k \<and> k < i + n \<and> sessions st ! j \<noteq> None \<longrightarrow> sessions st ! j \<noteq> sessions st ! k"
  shows "\<exists>st'. destroy_loop i n st = Some st' \<and> resources st' \<and> threads_ok st' \<and>
    dom (heap st') = dom (heap st) - {a. \<exists>k. i \<le> k \<and> k < i + n \<and> sessions st ! k = Some a}"
  using assms
proof (induction n arbitrary: i st)
  case (Suc n)
  have i: "i < 80" "arr_get (sessions st) (int i) = Some (sessions st ! i)" using Suc.prems(3,5) by (simp_all add: arr_get_nat)
  let ?clear = "\<lambda>st. st\<lparr>sessions := (sessions st)[i := None], pfds := (pfds st)[i := (pfds st ! i)\<lparr>poll_fd := -1\<rparr>]\<rparr>"
  define st1 where "st1 = (case sessions st ! i of None \<Rightarrow> st | Some a \<Rightarrow> destroyed st a (ses_of st a))"
  have tab: "sessions st1 = sessions st" "pfds st1 = pfds st" by (simp_all add: st1_def split: option.split)
  have st1: "session_destroy (sessions st ! i) st = Some st1 \<and> resources st1 \<and> threads_ok st1 \<and>
      (\<forall>x. heap st1 x = (if sessions st ! i = Some x then None else heap st x))"
  proof (cases "sessions st ! i")
    case None
    with Suc.prems(1,2) show ?thesis by (simp add: st1_def session_destroy_def)
  next
    case (Some a)
    with Suc.prems(6) obtain s where s: "heap st a = Some s" "fax_live (fax s) \<or> mode s = FAX_SESSION_MODE_CTRL" by force
    then have "st1 = destroyed st a s" using Some by (simp add: st1_def ses_of_def)
    with Some session_destroy_leg [OF s] destroyed_resources [OF Suc.prems(1) s(1)] destroyed_threads [OF Suc.prems(2) s(1)]
    show ?thesis by simp
  qed
  have clear: "cfg_clear (int i) st1 = Some (?clear st1)"
    using Suc.prems(3,4) i(1) tab by (intro cfg_clear_eq) simp_all
  have other: "sessions (?clear st1) ! k = sessions st ! k" if "i < k" for k using that tab by simp
  have heap: "heap (?clear st1) = heap st1" by simp
  have "\<exists>st'. destroy_loop (i + 1) n (?clear st1) = Some st' \<and> resources st' \<and> threads_ok st' \<and>
      dom (heap st') = dom (heap (?clear st1)) - {a. \<exists>k. i + 1 \<le> k \<and> k < i + 1 + n \<and> sessions (?clear st1) ! k = Some a}"
  proof (rule Suc.IH)
    have "same_resources st1 (?clear st1)" by (simp add: same_resources_def)
    with st1 show "resources (?clear st1)" using resources_same by blast
    have "threads_ok st1" using st1 by blast
    then show "threads_ok (?clear st1)" by (simp add: threads_ok_def)
    show "\<forall>k a. i + 1 \<le> k \<and> k < i + 1 + n \<and> sessions (?clear st1) ! k = Some a \<longrightarrow>
        (\<exists>s. heap (?clear st1) a = Some s \<and> (fax_live (fax s) \<or> mode s = FAX_SESSION_MODE_CTRL))"
    proof (intro allI impI)
      fix k a assume k: "i + 1 \<le> k \<and> k < i + 1 + n \<and> sessions (?clear st1) ! k = Some a"
      then have at: "sessions st ! k = Some a" using other [of k] by simp
      have "i < k" "k < i + Suc n" using k by simp_all
      then have ne: "sessions st ! i \<noteq> Some a" using Suc.prems(7) at by (metis le_refl option.discI)
      have "i \<le> k \<and> k < i + Suc n \<and> sessions st ! k = Some a" using k at by simp
      with Suc.prems(6) have "\<exists>s. heap st a = Some s \<and> (fax_live (fax s) \<or> mode s = FAX_SESSION_MODE_CTRL)" by blast
      with ne st1 show "\<exists>s. heap (?clear st1) a = Some s \<and> (fax_live (fax s) \<or> mode s = FAX_SESSION_MODE_CTRL)" by simp
    qed
    show "\<forall>j k. i + 1 \<le> j \<and> j < k \<and> k < i + 1 + n \<and> sessions (?clear st1) ! j \<noteq> None \<longrightarrow>
        sessions (?clear st1) ! j \<noteq> sessions (?clear st1) ! k"
    proof (intro allI impI)
      fix j k assume jk: "i + 1 \<le> j \<and> j < k \<and> k < i + 1 + n \<and> sessions (?clear st1) ! j \<noteq> None"
      then have "i < j" "i < k" by simp_all
      note same = this [THEN other]
      have "i \<le> j \<and> j < k \<and> k < i + Suc n \<and> sessions st ! j \<noteq> None" using jk unfolding same by simp
      then show "sessions (?clear st1) ! j \<noteq> sessions (?clear st1) ! k" using Suc.prems(7) unfolding same by blast
    qed
  qed (use Suc.prems(3-5) tab in simp_all)
  then obtain st' where st': "destroy_loop (i + 1) n (?clear st1) = Some st'" "resources st'" "threads_ok st'"
    "dom (heap st') = dom (heap st1) - {a. \<exists>k. i + 1 \<le> k \<and> k < i + 1 + n \<and> sessions (?clear st1) ! k = Some a}"
    unfolding heap by blast
  have "destroy_loop i (Suc n) st = Some st'" using i(2) st1 clear st'(1) by simp
  moreover have "dom (heap st') = dom (heap st) - {a. \<exists>k. i \<le> k \<and> k < i + Suc n \<and> sessions st ! k = Some a}"
  proof -
    have 1: "{a. \<exists>k. i + 1 \<le> k \<and> k < i + 1 + n \<and> sessions (?clear st1) ! k = Some a} =
        {a. \<exists>k. i + 1 \<le> k \<and> k < i + 1 + n \<and> sessions st ! k = Some a}"
      by (rule Collect_cong, rule ex_cong1) (use other in auto)
    have 2: "{a. \<exists>k. i \<le> k \<and> k < i + Suc n \<and> sessions st ! k = Some a} =
        {a. sessions st ! i = Some a} \<union> {a. \<exists>k. i + 1 \<le> k \<and> k < i + 1 + n \<and> sessions st ! k = Some a}"
    proof -
      have "(i \<le> k \<and> k < i + Suc n \<and> sessions st ! k = Some a) \<longleftrightarrow>
          (k = i \<and> sessions st ! i = Some a) \<or> (i + 1 \<le> k \<and> k < i + 1 + n \<and> sessions st ! k = Some a)" for k a
        by (cases "k = i") auto
      then show ?thesis by (simp only: ex_disj_distrib simp_thms Collect_disj_eq)
    qed
    have 3: "dom (heap st1) = dom (heap st) - {a. sessions st ! i = Some a}" proof -
      have "heap st1 x = (if sessions st ! i = Some x then None else heap st x)" for x using st1 by blast
      then show ?thesis by (auto simp: dom_def)
    qed
    show ?thesis unfolding st'(4) 1 2 3 by blast
  qed
  ultimately show ?case using st'(2,3) by blast
qed auto

text \<open>The occupied entries: live sessions, each once, and all there are.\<close>

lemma app_ok_slots:
  assumes ok: "app_ok st c calls"
  defines "n \<equiv> nat (session_cnt st)"
  shows "\<lbrakk>k < n; sessions st ! k = Some a\<rbrakk> \<Longrightarrow> \<exists>s. heap st a = Some s \<and> (fax_live (fax s) \<or> mode s = FAX_SESSION_MODE_CTRL)"
    and "\<lbrakk>j < k; k < n; sessions st ! j = Some a\<rbrakk> \<Longrightarrow> sessions st ! k \<noteq> Some a"
    and "heap st a \<noteq> None \<Longrightarrow> \<exists>k < n. sessions st ! k = Some a"
proof -
  have shape: "shape st c Suc (entries calls)" and n: "n = Suc (length (entries calls))"
    using ok by (simp_all add: app_ok_def n_def)
  have c: "sessions st ! 0 = Some c" "\<exists>s. heap st c = Some s \<and> mode s = FAX_SESSION_MODE_CTRL"
    using app_ok_control [OF ok] by blast+
  have dist: "distinct (c # ptrs (entries calls))" and dom: "dom (heap st) = set (c # ptrs (entries calls))"
    using shape by (simp_all add: shape_def)
  have slot: "sessions st ! Suc k = map_option fst (entries calls ! k)" if "k < length (entries calls)" for k
    using shape that by (simp add: shape_def entry_at_def slot_holds_def)
  have leg: "\<exists>s b d. heap st a = Some s \<and> leg_session b (Suc k) d s \<and> a \<noteq> c"
    if k: "Suc k < n" "sessions st ! Suc k = Some a" for k a
  proof -
    obtain b d where e: "entries calls ! k = Some (a, b, d)" "k < length (entries calls)"
    proof -
      have "k < length (entries calls)" using k(1) n by simp
      moreover from this k(2) slot obtain x where "entries calls ! k = Some x" "fst x = a" by fastforce
      moreover obtain b d where "snd x = (b, d)" by (rule prod.exhaust)
      ultimately show ?thesis by (intro that) (auto simp: prod_eq_iff)
    qed
    then have "a \<in> set (ptrs (entries calls))" unfolding in_ptrs by (metis nth_mem)
    with shape_leg [OF shape e(2,1)] dist show ?thesis by (metis distinct.simps(2))
  qed
  show "\<exists>s. heap st a = Some s \<and> (fax_live (fax s) \<or> mode s = FAX_SESSION_MODE_CTRL)"
    if k: "k < n" "sessions st ! k = Some a"
  proof (cases k)
    case 0
    with k c show ?thesis by auto
  next
    case (Suc m)
    with k leg [of m a] show ?thesis by (auto simp: leg_session_def)
  qed
  show "sessions st ! k \<noteq> Some a" if jk: "j < k" "k < n" "sessions st ! j = Some a"
  proof
    assume k: "sessions st ! k = Some a"
    obtain m where m: "k = Suc m" using jk(1) by (cases k) simp_all
    with k jk(2) leg obtain s where s: "heap st a = Some s" "sidx s = int k" "a \<noteq> c" by (metis leg_session_def)
    show False
    proof (cases j)
      case 0
      with jk(3) c(1) s(3) show False by simp
    next
      case (Suc l)
      with jk leg obtain s' where "heap st a = Some s'" "sidx s' = int j" by (metis leg_session_def less_trans)
      with s jk(1) show False by simp
    qed
  qed
  show "\<exists>k < n. sessions st ! k = Some a" if "heap st a \<noteq> None"
  proof (cases "a = c")
    case True
    with c n show ?thesis by (intro exI [of _ 0]) simp
  next
    case False
    with that dom have "a \<in> set (ptrs (entries calls))" by auto
    then obtain q k where "k < length (entries calls)" "entries calls ! k = Some (a, q)"
      unfolding in_ptrs by (metis in_set_conv_nth)
    with slot n show ?thesis by (intro exI [of _ "Suc k"]) simp
  qed
qed

text \<open>
  Property C7. From every reachable state app_destroy returns, frees every session,
  gives every port back and cancels every fax thread.
\<close>

theorem shutdown_frees_everything:
  assumes "reachable start st"
  shows "\<exists>st'. app_cfgDestroy st = Some st' \<and> heap st' = (\<lambda>_. None) \<and> ports_used (port_pool_of st') = {} \<and>
    (\<forall>t \<in> set (threads st'). cancelled t) \<and> app_destroy st = Some 0"
proof -
  obtain c calls where ok: "app_ok st c calls" using reachable_ok [OF assms] by blast
  let ?n = "nat (session_cnt st)"
  have inv: "resources st" "threads_ok st" "length (sessions st) = 80" "length (pfds st) = 80" "0 + ?n \<le> 80"
    using ok unfolding app_ok_def shape_def by auto
  note slots = app_ok_slots [OF ok]
  have "\<exists>st'. destroy_loop 0 ?n st = Some st' \<and> resources st' \<and> threads_ok st' \<and>
      dom (heap st') = dom (heap st) - {a. \<exists>k. 0 \<le> k \<and> k < 0 + ?n \<and> sessions st ! k = Some a}"
  proof (rule destroy_loop_ok [OF inv])
    show "\<forall>k a. 0 \<le> k \<and> k < 0 + ?n \<and> sessions st ! k = Some a \<longrightarrow>
        (\<exists>s. heap st a = Some s \<and> (fax_live (fax s) \<or> mode s = FAX_SESSION_MODE_CTRL))"
      by (intro allI impI, elim conjE, erule slots(1) [rotated]) simp
    show "\<forall>j k. 0 \<le> j \<and> j < k \<and> k < 0 + ?n \<and> sessions st ! j \<noteq> None \<longrightarrow> sessions st ! j \<noteq> sessions st ! k"
    proof (intro allI impI, elim conjE)
      fix j k assume jk: "j < k" "k < 0 + ?n" "sessions st ! j \<noteq> None"
      then obtain a where a: "sessions st ! j = Some a" by blast
      from jk(2) have "k < ?n" by simp
      from slots(2) [OF jk(1) this a] a show "sessions st ! j \<noteq> sessions st ! k" by simp
    qed
  qed
  then obtain st' where st': "destroy_loop 0 ?n st = Some st'" "resources st'" "threads_ok st'"
    "dom (heap st') = dom (heap st) - {a. \<exists>k < ?n. sessions st ! k = Some a}" by auto
  have "dom (heap st') = {}" unfolding st'(4) using slots(3) by blast
  then have heap: "heap st' = (\<lambda>_. None)" by simp
  have "holders st' = {}" by (simp add: holders_def heap)
  then have "ports_used (port_pool_of st') = {}" using resources_owned(1) [OF st'(2)] by (simp add: owned_def)
  moreover have "\<forall>t \<in> set (threads st'). cancelled t" using st'(3) heap by (auto simp: threads_ok_def)
  ultimately show ?thesis
    using st'(1) heap by (simp add: app_cfgDestroy_def app_destroy_def)
qed

theorem shutdown_frees_everything_witness:
  "\<exists>st st'. reachable start_env_good st \<and> app_cfgDestroy st = Some st' \<and> heap st' = (\<lambda>_. None)"
proof -
  obtain st where st: "reachable start_env_good st" using good_start by blast
  with shutdown_frees_everything [OF st] show ?thesis by blast
qed

section \<open>The fortieth call\<close>

lemma initCtrl_config: "session_initCtrl env (Some a) st = Some (r, st') \<Longrightarrow> same_config st st'"
  by (auto simp: session_initCtrl_def Let_def same_config_def split: bind_splits prod.splits if_splits
      dest!: createListener_config)

lemma app_init_run:
  assumes "app_init env st = Some (r, st')"
  shows "app_run st' = app_run st"
proof -
  have fd: "app_run st2 = app_run st1" if "app_InitControlFD e st1 = Some (q, st2)" for e q st1 st2
    using that
    by (auto simp: app_InitControlFD_def same_config_def split: option.splits prod.splits bind_splits if_splits
        dest!: session_create_config initCtrl_config session_destroy_config)
  show ?thesis using assms by (auto simp: app_init_def app_cfgInit_def Let_def split: if_splits bind_splits dest!: fd)
qed

text \<open>Without released calls and datagrams the loop leaves the process as it is.\<close>

lemma proc_sessions_loop_still:
  assumes "length (pfds st) = 80" "i + n \<le> 80"
    and "\<forall>k. i \<le> k \<and> k < i + n \<longrightarrow> \<not> revents (pfds st ! k) \<and> poll_fd (pfds st ! k) \<noteq> -1"
  shows "proc_sessions_loop recv i n 0 st = Some (0, st)"
  using assms
proof (induction n arbitrary: i)
  case (Suc n)
  then have "arr_get (pfds st) (int i) = Some (pfds st ! i)" "poll_fd (pfds st ! i) \<noteq> -1" "\<not> revents (pfds st ! i)"
    by (simp_all add: arr_get_nat)
  moreover have "proc_sessions_loop recv (i + 1) n 0 st = Some (0, st)" using Suc.prems by (intro Suc.IH) simp_all
  ultimately show ?case by (simp add: serve_def)
qed simp

definition call_pass :: pass_env where
  "call_pass = \<lparr>poll_res = 1, poll_ready = (\<lambda>i. i = 0), pass_recv = (\<lambda>_. Recv_error 0 0),
     pass_cmd = cmd_env_good (octets_of (message_text sample_call)), pass_signal = None\<rparr>"

lemma call_pass_cmd: "cmd_setup (pass_cmd call_pass) = setup_env_good" "poll_res call_pass = 1"
  by (simp_all add: call_pass_def cmd_env_good_def)

lemma call_pass_adds:
  assumes r: "reachable start_env_good st" "app_run st" and ok: "app_ok st c calls" and n: "None \<notin> set calls" "length calls \<le> 38"
  shows "\<exists>st' calls'. reachable start_env_good st' \<and> app_run st' \<and> app_ok st' c calls' \<and> None \<notin> set calls' \<and>
    length calls' = Suc (length calls)"
proof -
  let ?p = "poll call_pass st" and ?env = "pass_cmd call_pass"
  note okp = poll_ok(1) [OF ok, of call_pass]
  have len: "length (pfds st) = 80" "session_cnt st = 1 + 2 * int (length calls)" "length (pfds ?p) = 80" "session_cnt ?p = session_cnt st"
    using ok by (simp_all add: app_ok_def shape_def poll_def)
  have rev: "revents (pfds ?p ! i) = (i = 0 \<and> 0 \<le> poll_fd (pfds st ! 0))" if "int i < session_cnt st" for i
  proof -
    have "i < length (pfds st)" using that len n(2) by simp
    with that show ?thesis by (cases "i = 0") (simp_all add: poll_def nth_enumerate_eq call_pass_def)
  qed
  have fd: "poll_fd (pfds ?p ! k) \<noteq> -1" if k: "1 \<le> k" "int k < session_cnt st" for k
  proof -
    obtain j where j: "k = Suc j" "j < length (entries calls)" using k len(2) by (cases k) auto
    then have at: "entry_at ?p k (entries calls ! j)" using okp by (simp add: app_ok_def shape_def)
    have "filter (\<lambda>x. x \<noteq> None) calls = calls" using n(1) by (intro filter_True ballI) (metis)
    then have "filter (\<lambda>e. e \<noteq> None) (entries calls) = entries calls" unfolding filter_entries by simp
    then have "entries calls ! j \<in> set (filter (\<lambda>e. e \<noteq> None) (entries calls))" using nth_mem [OF j(2)] by simp
    then have "entries calls ! j \<noteq> None" by simp
    then obtain a b d where "entries calls ! j = Some (a, b, d)" by (metis not_None_eq prod_cases3)
    with at show ?thesis by (auto simp: entry_at_leg slot_holds_def ses_of_def leg_session_def)
  qed
  have "nat (session_cnt ?p - 1) = 2 * length calls" using len by simp
  moreover have "proc_sessions_loop (pass_recv call_pass) 1 (2 * length calls) 0 ?p = Some (0, ?p)"
    using len n(2) rev fd by (intro proc_sessions_loop_still) auto
  moreover have "session_cnt ?p mod 256 = session_cnt ?p"
    using len n(2) by (intro mod_pos_pos_trivial) simp_all
  ultimately have procs: "app_procSessions (pass_recv call_pass) ?p = Some ?p"
    by (simp add: app_procSessions_def)
  obtain s where s: "sessions ?p ! 0 = Some c" "length (sessions ?p) = 80" by (rule app_ok_control [OF okp])
  have "0 \<le> poll_fd (pfds st ! 0)"
    using ok by (auto simp: app_ok_def shape_def control_at_def slot_holds_def ses_of_def)
  then have ready: "revents (pfds ?p ! 0)" using rev [of 0] len n(2) by simp
  have ip: "ip_ok (local_ip ?p)"
    using poll_config [of st call_pass] reachable_local_ip [OF r(1)]
    by (simp add: same_config_def ip_ok_def start_env_good_def)
  let ?x = "\<lparr>src_ip = 3232235777, src_port = 22222, dst_ip = Some 3232235778, dst_port = Some 33333,
            fax_mode = FAX_MODE_GW_GW\<rparr>"
  have b: "body sample_call = Setup ?x" "fax_mode ?x = FAX_MODE_GW_GW" by (simp_all add: sample_call_def)
  have e: "cmd_recv ?env = Received (octets_of (message_text sample_call)) 3232235777 5000" "cmd_parse_mem ?env"
    "NUL \<in> set (cmd_stale ?env)" "setup_env_ok (cmd_setup ?env)" "0 \<le> cmd_send_res ?env"
    by (simp_all add: call_pass_def cmd_env_good_def setup_env_good_ok)
  obtain st' sent x y where cmd: "session_procCMD ?env (Some c) ?p = Some (0, st', sent)"
    and ok': "app_ok st' c (calls @ [Some (x, y)])"
    using setup_answered_lemma [OF okp ip n(2) sample_call_ok b e] unfolding Let_def by blast
  have run: "app_run st'" using procCMD_config [OF cmd] poll_config [of st call_pass] r(2) by (simp add: same_config_def)
  have "app_procCMD ?env ?p = Some (0, st', sent)"
    using cmd s ready len(3) by (simp add: app_procCMD_def arr_get_def)
  then have "app_pass call_pass st = Some (st', sent)"
    using procs call_pass_cmd(2) by (simp add: app_pass_def) (simp add: call_pass_def)
  with r(2) have "step st st'"
    by (intro step.main_pass [of _ call_pass]) (simp_all add: call_pass_cmd setup_env_os_ok setup_env_good_ok)
  with r(1) have "reachable start_env_good st'" by (rule reachable.steps)
  with run ok' n show ?thesis by (intro exI [of _ st'] exI [of _ "calls @ [Some (x, y)]"]) simp
qed

lemma reachable_with_calls:
  "n \<le> 39 \<Longrightarrow> \<exists>st c calls. reachable start_env_good st \<and> app_run st \<and> app_ok st c calls \<and> None \<notin> set calls \<and> length calls = n"
proof (induction n)
  case 0
  obtain st where st: "app_init start_env_good app_zero = Some (0, st)" "reachable start_env_good st" using good_start by blast
  moreover have "app_run st" using app_init_run [OF st(1)] by (simp add: app_zero_def)
  ultimately show ?case using app_init_ok [OF st(1)] by (metis empty_iff list.set(1) list.size(3))
next
  case (Suc n)
  then obtain st c calls where "reachable start_env_good st" "app_run st" "app_ok st c calls" "None \<notin> set calls" "length calls = n"
    by auto
  with call_pass_adds [of st c calls] Suc.prems show ?case by (metis Suc_le_mono numeral_eq_Suc pred_numeral_simps(3))
qed

theorem reachable_ports_exclusive_witness:
  "\<exists>st a b. reachable start_env_good st \<and> sessions st ! 1 = Some a \<and> sessions st ! 2 = Some b \<and>
     loc_port (ses_of st a) \<noteq> loc_port (ses_of st b)"
proof -
  obtain st c calls where st: "reachable start_env_good st" "app_ok st c calls" "None \<notin> set calls" "length calls = 1"
    using reachable_with_calls [of 1] by auto
  obtain x where x: "calls = [x]" using st(4) by (auto simp: length_Suc_conv)
  with st(3) obtain y where "calls = [Some y]" by (cases x) simp_all
  moreover obtain a b where "y = (a, b)" by (rule prod.exhaust)
  ultimately have "calls = [Some (a, b)]" by simp
  then have "calls ! 0 = Some (a, b)" "0 < length calls" by simp_all
  from app_ok_call [OF st(2) this(2,1)] have "sessions st ! (2 * 0 + 1) = Some a" "sessions st ! (2 * 0 + 2) = Some b" by metis+
  then have ab: "sessions st ! 1 = Some a" "sessions st ! 2 = Some b" by (simp_all add: numeral_2_eq_2)
  moreover have "session_cnt st = 3" using st(2,4) by (simp add: app_ok_def)
  ultimately show ?thesis using reachable_ports_exclusive [OF st(1) ab] st(1) by auto
qed

text \<open>
  Property C18. With 39 calls the limit check of proc_setup lets another SETUP through,
  and storing its second leg writes beyond the session table.
\<close>

theorem fortieth_call_overruns:
  assumes "reachable start st" "session_cnt st = 79"
    and "message_ok m" "body m = Setup x" "fax_mode x = FAX_MODE_GW_GW"
    and "cmd_recv env = Received (octets_of (message_text m)) ip port" "cmd_parse_mem env"
    and "NUL \<in> set (cmd_stale env)" "setup_env_ok (cmd_setup env)"
  shows "session_procCMD env (sessions st ! 0) st = None"
proof -
  obtain c calls where ok: "app_ok st c calls" using reachable_ok [OF assms(1)] by blast
  obtain s where s: "heap st c = Some s" "mode s = FAX_SESSION_MODE_CTRL" "sessions st ! 0 = Some c" by (rule app_ok_control [OF ok])
  note okh = app_ok_heard(1) [OF ok s(1,2), of ip port]
  have n: "length calls = 39" using ok assms(2) by (simp add: app_ok_def)
  have cid: "length (call_id m) < 32" and "body_ok (Setup x)" using assms(3,4) by (auto simp: message_ok_def)
  then obtain dip dport where d: "dst_ip x = Some dip" "dst_port x = Some dport" using assms(5) by auto
  have "fax_mode x \<noteq> FAX_MODE_UNKNOWN" using assms(5) by simp
  from proc_setup_full [OF okh n assms(9) this d cid]
  have "proc_setup (cmd_setup env) (call_id m) x (heard st c s ip port) = None" .
  moreover have "as_received m = m" "stale_ok m (cmd_stale env)" using assms(4,5,8) by (simp_all add: as_received_def stale_ok_def)
  ultimately show ?thesis
    unfolding s(3) using command_message [OF s(1,2) assms(6,7,3)] assms(4) by (simp add: process_sig_message_def)
qed

theorem fortieth_call_overruns_witness:
  "\<exists>st. reachable start_env_good st \<and>
     session_procCMD (cmd_env_good (octets_of (message_text sample_call))) (sessions st ! 0) st = None"
proof -
  obtain st c calls where st: "reachable start_env_good st" "app_ok st c calls" "length calls = 39"
    using reachable_with_calls [of 39] by auto
  then have "session_cnt st = 79" by (simp add: app_ok_def)
  from fortieth_call_overruns [OF st(1) this sample_call_ok, of _ "cmd_env_good (octets_of (message_text sample_call))"] st(1)
  show ?thesis by (auto simp: cmd_env_good_def setup_env_good_ok sample_call_def)
qed

section \<open>A leg that cannot be initialised\<close>

text \<open>
  Property C20. When the socket of the incoming leg cannot be created or bound, handling
  the SETUP dereferences NULL: the session is destroyed before its fax part was
  initialised.
\<close>

theorem socket_failure_crashes:
  assumes "reachable start st" "message_ok m" "body m = Setup x" "fax_mode x = FAX_MODE_GW_GW"
    and "cmd_recv env = Received (octets_of (message_text m)) ip port" "cmd_parse_mem env" "NUL \<in> set (cmd_stale env)"
    and "ses_mem (in_env (cmd_setup env))" "resolve_res (in_env (cmd_setup env)) = 0"
    and "sock_res (in_env (cmd_setup env)) \<le> 0 \<or> \<not> sockopt_ok (in_env (cmd_setup env)) \<or> \<not> bind_ok (in_env (cmd_setup env))"
  shows "session_procCMD env (sessions st ! 0) st = None"
proof -
  obtain c calls where ok: "app_ok st c calls" using reachable_ok [OF assms(1)] by blast
  obtain s where s: "heap st c = Some s" "mode s = FAX_SESSION_MODE_CTRL" "sessions st ! 0 = Some c" by (rule app_ok_control [OF ok])
  let ?h = "heard st c s ip port" and ?in = "in_env (cmd_setup env)"
  have cnt: "0 \<le> session_cnt ?h" "session_cnt ?h < 80"
    using app_ok_heard(1) [OF ok s(1,2), of ip port] by (simp_all add: app_ok_def)
  obtain st1 where c1: "session_create True FAX_SESSION_MODE_GATEWAY (session_cnt ?h) FAX_SESSION_DIR_IN ?h = (Some (next_ptr ?h), st1)"
    using create_good [OF cnt(1), of FAX_SESSION_MODE_GATEWAY FAX_SESSION_DIR_IN ?h] by auto
  obtain a where a: "a = next_ptr ?h" by simp
  obtain t where t: "heap st1 a = Some t" "fax t = fax_params_zero" "mode t = FAX_SESSION_MODE_GATEWAY"
    using create_some(3) [OF c1] a by auto
  obtain p pool where pool: "app_portGetFree (port_pool_of st1) = (p, pool)" by (rule prod.exhaust)
  have cid: "length (call_id m) < 32" using assms(2) by (simp add: message_ok_def)
  let ?t = "t\<lparr>loc_ip := local_ip st1, loc_port := p mod 65536, rem_ip := src_ip x, rem_port := src_port x,
      ses_call_id := call_id m, remaddr := (src_ip x, src_port x)\<rparr>"
  obtain fd st2 where l: "session_createListener ?in ((put st1 a ?t)\<lparr>port_pool_of := pool\<rparr>) = (fd, st2)" by (rule prod.exhaust)
  have "fd \<le> 0" using l assms(10) by (auto simp: session_createListener_def Let_def split: if_splits)
  then have init: "session_init ?in (Some a) (call_id m) (src_ip x) (src_port x) st1 = Some (-2, st2)"
    using t(1) cid l assms(9) by (simp add: session_init_def pool c_sprintf_def get_hostAddr_def Let_def)
  have "heap st2 a = Some ?t" using createListener_cases(1) [OF l] by simp
  then have "session_destroy (Some a) st2 = None"
    using t(2,3) by (simp add: session_destroy_def fax_sessionDestroy_def fax_releaseGW_def fax_params_zero_def)
  then have "proc_setup (cmd_setup env) (call_id m) x ?h = None"
    using c1 init cnt(2) assms(4,8) a by (simp add: proc_setup_def out_session_mode_def)
  moreover have "as_received m = m" "stale_ok m (cmd_stale env)" using assms(3,4,7) by (simp_all add: as_received_def stale_ok_def)
  ultimately show ?thesis
    unfolding s(3) using command_message [OF s(1,2) assms(5,6,2)] assms(3) by (simp add: process_sig_message_def)
qed

theorem socket_failure_crashes_witness:
  "\<exists>st. reachable start_env_good st \<and>
     session_procCMD ((cmd_env_good (octets_of (message_text sample_call)))
         \<lparr>cmd_setup := setup_env_good\<lparr>in_env := leg_env_good\<lparr>bind_ok := False\<rparr>\<rparr>\<rparr>) (sessions st ! 0) st = None"
proof -
  obtain st where st: "reachable start_env_good st" using good_start by blast
  let ?env = "(cmd_env_good (octets_of (message_text sample_call)))
      \<lparr>cmd_setup := setup_env_good\<lparr>in_env := leg_env_good\<lparr>bind_ok := False\<rparr>\<rparr>\<rparr>"
  from socket_failure_crashes [OF st sample_call_ok, of _ ?env] st show ?thesis
    by (auto simp: cmd_env_good_def setup_env_good_def leg_env_good_def sample_call_def)
qed

end
