(* ===== verification/Fax_Path.thy ===== *)
theory Fax_Path
  imports Fax_Facts T38_Ifp
begin

text \<open>
  The T.38 path between two gateways: what the core of one hands to
  \<open>t38_tx_packet_handler\<close> goes through UDPTL over a lossy network into \<open>fax_rxUDPTL\<close> of
  the other. Copies of a packet may be lost or repeated; the handlers of the other side
  are called for everything that was sent, once and in order.
\<close>

section \<open>What a gateway sends\<close>

text \<open>
  The two ways in which a gateway calls its core: an indicator, and a data packet with its
  type, fields and category.
\<close>

datatype fax_send =
    Send_indicator int
  | Send_data int "t38_data_field list" int

definition fax_core_send ::
    "t38_core_state \<Rightarrow> fax_send \<Rightarrow> (t38_core_state \<times> (octets \<times> int) option) option" where
  "fax_core_send c x =
     map_option (\<lambda>(r, c', p). (c', p))
       (case x of
          Send_indicator ind \<Rightarrow> t38_core_send_indicator c ind
        | Send_data d fs category \<Rightarrow> t38_core_send_data_multi_field c d fs category)"

text \<open>The packet goes to \<open>t38_tx_packet_handler\<close>; every \<open>sendto\<close> succeeds.\<close>

definition fax_emit :: "fax_params \<Rightarrow> fax_send \<Rightarrow> (fax_params \<times> octets list) option" where
  "fax_emit fp x =
     (case t38_gw_state fp of
        Block gw \<Rightarrow>
          do {
            (c, packet) \<leftarrow> fax_core_send (gw_core gw) x;
            let fp1 = fp\<lparr>t38_gw_state := Block (gw\<lparr>gw_core := c\<rparr>)\<rparr>;
            case packet of
              None \<Rightarrow> Some (fp1, [])
            | Some (pkt, count) \<Rightarrow>
                map_option (\<lambda>(r, fp2, sent). (fp2, sent)) (t38_tx_packet_handler (\<lambda>_. 0) fp1 pkt count)
          }
      | _ \<Rightarrow> None)"

fun fax_receive :: "fax_params \<Rightarrow> octets list \<Rightarrow> (fax_params \<times> rx_event list) option" where
  "fax_receive fp [] = Some (fp, [])"
| "fax_receive fp (dg # dgs) =
     do {
       (r, fp', es) \<leftarrow> fax_rxUDPTL (Some fp) (Some dg);
       (fp'', es') \<leftarrow> fax_receive (the fp') dgs;
       Some (fp'', es @ es')
     }"

text \<open>A run: what is sent, each with the number of copies of its packet that arrive.\<close>

fun fax_path :: "fax_params \<Rightarrow> fax_params \<Rightarrow> (fax_send \<times> nat) list \<Rightarrow>
    (fax_params \<times> fax_params \<times> rx_event list) option" where
  "fax_path tx rx [] = Some (tx, rx, [])"
| "fax_path tx rx ((x, arrived) # run) =
     do {
       (tx', sent) \<leftarrow> fax_emit tx x;
       (rx', es) \<leftarrow> fax_receive rx (take arrived sent);
       (tx'', rx'', es') \<leftarrow> fax_path tx' rx' run;
       Some (tx'', rx'', es @ es')
     }"

text \<open>
  What it means to the other side: an indicator that repeats the last one is not sent at
  all.
\<close>

fun fax_effective :: "int \<Rightarrow> (fax_send \<times> nat) list \<Rightarrow> (fax_send \<times> nat) list" where
  "fax_effective ind [] = []"
| "fax_effective ind ((Send_indicator i, a) # run) =
     (if ind = i then fax_effective ind run else (Send_indicator i, a) # fax_effective i run)"
| "fax_effective ind ((Send_data d fs c, a) # run) = (Send_data d fs c, a) # fax_effective ind run"

fun fax_events :: "fax_send \<Rightarrow> rx_event list" where
  "fax_events (Send_indicator i) = [Rx_indicator i]"
| "fax_events (Send_data d fs c) = map (\<lambda>q. Rx_data d (field_type q) (field q)) fs"

fun fax_octets :: "fax_send \<Rightarrow> octets" where
  "fax_octets (Send_indicator i) = [word_of_int (push_bit 1 i)]"
| "fax_octets (Send_data d fs c) = data_octets 0 d fs"

text \<open>
  What the version 0 syntax can carry, in packets of at most 98 octets: four of them fit
  the 400 octets that \<open>t38_tx_packet_handler\<close> has for the UDPTL packet.
\<close>

fun fax_send_ok :: "fax_send \<Rightarrow> bool" where
  "fax_send_ok (Send_indicator i) \<longleftrightarrow> 0 \<le> i \<and> i \<le> 15"
| "fax_send_ok (Send_data d fs c) \<longleftrightarrow> data_type_ok 0 d \<and> fields_ok 0 fs \<and> length fs < 128 \<and>
     length (data_octets 0 d fs) \<le> 98 \<and> 0 \<le> c \<and> c \<le> 4"

lemma fax_octets_valid:
  "fax_send_ok x \<Longrightarrow> 1 \<le> length (fax_octets x) \<and> length (fax_octets x) \<le> 98"
  by (cases x) (auto simp: data_octets_def)

lemma fax_octets_message: "fax_send_ok x \<Longrightarrow> valid_message (fax_octets x)"
  using fax_octets_valid [of x] by (simp add: valid_message_def)

section \<open>The core of the receiver\<close>

definition core_rx_at :: "nat \<Rightarrow> t38_core_state \<Rightarrow> bool" where
  "core_rx_at n c \<longleftrightarrow> t38_version c = 0 \<and> check_sequence_numbers c \<and>
     (core_rx_expected_seq_no c = -1 \<or> core_rx_expected_seq_no c = int n)"

lemma indicator_octet:
  assumes "0 \<le> i" "i \<le> 15"
  defines "b \<equiv> (word_of_int (push_bit 1 i) :: u8)"
  shows "drop_bit 7 (uint b) AND 1 = 0" "drop_bit 6 (uint b) AND 1 = 0" "uint b AND 0x20 = 0"
    "drop_bit 1 (uint b) AND 0xF = i"
proof -
  have "i \<in> {0, 1, 2, 3, 4, 5, 6, 7, 8, 9, 10, 11, 12, 13, 14, 15}"
    using assms(1,2) by (simp only: insert_iff empty_iff) presburger
  then show "drop_bit 7 (uint b) AND 1 = 0" "drop_bit 6 (uint b) AND 1 = 0" "uint b AND 0x20 = 0"
      "drop_bit 1 (uint b) AND 0xF = i"
    unfolding b_def by (elim insertE emptyE; simp)+
qed

lemma ifp_indicator_received:
  assumes "0 \<le> i" "i \<le> 15" "in_sequence s seq_no"
  shows "\<exists>s'. t38_core_rx_ifp_packet s [word_of_int (push_bit 1 i)] seq_no = Some (0, s', [Rx_indicator i]) \<and>
    t38_version s' = t38_version s \<and> check_sequence_numbers s' = check_sequence_numbers s \<and>
    (check_sequence_numbers s \<longrightarrow> core_rx_expected_seq_no s' = (uint seq_no + 1) mod 65536)"
proof -
  define b where "b = (word_of_int (push_bit 1 i) :: u8)"
  note b = indicator_octet [OF assms(1,2), folded b_def]
  obtain s2 where s2: "\<forall>b0. octet_at [b] 0 = Some b0 \<longrightarrow> t38_core_rx_ifp_packet s [b] seq_no =
      (if drop_bit 6 b0 AND 1 = 0 then rx_indicator s2 [b] else rx_data s2 [b])"
    "t38_version s2 = t38_version s" "check_sequence_numbers s2 = check_sequence_numbers s"
    "check_sequence_numbers s \<longrightarrow> core_rx_expected_seq_no s2 = (uint seq_no + 1) mod 65536"
    using rx_in_sequence [OF assms(3), of "[b]"] by blast
  have "t38_core_rx_ifp_packet s [b] seq_no = rx_indicator s2 [b]"
    using s2(1) b by (simp add: octet_at_in)
  then show ?thesis using b s2(2-4) unfolding b_def [symmetric]
    by (auto simp: rx_indicator_def octet_at_in Let_def)
qed

lemma core_receives:
  assumes "fax_send_ok x" "core_rx_at n c" "n < 65535"
  shows "\<exists>c'. t38_core_rx_ifp_packet c (fax_octets x) (word_of_nat n) = Some (0, c', fax_events x) \<and>
    core_rx_at (Suc n) c' \<and> core_rx_expected_seq_no c' = int (Suc n)"
proof -
  have u: "uint (word_of_nat n :: u16) = int n" using assms(3) by (simp add: uint_nat unat_of_nat)
  have s: "in_sequence c (word_of_nat n)" using assms(2) u by (auto simp: core_rx_at_def in_sequence_def)
  show ?thesis
  proof (cases x)
    case (Send_indicator i)
    then show ?thesis
      using ifp_indicator_received [OF _ _ s, of i] assms u by (auto simp: core_rx_at_def)
  next
    case (Send_data d fs cat)
    then show ?thesis
      using ifp_data_received [OF _ _ _ s, of d fs] assms u by (auto simp: core_rx_at_def)
  qed
qed

lemma deliver_messages:
  assumes "\<forall>x \<in> set (drop i xs). fax_send_ok x" "i \<le> length xs" "length xs \<le> 65535"
    and "core_rx_at i (gw_core gw)"
  shows "\<exists>gw'. deliver_ifp gw (numbered (map fax_octets xs) i (length xs)) =
      Some (gw', concat (map fax_events (drop i xs))) \<and> core_rx_at (length xs) (gw_core gw') \<and>
    (i < length xs \<longrightarrow> core_rx_expected_seq_no (gw_core gw') = int (length xs))"
  using assms
proof (induction "length xs - i" arbitrary: i gw)
  case 0
  then show ?case by (simp add: numbered_def)
next
  case (Suc k)
  then have i: "i < length xs" by simp
  then have d: "drop i xs = xs ! i # drop (Suc i) xs" by (simp add: Cons_nth_drop_Suc)
  have n: "numbered (map fax_octets xs) i (length xs) =
      (fax_octets (xs ! i), word_of_nat i) # numbered (map fax_octets xs) (Suc i) (length xs)"
    using i by (simp add: numbered_def upt_conv_Cons)
  have "fax_send_ok (xs ! i)" using Suc.prems(1) d by simp
  then obtain c where c: "t38_core_rx_ifp_packet (gw_core gw) (fax_octets (xs ! i)) (word_of_nat i) =
        Some (0, c, fax_events (xs ! i))" "core_rx_at (Suc i) c" "core_rx_expected_seq_no c = int (Suc i)"
    using core_receives [of "xs ! i" i "gw_core gw"] Suc.prems(3,4) i by auto
  have "\<exists>gw'. deliver_ifp (gw\<lparr>gw_core := c\<rparr>) (numbered (map fax_octets xs) (Suc i) (length xs)) =
      Some (gw', concat (map fax_events (drop (Suc i) xs))) \<and> core_rx_at (length xs) (gw_core gw') \<and>
    (Suc i < length xs \<longrightarrow> core_rx_expected_seq_no (gw_core gw') = int (length xs))"
    using Suc.hyps(2) Suc.prems i c d by (intro Suc.hyps(1)) auto
  then obtain gw' where gw': "deliver_ifp (gw\<lparr>gw_core := c\<rparr>) (numbered (map fax_octets xs) (Suc i) (length xs)) =
      Some (gw', concat (map fax_events (drop (Suc i) xs)))" "core_rx_at (length xs) (gw_core gw')"
    "Suc i < length xs \<longrightarrow> core_rx_expected_seq_no (gw_core gw') = int (length xs)" by blast
  have last: "core_rx_expected_seq_no (gw_core gw') = int (length xs)" if "\<not> Suc i < length xs"
  proof -
    have "Suc i = length xs" using that i by simp
    with gw'(1) c show ?thesis by (auto simp: numbered_def)
  qed
  from n d c gw' last show ?case by auto
qed

section \<open>The sending side\<close>

definition path_tx :: "octets list \<Rightarrow> int \<Rightarrow> fax_params \<Rightarrow> bool" where
  "path_tx hist ind tx \<longleftrightarrow>
     (\<exists>u gw. udptl_state_ptr tx = Block u \<and> t38_gw_state tx = Block gw \<and> tx_holds u hist \<and>
        redundancy_config u 3 \<and> (\<forall>m \<in> set hist. length m \<le> 98) \<and> t38_version (gw_core gw) = 0 \<and>
        category_control (gw_core gw) = [3, 1, 3, 1, 3] \<and> current_tx_indicator (gw_core gw) = ind)"

abbreviation path_packet :: "octets list \<Rightarrow> fax_send \<Rightarrow> octets" where
  "path_packet hist x \<equiv> redundancy_packet (length hist) (fax_octets x) (take 3 (rev hist))"

lemma send_copies_all: "int x \<le> count \<Longrightarrow> send_copies (\<lambda>_. 0) count x = (0, nat count)"
proof (induction "nat count - x" arbitrary: x)
  case 0
  then have "int x = count" by linarith
  then show ?case by (subst send_copies.simps) auto
next
  case (Suc k)
  then have "int x < count" by linarith
  with Suc show ?case by (subst send_copies.simps) simp
qed

lemma length_concat_bound:
  "\<forall>m \<in> set ms. length (f m) \<le> b \<Longrightarrow> length (concat (map f ms)) \<le> length ms * b"
  by (induction ms) auto

lemma length_path_packet:
  assumes "\<forall>m \<in> set hist. length m \<le> 98" "fax_send_ok x"
  shows "0 < length (path_packet hist x)" "length (path_packet hist x) \<le> 400"
proof -
  have "length (open_octets m) \<le> 99" if "m \<in> set (take 3 (rev hist))" for m
  proof -
    have "m \<in> set hist" using in_set_takeD [OF that] by simp
    then have "length m \<le> 98" using assms(1) by blast
    then show ?thesis by (simp add: open_octets_def length_length_octets)
  qed
  then have "length (concat (map open_octets (take 3 (rev hist)))) \<le> length (take 3 (rev hist)) * 99"
    by (intro length_concat_bound) simp
  moreover have "length (take 3 (rev hist)) \<le> 3" by simp
  moreover have "length (open_octets (fax_octets x)) \<le> 99"
    using fax_octets_valid [OF assms(2)] by (simp add: open_octets_def length_length_octets)
  ultimately have "length (concat (map open_octets (take 3 (rev hist)))) \<le> 297"
      "length (open_octets (fax_octets x)) \<le> 99" by linarith+
  then show "0 < length (path_packet hist x)" "length (path_packet hist x) \<le> 400"
    by (simp_all add: redundancy_packet_def sequence_octets_def)
qed

lemma tx_handler_sends:
  assumes "udptl_state_ptr fp = Block u" "tx_holds u hist" "redundancy_config u 3"
    and "\<forall>m \<in> set hist. length m \<le> 98" "fax_send_ok x" "length hist < 65535" "0 \<le> count"
  shows "\<exists>u'. t38_tx_packet_handler (\<lambda>_. 0) fp (fax_octets x) count =
      Some (0, fp\<lparr>udptl_state_ptr := Block u'\<rparr>, replicate (nat count) (path_packet hist x)) \<and>
    tx_holds u' (hist @ [fax_octets x]) \<and> redundancy_config u' 3"
proof -
  obtain u' where u': "udptl_build_packet u (fax_octets x) =
      Some (int (length (path_packet hist x)), path_packet hist x, u')"
      "tx_holds u' (hist @ [fax_octets x])" "redundancy_config u' 3"
    using build_packet_redundancy [OF assms(2,3) fax_octets_message [OF assms(5)]] assms(6) by auto
  have "t38_tx_packet_handler (\<lambda>_. 0) fp (fax_octets x) count =
      Some (0, fp\<lparr>udptl_state_ptr := Block u'\<rparr>, replicate (nat count) (path_packet hist x))"
    using length_path_packet [OF assms(4,5)] assms(1,7) u'(1)
    by (simp add: t38_tx_packet_handler_def send_copies_all)
  with u'(2,3) show ?thesis by (intro exI [of _ u']) (intro conjI)
qed

lemma indicator_low: "0 \<le> i \<Longrightarrow> i \<le> 15 \<Longrightarrow> i AND 0x100 = 0 \<and> i AND 0xFF = (i :: int)"
proof -
  assume i: "0 \<le> i" "i \<le> 15"
  then have "i \<in> {0, 1, 2, 3, 4, 5, 6, 7, 8, 9, 10, 11, 12, 13, 14, 15}"
    by (simp only: insert_iff empty_iff) presburger
  then show ?thesis by (elim insertE emptyE; simp)
qed

lemma startup_time_some: "0 \<le> i \<Longrightarrow> i \<le> 15 \<Longrightarrow> \<exists>t. arr_get modem_startup_time i = Some t"
  by (rule exI [of _ "modem_startup_time ! nat i"]) (simp add: arr_get_def modem_startup_time_def)

text \<open>A send that is no repeated indicator leaves with one packet in one or three copies.\<close>

fun indicator_after :: "int \<Rightarrow> fax_send \<Rightarrow> int" where
  "indicator_after ind (Send_indicator i) = i"
| "indicator_after ind (Send_data d fs c) = ind"

lemma core_send_packet:
  assumes "t38_version c = 0" "category_control c = [3, 1, 3, 1, 3]" "fax_send_ok x"
    and "x \<noteq> Send_indicator (current_tx_indicator c)"
  shows "\<exists>c' count. fax_core_send c x = Some (c', Some (fax_octets x, count)) \<and> 1 \<le> count \<and>
    t38_version c' = 0 \<and> category_control c' = [3, 1, 3, 1, 3] \<and>
    current_tx_indicator c' = indicator_after (current_tx_indicator c) x"
proof (cases x)
  case (Send_indicator i)
  with assms(3) have i: "0 \<le> i" "i \<le> 15" by simp_all
  obtain tep tr fl where t: "arr_get modem_startup_time i = Some (tep, tr, fl)"
    using startup_time_some [OF i] by (metis prod_cases3)
  show ?thesis using assms Send_indicator i t indicator_low [OF i]
    by (simp add: fax_core_send_def t38_core_send_indicator_def t38_encode_indicator_def arr_get_def Let_def)
next
  case (Send_data d fs cat)
  with assms(3) have "0 \<le> cat" "cat \<le> 4" by simp_all
  then have "cat \<in> {0, 1, 2, 3, 4}" by (simp only: insert_iff empty_iff) presburger
  then obtain n where n: "arr_get [3, 1, 3, 1, 3] cat = Some n" "1 \<le> (n :: int)"
    by (elim insertE emptyE) (simp_all add: arr_get_def)
  show ?thesis using assms Send_data n encode_data_octets [of 0 d fs]
    by (simp add: fax_core_send_def t38_core_send_data_multi_field_def)
qed

lemma emit_packet:
  assumes "path_tx hist ind tx" "fax_send_ok x" "x \<noteq> Send_indicator ind" "length hist < 65535"
  shows "\<exists>tx' n. fax_emit tx x = Some (tx', replicate n (path_packet hist x)) \<and> 1 \<le> n \<and>
    path_tx (hist @ [fax_octets x]) (indicator_after ind x) tx'"
proof -
  obtain u gw where u: "udptl_state_ptr tx = Block u" "t38_gw_state tx = Block gw" "tx_holds u hist"
      "redundancy_config u 3" "\<forall>m \<in> set hist. length m \<le> 98" "t38_version (gw_core gw) = 0"
      "category_control (gw_core gw) = [3, 1, 3, 1, 3]" "current_tx_indicator (gw_core gw) = ind"
    using assms(1) unfolding path_tx_def by blast
  obtain c count where c: "fax_core_send (gw_core gw) x = Some (c, Some (fax_octets x, count))" "1 \<le> count"
      "t38_version c = 0" "category_control c = [3, 1, 3, 1, 3]"
      "current_tx_indicator c = indicator_after ind x"
    using core_send_packet [OF u(6,7) assms(2)] assms(3) u(8) by auto
  let ?fp = "tx\<lparr>t38_gw_state := Block (gw\<lparr>gw_core := c\<rparr>)\<rparr>"
  obtain u' where u': "t38_tx_packet_handler (\<lambda>_. 0) ?fp (fax_octets x) count =
      Some (0, ?fp\<lparr>udptl_state_ptr := Block u'\<rparr>, replicate (nat count) (path_packet hist x))"
    "tx_holds u' (hist @ [fax_octets x])" "redundancy_config u' 3"
    using tx_handler_sends [of ?fp u hist x count] u assms(2,4) c(2) by auto
  have "fax_emit tx x = Some (?fp\<lparr>udptl_state_ptr := Block u'\<rparr>, replicate (nat count) (path_packet hist x))"
    using u(2) c(1) u'(1) by (simp add: fax_emit_def)
  moreover have "path_tx (hist @ [fax_octets x]) (indicator_after ind x) (?fp\<lparr>udptl_state_ptr := Block u'\<rparr>)"
    using u(5) c u'(2,3) fax_octets_valid [OF assms(2)] by (auto simp: path_tx_def)
  ultimately show ?thesis using c(2) by (intro exI conjI) (assumption, simp_all)
qed

lemma emit_repeated:
  assumes "path_tx hist ind tx"
  shows "\<exists>tx'. fax_emit tx (Send_indicator ind) = Some (tx', []) \<and> path_tx hist ind tx'"
  using assms
  by (auto simp: path_tx_def fax_emit_def fax_core_send_def t38_core_send_indicator_def)

section \<open>The receiving side\<close>

text \<open>\<open>n\<close> packets were sent, the last \<open>c\<close> of them did not arrive.\<close>

definition path_rx :: "nat \<Rightarrow> nat \<Rightarrow> fax_params \<Rightarrow> bool" where
  "path_rx n c rx \<longleftrightarrow>
     (\<exists>u gw. udptl_state_ptr rx = Block u \<and> t38_gw_state rx = Block gw \<and> udptl_ok u \<and> c \<le> n \<and>
        rx_seq_no u = int n - int c \<and> core_rx_at (n - c) (gw_core gw))"

lemma history_valid:
  "\<forall>x \<in> set xs. fax_send_ok x \<Longrightarrow> \<forall>m \<in> set (take 3 (rev (map fax_octets xs))). valid_message m"
  by (auto dest!: in_set_takeD simp: fax_octets_message)

lemma receive_packet:
  assumes "path_rx (length xs) c rx" "c \<le> 3" "\<forall>y \<in> set xs. fax_send_ok y" "fax_send_ok x"
    and "length xs < 65535"
  shows "\<exists>rx'. fax_rxUDPTL (Some rx) (Some (path_packet (map fax_octets xs) x)) =
      Some (0, Some rx', concat (map fax_events (drop (length xs - c) (xs @ [x])))) \<and>
    path_rx (Suc (length xs)) 0 rx'"
proof -
  let ?n = "length xs" and ?h = "map fax_octets xs" and ?ys = "xs @ [x]"
  obtain u gw where u: "udptl_state_ptr rx = Block u" "t38_gw_state rx = Block gw" "udptl_ok u" "c \<le> ?n"
      "rx_seq_no u = int ?n - int c" "core_rx_at (?n - c) (gw_core gw)"
    using assms(1) unfolding path_rx_def by blast
  have "length (take 3 (rev ?h)) \<le> 16" by simp
  then obtain u' where u': "udptl_rx_packet u (path_packet ?h x) =
      Some (0, u', recovered (rx_seq_no u) (int ?n) (take 3 (rev ?h)) (length (take 3 (rev ?h)))
              @ (if rx_seq_no u \<le> int ?n then [(fax_octets x, word_of_int (int ?n))] else []))"
      "udptl_ok u'" "rx_seq_no u' = (int ?n + 1) mod 65536"
    using rx_redundancy_packet [OF u(3) _ fax_octets_message [OF assms(4)] history_valid [OF assms(3)], of ?n]
      assms(5) by auto
  have "recovered (rx_seq_no u) (int ?n) (take 3 (rev ?h)) (length (take 3 (rev ?h))) = numbered ?h (?n - c) ?n"
    using recovered_history [of c 3 ?h] assms(2) u(4,5) by simp
  then have ds: "recovered (rx_seq_no u) (int ?n) (take 3 (rev ?h)) (length (take 3 (rev ?h)))
        @ (if rx_seq_no u \<le> int ?n then [(fax_octets x, word_of_int (int ?n))] else [])
      = numbered (map fax_octets ?ys) (?n - c) (length ?ys)"
    using u(5) by (simp add: numbered_def nth_append)
  have "\<forall>y \<in> set (drop (?n - c) ?ys). fax_send_ok y"
    using assms(3,4) by (auto dest!: in_set_dropD)
  then obtain gw' where gw': "deliver_ifp gw (numbered (map fax_octets ?ys) (?n - c) (length ?ys)) =
      Some (gw', concat (map fax_events (drop (?n - c) ?ys)))" "core_rx_at (length ?ys) (gw_core gw')"
  proof -
    have "?n - c \<le> length ?ys" "length ?ys \<le> 65535" using assms(5) by simp_all
    from deliver_messages [OF \<open>\<forall>y \<in> set (drop (?n - c) ?ys). fax_send_ok y\<close> this u(6)] that
    show ?thesis by blast
  qed
  let ?rx' = "rx\<lparr>udptl_state_ptr := Block u', t38_gw_state := Block gw'\<rparr>"
  have "fax_rxUDPTL (Some rx) (Some (path_packet ?h x)) =
      Some (0, Some ?rx', concat (map fax_events (drop (?n - c) ?ys)))"
    unfolding fax_rxUDPTL_def using u(1,2) u'(1) ds gw'(1) by (simp del: drop_append map_append)
  moreover have "path_rx (Suc ?n) 0 ?rx'"
    using u' gw'(2) assms(5) by (simp add: path_rx_def)
  ultimately show ?thesis by (intro exI conjI)
qed

text \<open>A further copy of the packet is recognised by its sequence number.\<close>

lemma receive_copy:
  assumes "path_rx (Suc (length xs)) 0 rx" "\<forall>y \<in> set xs. fax_send_ok y" "fax_send_ok x" "length xs < 65535"
  shows "\<exists>rx'. fax_rxUDPTL (Some rx) (Some (path_packet (map fax_octets xs) x)) = Some (0, Some rx', []) \<and>
    path_rx (Suc (length xs)) 0 rx'"
proof -
  let ?n = "length xs" and ?h = "map fax_octets xs"
  obtain u gw where u: "udptl_state_ptr rx = Block u" "t38_gw_state rx = Block gw" "udptl_ok u"
      "rx_seq_no u = int ?n + 1" "core_rx_at (Suc ?n) (gw_core gw)"
    using assms(1) by (auto simp: path_rx_def)
  have "length (take 3 (rev ?h)) \<le> 16" by simp
  then obtain u' where u': "udptl_rx_packet u (path_packet ?h x) =
      Some (0, u', recovered (rx_seq_no u) (int ?n) (take 3 (rev ?h)) (length (take 3 (rev ?h)))
              @ (if rx_seq_no u \<le> int ?n then [(fax_octets x, word_of_int (int ?n))] else []))"
      "udptl_ok u'" "rx_seq_no u' = (int ?n + 1) mod 65536"
    using rx_redundancy_packet [OF u(3) _ fax_octets_message [OF assms(3)] history_valid [OF assms(2)], of ?n]
      assms(4) by auto
  then have "udptl_rx_packet u (path_packet ?h x) = Some (0, u', [])"
    using u(4) by (simp add: recovered_nothing)
  then have "fax_rxUDPTL (Some rx) (Some (path_packet ?h x)) =
      Some (0, Some (rx\<lparr>udptl_state_ptr := Block u', t38_gw_state := Block gw\<rparr>), [])"
    using u(1,2) by (simp add: fax_rxUDPTL_def)
  moreover have "path_rx (Suc ?n) 0 (rx\<lparr>udptl_state_ptr := Block u', t38_gw_state := Block gw\<rparr>)"
    using u' u(5) assms(4) by (simp add: path_rx_def)
  ultimately show ?thesis by (intro exI conjI)
qed

lemma receive_copies:
  assumes "path_rx (Suc (length xs)) 0 rx" "\<forall>y \<in> set xs. fax_send_ok y" "fax_send_ok x" "length xs < 65535"
  shows "\<exists>rx'. fax_receive rx (replicate k (path_packet (map fax_octets xs) x)) = Some (rx', []) \<and>
    path_rx (Suc (length xs)) 0 rx'"
  using assms(1)
proof (induction k arbitrary: rx)
  case (Suc k)
  obtain rx1 where rx1: "fax_rxUDPTL (Some rx) (Some (path_packet (map fax_octets xs) x)) = Some (0, Some rx1, [])"
      "path_rx (Suc (length xs)) 0 rx1"
    using receive_copy [OF Suc.prems assms(2-4)] by blast
  from Suc.IH [OF rx1(2)] rx1(1) show ?case by auto
qed simp

section \<open>The path\<close>

text \<open>
  \<open>xs\<close> is what has been sent so far, its last \<open>c\<close> packets lost.
\<close>

lemma fax_path_from:
  assumes "path_tx (map fax_octets xs) ind tx" "path_rx (length xs) c rx" "c \<le> 3" "c \<le> length xs"
    and "\<forall>x \<in> set xs. fax_send_ok x" "\<forall>(x, a) \<in> set run. fax_send_ok x"
    and "losses_within 3 c (map (\<lambda>(x, a). a = 0) (fax_effective ind run))"
    and "length xs + length run \<le> 65535"
  shows "\<exists>tx' rx'. fax_path tx rx run = Some (tx', rx',
    concat (map fax_events (drop (length xs - c) xs @ map fst (fax_effective ind run))))"
  using assms
proof (induction run arbitrary: xs ind tx rx c)
  case Nil
  then show ?case by simp
next
  case (Cons y run)
  obtain x a where y: "y = (x, a)" by fastforce
  have x: "fax_send_ok x" using Cons.prems(6) y by simp
  have run: "\<forall>(x, a) \<in> set run. fax_send_ok x" using Cons.prems(6) by simp
  show ?case
  proof (cases "x = Send_indicator ind")
    case True
    obtain tx1 where tx1: "fax_emit tx x = Some (tx1, [])" "path_tx (map fax_octets xs) ind tx1"
      using emit_repeated [OF Cons.prems(1)] True by blast
    have e: "fax_effective ind (y # run) = fax_effective ind run" using True y by simp
    from Cons.IH [OF tx1(2) Cons.prems(2-5) run] Cons.prems(7,8) tx1(1) y e show ?thesis by auto
  next
    case False
    define xs' where "xs' = xs @ [x]"
    have len: "length xs < 65535" using Cons.prems(8) by simp
    have l': "length xs' = Suc (length xs)" by (simp add: xs'_def)
    have ok': "\<forall>z \<in> set xs'. fax_send_ok z" using Cons.prems(5) x by (simp add: xs'_def)
    define ind' where "ind' = indicator_after ind x"
    have e: "fax_effective ind (y # run) = (x, a) # fax_effective ind' run"
      using False y by (cases x) (simp_all add: ind'_def)
    obtain tx1 n where tx1: "fax_emit tx x = Some (tx1, replicate n (path_packet (map fax_octets xs) x))"
        "1 \<le> n" "path_tx (map fax_octets xs') ind' tx1"
      using emit_packet [OF Cons.prems(1) x False] len by (auto simp: xs'_def ind'_def)
    show ?thesis
    proof (cases "a = 0")
      case True
      have l: "losses_within 3 (Suc c) (map (\<lambda>(x, a). a = 0) (fax_effective ind' run))" "c < 3"
        using Cons.prems(7) e True by simp_all
      have rx: "path_rx (length xs') (Suc c) rx"
        using Cons.prems(2) unfolding path_rx_def l' by simp
      have "\<exists>tx' rx'. fax_path tx1 rx run = Some (tx', rx',
          concat (map fax_events (drop (length xs' - Suc c) xs' @ map fst (fax_effective ind' run))))"
        by (rule Cons.IH [OF tx1(3) rx _ _ ok' run l(1)]) (use l Cons.prems(4,8) l' in simp_all)
      moreover have "drop (length xs' - Suc c) xs' = drop (length xs - c) xs @ [x]"
        using Cons.prems(4) by (simp add: xs'_def)
      ultimately show ?thesis using tx1(1) y e True by auto
    next
      case False
      obtain rx1 where rx1: "fax_rxUDPTL (Some rx) (Some (path_packet (map fax_octets xs) x)) =
          Some (0, Some rx1, concat (map fax_events (drop (length xs - c) xs')))" "path_rx (Suc (length xs)) 0 rx1"
        using receive_packet [OF Cons.prems(2,3,5) x len] by (auto simp: xs'_def)
      obtain k where k: "min a n = Suc k" using False tx1(2) by (cases "min a n") auto
      obtain rx2 where rx2: "fax_receive rx1 (replicate k (path_packet (map fax_octets xs) x)) = Some (rx2, [])"
          "path_rx (Suc (length xs)) 0 rx2"
        using receive_copies [OF rx1(2) Cons.prems(5) x len] by blast
      have first: "fax_receive rx (take a (replicate n (path_packet (map fax_octets xs) x))) =
          Some (rx2, concat (map fax_events (drop (length xs - c) xs')))"
        using rx1(1) rx2(1) k by simp
      have "\<exists>tx' rx'. fax_path tx1 rx2 run = Some (tx', rx',
          concat (map fax_events (drop (length xs' - 0) xs' @ map fst (fax_effective ind' run))))"
        by (rule Cons.IH [OF tx1(3) _ _ _ ok' run])
          (use rx2(2) Cons.prems(7,8) l' e False in simp_all)
      then obtain tx2 rx3 where "fax_path tx1 rx2 run = Some (tx2, rx3,
          concat (map (fax_events \<circ> fst) (fax_effective ind' run)))" by auto
      then show ?thesis using tx1(1) y e first Cons.prems(4) by (simp add: xs'_def)
    qed
  qed
qed

text \<open>The core as \<open>fax_sessionInit\<close> leaves it: version 0, sequence numbers checked.\<close>

definition core_fresh :: "t38_core_state \<Rightarrow> bool" where
  "core_fresh c \<longleftrightarrow> t38_version c = 0 \<and> check_sequence_numbers c \<and> core_rx_expected_seq_no c = -1 \<and>
     category_control c = [3, 1, 3, 1, 3] \<and> current_tx_indicator c = -1"

lemma gateway_init_fresh:
  "\<exists>gw. t38_gateway_init True True True = Some gw \<and> core_fresh (gw_core gw)"
  by (simp add: t38_gateway_init_def t38_gateway_t38_init_def t38_core_init_def t38_core_restart_def
      t38_set_redundancy_control_def arr_set_def Let_def core_fresh_def
      t38_gateway_set_supported_modems_def t38_gateway_set_nsx_suppression_def
      t38_set_fastest_image_data_rate_def)

lemma core_fresh_modems:
  "core_fresh (gw_core gw) \<Longrightarrow>
   core_fresh (gw_core (t38_gateway_set_ecm_capability (t38_gateway_set_supported_modems gw m) e))"
  by (simp add: core_fresh_def t38_gateway_set_ecm_capability_def t38_gateway_set_supported_modems_def
      t38_set_fastest_image_data_rate_def Let_def)

lemma initGW_fresh:
  assumes "fax_initGW env fp = Some (0, fp')" "udptl_state_ptr fp = Raw"
  shows "\<exists>gw u. t38_gw_state fp' = Block gw \<and> core_fresh (gw_core gw) \<and> udptl_state_ptr fp' = Block u \<and>
    udptl_init True (udptl_own_mem env) UDPTL_ERROR_CORRECTION_REDUNDANCY 3 3 True = Some u \<and>
    options fp' = options fp"
proof -
  obtain gw where gw: "t38_gateway_init True True True = Some gw" "core_fresh (gw_core gw)"
    using gateway_init_fresh by blast
  then have "core_fresh (gw_core (t38_gateway_set_tep_mode (t38_gateway_set_transmit_on_idle gw 1) 0))"
    by (simp add: t38_gateway_set_tep_mode_def t38_gateway_set_transmit_on_idle_def)
  note f = core_fresh_modems [OF this]
  show ?thesis
    using assms gw(1) f by (auto simp: fax_initGW_def Let_def split: if_splits option.splits)
qed

lemma configure_fresh:
  assumes "configure_t38 fp = Some fp'" "t38_gw_state fp = Block gw" "core_fresh (gw_core gw)"
    and "T38FaxVersion (options fp) = 0"
  shows "\<exists>gw'. t38_gw_state fp' = Block gw' \<and> core_fresh (gw_core gw') \<and> udptl_state_ptr fp' = udptl_state_ptr fp"
  using assms
  by (auto simp: configure_t38_def configure_core_def core_fresh_def Let_def t38_set_t38_version_def
      t38_set_max_buffer_size_def t38_set_fastest_image_data_rate_def t38_set_fill_bit_removal_def
      t38_set_mmr_transcoding_def t38_set_jbig_transcoding_def t38_set_max_datagram_size_def
      t38_set_data_rate_management_method_def split: if_splits)

lemma sessionInit_fresh:
  assumes "fax_sessionInit env i cid fp = Some (0, fp')" "udptl_mem env"
  shows "\<exists>gw u. t38_gw_state fp' = Block gw \<and> core_fresh (gw_core gw) \<and> udptl_state_ptr fp' = Block u \<and>
    udptl_init True (udptl_own_mem env) UDPTL_ERROR_CORRECTION_REDUNDANCY 3 3 True = Some u"
proof -
  obtain fp2 fp3 where fp2: "fax_paramsSetDefault env i cid
      (fax_paramsInit env (fp\<lparr>have_session := True, have_send_cb := True\<rparr>)) = Some fp2"
    and fp3: "fax_initGW env fp2 = Some (0, fp3)" and c: "configure_t38 fp3 = Some fp'"
    using assms by (auto simp: fax_sessionInit_def Let_def split: if_splits bind_splits)
  have "udptl_state_ptr fp2 = Raw"
    using paramsSetDefault_cases [OF fp2] assms(2) by (simp add: fax_paramsInit_def)
  moreover have "T38FaxVersion (options fp2) = 0"
    using fp2 by (auto simp: fax_paramsSetDefault_def Let_def c_sprintf_iff)
  ultimately show ?thesis
    using initGW_fresh [OF fp3] configure_fresh [OF c] by auto
qed

lemma sessionInit_path:
  assumes "fax_sessionInit env i cid fp = Some (0, fp')" "udptl_mem env"
  shows "path_tx [] (-1) fp'" "path_rx 0 0 fp'"
proof -
  obtain gw u where f: "t38_gw_state fp' = Block gw" "core_fresh (gw_core gw)" "udptl_state_ptr fp' = Block u"
    and u: "udptl_init True (udptl_own_mem env) UDPTL_ERROR_CORRECTION_REDUNDANCY 3 3 True = Some u"
    using sessionInit_fresh [OF assms] by blast
  from u have s: "redundancy_config u 3" "rx_seq_no u = 0"
    by (auto simp: udptl_init_def redundancy_config_def)
  note h = tx_holds_init [OF u]
  from f s h show "path_tx [] (-1) fp'"
    unfolding path_tx_def by (intro exI [of _ u] exI [of _ gw]) (simp add: core_fresh_def)
  from f s h show "path_rx 0 0 fp'"
    unfolding path_rx_def by (intro exI [of _ u] exI [of _ gw]) (simp add: core_fresh_def core_rx_at_def tx_holds_def)
qed

text \<open>
  Property C2. Between two freshly initialised sessions, let one gateway send at most
  65535 times: an indicator from 0 to 15, or a data packet of at most 98 octets with at
  most 127 fields of the version 0 syntax, all with data but possibly the last, and a
  packet category from 0 to 4. Whatever number of copies of each packet arrives, as long
  as never more than three in a row are lost completely, the handlers of the other
  gateway are called for everything sent, exactly once and in order, and repeated copies
  and repeated indicators cause no call.
\<close>

theorem fax_path_delivers:
  assumes "fax_sessionInit env1 i1 cid1 fp1 = Some (0, tx)" "udptl_mem env1"
    and "fax_sessionInit env2 i2 cid2 fp2 = Some (0, rx)" "udptl_mem env2"
    and "\<forall>(x, arrived) \<in> set run. fax_send_ok x" "length run \<le> 65535"
    and "losses_within 3 0 (map (\<lambda>(x, arrived). arrived = 0) (fax_effective (-1) run))"
  shows "\<exists>tx' rx'. fax_path tx rx run =
    Some (tx', rx', concat (map (\<lambda>(x, arrived). fax_events x) (fax_effective (-1) run)))"
proof -
  have "path_tx (map fax_octets []) (-1) tx" "path_rx (length ([] :: fax_send list)) 0 rx"
    using sessionInit_path(1) [OF assms(1,2)] sessionInit_path(2) [OF assms(3,4)] by simp_all
  from fax_path_from [OF this _ _ _ assms(5,7)] assms(6)
  show ?thesis by (simp add: case_prod_unfold comp_def)
qed

theorem fax_path_delivers_witness:
  "\<exists>env tx rx tx' rx'. udptl_mem env \<and>
     fax_sessionInit env 1 ''a'' fax_params_zero = Some (0, tx) \<and>
     fax_sessionInit env 2 ''b'' fax_params_zero = Some (0, rx) \<and>
     fax_path tx rx
       [(Send_indicator 0, 3), (Send_indicator 3, 0),
        (Send_data 0 [\<lparr>field_type = 0, field = [0xff, 0x03, 0x40]\<rparr>, \<lparr>field_type = 2, field = []\<rparr>] 2, 0),
        (Send_indicator 3, 1), (Send_indicator 6, 2)] =
     Some (tx', rx', [Rx_indicator 0, Rx_indicator 3, Rx_data 0 0 [0xff, 0x03, 0x40], Rx_data 0 2 [],
       Rx_indicator 6])"
proof -
  define env where "env = \<lparr>gw_mem = True, udptl_mem = True, header_mem = True, rate_mem = True,
    ec_mem = True, vendor_mem = True, udptl_own_mem = True\<rparr>"
  have m: "fax_mem_ok env" "udptl_mem env" by (simp_all add: env_def fax_mem_ok_def)
  obtain tx where tx: "fax_sessionInit env 1 ''a'' fax_params_zero = Some (0, tx)"
    using sessionInit_total [OF m(1), of "''a''" 1 fax_params_zero] by auto
  obtain rx where rx: "fax_sessionInit env 2 ''b'' fax_params_zero = Some (0, rx)"
    using sessionInit_total [OF m(1), of "''b''" 2 fax_params_zero] by auto
  let ?run = "[(Send_indicator 0, 3), (Send_indicator 3, 0),
        (Send_data 0 [\<lparr>field_type = 0, field = [0xff, 0x03, 0x40]\<rparr>, \<lparr>field_type = 2, field = []\<rparr>] 2, 0),
        (Send_indicator 3, 1), (Send_indicator 6, 2 :: nat)]"
  have "\<exists>tx' rx'. fax_path tx rx ?run =
    Some (tx', rx', concat (map (\<lambda>(x, arrived). fax_events x) (fax_effective (-1) ?run)))"
    by (rule fax_path_delivers [OF tx m(2) rx m(2)])
      (simp_all add: data_type_ok_def fields_ok_def field_ok_def data_octets_def data_head_def
        fields_octets_def field_octets_def field_head_def length_octets_def)
  then have "\<exists>tx' rx'. fax_path tx rx ?run = Some (tx', rx', [Rx_indicator 0, Rx_indicator 3,
      Rx_data 0 0 [0xff, 0x03, 0x40], Rx_data 0 2 [], Rx_indicator 6])" by simp
  with tx rx m(2) show ?thesis by blast
qed

end
