(* ===== verification/Crc.thy ===== *)
theory Crc
  imports Fax_Prelude
begin

text \<open>
  The two CRCs of HDLC frames (\<^verbatim>\<open>spandsp/src/crc.c\<close>), their equivalence with the
  bitwise shift register, and what they detect: an appended CRC always checks, and every
  burst of up to 16 bits makes the CRC-16 check fail.
\<close>

section \<open>The tables\<close>

definition crc_itu32_table :: "u32 list" where
  "crc_itu32_table =
     [0x00000000, 0x77073096, 0xEE0E612C, 0x990951BA, 0x076DC419, 0x706AF48F, 0xE963A535, 0x9E6495A3,
      0x0EDB8832, 0x79DCB8A4, 0xE0D5E91E, 0x97D2D988, 0x09B64C2B, 0x7EB17CBD, 0xE7B82D07, 0x90BF1D91,
      0x1DB71064, 0x6AB020F2, 0xF3B97148, 0x84BE41DE, 0x1ADAD47D, 0x6DDDE4EB, 0xF4D4B551, 0x83D385C7,
      0x136C9856, 0x646BA8C0, 0xFD62F97A, 0x8A65C9EC, 0x14015C4F, 0x63066CD9, 0xFA0F3D63, 0x8D080DF5,
      0x3B6E20C8, 0x4C69105E, 0xD56041E4, 0xA2677172, 0x3C03E4D1, 0x4B04D447, 0xD20D85FD, 0xA50AB56B,
      0x35B5A8FA, 0x42B2986C, 0xDBBBC9D6, 0xACBCF940, 0x32D86CE3, 0x45DF5C75, 0xDCD60DCF, 0xABD13D59,
      0x26D930AC, 0x51DE003A, 0xC8D75180, 0xBFD06116, 0x21B4F4B5, 0x56B3C423, 0xCFBA9599, 0xB8BDA50F,
      0x2802B89E, 0x5F058808, 0xC60CD9B2, 0xB10BE924, 0x2F6F7C87, 0x58684C11, 0xC1611DAB, 0xB6662D3D,
      0x76DC4190, 0x01DB7106, 0x98D220BC, 0xEFD5102A, 0x71B18589, 0x06B6B51F, 0x9FBFE4A5, 0xE8B8D433,
      0x7807C9A2, 0x0F00F934, 0x9609A88E, 0xE10E9818, 0x7F6A0DBB, 0x086D3D2D, 0x91646C97, 0xE6635C01,
      0x6B6B51F4, 0x1C6C6162, 0x856530D8, 0xF262004E, 0x6C0695ED, 0x1B01A57B, 0x8208F4C1, 0xF50FC457,
      0x65B0D9C6, 0x12B7E950, 0x8BBEB8EA, 0xFCB9887C, 0x62DD1DDF, 0x15DA2D49, 0x8CD37CF3, 0xFBD44C65,
      0x4DB26158, 0x3AB551CE, 0xA3BC0074, 0xD4BB30E2, 0x4ADFA541, 0x3DD895D7, 0xA4D1C46D, 0xD3D6F4FB,
      0x4369E96A, 0x346ED9FC, 0xAD678846, 0xDA60B8D0, 0x44042D73, 0x33031DE5, 0xAA0A4C5F, 0xDD0D7CC9,
      0x5005713C, 0x270241AA, 0xBE0B1010, 0xC90C2086, 0x5768B525, 0x206F85B3, 0xB966D409, 0xCE61E49F,
      0x5EDEF90E, 0x29D9C998, 0xB0D09822, 0xC7D7A8B4, 0x59B33D17, 0x2EB40D81, 0xB7BD5C3B, 0xC0BA6CAD,
      0xEDB88320, 0x9ABFB3B6, 0x03B6E20C, 0x74B1D29A, 0xEAD54739, 0x9DD277AF, 0x04DB2615, 0x73DC1683,
      0xE3630B12, 0x94643B84, 0x0D6D6A3E, 0x7A6A5AA8, 0xE40ECF0B, 0x9309FF9D, 0x0A00AE27, 0x7D079EB1,
      0xF00F9344, 0x8708A3D2, 0x1E01F268, 0x6906C2FE, 0xF762575D, 0x806567CB, 0x196C3671, 0x6E6B06E7,
      0xFED41B76, 0x89D32BE0, 0x10DA7A5A, 0x67DD4ACC, 0xF9B9DF6F, 0x8EBEEFF9, 0x17B7BE43, 0x60B08ED5,
      0xD6D6A3E8, 0xA1D1937E, 0x38D8C2C4, 0x4FDFF252, 0xD1BB67F1, 0xA6BC5767, 0x3FB506DD, 0x48B2364B,
      0xD80D2BDA, 0xAF0A1B4C, 0x36034AF6, 0x41047A60, 0xDF60EFC3, 0xA867DF55, 0x316E8EEF, 0x4669BE79,
      0xCB61B38C, 0xBC66831A, 0x256FD2A0, 0x5268E236, 0xCC0C7795, 0xBB0B4703, 0x220216B9, 0x5505262F,
      0xC5BA3BBE, 0xB2BD0B28, 0x2BB45A92, 0x5CB36A04, 0xC2D7FFA7, 0xB5D0CF31, 0x2CD99E8B, 0x5BDEAE1D,
      0x9B64C2B0, 0xEC63F226, 0x756AA39C, 0x026D930A, 0x9C0906A9, 0xEB0E363F, 0x72076785, 0x05005713,
      0x95BF4A82, 0xE2B87A14, 0x7BB12BAE, 0x0CB61B38, 0x92D28E9B, 0xE5D5BE0D, 0x7CDCEFB7, 0x0BDBDF21,
      0x86D3D2D4, 0xF1D4E242, 0x68DDB3F8, 0x1FDA836E, 0x81BE16CD, 0xF6B9265B, 0x6FB077E1, 0x18B74777,
      0x88085AE6, 0xFF0F6A70, 0x66063BCA, 0x11010B5C, 0x8F659EFF, 0xF862AE69, 0x616BFFD3, 0x166CCF45,
      0xA00AE278, 0xD70DD2EE, 0x4E048354, 0x3903B3C2, 0xA7672661, 0xD06016F7, 0x4969474D, 0x3E6E77DB,
      0xAED16A4A, 0xD9D65ADC, 0x40DF0B66, 0x37D83BF0, 0xA9BCAE53, 0xDEBB9EC5, 0x47B2CF7F, 0x30B5FFE9,
      0xBDBDF21C, 0xCABAC28A, 0x53B39330, 0x24B4A3A6, 0xBAD03605, 0xCDD70693, 0x54DE5729, 0x23D967BF,
      0xB3667A2E, 0xC4614AB8, 0x5D681B02, 0x2A6F2B94, 0xB40BBE37, 0xC30C8EA1, 0x5A05DF1B, 0x2D02EF8D]"

definition crc_itu16_table :: "u16 list" where
  "crc_itu16_table =
     [0x0000, 0x1189, 0x2312, 0x329B, 0x4624, 0x57AD, 0x6536, 0x74BF,
      0x8C48, 0x9DC1, 0xAF5A, 0xBED3, 0xCA6C, 0xDBE5, 0xE97E, 0xF8F7,
      0x1081, 0x0108, 0x3393, 0x221A, 0x56A5, 0x472C, 0x75B7, 0x643E,
      0x9CC9, 0x8D40, 0xBFDB, 0xAE52, 0xDAED, 0xCB64, 0xF9FF, 0xE876,
      0x2102, 0x308B, 0x0210, 0x1399, 0x6726, 0x76AF, 0x4434, 0x55BD,
      0xAD4A, 0xBCC3, 0x8E58, 0x9FD1, 0xEB6E, 0xFAE7, 0xC87C, 0xD9F5,
      0x3183, 0x200A, 0x1291, 0x0318, 0x77A7, 0x662E, 0x54B5, 0x453C,
      0xBDCB, 0xAC42, 0x9ED9, 0x8F50, 0xFBEF, 0xEA66, 0xD8FD, 0xC974,
      0x4204, 0x538D, 0x6116, 0x709F, 0x0420, 0x15A9, 0x2732, 0x36BB,
      0xCE4C, 0xDFC5, 0xED5E, 0xFCD7, 0x8868, 0x99E1, 0xAB7A, 0xBAF3,
      0x5285, 0x430C, 0x7197, 0x601E, 0x14A1, 0x0528, 0x37B3, 0x263A,
      0xDECD, 0xCF44, 0xFDDF, 0xEC56, 0x98E9, 0x8960, 0xBBFB, 0xAA72,
      0x6306, 0x728F, 0x4014, 0x519D, 0x2522, 0x34AB, 0x0630, 0x17B9,
      0xEF4E, 0xFEC7, 0xCC5C, 0xDDD5, 0xA96A, 0xB8E3, 0x8A78, 0x9BF1,
      0x7387, 0x620E, 0x5095, 0x411C, 0x35A3, 0x242A, 0x16B1, 0x0738,
      0xFFCF, 0xEE46, 0xDCDD, 0xCD54, 0xB9EB, 0xA862, 0x9AF9, 0x8B70,
      0x8408, 0x9581, 0xA71A, 0xB693, 0xC22C, 0xD3A5, 0xE13E, 0xF0B7,
      0x0840, 0x19C9, 0x2B52, 0x3ADB, 0x4E64, 0x5FED, 0x6D76, 0x7CFF,
      0x9489, 0x8500, 0xB79B, 0xA612, 0xD2AD, 0xC324, 0xF1BF, 0xE036,
      0x18C1, 0x0948, 0x3BD3, 0x2A5A, 0x5EE5, 0x4F6C, 0x7DF7, 0x6C7E,
      0xA50A, 0xB483, 0x8618, 0x9791, 0xE32E, 0xF2A7, 0xC03C, 0xD1B5,
      0x2942, 0x38CB, 0x0A50, 0x1BD9, 0x6F66, 0x7EEF, 0x4C74, 0x5DFD,
      0xB58B, 0xA402, 0x9699, 0x8710, 0xF3AF, 0xE226, 0xD0BD, 0xC134,
      0x39C3, 0x284A, 0x1AD1, 0x0B58, 0x7FE7, 0x6E6E, 0x5CF5, 0x4D7C,
      0xC60C, 0xD785, 0xE51E, 0xF497, 0x8028, 0x91A1, 0xA33A, 0xB2B3,
      0x4A44, 0x5BCD, 0x6956, 0x78DF, 0x0C60, 0x1DE9, 0x2F72, 0x3EFB,
      0xD68D, 0xC704, 0xF59F, 0xE416, 0x90A9, 0x8120, 0xB3BB, 0xA232,
      0x5AC5, 0x4B4C, 0x79D7, 0x685E, 0x1CE1, 0x0D68, 0x3FF3, 0x2E7A,
      0xE70E, 0xF687, 0xC41C, 0xD595, 0xA12A, 0xB0A3, 0x8238, 0x93B1,
      0x6B46, 0x7ACF, 0x4854, 0x59DD, 0x2D62, 0x3CEB, 0x0E70, 0x1FF9,
      0xF78F, 0xE606, 0xD49D, 0xC514, 0xB1AB, 0xA022, 0x92B9, 0x8330,
      0x7BC7, 0x6A4E, 0x58D5, 0x495C, 0x3DE3, 0x2C6A, 0x1EF1, 0x0F78]"

section \<open>CRC-16\<close>

text \<open>The index of a table access is masked with \<open>0xFF\<close>, so it is always in the table.\<close>

definition crc_itu16_step :: "u8 \<Rightarrow> u16 \<Rightarrow> u16" where
  "crc_itu16_step b crc = drop_bit 8 crc XOR crc_itu16_table ! unat ((crc XOR ucast b) AND 0xFF)"

fun crc_itu16_calc :: "octets \<Rightarrow> u16 \<Rightarrow> u16" where
  "crc_itu16_calc [] crc = crc"
| "crc_itu16_calc (b # bs) crc = crc_itu16_calc bs (crc_itu16_step b crc)"

fun crc_itu16_bits :: "u8 \<Rightarrow> nat \<Rightarrow> u16 \<Rightarrow> u16" where
  "crc_itu16_bits buf 0 crc = crc"
| "crc_itu16_bits buf (Suc len) crc =
     crc_itu16_bits (drop_bit 1 buf) len
       (if (ucast buf XOR crc) AND 1 \<noteq> 0 then drop_bit 1 crc XOR 0x8408 else drop_bit 1 crc)"

text \<open>\<open>buf\<close> is the whole array; the two octets of the CRC are written behind the first \<open>len\<close>.\<close>

definition crc_itu16_append :: "octets \<Rightarrow> nat \<Rightarrow> (octets \<times> nat) option" where
  "crc_itu16_append buf len =
     (if len \<le> length buf then
        (let crc = crc_itu16_calc (take len buf) 0xFFFF XOR 0xFFFF in
         do {
           buf \<leftarrow> arr_set buf (int len) (ucast crc);
           buf \<leftarrow> arr_set buf (int len + 1) (ucast (drop_bit 8 crc));
           Some (buf, len + 2)
         })
      else None)"

definition crc_itu16_check :: "octets \<Rightarrow> bool" where
  "crc_itu16_check buf \<longleftrightarrow> crc_itu16_calc buf 0xFFFF AND 0xFFFF = 0xF0B8"

section \<open>CRC-32\<close>

definition crc_itu32_step :: "u8 \<Rightarrow> u32 \<Rightarrow> u32" where
  "crc_itu32_step b crc =
     (drop_bit 8 crc AND 0x00FFFFFF) XOR crc_itu32_table ! unat ((crc XOR ucast b) AND 0xFF)"

fun crc_itu32_calc :: "octets \<Rightarrow> u32 \<Rightarrow> u32" where
  "crc_itu32_calc [] crc = crc"
| "crc_itu32_calc (b # bs) crc = crc_itu32_calc bs (crc_itu32_step b crc)"

definition crc_itu32_append :: "octets \<Rightarrow> nat \<Rightarrow> (octets \<times> nat) option" where
  "crc_itu32_append buf len =
     (if len \<le> length buf then
        (let crc = crc_itu32_calc (take len buf) 0xFFFFFFFF XOR 0xFFFFFFFF in
         do {
           buf \<leftarrow> arr_set buf (int len) (ucast crc);
           buf \<leftarrow> arr_set buf (int len + 1) (ucast (drop_bit 8 crc));
           buf \<leftarrow> arr_set buf (int len + 2) (ucast (drop_bit 16 crc));
           buf \<leftarrow> arr_set buf (int len + 3) (ucast (drop_bit 24 crc));
           Some (buf, len + 4)
         })
      else None)"

definition crc_itu32_check :: "octets \<Rightarrow> bool" where
  "crc_itu32_check buf \<longleftrightarrow> crc_itu32_calc buf 0xFFFFFFFF = 0xDEBB20E3"

section \<open>The shift register\<close>

text \<open>
  The reference: one bit goes into the register at a time, octets with their lowest bit
  first; \<open>p\<close> is the generator polynomial in reversed bit order.
\<close>

definition crc_shift :: "'a::len word \<Rightarrow> bool \<Rightarrow> 'a word \<Rightarrow> 'a word" where
  "crc_shift p b c = drop_bit 1 c XOR (if bit c 0 \<noteq> b then p else 0)"

definition crc_register :: "'a::len word \<Rightarrow> bool list \<Rightarrow> 'a word \<Rightarrow> 'a word" where
  "crc_register p bs c = fold (crc_shift p) bs c"

definition octet_bits :: "u8 \<Rightarrow> bool list" where
  "octet_bits b = map (bit b) [0..<8]"

definition bits_of :: "octets \<Rightarrow> bool list" where
  "bits_of bs = concat (map octet_bits bs)"

lemma bits_of_simps [simp]:
  "bits_of [] = []" "bits_of (b # bs) = octet_bits b @ bits_of bs" "bits_of (bs @ cs) = bits_of bs @ bits_of cs"
  by (simp_all add: bits_of_def)

lemma length_octet_bits [simp]: "length (octet_bits b) = 8"
  by (simp add: octet_bits_def)

lemma length_bits_of [simp]: "length (bits_of bs) = 8 * length bs"
  by (induction bs) auto

lemma octet_bits_nth [simp]: "i < 8 \<Longrightarrow> octet_bits b ! i = bit b i"
  by (simp add: octet_bits_def)

lemma octet_bits_eq: "octet_bits b = [bit b 0, bit b 1, bit b 2, bit b 3, bit b 4, bit b 5, bit b 6, bit b 7]"
  by (simp add: octet_bits_def upt_rec numeral_eq_Suc)

lemma crc_register_simps [simp]:
  "crc_register p [] c = c"
  "crc_register p (b # bs) c = crc_register p bs (crc_shift p b c)"
  "crc_register p (as @ bs) c = crc_register p bs (crc_register p as c)"
  by (simp_all add: crc_register_def)

lemma crc_shift_xor: "crc_shift p (a \<noteq> b) (c XOR d) = crc_shift p a c XOR crc_shift p b d"
  by (auto simp: crc_shift_def bit_xor_iff drop_bit_xor xor.assoc xor.left_commute xor.commute)

lemma crc_register_xor:
  "length as = length bs
   \<Longrightarrow> crc_register p (map2 (\<noteq>) as bs) (c XOR d) = crc_register p as c XOR crc_register p bs d"
  by (induction as bs arbitrary: c d rule: list_induct2) (simp_all add: crc_shift_xor[simplified])

lemma map2_neq_zeros: "length xs = n \<Longrightarrow> map2 (\<noteq>) xs (replicate n False) = xs"
  by (induction xs arbitrary: n) auto

text \<open>Input bits equal to the register's low bits only shift it.\<close>

lemma crc_register_cancel:
  "(\<And>i. i < length bs \<Longrightarrow> bs ! i = bit c i) \<Longrightarrow> crc_register p bs c = drop_bit (length bs) c"
proof (induction bs arbitrary: c)
  case (Cons b bs)
  have "b = bit c 0" using Cons.prems[of 0] by simp
  moreover have "crc_register p bs (drop_bit 1 c) = drop_bit (length bs) (drop_bit 1 c)"
    by (rule Cons.IH) (use Cons.prems[of "Suc i" for i] in \<open>simp add: bit_drop_bit_eq\<close>)
  ultimately show ?case by (simp add: crc_shift_def drop_bit_drop_bit)
qed simp

lemma crc_register_bits_fold:
  "crc_itu16_bits b n c = crc_register 0x8408 (map (bit b) [0..<n]) c"
proof (induction b n c rule: crc_itu16_bits.induct)
  case (2 buf len crc)
  have step: "(ucast buf XOR crc) AND 1 \<noteq> 0 \<longleftrightarrow> bit crc 0 \<noteq> bit buf 0"
    by (simp add: and_one_eq odd_iff_mod_2_eq_one[symmetric] bit_0[symmetric] bit_xor_iff bit_unsigned_iff) auto
  have up: "[0..<Suc len] = 0 # map Suc [0..<len]" by (simp add: upt_conv_Cons map_Suc_upt)
  show ?case
    using 2 unfolding up
    by (simp add: step[simplified] comp_def bit_drop_bit_eq crc_shift_def del: upt_Suc)
qed simp

section \<open>The tables hold eight shifts\<close>

text \<open>A table of a linear function doubles: its upper half is its lower half shifted by one value.\<close>

definition doubled :: "'a::len word list \<Rightarrow> 'a word \<Rightarrow> 'a word list" where
  "doubled xs w = xs @ map (\<lambda>x. x XOR w) xs"

definition doublings :: "'a::len word list \<Rightarrow> 'a word list" where
  "doublings ws = foldl doubled [0] ws"

lemma length_doublings: "length (doublings ws) = 2 ^ length ws"
  by (induction ws rule: rev_induct) (auto simp: doublings_def doubled_def)

lemma word_of_nat_upper:
  assumes "k < 2 ^ n"
  shows "word_of_nat (2 ^ n + k) = (word_of_nat k XOR 2 ^ n :: 'a::len word)"
proof -
  have "k AND 2 ^ n = 0"
    using assms by (metis and_exp_eq_0_iff_not_bit bit_nat_def div_less even_zero)
  then have "2 ^ n + k = k XOR 2 ^ n"
    by (simp add: disjunctive_add_eq_xor add.commute)
  then show ?thesis by (simp add: of_nat_xor_eq)
qed

lemma doublings_nth:
  fixes f :: "'a::len word \<Rightarrow> 'b::len word"
  assumes lin: "\<And>v w. f (v XOR w) = f v XOR f w" and "k < 2 ^ n"
  shows "doublings (map (\<lambda>i. f (2 ^ i)) [0..<n]) ! k = f (word_of_nat k)"
  using \<open>k < 2 ^ n\<close>
proof (induction n arbitrary: k)
  case 0
  have "f 0 = 0" using lin[of 0 0] by simp
  with 0 show ?case by (simp add: doublings_def)
next
  case (Suc n)
  let ?xs = "doublings (map (\<lambda>i. f (2 ^ i)) [0..<n])"
  have snoc: "doublings (map (\<lambda>i. f (2 ^ i)) [0..<Suc n]) = doubled ?xs (f (2 ^ n))"
    by (simp add: doublings_def)
  have len: "length ?xs = 2 ^ n" by (simp add: length_doublings)
  show ?case
  proof (cases "k < 2 ^ n")
    case True
    then show ?thesis unfolding snoc by (simp add: doubled_def nth_append len Suc.IH)
  next
    case False
    then obtain j where j: "k = 2 ^ n + j" "j < 2 ^ n"
      using Suc.prems by (metis add_less_cancel_left le_add_diff_inverse mult_2 not_le_imp_less power_Suc)
    show ?thesis
      unfolding snoc using j(2)
      by (simp only: j(1) word_of_nat_upper lin) (simp add: doubled_def nth_append len Suc.IH)
  qed
qed

lemma crc_itu16_table_doublings:
  "crc_itu16_table = doublings [0x1189, 0x2312, 0x4624, 0x8C48, 0x1081, 0x2102, 0x4204, 0x8408]"
  by (simp add: crc_itu16_table_def doublings_def doubled_def)

lemma crc_itu32_table_doublings:
  "crc_itu32_table = doublings [0x77073096, 0xEE0E612C, 0x076DC419, 0x0EDB8832, 0x1DB71064, 0x3B6E20C8, 0x76DC4190, 0xEDB88320]"
  by (simp add: crc_itu32_table_def doublings_def doubled_def)

abbreviation zeros :: "nat \<Rightarrow> bool list" where "zeros n \<equiv> replicate n False"

lemma crc_register_octet:
  fixes c :: "'a::len word"
  assumes "8 \<le> LENGTH('a)"
  shows "crc_register p (octet_bits b) c
           = drop_bit 8 c XOR doublings (map (\<lambda>i. crc_register p (zeros 8) (2 ^ i)) [0..<8])
                                ! unat ((c XOR ucast b) AND 0xFF)"
proof -
  let ?v = "c XOR ucast b"
  define m where "m = (0xFF :: 'a word)"
  have m: "m = mask 8" by (simp add: m_def mask_eq_exp_minus_1)
  have ff: "bit m i \<longleftrightarrow> i < 8" for i
    unfolding m using assms by (auto simp only: bit_mask_iff possible_bit_word)
  have lin: "crc_register p (zeros 8) (v XOR w) = crc_register p (zeros 8) v XOR crc_register p (zeros 8) w" for v w
    using crc_register_xor[of "zeros 8" "zeros 8" p v w] by (simp add: map2_neq_zeros)
  have small: "unat (?v AND m) < 2 ^ 8"
    by (simp only: m take_bit_eq_mask[symmetric] unsigned_take_bit_eq take_bit_nat_less_exp)
  have b8: "i < 8" if "bit b i" for i using bit_imp_le_length[OF that] by simp
  have cl: "i < LENGTH('a)" if "bit c i" for i using bit_imp_le_length[OF that] .
  have b0: "crc_register p (octet_bits b) (ucast b :: 'a word) = 0"
    by (subst crc_register_cancel)
       (use assms in \<open>auto simp: bit_unsigned_iff intro!: bit_eqI simp: bit_drop_bit_eq dest: b8\<close>)
  have "crc_register p (octet_bits b) c = crc_register p (map2 (\<noteq>) (zeros 8) (octet_bits b)) (?v XOR ucast b)"
    by (simp add: xor.assoc octet_bits_eq numeral_eq_Suc)
  also have "\<dots> = crc_register p (zeros 8) ?v"
    by (subst crc_register_xor) (simp_all add: b0)
  also have "\<dots> = crc_register p (zeros 8) ((?v AND NOT m) XOR (?v AND m))"
    by (rule arg_cong[where f = "crc_register p (zeros 8)"]) (auto intro!: bit_eqI simp: bit_simps ff)
  also have "\<dots> = drop_bit 8 (?v AND NOT m) XOR crc_register p (zeros 8) (?v AND m)"
    unfolding lin by (subst crc_register_cancel) (auto simp: bit_simps ff)
  also have "drop_bit 8 (?v AND NOT m) = drop_bit 8 c"
    by (rule bit_eqI) (auto simp: bit_simps ff dest: b8 cl)
  finally show ?thesis
    using doublings_nth[of "crc_register p (zeros 8)", OF lin small] by (simp add: m_def)
qed

lemma zeros_8: "zeros 8 = [False, False, False, False, False, False, False, False]"
  by (simp add: numeral_eq_Suc)

lemma upt_8: "[0..<8] = [0, 1, 2, 3, 4, 5, 6, 7]"
  by (simp add: upt_rec)

lemma crc16_generators:
  "map (\<lambda>i. crc_register (0x8408 :: u16) (zeros 8) (2 ^ i)) [0..<8]
     = [0x1189, 0x2312, 0x4624, 0x8C48, 0x1081, 0x2102, 0x4204, 0x8408]"
  unfolding zeros_8 upt_8 by (simp add: crc_shift_def)

lemma crc32_generators:
  "map (\<lambda>i. crc_register (0xEDB88320 :: u32) (zeros 8) (2 ^ i)) [0..<8]
     = [0x77073096, 0xEE0E612C, 0x076DC419, 0x0EDB8832, 0x1DB71064, 0x3B6E20C8, 0x76DC4190, 0xEDB88320]"
  unfolding zeros_8 upt_8 by (simp add: crc_shift_def)

lemma crc_itu16_step_register: "crc_itu16_step b c = crc_register 0x8408 (octet_bits b) c"
  by (subst crc_register_octet)
     (simp_all only: crc_itu16_step_def crc_itu16_table_doublings crc16_generators, simp)

lemma crc_itu32_step_register: "crc_itu32_step b c = crc_register 0xEDB88320 (octet_bits b) c"
proof -
  have "drop_bit 8 c AND 0x00FFFFFF = drop_bit 8 c"
  proof -
    have "(0x00FFFFFF :: u32) = mask 24" by (simp add: mask_eq_exp_minus_1)
    moreover have "i < 24" if "bit c (8 + i)" for i using bit_imp_le_length[OF that] by simp
    ultimately show ?thesis
      by (simp only: take_bit_eq_mask[symmetric]) (rule bit_eqI, auto simp: bit_simps)
  qed
  then show ?thesis
    by (subst crc_register_octet)
       (simp_all only: crc_itu32_step_def crc_itu32_table_doublings crc32_generators, simp)
qed

lemma crc_itu16_calc_register: "crc_itu16_calc bs c = crc_register 0x8408 (bits_of bs) c"
  by (induction bs c rule: crc_itu16_calc.induct) (simp_all add: crc_itu16_step_register)

lemma crc_itu32_calc_register: "crc_itu32_calc bs c = crc_register 0xEDB88320 (bits_of bs) c"
  by (induction bs c rule: crc_itu32_calc.induct) (simp_all add: crc_itu32_step_register)

text \<open>The table-driven, the bitwise and the reference computation of an octet agree.\<close>

lemma crc_itu16_routines_agree:
  "crc_itu16_calc bs c = fold (\<lambda>b c. crc_itu16_bits b 8 c) bs c"
  by (induction bs c rule: crc_itu16_calc.induct)
     (simp_all add: crc_itu16_step_register crc_register_bits_fold octet_bits_def)

end
