(* ===== verification/Hdlc_Rx.thy ===== *)
theory Hdlc_Rx
  imports Crc
begin

text \<open>
  The HDLC receiver (\<^verbatim>\<open>spandsp/src/hdlc.c\<close> and the descriptor of
  \<^verbatim>\<open>spandsp/private/hdlc.h\<close>): flag detection, bit unstuffing, octet
  assembly, CRC check and the calls of the user's handlers.  The handlers are outside the
  model: their calls are recorded, in order, as events; a call through a null pointer
  and an access outside the frame buffer are \<open>None\<close>.
\<close>

section \<open>State\<close>

definition HDLC_MAXFRAME_LEN :: nat where
  "HDLC_MAXFRAME_LEN = 400"

definition SIG_STATUS_CARRIER_DOWN :: int where "SIG_STATUS_CARRIER_DOWN = -1"
definition SIG_STATUS_CARRIER_UP :: int where "SIG_STATUS_CARRIER_UP = -2"
definition SIG_STATUS_TRAINING_IN_PROGRESS :: int where "SIG_STATUS_TRAINING_IN_PROGRESS = -3"
definition SIG_STATUS_TRAINING_SUCCEEDED :: int where "SIG_STATUS_TRAINING_SUCCEEDED = -4"
definition SIG_STATUS_TRAINING_FAILED :: int where "SIG_STATUS_TRAINING_FAILED = -5"
definition SIG_STATUS_FRAMING_OK :: int where "SIG_STATUS_FRAMING_OK = -6"
definition SIG_STATUS_END_OF_DATA :: int where "SIG_STATUS_END_OF_DATA = -7"
definition SIG_STATUS_ABORT :: int where "SIG_STATUS_ABORT = -8"
definition SIG_STATUS_OCTET_REPORT :: int where "SIG_STATUS_OCTET_REPORT = -11"

text \<open>
  The two handler fields say whether the pointers are set.  The length is a \<open>size_t\<close>; every
  subtraction from it is guarded, so it is a natural number here.  \<open>num_bits\<close> counts the bits
  since the last flag and would overflow its \<open>int\<close> only after \<open>2 ^ 31\<close> bits without one.
\<close>

record hdlc_rx =
  hr_crc_bytes :: nat
  hr_max_frame_len :: nat
  hr_frame_handler :: bool
  hr_status_handler :: bool
  hr_report_bad_frames :: bool
  hr_framing_ok_threshold :: int
  hr_framing_ok_announced :: bool
  hr_flags_seen :: int
  hr_raw_bit_stream :: u32
  hr_byte_in_progress :: u32
  hr_num_bits :: int
  hr_octet_counting_mode :: bool
  hr_octet_count :: int
  hr_octet_count_report_interval :: int
  hr_buffer :: octets
  hr_len :: nat
  hr_rx_bytes :: nat
  hr_rx_frames :: nat
  hr_rx_crc_errors :: nat
  hr_rx_length_errors :: nat
  hr_rx_aborts :: nat

record hdlc_rx_stats =
  bytes :: nat
  good_frames :: nat
  crc_errors :: nat
  length_errors :: nat
  aborts :: nat

text \<open>A call of the status handler, and one of the frame handler with its packet (or null), length and verdict.\<close>

datatype hdlc_event =
    Status_call int
  | Frame_call "octets option" int bool

type_synonym hdlc_rx_result = "(hdlc_rx \<times> hdlc_event list) option"

definition sizeof_buffer :: "hdlc_rx \<Rightarrow> nat" where
  "sizeof_buffer s = HDLC_MAXFRAME_LEN + 4"

section \<open>Reports\<close>

definition report_status_change :: "hdlc_rx \<Rightarrow> int \<Rightarrow> hdlc_event list" where
  "report_status_change s status =
     (if hr_status_handler s then [Status_call status]
      else if hr_frame_handler s then [Frame_call None status True]
      else [])"

definition call_frame_handler :: "hdlc_rx \<Rightarrow> bool \<Rightarrow> hdlc_event list option" where
  "call_frame_handler s ok =
     (if hr_frame_handler s
      then Some [Frame_call (Some (take (hr_len s) (hr_buffer s))) (int (hr_len s)) ok] else None)"

definition rx_special_condition :: "hdlc_rx \<Rightarrow> int \<Rightarrow> hdlc_rx \<times> hdlc_event list" where
  "rx_special_condition s status =
     (if status = SIG_STATUS_CARRIER_UP \<or> status = SIG_STATUS_TRAINING_SUCCEEDED then
        (let s = s\<lparr>hr_raw_bit_stream := 0, hr_len := 0, hr_num_bits := 0, hr_flags_seen := 0,
                   hr_framing_ok_announced := False\<rparr>
         in (s, report_status_change s status))
      else if status \<in> {SIG_STATUS_TRAINING_IN_PROGRESS, SIG_STATUS_TRAINING_FAILED,
                        SIG_STATUS_CARRIER_DOWN, SIG_STATUS_END_OF_DATA} then
        (s, report_status_change s status)
      else (s, []))"

definition octet_count_down :: "hdlc_rx \<Rightarrow> hdlc_rx \<times> hdlc_event list" where
  "octet_count_down s =
     (let s = s\<lparr>hr_octet_count := hr_octet_count s - 1\<rparr> in
      if hr_octet_count s \<le> 0
      then (let s = s\<lparr>hr_octet_count := hr_octet_count_report_interval s\<rparr>
            in (s, report_status_change s SIG_STATUS_OCTET_REPORT))
      else (s, []))"

definition octet_set_and_count :: "hdlc_rx \<Rightarrow> hdlc_rx \<times> hdlc_event list" where
  "octet_set_and_count s =
     (if hr_octet_count_report_interval s = 0 then (s, [])
      else if hr_octet_counting_mode s then octet_count_down s
      else (s\<lparr>hr_octet_counting_mode := True, hr_octet_count := hr_octet_count_report_interval s\<rparr>, []))"

definition octet_count :: "hdlc_rx \<Rightarrow> hdlc_rx \<times> hdlc_event list" where
  "octet_count s =
     (if hr_octet_count_report_interval s = 0 then (s, [])
      else if hr_octet_counting_mode s then octet_count_down s
      else (s, []))"

section \<open>Flags and aborts\<close>

definition rx_frame_check :: "hdlc_rx \<Rightarrow> bool option" where
  "rx_frame_check s =
     (if hr_len s \<le> length (hr_buffer s)
      then Some (if hr_crc_bytes s = 2 then crc_itu16_check (take (hr_len s) (hr_buffer s))
                 else crc_itu32_check (take (hr_len s) (hr_buffer s)))
      else None)"

definition rx_abort :: "hdlc_rx \<Rightarrow> hdlc_rx \<times> hdlc_event list" where
  "rx_abort s =
     (let s = s\<lparr>hr_rx_aborts := hr_rx_aborts s + 1\<rparr>;
          evs = report_status_change s SIG_STATUS_ABORT;
          s = s\<lparr>hr_flags_seen := (if hr_flags_seen s < hr_framing_ok_threshold s - 1 then 0
                                  else hr_framing_ok_threshold s - 1)\<rparr>;
          (s, evs') = octet_set_and_count s
      in (s, evs @ evs'))"

definition rx_frame_end :: "hdlc_rx \<Rightarrow> hdlc_rx_result" where
  "rx_frame_end s =
     (if hr_len s \<noteq> 0 then
        (if hr_num_bits s = 7 \<and> hr_len s \<ge> hr_crc_bytes s \<and> hr_len s \<le> hr_max_frame_len s then
           do {
             good \<leftarrow> rx_frame_check s;
             if good then
               (let s = s\<lparr>hr_rx_frames := hr_rx_frames s + 1,
                          hr_rx_bytes := hr_rx_bytes s + (hr_len s - hr_crc_bytes s),
                          hr_len := hr_len s - hr_crc_bytes s\<rparr>
                in do { evs \<leftarrow> call_frame_handler s True; Some (s, evs) })
             else
               (let s = s\<lparr>hr_rx_crc_errors := hr_rx_crc_errors s + 1\<rparr> in
                if hr_report_bad_frames s then
                  (let s = s\<lparr>hr_len := hr_len s - hr_crc_bytes s\<rparr>
                   in do { evs \<leftarrow> call_frame_handler s False; Some (s, evs) })
                else Some (s, []))
           }
         else
           do {
             (s, evs) \<leftarrow> (if hr_report_bad_frames s then
                (let s = s\<lparr>hr_len := (if hr_len s \<ge> hr_crc_bytes s then hr_len s - hr_crc_bytes s else 0)\<rparr>
                 in do { evs \<leftarrow> call_frame_handler s False; Some (s, evs) })
              else Some (s, []));
             Some (s\<lparr>hr_rx_length_errors := hr_rx_length_errors s + 1\<rparr>, evs)
           })
      else Some (s, []))"

definition rx_preamble_flag :: "hdlc_rx \<Rightarrow> hdlc_rx \<times> hdlc_event list" where
  "rx_preamble_flag s =
     (let s = (if hr_num_bits s \<noteq> 7 then
                 s\<lparr>hr_flags_seen := (if hr_flags_seen s < hr_framing_ok_threshold s - 1 then 0
                                     else hr_framing_ok_threshold s - 1)\<rparr>
               else s);
          s = s\<lparr>hr_flags_seen := hr_flags_seen s + 1\<rparr>
      in if hr_flags_seen s \<ge> hr_framing_ok_threshold s \<and> \<not> hr_framing_ok_announced s
         then (s\<lparr>hr_framing_ok_announced := True\<rparr>, report_status_change s SIG_STATUS_FRAMING_OK)
         else (s, []))"

definition rx_flag_or_abort :: "hdlc_rx \<Rightarrow> hdlc_rx_result" where
  "rx_flag_or_abort s =
     do {
       (s, evs) \<leftarrow>
         (if hr_raw_bit_stream s AND 0x8000 \<noteq> 0 then Some (rx_abort s)
          else (let s = s\<lparr>hr_octet_counting_mode := False\<rparr> in
                if hr_flags_seen s \<ge> hr_framing_ok_threshold s then rx_frame_end s
                else Some (rx_preamble_flag s)));
       Some (s\<lparr>hr_len := 0, hr_num_bits := 0\<rparr>, evs)
     }"

section \<open>Bits and bytes\<close>

definition rx_octet_done :: "hdlc_rx \<Rightarrow> hdlc_rx_result" where
  "rx_octet_done s =
     do {
       (s, evs) \<leftarrow>
         (if hr_len s < hr_max_frame_len s then
            do { buf \<leftarrow> arr_set (hr_buffer s) (int (hr_len s)) (ucast (hr_byte_in_progress s));
                 Some (s\<lparr>hr_buffer := buf, hr_len := hr_len s + 1\<rparr>, []) }
          else
            Some (octet_set_and_count
                    (s\<lparr>hr_len := sizeof_buffer s + 1, hr_flags_seen := hr_framing_ok_threshold s - 1\<rparr>)));
       Some (s\<lparr>hr_num_bits := 0\<rparr>, evs)
     }"

definition hdlc_rx_put_bit_core :: "hdlc_rx \<Rightarrow> hdlc_rx_result" where
  "hdlc_rx_put_bit_core s =
     (if hr_raw_bit_stream s AND 0x3F00 = 0x3E00 then
        (if hr_raw_bit_stream s AND 0x4000 \<noteq> 0 then rx_flag_or_abort s else Some (s, []))
      else
        (let s = s\<lparr>hr_num_bits := hr_num_bits s + 1\<rparr> in
         if hr_flags_seen s < hr_framing_ok_threshold s then
           (if hr_num_bits s AND 0x7 = 0 then Some (octet_count s) else Some (s, []))
         else
           (let s = s\<lparr>hr_byte_in_progress :=
                        drop_bit 1 (hr_byte_in_progress s OR (hr_raw_bit_stream s AND 0x100))\<rparr>
            in if hr_num_bits s = 8 then rx_octet_done s else Some (s, []))))"

definition hdlc_rx_put_bit :: "hdlc_rx \<Rightarrow> int \<Rightarrow> hdlc_rx_result" where
  "hdlc_rx_put_bit s new_bit =
     (if new_bit < 0 then Some (rx_special_condition s new_bit)
      else hdlc_rx_put_bit_core
             (s\<lparr>hr_raw_bit_stream :=
                 push_bit 1 (hr_raw_bit_stream s) OR (push_bit 8 (word_of_int new_bit) AND 0x100)\<rparr>))"

fun hdlc_rx_put_byte_loop :: "nat \<Rightarrow> hdlc_rx \<Rightarrow> hdlc_rx_result" where
  "hdlc_rx_put_byte_loop 0 s = Some (s, [])"
| "hdlc_rx_put_byte_loop (Suc n) s =
     do {
       (s, evs) \<leftarrow> hdlc_rx_put_bit_core (s\<lparr>hr_raw_bit_stream := push_bit 1 (hr_raw_bit_stream s)\<rparr>);
       (s, evs') \<leftarrow> hdlc_rx_put_byte_loop n s;
       Some (s, evs @ evs')
     }"

definition hdlc_rx_put_byte :: "hdlc_rx \<Rightarrow> int \<Rightarrow> hdlc_rx_result" where
  "hdlc_rx_put_byte s new_byte =
     (if new_byte < 0 then Some (rx_special_condition s new_byte)
      else hdlc_rx_put_byte_loop 8
             (s\<lparr>hr_raw_bit_stream := hr_raw_bit_stream s OR word_of_int new_byte\<rparr>))"

fun hdlc_rx_put :: "hdlc_rx \<Rightarrow> octets \<Rightarrow> hdlc_rx_result" where
  "hdlc_rx_put s [] = Some (s, [])"
| "hdlc_rx_put s (b # bs) =
     do {
       (s, evs) \<leftarrow> hdlc_rx_put_byte s (uint b);
       (s, evs') \<leftarrow> hdlc_rx_put s bs;
       Some (s, evs @ evs')
     }"

section \<open>Set-up\<close>

definition hdlc_rx_set_max_frame_len :: "hdlc_rx \<Rightarrow> nat \<Rightarrow> hdlc_rx" where
  "hdlc_rx_set_max_frame_len s max_len =
     (let max_len = (max_len + hr_crc_bytes s) mod 2 ^ 64
      in s\<lparr>hr_max_frame_len := (if max_len \<le> sizeof_buffer s then max_len else sizeof_buffer s)\<rparr>)"

definition hdlc_rx_set_octet_counting_report_interval :: "hdlc_rx \<Rightarrow> int \<Rightarrow> hdlc_rx" where
  "hdlc_rx_set_octet_counting_report_interval s interval = s\<lparr>hr_octet_count_report_interval := interval\<rparr>"

definition hdlc_rx_init :: "bool \<Rightarrow> bool \<Rightarrow> int \<Rightarrow> bool \<Rightarrow> hdlc_rx" where
  "hdlc_rx_init crc32 report_bad_frames framing_ok_threshold handler =
     \<lparr>hr_crc_bytes = (if crc32 then 4 else 2), hr_max_frame_len = HDLC_MAXFRAME_LEN + 4,
      hr_frame_handler = handler, hr_status_handler = False, hr_report_bad_frames = report_bad_frames,
      hr_framing_ok_threshold = (if framing_ok_threshold < 1 then 1 else framing_ok_threshold),
      hr_framing_ok_announced = False, hr_flags_seen = 0, hr_raw_bit_stream = 0, hr_byte_in_progress = 0,
      hr_num_bits = 0, hr_octet_counting_mode = False, hr_octet_count = 0,
      hr_octet_count_report_interval = 0, hr_buffer = replicate (HDLC_MAXFRAME_LEN + 4) 0, hr_len = 0,
      hr_rx_bytes = 0, hr_rx_frames = 0, hr_rx_crc_errors = 0, hr_rx_length_errors = 0, hr_rx_aborts = 0\<rparr>"

definition hdlc_rx_set_frame_handler :: "hdlc_rx \<Rightarrow> bool \<Rightarrow> hdlc_rx" where
  "hdlc_rx_set_frame_handler s handler = s\<lparr>hr_frame_handler := handler\<rparr>"

definition hdlc_rx_set_status_handler :: "hdlc_rx \<Rightarrow> bool \<Rightarrow> hdlc_rx" where
  "hdlc_rx_set_status_handler s handler = s\<lparr>hr_status_handler := handler\<rparr>"

definition hdlc_rx_get_stats :: "hdlc_rx \<Rightarrow> hdlc_rx_stats" where
  "hdlc_rx_get_stats s =
     \<lparr>bytes = hr_rx_bytes s, good_frames = hr_rx_frames s, crc_errors = hr_rx_crc_errors s,
      length_errors = hr_rx_length_errors s, aborts = hr_rx_aborts s\<rparr>"

end
