(* ===== verification/Hdlc_Tx.thy ===== *)
theory Hdlc_Tx
  imports Hdlc_Rx
begin

text \<open>
  The HDLC transmitter (\<^verbatim>\<open>spandsp/src/hdlc.c\<close>): the frame buffer with its CRC,
  bit stuffing, flags between frames, the octets and bits handed to the modem.  The
  underflow handler may load the next frame: it is the parameter \<open>underflow\<close>, applied to the
  state at the point of the call.
\<close>

section \<open>State\<close>

record hdlc_tx =
  ht_crc_bytes :: nat
  ht_inter_frame_flags :: int
  ht_progressive :: bool
  ht_max_frame_len :: nat
  ht_octets_in_progress :: u32
  ht_num_bits :: nat
  ht_idle_octet :: int
  ht_flag_octets :: int
  ht_abort_octets :: int
  ht_report_flag_underflow :: bool
  ht_buffer :: octets
  ht_len :: nat
  ht_pos :: nat
  ht_crc :: u32
  ht_byte :: int
  ht_bits :: nat
  ht_tx_end :: bool

type_synonym underflow_handler = "hdlc_tx \<Rightarrow> hdlc_tx"

section \<open>Loading frames and flags\<close>

text \<open>The length is that of the frame passed; a request that is refused leaves the state as it was.\<close>

definition hdlc_tx_frame :: "hdlc_tx \<Rightarrow> octets \<Rightarrow> (hdlc_tx \<times> int) option" where
  "hdlc_tx_frame s frame =
     (let len = length frame in
      if len \<le> 0 then Some (s\<lparr>ht_tx_end := True\<rparr>, 0)
      else if ht_len s + len > ht_max_frame_len s then Some (s, -1)
      else if ht_progressive s \<and> ht_pos s \<ge> HDLC_MAXFRAME_LEN then Some (s, -1)
      else if \<not> ht_progressive s \<and> ht_len s \<noteq> 0 then Some (s, -1)
      else if ht_len s + len \<le> length (ht_buffer s) then
        Some (s\<lparr>ht_buffer := take (ht_len s) (ht_buffer s) @ frame @ drop (ht_len s + len) (ht_buffer s),
                ht_crc := (if ht_crc_bytes s = 2 then ucast (crc_itu16_calc frame (ucast (ht_crc s)))
                           else crc_itu32_calc frame (ht_crc s)),
                ht_len := (if ht_progressive s then ht_len s + len else len),
                ht_tx_end := False\<rparr>, 0)
      else None)"

definition hdlc_tx_flags :: "hdlc_tx \<Rightarrow> int \<Rightarrow> hdlc_tx \<times> int" where
  "hdlc_tx_flags s len =
     (if ht_pos s \<noteq> 0 then (s, -1)
      else (s\<lparr>ht_flag_octets := (if len < 0 then ht_flag_octets s + (- len) else len),
              ht_report_flag_underflow := True, ht_tx_end := False\<rparr>, 0))"

definition hdlc_tx_abort :: "hdlc_tx \<Rightarrow> hdlc_tx \<times> int" where
  "hdlc_tx_abort s =
     (s\<lparr>ht_flag_octets := ht_flag_octets s + 1, ht_abort_octets := ht_abort_octets s + 1\<rparr>, -1)"

definition flip_octet :: "octets \<Rightarrow> nat \<Rightarrow> octets option" where
  "flip_octet buf i = do { b \<leftarrow> arr_get buf (int i); arr_set buf (int i) (b XOR 0xFF) }"

definition hdlc_tx_corrupt_frame :: "hdlc_tx \<Rightarrow> (hdlc_tx \<times> int) option" where
  "hdlc_tx_corrupt_frame s =
     (if ht_len s \<le> 0 then Some (s, -1)
      else do {
        buf \<leftarrow> flip_octet (ht_buffer s) HDLC_MAXFRAME_LEN;
        buf \<leftarrow> flip_octet buf (HDLC_MAXFRAME_LEN + 1);
        buf \<leftarrow> flip_octet buf (HDLC_MAXFRAME_LEN + 2);
        buf \<leftarrow> flip_octet buf (HDLC_MAXFRAME_LEN + 3);
        Some (s\<lparr>ht_crc := ht_crc s XOR 0xFFFF, ht_buffer := buf\<rparr>, 0)
      })"

section \<open>Octets for the modem\<close>

text \<open>The lowest bit set, \<open>bottom_bit\<close> of \<^verbatim>\<open>bit_operations.h\<close> in its portable form.\<close>

definition bottom_bit_step :: "u32 \<Rightarrow> int \<Rightarrow> u32 \<times> int \<Rightarrow> u32 \<times> int" where
  "bottom_bit_step m w = (\<lambda>(bits, res). if bits AND m \<noteq> 0 then (bits AND m, res - w) else (bits, res))"

definition bottom_bit :: "u32 \<Rightarrow> int" where
  "bottom_bit bits =
     (if bits = 0 then -1
      else snd (bottom_bit_step 0x55555555 1 (bottom_bit_step 0x33333333 2
             (bottom_bit_step 0x0F0F0F0F 4 (bottom_bit_step 0x00FF00FF 8
             (bottom_bit_step 0x0000FFFF 16 (bits, 31)))))))"

text \<open>The stuffing loop from bit \<open>i\<close>, with fuel \<open>8 - i\<close>.\<close>

fun tx_stuff_loop :: "nat \<Rightarrow> u32 \<Rightarrow> u32 \<Rightarrow> nat \<Rightarrow> u32 \<times> nat" where
  "tx_stuff_loop 0 byte_in_progress octets_in_progress num_bits = (octets_in_progress, num_bits)"
| "tx_stuff_loop (Suc n) byte_in_progress octets_in_progress num_bits =
     (let oip = push_bit 1 octets_in_progress OR (byte_in_progress AND 0x01) in
      if oip AND 0x1F = 0x1F
      then tx_stuff_loop n (drop_bit 1 byte_in_progress) (push_bit 1 oip) (num_bits + 1)
      else tx_stuff_loop n (drop_bit 1 byte_in_progress) oip num_bits)"

definition tx_timed_flag :: "underflow_handler \<Rightarrow> hdlc_tx \<Rightarrow> hdlc_tx \<times> int" where
  "tx_timed_flag underflow s =
     (let s = s\<lparr>ht_flag_octets := ht_flag_octets s - 1\<rparr>;
          s = (if ht_flag_octets s \<le> 0 \<and> ht_report_flag_underflow s then
                 (let s = s\<lparr>ht_report_flag_underflow := False\<rparr> in
                  if ht_len s = 0 then underflow s else s)
               else s)
      in if ht_abort_octets s \<noteq> 0 then (s\<lparr>ht_abort_octets := 0\<rparr>, 0x7F) else (s, ht_idle_octet s))"

definition tx_data_octet :: "hdlc_tx \<Rightarrow> (hdlc_tx \<times> int) option" where
  "tx_data_octet s =
     do {
       b \<leftarrow> arr_get (ht_buffer s) (int (ht_pos s));
       let bip = (ucast b :: u32);
       let i = nat (bottom_bit (bip OR 0x100));
       let (oip, num_bits) = tx_stuff_loop (8 - i) (drop_bit i bip) (push_bit i (ht_octets_in_progress s)) (ht_num_bits s);
       Some (s\<lparr>ht_pos := ht_pos s + 1, ht_octets_in_progress := oip, ht_num_bits := num_bits\<rparr>,
             uint (drop_bit num_bits oip AND 0xFF))
     }"

definition tx_load_crc :: "hdlc_tx \<Rightarrow> hdlc_tx option" where
  "tx_load_crc s =
     (let crc = ht_crc s XOR 0xFFFFFFFF in
      do {
        buf \<leftarrow> arr_set (ht_buffer s) (int HDLC_MAXFRAME_LEN) (ucast crc);
        buf \<leftarrow> arr_set buf (int HDLC_MAXFRAME_LEN + 1) (ucast (drop_bit 8 crc));
        buf \<leftarrow> (if ht_crc_bytes s = 4 then
                  do {
                    buf \<leftarrow> arr_set buf (int HDLC_MAXFRAME_LEN + 2) (ucast (drop_bit 16 crc));
                    arr_set buf (int HDLC_MAXFRAME_LEN + 3) (ucast (drop_bit 24 crc))
                  }
                else Some buf);
        Some (s\<lparr>ht_crc := crc, ht_buffer := buf, ht_pos := HDLC_MAXFRAME_LEN\<rparr>)
      })"

definition tx_frame_end :: "underflow_handler \<Rightarrow> hdlc_tx \<Rightarrow> hdlc_tx \<times> int" where
  "tx_frame_end underflow s =
     (let nb = ht_num_bits s;
          txbyte = uint (ucast (push_bit (8 - nb) (ht_octets_in_progress s) OR drop_bit nb 0x7E) :: u8);
          idle = drop_bit nb (0x7E7E :: int) AND 0xFF;
          s = s\<lparr>ht_idle_octet := idle, ht_octets_in_progress := word_of_int (drop_bit (8 - nb) idle),
                ht_flag_octets := ht_inter_frame_flags s - 1, ht_len := 0, ht_pos := 0,
                ht_crc := (if ht_crc_bytes s = 2 then 0xFFFF else 0xFFFFFFFF),
                ht_report_flag_underflow := False\<rparr>;
          s = underflow s;
          s = (if ht_len s = 0 \<and> ht_flag_octets s < 2 then s\<lparr>ht_flag_octets := 2\<rparr> else s)
      in (s, txbyte))"

definition hdlc_tx_get_byte :: "underflow_handler \<Rightarrow> hdlc_tx \<Rightarrow> (hdlc_tx \<times> int) option" where
  "hdlc_tx_get_byte underflow s =
     (if ht_flag_octets s > 0 then Some (tx_timed_flag underflow s)
      else if ht_len s \<noteq> 0 then
        (if ht_num_bits s \<ge> 8 then
           (let s = s\<lparr>ht_num_bits := ht_num_bits s - 8\<rparr>
            in Some (s, uint (drop_bit (ht_num_bits s) (ht_octets_in_progress s) AND 0xFF)))
         else if ht_pos s \<ge> ht_len s then
           (if ht_pos s = ht_len s then do { s \<leftarrow> tx_load_crc s; tx_data_octet s }
            else if ht_pos s = HDLC_MAXFRAME_LEN + ht_crc_bytes s then Some (tx_frame_end underflow s)
            else tx_data_octet s)
         else tx_data_octet s)
      else if ht_tx_end s then Some (s\<lparr>ht_tx_end := False\<rparr>, SIG_STATUS_END_OF_DATA)
      else Some (s, ht_idle_octet s))"

definition hdlc_tx_get_bit :: "underflow_handler \<Rightarrow> hdlc_tx \<Rightarrow> (hdlc_tx \<times> int) option" where
  "hdlc_tx_get_bit underflow s =
     do {
       s \<leftarrow> (if ht_bits s = 0 then
               do { (s, b) \<leftarrow> hdlc_tx_get_byte underflow s;
                    Some (if b < 0 then s\<lparr>ht_byte := b\<rparr> else s\<lparr>ht_byte := b, ht_bits := 8\<rparr>) }
             else Some s);
       if ht_bits s = 0 then Some (s, ht_byte s)
       else (let s = s\<lparr>ht_bits := ht_bits s - 1\<rparr>
             in Some (s, drop_bit (ht_bits s) (ht_byte s) AND 0x01))
     }"

fun hdlc_tx_get :: "underflow_handler \<Rightarrow> hdlc_tx \<Rightarrow> nat \<Rightarrow> (hdlc_tx \<times> octets) option" where
  "hdlc_tx_get underflow s 0 = Some (s, [])"
| "hdlc_tx_get underflow s (Suc n) =
     do {
       (s, x) \<leftarrow> hdlc_tx_get_byte underflow s;
       if x = SIG_STATUS_END_OF_DATA then Some (s, [])
       else do { (s, xs) \<leftarrow> hdlc_tx_get underflow s n; Some (s, word_of_int x # xs) }
     }"

section \<open>Set-up\<close>

definition hdlc_tx_set_max_frame_len :: "hdlc_tx \<Rightarrow> nat \<Rightarrow> hdlc_tx" where
  "hdlc_tx_set_max_frame_len s max_len =
     s\<lparr>ht_max_frame_len := (if max_len \<le> HDLC_MAXFRAME_LEN then max_len else HDLC_MAXFRAME_LEN)\<rparr>"

definition hdlc_tx_init :: "bool \<Rightarrow> int \<Rightarrow> bool \<Rightarrow> hdlc_tx" where
  "hdlc_tx_init crc32 inter_frame_flags progressive =
     \<lparr>ht_crc_bytes = (if crc32 then 4 else 2),
      ht_inter_frame_flags = (if inter_frame_flags < 1 then 1 else inter_frame_flags),
      ht_progressive = progressive, ht_max_frame_len = HDLC_MAXFRAME_LEN,
      ht_octets_in_progress = 0, ht_num_bits = 0, ht_idle_octet = 0x7E, ht_flag_octets = 0,
      ht_abort_octets = 0, ht_report_flag_underflow = False,
      ht_buffer = replicate (HDLC_MAXFRAME_LEN + 4) 0, ht_len = 0, ht_pos = 0,
      ht_crc = (if crc32 then 0xFFFFFFFF else 0xFFFF), ht_byte = 0, ht_bits = 0, ht_tx_end = False\<rparr>"

end
