(* ===== verification/Crc_Detect.thy ===== *)
theory Crc_Detect
  imports Crc
begin

text \<open>
  What the two CRCs promise: an appended CRC checks, nothing else in its place does, and
  no burst of errors as long as the register goes undetected.  The lemmas are proved once
  for a register of any width whose polynomial has its top bit set.
\<close>

section \<open>Errors seen by a register\<close>

lemma crc_shift_top:
  fixes c :: "'a::len word"
  assumes "bit p (LENGTH('a) - 1)" "bit c 0 \<noteq> b"
  shows "bit (crc_shift p b c) (LENGTH('a) - 1)"
  using assms bit_imp_le_length[of c "Suc (LENGTH('a) - Suc 0)"]
  by (auto simp: crc_shift_def bit_simps)

lemma crc_register_high:
  fixes c :: "'a::len word"
  assumes "bit p (LENGTH('a) - 1)"
  shows "length e \<le> k \<Longrightarrow> bit c k \<Longrightarrow> crc_register p e c \<noteq> 0"
proof (induction e arbitrary: c k)
  case (Cons b e)
  have k: "k < LENGTH('a)" by (rule bit_imp_le_length) (rule Cons.prems)
  show ?case
  proof (cases "bit c 0 \<noteq> b")
    case True
    have "crc_register p e (crc_shift p b c) \<noteq> 0"
      by (rule Cons.IH[OF _ crc_shift_top[OF assms True]]) (use Cons.prems(1) k in simp)
    then show ?thesis by simp
  next
    case False
    have "bit (crc_shift p b c) (k - 1)"
      using False Cons.prems by (simp add: crc_shift_def bit_simps)
    then have "crc_register p e (crc_shift p b c) \<noteq> 0"
      by (rule Cons.IH[rotated]) (use Cons.prems(1) in simp)
    then show ?thesis by simp
  qed
qed auto

lemma crc_register_zeros:
  fixes c :: "'a::len word"
  assumes "bit p (LENGTH('a) - 1)" "c \<noteq> 0"
  shows "crc_register p (zeros n) c \<noteq> 0"
  using \<open>c \<noteq> 0\<close>
proof (induction n arbitrary: c)
  case (Suc n)
  obtain k where k: "bit c k" using Suc.prems by (metis bit_0_eq bit_eqI bot_apply bot_bool_def)
  have "crc_shift p False c \<noteq> 0"
  proof (cases "bit c 0")
    case True
    then have "bit (crc_shift p False c) (LENGTH('a) - 1)" by (intro crc_shift_top assms) simp
    then show ?thesis by auto
  next
    case False
    then have "bit (crc_shift p False c) (k - 1)"
      using k by (cases k) (simp_all add: crc_shift_def bit_simps)
    then show ?thesis by auto
  qed
  then show ?case by (simp add: Suc.IH)
qed simp

lemma crc_register_burst:
  fixes p :: "'a::len word"
  assumes "bit p (LENGTH('a) - 1)"
  shows "length e \<le> LENGTH('a) \<Longrightarrow> True \<in> set e \<Longrightarrow> crc_register p e 0 \<noteq> 0"
proof (induction e)
  case (Cons b e)
  show ?case
  proof (cases b)
    case True
    have "crc_register p e p \<noteq> 0"
      by (rule crc_register_high[OF assms _ assms]) (use Cons.prems in simp)
    then show ?thesis using True by (simp add: crc_shift_def)
  next
    case False
    then show ?thesis using Cons by (simp add: crc_shift_def)
  qed
qed simp

lemma map2_neq_self: "map2 (\<noteq>) xs xs = zeros (length xs)"
  by (induction xs) auto

lemma map2_neq_True:
  "length xs = length ys \<Longrightarrow> xs \<noteq> ys \<Longrightarrow> True \<in> set (map2 (\<noteq>) xs ys)"
  by (induction xs ys rule: list_induct2) auto

lemma map2_neq_ones: "map2 (\<noteq>) xs (replicate (length xs) True) = map Not xs"
  by (induction xs) auto

text \<open>Two inputs that differ only inside one burst leave different registers.\<close>

lemma crc_register_distinguishes:
  fixes p :: "'a::len word"
  assumes "bit p (LENGTH('a) - 1)" "length u = length v" "length u \<le> LENGTH('a)" "u \<noteq> v"
  shows "crc_register p (a @ u @ b) c \<noteq> crc_register p (a @ v @ b) c"
proof
  let ?c = "crc_register p a c" and ?e = "crc_register p (map2 (\<noteq>) u v) (0 :: 'a word)"
  assume "crc_register p (a @ u @ b) c = crc_register p (a @ v @ b) c"
  then have same: "crc_register p b (crc_register p u ?c) = crc_register p b (crc_register p v ?c)" by simp
  have e: "crc_register p u ?c XOR crc_register p v ?c = ?e"
    using crc_register_xor[OF assms(2), of p ?c ?c] by simp
  have "crc_register p (zeros (length b)) ?e
          = crc_register p (map2 (\<noteq>) b b) (crc_register p u ?c XOR crc_register p v ?c)"
    by (simp only: e map2_neq_self)
  also have "\<dots> = crc_register p b (crc_register p u ?c) XOR crc_register p b (crc_register p v ?c)"
    by (rule crc_register_xor) (rule refl)
  also have "\<dots> = 0" by (subst same) (rule xor_self_eq)
  finally have "crc_register p (zeros (length b)) ?e = 0" .
  moreover have "?e \<noteq> 0"
    by (rule crc_register_burst[OF assms(1) _ map2_neq_True[OF assms(2,4)]]) (use assms(2,3) in simp)
  ultimately show False using crc_register_zeros[OF assms(1)] by blast
qed

text \<open>The complement of the register, shifted in, leaves a constant: the residue of the check.\<close>

lemma crc_register_complement:
  fixes c :: "'a::len word"
  assumes "n = LENGTH('a)"
  shows "crc_register p (map (\<lambda>i. \<not> bit c i) [0..<n]) c = crc_register p (replicate n True) 0"
proof -
  let ?bs = "map (bit c) [0..<n]"
  have "map (\<lambda>i. \<not> bit c i) [0..<n] = map2 (\<noteq>) ?bs (replicate n True)"
    using map2_neq_ones[of ?bs] by (simp add: comp_def)
  then have "crc_register p (map (\<lambda>i. \<not> bit c i) [0..<n]) c
               = crc_register p ?bs c XOR crc_register p (replicate n True) 0"
    using crc_register_xor[of ?bs "replicate n True" p c 0] by simp
  moreover have "crc_register p ?bs c = 0"
    by (subst crc_register_cancel) (auto simp: assms intro!: bit_eqI simp: bit_simps dest: bit_imp_le_length)
  ultimately show ?thesis by simp
qed

lemma replicate_8: "replicate 8 b = [b, b, b, b, b, b, b, b]"
  by (simp add: numeral_eq_Suc)

section \<open>CRC-16\<close>

lemma upt_16: "[0..<16] = [0, 1, 2, 3, 4, 5, 6, 7, 8, 9, 10, 11, 12, 13, 14, 15]"
  by (simp add: upt_rec)

definition crc16_bytes :: "octets \<Rightarrow> octets" where
  "crc16_bytes body = (let crc = crc_itu16_calc body 0xFFFF XOR 0xFFFF in [ucast crc, ucast (drop_bit 8 crc)])"

lemma crc_itu16_calc_append: "crc_itu16_calc (xs @ ys) c = crc_itu16_calc ys (crc_itu16_calc xs c)"
  by (simp add: crc_itu16_calc_register)

lemma crc_itu16_check_iff: "crc_itu16_check buf \<longleftrightarrow> crc_itu16_calc buf 0xFFFF = 0xF0B8"
proof -
  have "(x :: u16) AND 0xFFFF = x" for x
  proof -
    have "(0xFFFF :: u16) = -1" by simp
    then show ?thesis by (simp only: and.right_neutral)
  qed
  then show ?thesis by (simp add: crc_itu16_check_def)
qed

lemma ucast_octet_bit: "bit (ucast (w :: 'a::len word) :: u8) i \<longleftrightarrow> i < 8 \<and> bit w i"
  by (auto simp: bit_simps)

lemma crc16_bytes_residue: "crc_itu16_calc (crc16_bytes body) (crc_itu16_calc body 0xFFFF) = 0xF0B8"
proof -
  let ?c = "crc_itu16_calc body 0xFFFF"
  have ones: "(0xFFFF :: u16) = NOT 0" by simp
  have "bits_of (crc16_bytes body) = map (\<lambda>i. \<not> bit ?c i) [0..<16]"
    unfolding crc16_bytes_def Let_def ones
    by (simp add: octet_bits_eq ucast_octet_bit bit_simps upt_16)
  then have "crc_itu16_calc (crc16_bytes body) ?c = crc_register 0x8408 (replicate 16 True) 0"
    by (simp add: crc_itu16_calc_register crc_register_complement)
  moreover have "crc_register (0x8408 :: u16) (replicate 16 True) 0 = 0xF0B8"
  proof -
    have "replicate 16 True = replicate 8 True @ replicate 8 True" by (simp add: replicate_add[symmetric])
    then show ?thesis by (simp only: replicate_8 crc_register_simps) (simp add: crc_shift_def)
  qed
  ultimately show ?thesis by simp
qed

lemma bits_of_inject: "length xs = length ys \<Longrightarrow> bits_of xs = bits_of ys \<Longrightarrow> xs = ys"
proof (induction xs ys rule: list_induct2)
  case (Cons x xs y ys)
  have "octet_bits x = octet_bits y" "bits_of xs = bits_of ys" using Cons.prems by simp_all
  moreover from this(1) have "x = y"
    by (auto intro!: bit_word_eqI simp: octet_bits_eq less_Suc_eq numeral_eq_Suc)
  ultimately show ?case using Cons.IH by simp
qed simp

lemma top_0x8408: "bit (0x8408 :: u16) (LENGTH(16) - 1)"
  by (simp add: bit_simps)

text \<open>The two octets behind a body check if and only if they are its CRC.\<close>

lemma crc_itu16_check_appended:
  assumes "length t = 2"
  shows "crc_itu16_check (body @ t) \<longleftrightarrow> t = crc16_bytes body"
proof (cases "t = crc16_bytes body")
  case True
  then show ?thesis by (simp add: crc_itu16_check_iff crc_itu16_calc_append crc16_bytes_residue)
next
  case False
  have len: "length (crc16_bytes body) = 2" by (simp add: crc16_bytes_def Let_def)
  have "bits_of t \<noteq> bits_of (crc16_bytes body)"
    using False assms len bits_of_inject by metis
  then have "crc_register 0x8408 (bits_of body @ bits_of t @ []) (0xFFFF :: u16)
      \<noteq> crc_register 0x8408 (bits_of body @ bits_of (crc16_bytes body) @ []) 0xFFFF"
    by (intro crc_register_distinguishes top_0x8408) (simp_all add: assms len)
  then show ?thesis
    using False crc16_bytes_residue[of body]
    by (simp add: crc_itu16_check_iff crc_itu16_calc_append crc_itu16_calc_register)
qed

lemma arr_set_tail:
  "length a = n \<Longrightarrow> 0 \<le> i \<Longrightarrow> arr_set (a @ xs) (int n + i) v = map_option ((@) a) (arr_set xs i v)"
  by (auto simp: arr_set_def list_update_append nat_add_distrib)

lemma arr_set_2:
  assumes "length a = n"
  shows "arr_set (a @ [x, y]) (int n) v = Some (a @ [v, y])" "arr_set (a @ [x, y]) (int n + 1) v = Some (a @ [x, v])"
  using arr_set_tail[OF assms, of 0 "[x, y]" v] arr_set_tail[OF assms, of 1 "[x, y]" v] by (simp_all add: arr_set_def)

lemma arr_set_4:
  assumes "length a = n"
  shows "arr_set (a @ [w, x, y, z]) (int n) v = Some (a @ [v, x, y, z])"
    "arr_set (a @ [w, x, y, z]) (int n + 1) v = Some (a @ [w, v, y, z])"
    "arr_set (a @ [w, x, y, z]) (int n + 2) v = Some (a @ [w, x, v, z])"
    "arr_set (a @ [w, x, y, z]) (int n + 3) v = Some (a @ [w, x, y, v])"
  using arr_set_tail[OF assms, of 0 "[w, x, y, z]" v] arr_set_tail[OF assms, of 1 "[w, x, y, z]" v]
    arr_set_tail[OF assms, of 2 "[w, x, y, z]" v] arr_set_tail[OF assms, of 3 "[w, x, y, z]" v]
  by (simp_all add: arr_set_def numeral_eq_Suc)

text \<open>The two octets are written behind the body, whatever was there.\<close>

lemma crc_itu16_append_eq:
  "crc_itu16_append (body @ [x, y]) (length body) = Some (body @ crc16_bytes body, length body + 2)"
proof -
  have "length body \<le> length (body @ [x, y])" "take (length body) (body @ [x, y]) = body" by simp_all
  then show ?thesis
    unfolding crc_itu16_append_def crc16_bytes_def Let_def
    by (simp only: if_True arr_set_2[OF refl] Option.bind.simps)
qed

section \<open>CRC-32\<close>

definition crc32_bytes :: "octets \<Rightarrow> octets" where
  "crc32_bytes body = (let crc = crc_itu32_calc body 0xFFFFFFFF XOR 0xFFFFFFFF
     in [ucast crc, ucast (drop_bit 8 crc), ucast (drop_bit 16 crc), ucast (drop_bit 24 crc)])"

lemma crc_itu32_calc_append: "crc_itu32_calc (xs @ ys) c = crc_itu32_calc ys (crc_itu32_calc xs c)"
  by (simp add: crc_itu32_calc_register)

lemma upt_32: "[0..<32] = [0, 1, 2, 3, 4, 5, 6, 7, 8, 9, 10, 11, 12, 13, 14, 15,
    16, 17, 18, 19, 20, 21, 22, 23, 24, 25, 26, 27, 28, 29, 30, 31]"
  by (simp add: upt_rec)

lemma crc32_bytes_residue: "crc_itu32_calc (crc32_bytes body) (crc_itu32_calc body 0xFFFFFFFF) = 0xDEBB20E3"
proof -
  let ?c = "crc_itu32_calc body 0xFFFFFFFF"
  have ones: "(0xFFFFFFFF :: u32) = NOT 0" by simp
  have "bits_of (crc32_bytes body) = map (\<lambda>i. \<not> bit ?c i) [0..<32]"
    unfolding crc32_bytes_def Let_def ones
    by (simp add: octet_bits_eq ucast_octet_bit bit_simps upt_32)
  then have "crc_itu32_calc (crc32_bytes body) ?c = crc_register 0xEDB88320 (replicate 32 True) 0"
    by (simp add: crc_itu32_calc_register crc_register_complement)
  moreover have "crc_register (0xEDB88320 :: u32) (replicate 32 True) 0 = 0xDEBB20E3"
  proof -
    have "replicate 32 True = replicate 8 True @ replicate 8 True @ replicate 8 True @ replicate 8 True"
      by (simp add: replicate_add[symmetric])
    then show ?thesis by (simp only: replicate_8 crc_register_simps) (simp add: crc_shift_def)
  qed
  ultimately show ?thesis by simp
qed

lemma top_0xEDB88320: "bit (0xEDB88320 :: u32) (LENGTH(32) - 1)"
  by (simp add: bit_simps)

lemma crc_itu32_check_appended:
  assumes "length t = 4"
  shows "crc_itu32_check (body @ t) \<longleftrightarrow> t = crc32_bytes body"
proof (cases "t = crc32_bytes body")
  case True
  then show ?thesis by (simp add: crc_itu32_check_def crc_itu32_calc_append crc32_bytes_residue)
next
  case False
  have len: "length (crc32_bytes body) = 4" by (simp add: crc32_bytes_def Let_def)
  have "bits_of t \<noteq> bits_of (crc32_bytes body)"
    using False assms len bits_of_inject by metis
  then have "crc_register 0xEDB88320 (bits_of body @ bits_of t @ []) (0xFFFFFFFF :: u32)
      \<noteq> crc_register 0xEDB88320 (bits_of body @ bits_of (crc32_bytes body) @ []) 0xFFFFFFFF"
    by (intro crc_register_distinguishes top_0xEDB88320) (simp_all add: assms len)
  then show ?thesis
    using False crc32_bytes_residue[of body]
    by (simp add: crc_itu32_check_def crc_itu32_calc_append crc_itu32_calc_register)
qed

section \<open>What a receiver relies on\<close>

text \<open>
  A frame check of \<open>width\<close> octets: the octets \<open>fcs\<close> of a frame check behind it, and no others.
  The receiver and transmitter of HDLC frames use nothing else of the two CRCs.
\<close>

locale frame_check =
  fixes width :: nat and fcs :: "octets \<Rightarrow> octets" and check :: "octets \<Rightarrow> bool"
  assumes fcs_length: "length (fcs f) = width"
    and check_iff: "length t = width \<Longrightarrow> check (f @ t) \<longleftrightarrow> t = fcs f"
begin

lemma own_checks: "check (f @ fcs f)"
  by (simp add: check_iff fcs_length)

lemma trailer:
  assumes "width \<le> length buf"
  shows "check buf \<longleftrightarrow> drop (length buf - width) buf = fcs (take (length buf - width) buf)"
proof -
  have "check (take (length buf - width) buf @ drop (length buf - width) buf)
      \<longleftrightarrow> drop (length buf - width) buf = fcs (take (length buf - width) buf)"
    by (rule check_iff) (use assms in simp)
  then show ?thesis by simp
qed

end

interpretation crc16: frame_check 2 crc16_bytes crc_itu16_check
  by unfold_locales (simp_all add: crc16_bytes_def Let_def crc_itu16_check_appended[unfolded crc16_bytes_def Let_def])

interpretation crc32: frame_check 4 crc32_bytes crc_itu32_check
  by unfold_locales (simp_all add: crc32_bytes_def Let_def crc_itu32_check_appended[unfolded crc32_bytes_def Let_def])

section \<open>Properties\<close>

lemma crc_itu32_append_eq:
  "crc_itu32_append (body @ [w, x, y, z]) (length body) = Some (body @ crc32_bytes body, length body + 4)"
proof -
  have "length body \<le> length (body @ [w, x, y, z])" "take (length body) (body @ [w, x, y, z]) = body" by simp_all
  then show ?thesis
    unfolding crc_itu32_append_def crc32_bytes_def Let_def
    by (simp only: if_True arr_set_4[OF refl] Option.bind.simps)
qed

text \<open>
  Property C22. Both checks accept a message exactly when its last two or four octets
  are the ones the append function would write there.
\<close>

theorem crc_accepts_exactly:
  "(crc_itu16_check (body @ [a, b]) \<longleftrightarrow>
      crc_itu16_append (body @ [w, x]) (length body) = Some (body @ [a, b], length body + 2)) \<and>
   (crc_itu32_check (body @ [a, b, c, d]) \<longleftrightarrow>
      crc_itu32_append (body @ [w, x, y, z]) (length body) = Some (body @ [a, b, c, d], length body + 4))"
  using crc16.check_iff[of "[a, b]" body] crc32.check_iff[of "[a, b, c, d]" body]
  by (auto simp: crc_itu16_append_eq crc_itu32_append_eq)

text \<open>
  Property C21. The CRC-16 check detects every burst: of two equally long messages that
  differ only within 16 consecutive bits, at most one checks.
\<close>

theorem crc16_burst_detected:
  assumes "bits_of xs = a @ u @ b" "bits_of ys = a @ v @ b"
    and "length u = length v" "length u \<le> 16" "u \<noteq> v" "crc_itu16_check xs"
  shows "\<not> crc_itu16_check ys"
  using crc_register_distinguishes[OF top_0x8408 assms(3) _ assms(5), where a = a and b = b and c = "0xFFFF"] assms
  by (simp add: crc_itu16_check_iff crc_itu16_calc_register)

theorem crc16_burst_detected_witness: "crc_itu16_check [0, 0] \<and> \<not> crc_itu16_check [3, 0]"
proof -
  have c: "crc_itu16_check ([] @ [0, 0])"
    using crc16.own_checks[of "[]"] by (simp add: crc16_bytes_def)
  have u: "bits_of [0, 0] = [] @ bits_of [0, 0] @ []" "bits_of [3, 0] = [] @ bits_of [3, 0] @ []" by simp_all
  have d: "bits_of [0, 0] \<noteq> bits_of [3, 0]" using bits_of_inject[of "[0, 0]" "[3, 0]"] by auto
  have "\<not> crc_itu16_check [3, 0]"
    by (rule crc16_burst_detected[OF u _ _ d]) (use c in simp_all)
  then show ?thesis using c by simp
qed

text \<open>
  Property C23. The table-driven CRC-16 equals the bit-serial routine applied octet by
  octet.
\<close>

theorem crc_routines_agree: "crc_itu16_calc bs c = fold (\<lambda>b c. crc_itu16_bits b 8 c) bs c"
  by (rule crc_itu16_routines_agree)

end
