(* ===== verification/Hdlc_Rx_Facts.thy ===== *)
theory Hdlc_Rx_Facts
  imports Hdlc_Rx Crc_Detect
begin

text \<open>
  The receiver's invariant: with a frame handler set, no bit makes it leave its buffer or
  call a null pointer, and what it delivers as good is what the buffer held before the
  closing flag, less a correct CRC.
\<close>

section \<open>The invariant\<close>

definition hdlc_rx_ok :: "hdlc_rx \<Rightarrow> bool" where
  "hdlc_rx_ok s \<longleftrightarrow>
     length (hr_buffer s) = 404 \<and> hr_max_frame_len s \<le> 404 \<and> hr_frame_handler s \<and>
     (hr_crc_bytes s = 2 \<or> hr_crc_bytes s = 4) \<and> 1 \<le> hr_framing_ok_threshold s \<and>
     (hr_len s \<le> 404 \<or> hr_flags_seen s < hr_framing_ok_threshold s)"

text \<open>
  What a frame that is handed over has to do with the state \<open>s\<close> before the bit that completes
  it: a good one fits, and the octets assembled in the buffer are the packet followed by
  what the append function of its CRC would write there; a bad one is only reported on request.
\<close>

fun event_ok :: "hdlc_rx \<Rightarrow> hdlc_event \<Rightarrow> bool" where
  "event_ok s (Frame_call (Some p) n good) \<longleftrightarrow>
     n = int (length p) \<and> length p \<le> 404 \<and>
     (if good
      then hr_len s \<le> hr_max_frame_len s \<and>
        (if hr_crc_bytes s = 2 then crc_itu16_append (p @ [0, 0]) (length p)
         else crc_itu32_append (p @ [0, 0, 0, 0]) (length p)) =
          Some (take (hr_len s) (hr_buffer s), hr_len s)
      else hr_report_bad_frames s)"
| "event_ok s _ \<longleftrightarrow> True"

lemma event_ok_update [simp]:
  "event_ok (s\<lparr>hr_raw_bit_stream := r\<rparr>) e = event_ok s e"
  "event_ok (s\<lparr>hr_num_bits := n\<rparr>) e = event_ok s e"
  "event_ok (s\<lparr>hr_byte_in_progress := r\<rparr>) e = event_ok s e"
  "event_ok (s\<lparr>hr_octet_counting_mode := m\<rparr>) e = event_ok s e"
  by (cases "(s, e)" rule: event_ok.cases; simp)+

definition result_ok :: "hdlc_rx \<Rightarrow> hdlc_rx_result \<Rightarrow> bool" where
  "result_ok s r \<longleftrightarrow> (\<exists>s' evs. r = Some (s', evs) \<and> hdlc_rx_ok s' \<and> hr_crc_bytes s' = hr_crc_bytes s \<and>
      (\<forall>e \<in> set evs. event_ok s e))"

lemma report_ok [simp]: "e \<in> set (report_status_change s st) \<Longrightarrow> event_ok s0 e"
  by (auto simp: report_status_change_def split: if_splits)

text \<open>Octet counting touches nothing else.\<close>

lemma octet_count_down_ok [simp]:
  "hdlc_rx_ok (fst (octet_count_down s)) = hdlc_rx_ok s"
  "hr_crc_bytes (fst (octet_count_down s)) = hr_crc_bytes s"
  "e \<in> set (snd (octet_count_down s)) \<Longrightarrow> event_ok s0 e"
  by (auto simp: octet_count_down_def Let_def hdlc_rx_ok_def split: if_splits)

lemma octet_set_and_count_ok [simp]:
  "hdlc_rx_ok (fst (octet_set_and_count s)) = hdlc_rx_ok s"
  "hr_crc_bytes (fst (octet_set_and_count s)) = hr_crc_bytes s"
  "e \<in> set (snd (octet_set_and_count s)) \<Longrightarrow> event_ok s0 e"
  by (auto simp: octet_set_and_count_def hdlc_rx_ok_def[of "s\<lparr>hr_octet_counting_mode := x, hr_octet_count := y\<rparr>" for x y]
      hdlc_rx_ok_def[of s] split: if_splits)

lemma octet_count_ok [simp]:
  "hdlc_rx_ok (fst (octet_count s)) = hdlc_rx_ok s"
  "hr_crc_bytes (fst (octet_count s)) = hr_crc_bytes s"
  "e \<in> set (snd (octet_count s)) \<Longrightarrow> event_ok s0 e"
  by (auto simp: octet_count_def split: if_splits)

lemma result_ok_Some:
  "result_ok s (Some r) \<longleftrightarrow> hdlc_rx_ok (fst r) \<and> hr_crc_bytes (fst r) = hr_crc_bytes s \<and>
     (\<forall>e \<in> set (snd r). event_ok s e)"
  by (cases r) (simp add: result_ok_def)

lemma result_okE:
  assumes "result_ok s r"
  obtains s' evs where "r = Some (s', evs)" "hdlc_rx_ok s'" "hr_crc_bytes s' = hr_crc_bytes s"
    "\<forall>e \<in> set evs. event_ok s e"
  using assms by (auto simp: result_ok_def)

lemma result_ok_if:
  "(c \<Longrightarrow> result_ok s a) \<Longrightarrow> (\<not> c \<Longrightarrow> result_ok s b) \<Longrightarrow> result_ok s (if c then a else b)"
  by simp

lemma ok_update [simp]:
  "hdlc_rx_ok (s\<lparr>hr_raw_bit_stream := r\<rparr>) = hdlc_rx_ok s"
  "hdlc_rx_ok (s\<lparr>hr_num_bits := n\<rparr>) = hdlc_rx_ok s"
  "hdlc_rx_ok (s\<lparr>hr_byte_in_progress := r\<rparr>) = hdlc_rx_ok s"
  "hdlc_rx_ok (s\<lparr>hr_octet_counting_mode := m\<rparr>) = hdlc_rx_ok s"
  by (simp_all add: hdlc_rx_ok_def)

lemma ok_clear: "hdlc_rx_ok s \<Longrightarrow> hdlc_rx_ok (s\<lparr>hr_len := 0\<rparr>)"
  by (simp add: hdlc_rx_ok_def)

lemma rx_frame_check_good:
  assumes "rx_frame_check s = Some True" "hr_crc_bytes s = 2 \<or> hr_crc_bytes s = 4"
    and "hr_crc_bytes s \<le> hr_len s" "hr_len s \<le> length (hr_buffer s)"
  shows "(if hr_crc_bytes s = 2
      then crc_itu16_append (take (hr_len s - hr_crc_bytes s) (hr_buffer s) @ [0, 0]) (hr_len s - hr_crc_bytes s)
      else crc_itu32_append (take (hr_len s - hr_crc_bytes s) (hr_buffer s) @ [0, 0, 0, 0]) (hr_len s - hr_crc_bytes s)) =
    Some (take (hr_len s) (hr_buffer s), hr_len s)"
proof -
  let ?frame = "take (hr_len s) (hr_buffer s)" and ?p = "take (hr_len s - hr_crc_bytes s) (hr_buffer s)"
  have len: "length ?frame = hr_len s" "length ?p = hr_len s - hr_crc_bytes s" using assms(4) by simp_all
  have p: "take (length ?frame - hr_crc_bytes s) ?frame = ?p" using assms(4) by simp
  have frame: "?p @ drop (length ?frame - hr_crc_bytes s) ?frame = ?frame"
    unfolding p[symmetric] by (rule append_take_drop_id)
  from assms(2) show ?thesis
  proof
    assume cb: "hr_crc_bytes s = 2"
    then have "crc_itu16_check ?frame" using assms(1) by (simp add: rx_frame_check_def split: if_splits)
    then have "drop (length ?frame - hr_crc_bytes s) ?frame = crc16_bytes ?p"
      using crc16.trailer[of ?frame] cb len assms(3) p by simp
    then show ?thesis using crc_itu16_append_eq[of ?p 0 0] frame len cb assms(3) by simp
  next
    assume cb: "hr_crc_bytes s = 4"
    then have "crc_itu32_check ?frame" using assms(1) by (simp add: rx_frame_check_def split: if_splits)
    then have "drop (length ?frame - hr_crc_bytes s) ?frame = crc32_bytes ?p"
      using crc32.trailer[of ?frame] cb len assms(3) p by simp
    then show ?thesis using crc_itu32_append_eq[of ?p 0 0 0 0] frame len cb assms(3) by simp
  qed
qed

lemma rx_frame_end_ok:
  assumes "hdlc_rx_ok s" "hr_flags_seen s \<ge> hr_framing_ok_threshold s"
  shows "\<exists>s' evs. rx_frame_end s = Some (s', evs) \<and> hdlc_rx_ok (s'\<lparr>hr_len := 0, hr_num_bits := 0\<rparr>) \<and>
      hr_crc_bytes s' = hr_crc_bytes s \<and> (\<forall>e \<in> set evs. event_ok s e)"
proof -
  have len: "hr_len s \<le> 404" "length (hr_buffer s) = 404" "hr_frame_handler s"
    using assms by (auto simp: hdlc_rx_ok_def)
  have checks: "\<exists>g. rx_frame_check s = Some g" using len by (simp add: rx_frame_check_def)
  show ?thesis
    using assms(1) len checks rx_frame_check_good[of s]
    by (auto simp: rx_frame_end_def call_frame_handler_def hdlc_rx_ok_def Let_def split: if_splits)
qed

lemma rx_abort_ok: "hdlc_rx_ok s \<Longrightarrow> result_ok s (Some (rx_abort s))"
  by (auto simp: rx_abort_def Let_def case_prod_beta result_ok_Some hdlc_rx_ok_def[of "s\<lparr>hr_rx_aborts := x, hr_flags_seen := y\<rparr>" for x y]
      hdlc_rx_ok_def[of s])

lemma rx_preamble_flag_ok: "hdlc_rx_ok s \<Longrightarrow> hr_flags_seen s < hr_framing_ok_threshold s
    \<Longrightarrow> hdlc_rx_ok (fst (rx_preamble_flag s)\<lparr>hr_len := 0, hr_num_bits := 0\<rparr>) \<and>
        hr_crc_bytes (fst (rx_preamble_flag s)) = hr_crc_bytes s \<and>
        (\<forall>e \<in> set (snd (rx_preamble_flag s)). event_ok s e)"
  by (auto simp: rx_preamble_flag_def Let_def hdlc_rx_ok_def)

lemma rx_flag_or_abort_ok: "hdlc_rx_ok s \<Longrightarrow> result_ok s (rx_flag_or_abort s)"
proof -
  assume ok: "hdlc_rx_ok s"
  consider (abort) "hr_raw_bit_stream s AND 0x8000 \<noteq> 0"
    | (fend) "hr_raw_bit_stream s AND 0x8000 = 0" "hr_flags_seen s \<ge> hr_framing_ok_threshold s"
    | (pre) "hr_raw_bit_stream s AND 0x8000 = 0" "\<not> hr_flags_seen s \<ge> hr_framing_ok_threshold s"
    by blast
  then show ?thesis
  proof cases
    case abort
    obtain s' evs where "rx_abort s = (s', evs)" by (rule prod.exhaust)
    then show ?thesis
      using abort rx_abort_ok[OF ok]
      by (simp add: rx_flag_or_abort_def result_ok_Some ok_clear)
  next
    case fend
    have "hdlc_rx_ok (s\<lparr>hr_octet_counting_mode := False\<rparr>)" using ok by simp
    from rx_frame_end_ok[OF this] fend obtain s' evs where
      "rx_frame_end (s\<lparr>hr_octet_counting_mode := False\<rparr>) = Some (s', evs)"
      "hdlc_rx_ok (s'\<lparr>hr_len := 0, hr_num_bits := 0\<rparr>)" "hr_crc_bytes s' = hr_crc_bytes s"
      "\<forall>e \<in> set evs. event_ok s e" by auto
    then show ?thesis
      using fend by (simp add: rx_flag_or_abort_def result_ok_Some Let_def)
  next
    case pre
    let ?s = "s\<lparr>hr_octet_counting_mode := False\<rparr>"
    obtain s' evs where "rx_preamble_flag ?s = (s', evs)" by (rule prod.exhaust)
    then show ?thesis
      using pre ok rx_preamble_flag_ok[of ?s]
      by (simp add: rx_flag_or_abort_def result_ok_Some Let_def)
  qed
qed

lemma rx_octet_done_ok:
  assumes "hdlc_rx_ok s"
  shows "result_ok s (rx_octet_done s)"
proof (cases "hr_len s < hr_max_frame_len s")
  case True
  then show ?thesis
    using assms by (auto simp: rx_octet_done_def result_ok_Some hdlc_rx_ok_def arr_set_def)
next
  case False
  let ?s = "s\<lparr>hr_len := sizeof_buffer s + 1, hr_flags_seen := hr_framing_ok_threshold s - 1\<rparr>"
  have "hdlc_rx_ok ?s" using assms by (simp add: hdlc_rx_ok_def)
  then show ?thesis
    using False by (simp add: rx_octet_done_def result_ok_Some case_prod_beta)
qed

lemma put_bit_core_ok: "hdlc_rx_ok s \<Longrightarrow> result_ok s (hdlc_rx_put_bit_core s)"
proof -
  assume ok: "hdlc_rx_ok s"
  have done_ok: "result_ok s (rx_octet_done (s\<lparr>hr_num_bits := n, hr_byte_in_progress := b\<rparr>))" for n b
    using rx_octet_done_ok[of "s\<lparr>hr_num_bits := n, hr_byte_in_progress := b\<rparr>"] ok
    by (simp add: result_ok_def)
  have keep: "result_ok s (Some (s, []))" "result_ok s (Some (s\<lparr>hr_num_bits := n\<rparr>, []))"
    "result_ok s (Some (s\<lparr>hr_num_bits := n, hr_byte_in_progress := b\<rparr>, []))"
    "result_ok s (Some (octet_count (s\<lparr>hr_num_bits := n\<rparr>)))" for n b
    using ok by (simp_all add: result_ok_Some)
  show ?thesis
    unfolding hdlc_rx_put_bit_core_def Let_def
    by (intro result_ok_if rx_flag_or_abort_ok ok done_ok keep)
qed

lemma rx_special_condition_ok: "hdlc_rx_ok s \<Longrightarrow> result_ok s (Some (rx_special_condition s st))"
  by (auto simp: rx_special_condition_def result_ok_Some hdlc_rx_ok_def Let_def)

lemma put_bit_ok: "hdlc_rx_ok s \<Longrightarrow> result_ok s (hdlc_rx_put_bit s b)"
  using put_bit_core_ok[of "s\<lparr>hr_raw_bit_stream := r\<rparr>" for r] rx_special_condition_ok
  by (auto simp: hdlc_rx_put_bit_def result_ok_def)

text \<open>What sets the receiver up keeps the invariant.\<close>

lemma set_max_ok: "hdlc_rx_ok s \<Longrightarrow> hdlc_rx_ok (hdlc_rx_set_max_frame_len s m)"
  by (auto simp: hdlc_rx_ok_def hdlc_rx_set_max_frame_len_def sizeof_buffer_def HDLC_MAXFRAME_LEN_def Let_def)

lemma init_ok: "hdlc_rx_ok (hdlc_rx_init crc32 bad threshold True)"
  by (simp add: hdlc_rx_ok_def hdlc_rx_init_def HDLC_MAXFRAME_LEN_def)

end
