(* ===== verification/Hdlc_Rx_Bits.thy ===== *)
theory Hdlc_Rx_Bits
  imports Hdlc_Rx_Facts
begin

text \<open>
  The receiver bit by bit: octets go in as their bits, highest first; stuffed bits are
  dropped; flags open, close and separate frames; and whatever comes in, the receiver survives
  it and delivers as good only what carries its CRC.
\<close>

section \<open>Runs of bits\<close>

fun put_bits :: "hdlc_rx \<Rightarrow> bool list \<Rightarrow> hdlc_rx_result" where
  "put_bits s [] = Some (s, [])"
| "put_bits s (b # bs) =
     do {
       (s, evs) \<leftarrow> hdlc_rx_put_bit s (of_bool b);
       (s, evs') \<leftarrow> put_bits s bs;
       Some (s, evs @ evs')
     }"

lemma put_bits_append:
  "put_bits s (as @ bs) = do { (s, evs) \<leftarrow> put_bits s as; (s, evs') \<leftarrow> put_bits s bs; Some (s, evs @ evs') }"
proof (induction as arbitrary: s)
  case Nil
  show ?case by (cases "put_bits s bs") auto
next
  case (Cons a as)
  show ?case
  proof (cases "hdlc_rx_put_bit s (of_bool a)")
    case (Some r)
    then show ?thesis by (cases r) (simp add: Cons.IH case_prod_beta split: bind_splits)
  qed simp
qed

lemma put_bits_Some_append:
  "put_bits s as = Some (s', evs) \<Longrightarrow> put_bits s' bs = Some (s'', evs') \<Longrightarrow>
   put_bits s (as @ bs) = Some (s'', evs @ evs')"
  by (simp add: put_bits_append)

definition shift_raw :: "u32 \<Rightarrow> bool \<Rightarrow> u32" where
  "shift_raw r b = push_bit 1 r OR (if b then 0x100 else 0)"

lemma put_bit_core_eq:
  "hdlc_rx_put_bit s (of_bool b) = hdlc_rx_put_bit_core (s\<lparr>hr_raw_bit_stream := shift_raw (hr_raw_bit_stream s) b\<rparr>)"
  by (cases b) (simp_all add: hdlc_rx_put_bit_def shift_raw_def)

lemma bit_256: "bit (256 :: u32) i \<longleftrightarrow> i = 8"
  using bit_exp_iff[where 'a = "32 word", of 8 i] by (auto simp: possible_bit_word)

lemma bit_shift_raw: "i < 32 \<Longrightarrow> bit (shift_raw r b) i \<longleftrightarrow> (0 < i \<and> bit r (i - 1)) \<or> (i = 8 \<and> b)"
proof -
  assume i: "i < 32"
  have "bit (push_bit 1 r) i \<longleftrightarrow> 0 < i \<and> bit r (i - 1)"
    using i by (simp only: bit_push_bit_iff possible_bit_word) auto
  moreover have "bit (if b then 256 else 0 :: u32) i \<longleftrightarrow> i = 8 \<and> b"
    by (simp add: bit_256 del: bit_numeral_word_iff)
  ultimately show ?thesis by (simp only: shift_raw_def bit_or_iff)
qed

section \<open>Octets are eight bits\<close>

text \<open>The receiver looks at bits 8 to 15 of the raw stream only.\<close>

abbreviation high_raw :: "u32 \<Rightarrow> u32" where "high_raw r \<equiv> r AND 0xFF00"

definition same_high :: "u32 \<Rightarrow> u32 \<Rightarrow> bool" where
  "same_high r r' \<longleftrightarrow> (\<forall>i. 8 \<le> i \<and> i < 16 \<longrightarrow> bit r i = bit r' i)"

lemma word_bits_eq_iff: "(v :: u32) = w \<longleftrightarrow> (\<forall>i \<in> set [0..<32]. bit v i = bit w i)"
  using bit_word_eqI[of v w] by auto

lemma raw_flag_iff:
  "(r :: u32) AND 0x3F00 = 0x3E00 \<longleftrightarrow>
     \<not> bit r 8 \<and> bit r 9 \<and> bit r 10 \<and> bit r 11 \<and> bit r 12 \<and> bit r 13"
  unfolding word_bits_eq_iff bit_and_iff by (simp add: upt_32)

lemma raw_bit_iff:
  "(r :: u32) AND 0x4000 \<noteq> 0 \<longleftrightarrow> bit r 14"
  "(r :: u32) AND 0x8000 \<noteq> 0 \<longleftrightarrow> bit r 15"
  using and_exp_eq_0_iff_not_bit[of r 14] and_exp_eq_0_iff_not_bit[of r 15] by auto

lemma raw_and_256: "(r :: u32) AND 0x100 = (if bit r 8 then 0x100 else 0)"
  by (rule bit_word_eqI) (auto simp: bit_and_iff bit_256 simp del: bit_numeral_word_iff)

lemma raw_frame:
  "report_status_change (s\<lparr>hr_raw_bit_stream := r\<rparr>) st = report_status_change s st"
  "octet_count_down (s\<lparr>hr_raw_bit_stream := r\<rparr>) = apfst (\<lambda>s. s\<lparr>hr_raw_bit_stream := r\<rparr>) (octet_count_down s)"
  "octet_set_and_count (s\<lparr>hr_raw_bit_stream := r\<rparr>) = apfst (\<lambda>s. s\<lparr>hr_raw_bit_stream := r\<rparr>) (octet_set_and_count s)"
  "octet_count (s\<lparr>hr_raw_bit_stream := r\<rparr>) = apfst (\<lambda>s. s\<lparr>hr_raw_bit_stream := r\<rparr>) (octet_count s)"
  by (simp_all add: report_status_change_def octet_count_down_def octet_set_and_count_def octet_count_def Let_def)


abbreviation set_raw :: "u32 \<Rightarrow> hdlc_rx \<Rightarrow> hdlc_rx" where
  "set_raw r \<equiv> \<lambda>s. s\<lparr>hr_raw_bit_stream := r\<rparr>"

lemma raw_swap:
  "set_raw r s\<lparr>hr_octet_counting_mode := m\<rparr> = set_raw r (s\<lparr>hr_octet_counting_mode := m\<rparr>)"
  "set_raw r s\<lparr>hr_num_bits := n\<rparr> = set_raw r (s\<lparr>hr_num_bits := n\<rparr>)"
  "set_raw r s\<lparr>hr_byte_in_progress := x\<rparr> = set_raw r (s\<lparr>hr_byte_in_progress := x\<rparr>)"
  by simp_all

lemma raw_frame_calls:
  "call_frame_handler (set_raw r s) ok = call_frame_handler s ok"
  "rx_frame_check (set_raw r s) = rx_frame_check s"
  "rx_abort (set_raw r s) = apfst (set_raw r) (rx_abort s)"
  "rx_preamble_flag (set_raw r s) = apfst (set_raw r) (rx_preamble_flag s)"
  by (auto simp: call_frame_handler_def rx_frame_check_def rx_abort_def rx_preamble_flag_def
      report_status_change_def octet_set_and_count_def octet_count_down_def Let_def)

lemma raw_frame_end: "rx_frame_end (set_raw r s) = map_option (apfst (set_raw r)) (rx_frame_end s)"
  by (cases "rx_frame_check s")
     (auto simp: rx_frame_end_def call_frame_handler_def raw_frame_calls Let_def)

lemma raw_flag_or_abort:
  assumes "same_high r (hr_raw_bit_stream s)"
  shows "rx_flag_or_abort (set_raw r s) = map_option (apfst (set_raw r)) (rx_flag_or_abort s)"
proof -
  have "bit r 15 = bit (hr_raw_bit_stream s) 15" using assms by (simp add: same_high_def)
  then show ?thesis
    unfolding rx_flag_or_abort_def Let_def
    by (cases "rx_abort s"; cases "rx_preamble_flag (s\<lparr>hr_octet_counting_mode := False\<rparr>)";
        cases "rx_frame_end (s\<lparr>hr_octet_counting_mode := False\<rparr>)")
       (auto simp: raw_bit_iff raw_swap raw_frame_calls raw_frame_end)
qed

lemma raw_octet_done: "rx_octet_done (set_raw r s) = map_option (apfst (set_raw r)) (rx_octet_done s)"
  by (cases "arr_set (hr_buffer s) (int (hr_len s)) (ucast (hr_byte_in_progress s))")
     (simp_all add: rx_octet_done_def sizeof_buffer_def octet_set_and_count_def octet_count_down_def
        report_status_change_def Let_def)

lemma raw_core:
  assumes "same_high r (hr_raw_bit_stream s)"
  shows "hdlc_rx_put_bit_core (set_raw r s) = map_option (apfst (set_raw r)) (hdlc_rx_put_bit_core s)"
proof -
  have b: "bit r 8 = bit (hr_raw_bit_stream s) 8" "bit r 9 = bit (hr_raw_bit_stream s) 9"
    "bit r 10 = bit (hr_raw_bit_stream s) 10" "bit r 11 = bit (hr_raw_bit_stream s) 11"
    "bit r 12 = bit (hr_raw_bit_stream s) 12" "bit r 13 = bit (hr_raw_bit_stream s) 13"
    "bit r 14 = bit (hr_raw_bit_stream s) 14"
    using assms by (simp_all add: same_high_def)
  show ?thesis
    unfolding hdlc_rx_put_bit_core_def Let_def raw_flag_iff raw_bit_iff raw_and_256
    by (simp add: b raw_flag_or_abort[OF assms] raw_swap raw_frame raw_octet_done)
qed

lemma core_raw_unchanged:
  assumes "hdlc_rx_put_bit_core s = Some (s', evs)"
  shows "hr_raw_bit_stream s' = hr_raw_bit_stream s"
proof -
  have "same_high (hr_raw_bit_stream s) (hr_raw_bit_stream s)" by (simp add: same_high_def)
  from raw_core[OF this] assms
  have "Some (s', evs) = Some (set_raw (hr_raw_bit_stream s) s', evs)" by simp
  then show ?thesis by (metis Pair_inject hdlc_rx.select_convs(9) hdlc_rx.surjective hdlc_rx.update_convs(9) option.inject)
qed

definition low_clear :: "u32 \<Rightarrow> u32" where
  "low_clear r = push_bit 8 (drop_bit 8 r)"

definition shl :: "nat \<Rightarrow> u32 \<Rightarrow> u32" where
  "shl n r = push_bit n r"

lemma bit_low_clear: "i < 32 \<Longrightarrow> bit (low_clear r) i \<longleftrightarrow> 8 \<le> i \<and> bit r i"
  by (auto simp: low_clear_def bit_simps possible_bit_word)

lemma bit_shl: "i < 32 \<Longrightarrow> bit (shl n r) i \<longleftrightarrow> n \<le> i \<and> bit r (i - n)"
  by (auto simp: shl_def bit_simps possible_bit_word)

lemma shl_0 [simp]: "shl 0 r = r" and shl_Suc: "shl n (shl 1 r) = shl (Suc n) r"
  by (simp_all add: shl_def)

text \<open>One step of the octet loop is one bit, the register holding the rest of the octet below.\<close>

lemma shift_low_clear:
  "shift_raw (low_clear r) (bit r 7) = low_clear (shl 1 r)"
proof (rule bit_word_eqI)
  fix i assume "i < LENGTH(32)"
  then have i: "i < 32" by simp
  consider "i < 8" | "i = 8" | "8 < i" by linarith
  then show "bit (shift_raw (low_clear r) (bit r 7)) i = bit (low_clear (shl 1 r)) i"
    by cases (use i in \<open>auto simp: bit_shift_raw bit_low_clear bit_shl\<close>)
qed

lemma put_byte_loop_bits:
  "n \<le> 8 \<Longrightarrow> hdlc_rx_put_byte_loop n s =
     map_option (apfst (\<lambda>s'. set_raw (shl n (hr_raw_bit_stream s)) s'))
       (put_bits (set_raw (low_clear (hr_raw_bit_stream s)) s)
          (map (\<lambda>i. bit (hr_raw_bit_stream s) (7 - i)) [0..<n]))"
proof (induction n arbitrary: s)
  case 0
  then show ?case by simp
next
  case (Suc n)
  let ?r = "hr_raw_bit_stream s" and ?s = "set_raw (shl 1 (hr_raw_bit_stream s)) s"
  have up: "[0..<Suc n] = 0 # map Suc [0..<n]" by (simp add: upt_conv_Cons map_Suc_upt)
  have same: "same_high (low_clear (shl 1 ?r)) (shl 1 ?r)"
    by (simp add: same_high_def bit_low_clear)
  have core: "hdlc_rx_put_bit_core (set_raw (low_clear (shl 1 ?r)) s)
      = map_option (apfst (set_raw (low_clear (shl 1 ?r)))) (hdlc_rx_put_bit_core ?s)"
    using raw_core[of "low_clear (shl 1 ?r)" ?s] same by simp
  have step: "hdlc_rx_put_byte_loop (Suc n) s =
      do { (s, evs) \<leftarrow> hdlc_rx_put_bit_core ?s;
           (s, evs') \<leftarrow> hdlc_rx_put_byte_loop n s; Some (s, evs @ evs') }"
    unfolding shl_def by (rule hdlc_rx_put_byte_loop.simps(2))
  show ?case
  proof (cases "hdlc_rx_put_bit_core ?s")
    case None
    then show ?thesis
      unfolding step using core by (simp add: up put_bit_core_eq shift_low_clear del: upt_Suc)
  next
    case (Some p)
    obtain s' evs where p: "p = (s', evs)" by (cases p)
    have raw: "hr_raw_bit_stream s' = shl 1 ?r" using core_raw_unchanged Some p by fastforce
    have bits: "map (\<lambda>i. bit (shl 1 ?r) (7 - i)) [0..<n] = map (\<lambda>i. bit ?r (7 - Suc i)) [0..<n]"
      using Suc.prems by (auto simp: bit_shl)
    have "n \<le> 8" using Suc.prems by simp
    then have IH: "hdlc_rx_put_byte_loop n s' = map_option (apfst (set_raw (shl (Suc n) ?r)))
        (put_bits (set_raw (low_clear (shl 1 ?r)) s') (map (\<lambda>i. bit ?r (7 - Suc i)) [0..<n]))"
      by (simp only: Suc.IH[of s'] raw bits shl_Suc)
    show ?thesis
      unfolding step
      using core Some p IH
      by (cases "put_bits (set_raw (low_clear (shl 1 ?r)) s') (map (\<lambda>i. bit ?r (7 - Suc i)) [0..<n])")
         (auto simp: up put_bit_core_eq shift_low_clear comp_def shl_Suc simp del: upt_Suc)
  qed
qed

lemma put_bits_low_clear:
  assumes "put_bits s bs = Some (s', evs)" "low_clear (hr_raw_bit_stream s) = hr_raw_bit_stream s"
  shows "low_clear (hr_raw_bit_stream s') = hr_raw_bit_stream s'"
  using assms
proof (induction bs arbitrary: s evs)
  case (Cons b bs)
  let ?r = "shift_raw (hr_raw_bit_stream s) b"
  obtain s1 e1 e2 where 1: "hdlc_rx_put_bit s (of_bool b) = Some (s1, e1)" "put_bits s1 bs = Some (s', e2)"
    using Cons.prems(1) by (auto simp: bind_eq_Some_conv)
  have "hr_raw_bit_stream s1 = ?r"
    using core_raw_unchanged[OF 1(1)[unfolded put_bit_core_eq]] by simp
  moreover have "low_clear ?r = ?r"
  proof (rule bit_word_eqI)
    fix i assume "i < LENGTH(32)"
    then have i: "i < 32" by simp
    have "\<not> bit (hr_raw_bit_stream s) j" if "j < 8" for j
      using bit_low_clear[of j "hr_raw_bit_stream s"] Cons.prems(2) that by simp
    then show "bit (low_clear ?r) i = bit ?r i"
      using i by (cases "i < 8") (auto simp: bit_low_clear bit_shift_raw)
  qed
  ultimately show ?case using Cons.IH[OF 1(2)] by simp
qed simp

lemma put_bits_raw:
  "put_bits s bs = Some (s', evs) \<Longrightarrow> hr_raw_bit_stream s' = fold (\<lambda>b r. shift_raw r b) bs (hr_raw_bit_stream s)"
proof (induction bs arbitrary: s evs)
  case (Cons b bs)
  obtain s1 e1 e2 where 1: "hdlc_rx_put_bit s (of_bool b) = Some (s1, e1)" "put_bits s1 bs = Some (s', e2)"
    using Cons.prems(1) by (auto simp: bind_eq_Some_conv)
  then show ?case
    using Cons.IH[OF 1(2)] core_raw_unchanged[OF 1(1)[unfolded put_bit_core_eq]] by simp
qed simp

lemma fold_shift_low_clear:
  "n \<le> 8 \<Longrightarrow> fold (\<lambda>b r. shift_raw r b) (map (\<lambda>i. bit r (7 - i)) [0..<n]) (low_clear r) = low_clear (shl n r)"
proof (induction n arbitrary: r)
  case (Suc n)
  have up: "[0..<Suc n] = 0 # map Suc [0..<n]" by (simp add: upt_conv_Cons map_Suc_upt)
  have bits: "map (\<lambda>i. bit r (7 - Suc i)) [0..<n] = map (\<lambda>i. bit (shl 1 r) (7 - i)) [0..<n]"
    using Suc.prems by (auto simp: bit_shl)
  have "n \<le> 8" using Suc.prems by simp
  from Suc.IH[OF this, of "shl 1 r"] bits show ?case
    unfolding up by (simp add: comp_def shift_low_clear shl_Suc[simplified] del: upt_Suc map_eq_conv)
qed simp

definition msb_bits :: "u8 \<Rightarrow> bool list" where
  "msb_bits b = map (\<lambda>i. bit b (7 - i)) [0..<8]"

definition stream_bits :: "octets \<Rightarrow> bool list" where
  "stream_bits bs = concat (map msb_bits bs)"

lemma stream_bits_simps [simp]:
  "stream_bits [] = []" "stream_bits (b # bs) = msb_bits b @ stream_bits bs"
  "stream_bits (as @ bs) = stream_bits as @ stream_bits bs"
  by (simp_all add: stream_bits_def)

lemma length_msb_bits [simp]: "length (msb_bits b) = 8"
  by (simp add: msb_bits_def)

lemma put_byte_bits:
  assumes "low_clear (hr_raw_bit_stream s) = hr_raw_bit_stream s"
  shows "hdlc_rx_put_byte s (uint b) = put_bits s (msb_bits b)"
proof -
  let ?q = "hr_raw_bit_stream s" and ?r = "hr_raw_bit_stream s OR ucast b"
  have ub: "bit (ucast b :: u32) i \<longleftrightarrow> bit b i" if "i < 32" for i
    using that by (simp add: bit_unsigned_iff possible_bit_word)
  have b8: "\<not> bit b i" if "8 \<le> i" for i using bit_imp_le_length[of b i] that by auto
  have low: "\<not> bit ?q i" if "i < 8" for i
    using bit_low_clear[of i ?q] assms that by simp
  have clear: "low_clear ?r = ?q"
  proof (rule bit_word_eqI)
    fix i assume "i < LENGTH(32)"
    then have i: "i < 32" by simp
    then show "bit (low_clear ?r) i = bit ?q i"
      using ub[OF i] b8[of i] low[of i] by (cases "i < 8") (auto simp: bit_low_clear bit_or_iff)
  qed
  have bits: "map (\<lambda>i. bit ?r (7 - i)) [0..<8] = msb_bits b"
    using ub low by (auto simp: msb_bits_def bit_or_iff)
  have shl8: "shl 8 ?r = low_clear (shl 8 ?r)"
    by (rule bit_word_eqI) (auto simp: bit_low_clear bit_shl)
  have "hdlc_rx_put_byte s (uint b) = hdlc_rx_put_byte_loop 8 (set_raw ?r s)"
    by (simp add: hdlc_rx_put_byte_def)
  also have "\<dots> = map_option (apfst (set_raw (shl 8 ?r))) (put_bits s (msb_bits b))"
    using put_byte_loop_bits[of 8 "set_raw ?r s"] by (simp add: clear bits)
  also have "\<dots> = put_bits s (msb_bits b)"
  proof (cases "put_bits s (msb_bits b)")
    case (Some p)
    obtain s' evs where p: "p = (s', evs)" by (cases p)
    have "hr_raw_bit_stream s' = shl 8 ?r"
      using put_bits_raw[OF Some[unfolded p]] fold_shift_low_clear[of 8 ?r] clear bits shl8 by simp
    then have "set_raw (shl 8 ?r) s' = s'" by simp
    then show ?thesis using Some p by simp
  qed simp
  finally show ?thesis .
qed

lemma put_stream_bits:
  assumes "low_clear (hr_raw_bit_stream s) = hr_raw_bit_stream s"
  shows "hdlc_rx_put s bs = put_bits s (stream_bits bs)"
  using assms
proof (induction bs arbitrary: s)
  case (Cons b bs)
  show ?case
  proof (cases "put_bits s (msb_bits b)")
    case (Some p)
    obtain s' evs where p: "p = (s', evs)" by (cases p)
    then show ?thesis
      using Some Cons.IH[OF put_bits_low_clear[OF Some[unfolded p] Cons.prems]]
      by (simp add: put_byte_bits[OF Cons.prems] put_bits_append)
  qed (simp add: put_byte_bits[OF Cons.prems] put_bits_append)
qed simp

section \<open>Every input is survived\<close>

text \<open>
  The receiver on a line of bits and status codes: for each, the state before it and the
  handler calls it makes.
\<close>

fun rx_trace :: "hdlc_rx \<Rightarrow> int list \<Rightarrow> (hdlc_rx \<times> hdlc_event list) list option" where
  "rx_trace s [] = Some []"
| "rx_trace s (b # bs) =
     do {
       (s', evs) \<leftarrow> hdlc_rx_put_bit s b;
       t \<leftarrow> rx_trace s' bs;
       Some ((s, evs) # t)
     }"

fun step_ok :: "hdlc_rx \<times> hdlc_event list \<Rightarrow> bool" where
  "step_ok (s, evs) \<longleftrightarrow> list_all (event_ok s) evs"

lemma rx_trace_ok: "hdlc_rx_ok s \<Longrightarrow> \<exists>t. rx_trace s line = Some t \<and> list_all step_ok t"
proof (induction line arbitrary: s)
  case (Cons b line)
  obtain s' evs where put: "hdlc_rx_put_bit s b = Some (s', evs)" "hdlc_rx_ok s'" "\<forall>e \<in> set evs. event_ok s e"
    by (rule result_okE[OF put_bit_ok[OF Cons.prems]])
  with Cons.IH[OF put(2)] show ?case by (auto simp: list_all_iff)
qed simp

lemma rx_trace_put_bits:
  "rx_trace s (map of_bool bs) = Some t \<Longrightarrow> \<exists>s'. put_bits s bs = Some (s', concat (map snd t))"
proof (induction bs arbitrary: s t)
  case (Cons b bs)
  from Cons.prems obtain s1 evs t1 where 1: "hdlc_rx_put_bit s (of_bool b) = Some (s1, evs)"
      "rx_trace s1 (map of_bool bs) = Some t1" "t = (s, evs) # t1"
    by (auto simp: bind_eq_Some_conv)
  from Cons.IH[OF 1(2)] 1 show ?case by auto
qed simp

text \<open>The set-up calls that a user of the receiver makes.\<close>

definition hdlc_rx_setup :: "bool \<Rightarrow> bool \<Rightarrow> int \<Rightarrow> bool \<Rightarrow> nat \<Rightarrow> int \<Rightarrow> hdlc_rx" where
  "hdlc_rx_setup crc32 bad threshold status_handler max_len interval =
     hdlc_rx_set_octet_counting_report_interval
       (hdlc_rx_set_max_frame_len
          (hdlc_rx_set_status_handler (hdlc_rx_init crc32 bad threshold True) status_handler) max_len)
       interval"

lemma setup_ok: "hdlc_rx_ok (hdlc_rx_setup crc32 bad threshold sh max_len interval)"
proof -
  have "hdlc_rx_ok (hdlc_rx_set_status_handler (hdlc_rx_init crc32 bad threshold True) sh)"
    using init_ok by (simp add: hdlc_rx_set_status_handler_def hdlc_rx_ok_def)
  from set_max_ok[OF this, of max_len] show ?thesis
    by (simp add: hdlc_rx_setup_def hdlc_rx_set_octet_counting_report_interval_def hdlc_rx_ok_def)
qed

lemma setup_raw: "hr_raw_bit_stream (hdlc_rx_setup crc32 bad threshold sh max_len interval) = 0"
  by (simp add: hdlc_rx_setup_def hdlc_rx_set_octet_counting_report_interval_def
      hdlc_rx_set_max_frame_len_def hdlc_rx_set_status_handler_def hdlc_rx_init_def Let_def)

text \<open>
  Property C10. Set up a receiver with a frame handler and any CRC, threshold, length
  limit and octet counting, and feed it any line of bits and status codes, or any
  octets, which go in as their bits, highest first. Every call returns, stays inside the
  buffer and calls no null handler. A packet handed over as good is what the receiver
  had assembled before the bit that closed the frame, within the length limit, less its
  last two or four octets, and these are what crc_itu16_append or crc_itu32_append would
  write behind the packet; bad frames are handed over only when they are asked for.
\<close>

theorem hdlc_rx_never_overflows:
  "(\<exists>t. rx_trace (hdlc_rx_setup crc32 bad threshold sh max_len interval) line = Some t \<and> list_all step_ok t) \<and>
   (\<exists>t s'. rx_trace (hdlc_rx_setup crc32 bad threshold sh max_len interval) (map of_bool (stream_bits input)) = Some t \<and>
      list_all step_ok t \<and>
      hdlc_rx_put (hdlc_rx_setup crc32 bad threshold sh max_len interval) input = Some (s', concat (map snd t)))"
proof -
  let ?s = "hdlc_rx_setup crc32 bad threshold sh max_len interval"
  obtain t where t: "rx_trace ?s (map of_bool (stream_bits input)) = Some t" "list_all step_ok t"
    using rx_trace_ok[OF setup_ok] by blast
  moreover have "hdlc_rx_put ?s input = put_bits ?s (stream_bits input)"
    by (rule put_stream_bits) (simp add: setup_raw low_clear_def)
  ultimately show ?thesis using rx_trace_put_bits[OF t(1)] rx_trace_ok[OF setup_ok] by simp
qed

end
