(* ===== verification/Hdlc_Frames.thy ===== *)
theory Hdlc_Frames
  imports Hdlc_Rx_Bits
begin

text \<open>
  The line format, and the receiver on it: flags, frames with a zero bit stuffed after
  every five ones, and how the receiver's registers follow them.
\<close>

section \<open>The line format\<close>

definition flag_bits :: "bool list" where
  "flag_bits = [False, True, True, True, True, True, True, False]"

text \<open>\<open>stuff c bs\<close>: the bits on the line when the last \<open>c\<close> bits before them were ones.\<close>

fun stuff :: "nat \<Rightarrow> bool list \<Rightarrow> bool list" where
  "stuff c [] = []"
| "stuff c (False # bs) = False # stuff 0 bs"
| "stuff c (True # bs) = (if c = 4 then True # False # stuff 0 bs else True # stuff (Suc c) bs)"

fun ones_after :: "nat \<Rightarrow> bool list \<Rightarrow> nat" where
  "ones_after c [] = c"
| "ones_after c (False # bs) = ones_after 0 bs"
| "ones_after c (True # bs) = (if c = 4 then ones_after 0 bs else ones_after (Suc c) bs)"

lemma stuff_append: "stuff c (as @ bs) = stuff c as @ stuff (ones_after c as) bs"
  by (induction c as rule: stuff.induct) auto

lemma ones_after_append: "ones_after c (as @ bs) = ones_after (ones_after c as) bs"
  by (induction c as rule: stuff.induct) auto

lemma ones_after_less: "c < 5 \<Longrightarrow> ones_after c bs < 5"
  by (induction c bs rule: stuff.induct) auto

section \<open>The receiver inside a frame\<close>

text \<open>The last bits received: exactly \<open>c\<close> ones.\<close>

definition ones_run :: "u32 \<Rightarrow> nat \<Rightarrow> bool" where
  "ones_run r c \<longleftrightarrow> c \<le> 6 \<and> (\<forall>i < 8. \<not> bit r i) \<and> (\<forall>i < c. bit r (8 + i)) \<and> \<not> bit r (8 + c)"

text \<open>What the bits of a frame do not change.\<close>

definition static :: "hdlc_rx \<Rightarrow> hdlc_rx" where
  "static s = s\<lparr>hr_raw_bit_stream := 0, hr_byte_in_progress := 0, hr_num_bits := 0,
                hr_octet_counting_mode := False, hr_buffer := [], hr_len := 0\<rparr>"

text \<open>The bits of the frame held so far: full octets in the buffer, the rest in the byte in progress.\<close>

definition partial :: "nat \<Rightarrow> u32 \<Rightarrow> bool list" where
  "partial n w = map (\<lambda>j. bit w (8 - n + j)) [0..<n]"

definition collected :: "hdlc_rx \<Rightarrow> bool list \<Rightarrow> bool" where
  "collected s xs \<longleftrightarrow>
     0 \<le> hr_num_bits s \<and> hr_num_bits s < 8 \<and> hr_len s \<le> hr_max_frame_len s \<and>
     (\<forall>i \<ge> 8. \<not> bit (hr_byte_in_progress s) i) \<and>
     bits_of (take (hr_len s) (hr_buffer s)) @ partial (nat (hr_num_bits s)) (hr_byte_in_progress s) = xs"

definition receiving :: "hdlc_rx \<Rightarrow> bool" where
  "receiving s \<longleftrightarrow> hdlc_rx_ok s \<and> hr_flags_seen s \<ge> hr_framing_ok_threshold s \<and> hr_octet_count_report_interval s = 0"

lemma static_fields:
  assumes "static s' = static s"
  shows "hr_crc_bytes s' = hr_crc_bytes s" "hr_max_frame_len s' = hr_max_frame_len s"
    "hr_frame_handler s' = hr_frame_handler s" "hr_flags_seen s' = hr_flags_seen s"
    "hr_framing_ok_threshold s' = hr_framing_ok_threshold s"
    "hr_octet_count_report_interval s' = hr_octet_count_report_interval s"
    "hr_rx_frames s' = hr_rx_frames s"
  using arg_cong[OF assms, of hr_crc_bytes] arg_cong[OF assms, of hr_max_frame_len]
    arg_cong[OF assms, of hr_frame_handler] arg_cong[OF assms, of hr_flags_seen]
    arg_cong[OF assms, of hr_framing_ok_threshold] arg_cong[OF assms, of hr_octet_count_report_interval]
    arg_cong[OF assms, of hr_rx_frames]
  by (simp_all add: static_def)

lemma ones_run_shift:
  "ones_run r c \<Longrightarrow> c < 6 \<Longrightarrow> ones_run (shift_raw r True) (Suc c)"
  "ones_run r c \<Longrightarrow> ones_run (shift_raw r False) 0"
proof -
  assume r: "ones_run r c"
  then show "ones_run (shift_raw r False) 0" by (auto simp: ones_run_def bit_shift_raw)
  assume "c < 6"
  moreover have "bit (shift_raw r True) (8 + i)" if "i < Suc c" for i
    using that r \<open>c < 6\<close> by (cases i) (auto simp: ones_run_def bit_shift_raw)
  ultimately show "ones_run (shift_raw r True) (Suc c)"
    using r by (auto simp: ones_run_def bit_shift_raw)
qed

lemma ones_run_bits:
  assumes "ones_run r c"
  shows "bit r 8 \<and> bit r 9 \<and> bit r 10 \<and> bit r 11 \<and> bit r 12 \<longleftrightarrow> 5 \<le> c" "c = 5 \<Longrightarrow> \<not> bit r 13"
    "c = 6 \<Longrightarrow> bit r 13 \<and> \<not> bit r 14"
proof -
  have ones: "\<And>i. i < c \<Longrightarrow> bit r (8 + i)" and zero: "\<not> bit r (8 + c)" using assms by (auto simp: ones_run_def)
  show "c = 5 \<Longrightarrow> \<not> bit r 13" "c = 6 \<Longrightarrow> bit r 13 \<and> \<not> bit r 14"
    using zero ones[of 5] by auto
  show "bit r 8 \<and> bit r 9 \<and> bit r 10 \<and> bit r 11 \<and> bit r 12 \<longleftrightarrow> 5 \<le> c"
  proof
    assume "5 \<le> c"
    then show "bit r 8 \<and> bit r 9 \<and> bit r 10 \<and> bit r 11 \<and> bit r 12"
      using ones[of 0] ones[of 1] ones[of 2] ones[of 3] ones[of 4] by simp
  next
    assume "bit r 8 \<and> bit r 9 \<and> bit r 10 \<and> bit r 11 \<and> bit r 12"
    moreover have "c = 0 \<or> c = 1 \<or> c = 2 \<or> c = 3 \<or> c = 4 \<or> 5 \<le> c" by linarith
    ultimately show "5 \<le> c" using zero by auto
  qed
qed

lemma shift_flag_iff:
  assumes "ones_run r c"
  shows "shift_raw r b AND 0x3F00 = 0x3E00 \<longleftrightarrow> \<not> b \<and> 5 \<le> c"
  using ones_run_bits(1)[OF assms] assms by (auto simp: raw_flag_iff bit_shift_raw ones_run_def)


definition next_bip :: "u32 \<Rightarrow> bool \<Rightarrow> u32" where
  "next_bip w b = drop_bit 1 (w OR (if b then 0x100 else 0))"

lemma bit_next_bip:
  "\<forall>i \<ge> 8. \<not> bit w i \<Longrightarrow> bit (next_bip w b) i \<longleftrightarrow> (if i = 7 then b else bit w (Suc i))"
  by (auto simp: next_bip_def bit_drop_bit_eq bit_or_iff bit_256 simp del: bit_numeral_word_iff)

lemma partial_step:
  assumes "\<forall>i \<ge> 8. \<not> bit w i" "n < 8"
  shows "partial (Suc n) (next_bip w b) = partial n w @ [b]"
proof (rule nth_equalityI)
  fix j assume "j < length (partial (Suc n) (next_bip w b))"
  then have j: "j \<le> n" by (simp add: partial_def del: upt_Suc)
  show "partial (Suc n) (next_bip w b) ! j = (partial n w @ [b]) ! j"
  proof (cases "j = n")
    case True
    then show ?thesis
      using assms(2) by (simp add: partial_def nth_append bit_next_bip[OF assms(1)] del: upt_Suc)
  next
    case False
    then have "8 - Suc n + j \<noteq> 7" "Suc (8 - Suc n + j) = 8 - n + j" using j assms(2) by auto
    then show ?thesis
      using j False assms(2) by (simp add: partial_def nth_append bit_next_bip[OF assms(1)] del: upt_Suc)
  qed
qed (simp add: partial_def)

lemma partial_8: "partial 8 w = octet_bits (ucast w)"
  by (simp add: partial_def octet_bits_def ucast_octet_bit)

text \<open>A data bit, that is a one, or a zero after fewer than five ones, joins the frame.\<close>

lemma collected_bit:
  assumes col: "collected s xs" and "hr_num_bits s \<noteq> 7"
  shows "collected (s\<lparr>hr_raw_bit_stream := r, hr_num_bits := hr_num_bits s + 1,
                      hr_byte_in_progress := next_bip (hr_byte_in_progress s) b\<rparr>) (xs @ [b])"
proof -
  have high: "\<forall>i \<ge> 8. \<not> bit (hr_byte_in_progress s) i" using col by (simp add: collected_def)
  have "nat (hr_num_bits s + 1) = Suc (nat (hr_num_bits s))" "nat (hr_num_bits s) < 8"
    using col by (auto simp: collected_def)
  then show ?thesis
    using assms partial_step[OF high, of "nat (hr_num_bits s)" b] high
    by (auto simp: collected_def bit_next_bip)
qed

lemma collected_octet:
  assumes col: "collected s xs" and "hr_num_bits s = 7" "hr_len s < hr_max_frame_len s"
    "hr_max_frame_len s \<le> length (hr_buffer s)"
  shows "collected (s\<lparr>hr_raw_bit_stream := r, hr_num_bits := 0,
           hr_byte_in_progress := next_bip (hr_byte_in_progress s) b,
           hr_buffer := (hr_buffer s)[hr_len s := ucast (next_bip (hr_byte_in_progress s) b)],
           hr_len := hr_len s + 1\<rparr>) (xs @ [b])"
proof -
  have high: "\<forall>i \<ge> 8. \<not> bit (hr_byte_in_progress s) i" using col by (simp add: collected_def)
  have "partial 8 (next_bip (hr_byte_in_progress s) b) = partial 7 (hr_byte_in_progress s) @ [b]"
    using partial_step[OF high, of 7 b] by (simp add: numeral_eq_Suc)
  then have "octet_bits (ucast (next_bip (hr_byte_in_progress s) b)) = partial 7 (hr_byte_in_progress s) @ [b]"
    by (simp only: partial_8)
  moreover have "take (Suc (hr_len s)) ((hr_buffer s)[hr_len s := x]) = take (hr_len s) (hr_buffer s) @ [x]" for x
    using assms by (simp add: take_Suc_conv_app_nth)
  ultimately show ?thesis
    using assms high by (auto simp: collected_def bit_next_bip partial_def[of 0])
qed

lemma put_data_bit:
  assumes rx: "receiving s" and col: "collected s xs" and run: "ones_run (hr_raw_bit_stream s) c"
    and data: "b \<and> c < 6 \<or> c < 5" and room: "hr_num_bits s = 7 \<longrightarrow> hr_len s < hr_max_frame_len s"
  obtains s' where "hdlc_rx_put_bit s (of_bool b) = Some (s', [])" "static s' = static s" "receiving s'"
    "collected s' (xs @ [b])" "ones_run (hr_raw_bit_stream s') (if b then Suc c else 0)"
proof -
  let ?r = "shift_raw (hr_raw_bit_stream s) b" and ?bip = "next_bip (hr_byte_in_progress s) b"
  let ?s = "s\<lparr>hr_raw_bit_stream := ?r, hr_num_bits := hr_num_bits s + 1, hr_byte_in_progress := ?bip\<rparr>"
  have mode: "\<not> hr_flags_seen s < hr_framing_ok_threshold s" and rok: "hdlc_rx_ok s"
    using rx by (simp_all add: receiving_def)
  have r8: "bit ?r 8 = b" using run by (auto simp: bit_shift_raw ones_run_def)
  have run': "ones_run ?r (if b then Suc c else 0)"
    using data run ones_run_shift[OF run] by (cases b) auto
  have core: "hdlc_rx_put_bit s (of_bool b) = (if hr_num_bits s + 1 = 8 then rx_octet_done ?s else Some (?s, []))"
    using mode data
    by (auto simp: put_bit_core_eq hdlc_rx_put_bit_core_def Let_def shift_flag_iff[OF run] raw_and_256 r8 next_bip_def)
  have ok: "result_ok s (hdlc_rx_put_bit s (of_bool b))" using rok by (rule put_bit_ok)
  show ?thesis
  proof (cases "hr_num_bits s = 7")
    case False
    have "static ?s = static s" by (simp add: static_def)
    then show ?thesis
      using that[of ?s] core False ok run' rx collected_bit[OF col False, where r = "?r" and b = b]
      by (auto simp: result_ok_def receiving_def)
  next
    case True
    let ?t = "s\<lparr>hr_raw_bit_stream := ?r, hr_num_bits := 0, hr_byte_in_progress := ?bip,
        hr_buffer := (hr_buffer s)[hr_len s := ucast ?bip], hr_len := hr_len s + 1\<rparr>"
    have "hr_max_frame_len s \<le> length (hr_buffer s)" using rok by (simp add: hdlc_rx_ok_def)
    then have "collected ?t (xs @ [b])" "rx_octet_done ?s = Some (?t, [])"
      using collected_octet[OF col True, where r = "?r" and b = b] room True by (auto simp: rx_octet_done_def arr_set_def)
    moreover have "static ?t = static s" by (simp add: static_def)
    ultimately show ?thesis
      using that[of ?t] core True ok run' rx by (auto simp: result_ok_def receiving_def)
  qed
qed

text \<open>The zero after five ones is dropped.\<close>

lemma put_stuffed_zero:
  assumes rx: "receiving s" and col: "collected s xs" and run: "ones_run (hr_raw_bit_stream s) 5"
  obtains s' where "hdlc_rx_put_bit s 0 = Some (s', [])" "static s' = static s" "receiving s'"
    "collected s' xs" "ones_run (hr_raw_bit_stream s') 0"
proof -
  let ?r = "shift_raw (hr_raw_bit_stream s) False"
  let ?s = "s\<lparr>hr_raw_bit_stream := ?r\<rparr>"
  have "\<not> bit ?r 14" using ones_run_bits(2)[OF run] by (simp add: bit_shift_raw)
  then have "hdlc_rx_put_bit s 0 = Some (?s, [])"
    using put_bit_core_eq[of s False] shift_flag_iff[OF run, of False]
    by (auto simp: hdlc_rx_put_bit_core_def raw_bit_iff)
  moreover have "static ?s = static s" by (simp add: static_def)
  moreover have "receiving ?s" "collected ?s xs" using rx col by (simp_all add: receiving_def collected_def)
  ultimately show ?thesis using that[of ?s] ones_run_shift(2)[OF run] by simp
qed

lemma collected_length: "hdlc_rx_ok s \<Longrightarrow> collected s xs \<Longrightarrow>
    length xs = 8 * hr_len s + nat (hr_num_bits s)"
  by (auto simp: collected_def hdlc_rx_ok_def partial_def)

lemma put_data_bit':
  assumes "receiving s" "collected s xs" "ones_run (hr_raw_bit_stream s) c" "b \<and> c < 6 \<or> c < 5"
    and "length xs < 8 * hr_max_frame_len s"
  obtains s' where "hdlc_rx_put_bit s (of_bool b) = Some (s', [])" "static s' = static s" "receiving s'"
    "collected s' (xs @ [b])" "ones_run (hr_raw_bit_stream s') (if b then Suc c else 0)"
proof -
  have "hr_num_bits s = 7 \<longrightarrow> hr_len s < hr_max_frame_len s"
    using assms(5) collected_length[OF _ assms(2)] assms(1) by (auto simp: receiving_def)
  from put_data_bit[OF assms(1-4) this] show ?thesis using that by blast
qed

text \<open>Unstuffing: the receiver collects the bits before stuffing, and reports nothing on the way.\<close>

lemma put_stuffed:
  assumes "receiving s" "collected s xs" "ones_run (hr_raw_bit_stream s) c" "c < 5"
    and "length (xs @ bs) \<le> 8 * hr_max_frame_len s"
  shows "\<exists>s'. put_bits s (stuff c bs) = Some (s', []) \<and> static s' = static s \<and> receiving s' \<and>
      collected s' (xs @ bs) \<and> ones_run (hr_raw_bit_stream s') (ones_after c bs)"
  using assms
proof (induction c bs arbitrary: s xs rule: stuff.induct)
  case (1 c)
  then show ?case by auto
next
  case (2 c bs)
  have room: "length xs < 8 * hr_max_frame_len s" using 2(6) by simp
  have z: "False \<and> c < 6 \<or> c < 5" using 2(5) by simp
  obtain s1 where s1: "hdlc_rx_put_bit s 0 = Some (s1, [])" "static s1 = static s" "receiving s1"
      "collected s1 (xs @ [False])" "ones_run (hr_raw_bit_stream s1) 0"
    by (rule put_data_bit'[OF 2(2) 2(3) 2(4) z room]) simp
  have "length ((xs @ [False]) @ bs) \<le> 8 * hr_max_frame_len s1"
    using 2(6) static_fields(2)[OF s1(2)] by simp
  from 2(1)[OF s1(3,4,5) _ this] s1(1,2) show ?case by (auto simp: s1(1))
next
  case (3 c bs)
  have room: "length xs < 8 * hr_max_frame_len s" using 3(7) by simp
  have o: "True \<and> c < 6 \<or> c < 5" using 3(6) by simp
  obtain s1 where s1: "hdlc_rx_put_bit s 1 = Some (s1, [])" "static s1 = static s" "receiving s1"
      "collected s1 (xs @ [True])" "ones_run (hr_raw_bit_stream s1) (Suc c)"
    by (rule put_data_bit'[OF 3(3) 3(4) 3(5) o room]) simp
  have len: "length ((xs @ [True]) @ bs) \<le> 8 * hr_max_frame_len s1"
    using 3(7) static_fields(2)[OF s1(2)] by simp
  show ?case
  proof (cases "c = 4")
    case True
    then have five: "ones_run (hr_raw_bit_stream s1) 5" using s1(5) by (simp add: numeral_eq_Suc)
    obtain s2 where s2: "hdlc_rx_put_bit s1 0 = Some (s2, [])" "static s2 = static s1" "receiving s2"
        "collected s2 (xs @ [True])" "ones_run (hr_raw_bit_stream s2) 0"
      by (rule put_stuffed_zero[OF s1(3,4) five])
    have "length ((xs @ [True]) @ bs) \<le> 8 * hr_max_frame_len s2"
      using len static_fields(2)[OF s2(2)] by simp
    from 3(1)[OF True s2(3,4,5) _ this] s1(1,2) s2(1,2) True show ?thesis by auto
  next
    case False
    have "Suc c < 5" using False 3(6) by simp
    from 3(2)[OF False s1(3,4,5) this len] s1(1,2) False show ?thesis by auto
  qed
qed

section \<open>Flags\<close>

lemma collected_num_bits:
  "hdlc_rx_ok s \<Longrightarrow> collected s xs \<Longrightarrow> hr_num_bits s = int (length xs mod 8) \<and> hr_len s = length xs div 8"
  using collected_length[of s xs] by (auto simp: collected_def)

lemma put_flag_start:
  assumes "receiving s" "collected s xs" "8 dvd length xs" "ones_run (hr_raw_bit_stream s) c" "c < 5" "k \<le> 6"
  shows "\<exists>s'. put_bits s (False # replicate k True) = Some (s', []) \<and> static s' = static s \<and> receiving s' \<and>
      collected s' (xs @ False # replicate k True) \<and> ones_run (hr_raw_bit_stream s') k"
  using \<open>k \<le> 6\<close>
proof (induction k)
  case 0
  have room: "hr_num_bits s = 7 \<longrightarrow> hr_len s < hr_max_frame_len s"
    using collected_num_bits[OF _ assms(2)] assms(1,3) by (simp add: receiving_def)
  have z: "False \<and> c < 6 \<or> c < 5" using assms(5) by simp
  obtain s' where "hdlc_rx_put_bit s 0 = Some (s', [])" "static s' = static s" "receiving s'"
      "collected s' (xs @ [False])" "ones_run (hr_raw_bit_stream s') 0"
    by (rule put_data_bit[OF assms(1,2,4) z room]) simp
  then show ?case by auto
next
  case (Suc k)
  then obtain s' where s': "put_bits s (False # replicate k True) = Some (s', [])" "static s' = static s"
      "receiving s'" "collected s' (xs @ False # replicate k True)" "ones_run (hr_raw_bit_stream s') k"
    by auto
  have "length (xs @ False # replicate k True) mod 8 = Suc k mod 8"
    using assms(3) by (elim dvdE) simp
  then have room: "hr_num_bits s' = 7 \<longrightarrow> hr_len s' < hr_max_frame_len s'"
    using collected_num_bits[OF _ s'(4)] s'(3) Suc.prems by (simp add: receiving_def)
  have o: "True \<and> k < 6 \<or> k < 5" using Suc.prems by simp
  obtain s2 where s2: "hdlc_rx_put_bit s' 1 = Some (s2, [])" "static s2 = static s'" "receiving s2"
      "collected s2 ((xs @ False # replicate k True) @ [True])" "ones_run (hr_raw_bit_stream s2) (Suc k)"
    by (rule put_data_bit[OF s'(3,4,5) o room]) simp
  have split: "False # replicate (Suc k) True = (False # replicate k True) @ [True]"
    by (simp add: replicate_append_same)
  have "put_bits s' [True] = Some (s2, [])" using s2(1) by simp
  then have "put_bits s (False # replicate (Suc k) True) = Some (s2, [] @ [])"
    unfolding split by (rule put_bits_Some_append[OF s'(1)])
  then have "put_bits s (False # replicate (Suc k) True) = Some (s2, [])" by (simp only: append_Nil)
  moreover have "collected s2 (xs @ False # replicate (Suc k) True)"
    using s2(4) unfolding split by (simp only: append_assoc)
  ultimately show ?case using s2(2,3,5) s'(2) by (intro exI[of _ s2]) (simp only: simp_thms)
qed

lemma flag_bits_eq: "flag_bits = (False # replicate 6 True) @ [False]"
  by (simp add: flag_bits_def numeral_eq_Suc)

text \<open>The last bit of a flag: the frame is checked and handed over, and the receiver starts afresh.\<close>

lemma put_flag_end:
  assumes "receiving s" "collected s (xs @ False # replicate 6 True)" "8 dvd length xs"
    "ones_run (hr_raw_bit_stream s) 6"
  shows "hr_num_bits s = 7" "hr_len s = length xs div 8" "bits_of (take (hr_len s) (hr_buffer s)) = xs"
    "hdlc_rx_put_bit s 0 =
       do { (s, evs) \<leftarrow> rx_frame_end (s\<lparr>hr_raw_bit_stream := shift_raw (hr_raw_bit_stream s) False,
                                        hr_octet_counting_mode := False\<rparr>);
            Some (s\<lparr>hr_len := 0, hr_num_bits := 0\<rparr>, evs) }"
proof -
  let ?r = "shift_raw (hr_raw_bit_stream s) False"
  have ok: "hdlc_rx_ok s" using assms(1) by (simp add: receiving_def)
  obtain q where q: "length xs = 8 * q" using assms(3) by (rule dvdE)
  show n: "hr_num_bits s = 7" and "hr_len s = length xs div 8"
    using collected_num_bits[OF ok assms(2)] q by simp_all
  show "bits_of (take (hr_len s) (hr_buffer s)) = xs"
    using assms(2) n by (auto simp: collected_def partial_def)
  have "bit ?r 14" "\<not> bit ?r 15"
    using ones_run_bits(3)[OF assms(4)] by (simp_all add: bit_shift_raw)
  then show "hdlc_rx_put_bit s 0 =
       do { (s, evs) \<leftarrow> rx_frame_end (s\<lparr>hr_raw_bit_stream := ?r, hr_octet_counting_mode := False\<rparr>);
            Some (s\<lparr>hr_len := 0, hr_num_bits := 0\<rparr>, evs) }"
    using put_bit_core_eq[of s False] shift_flag_iff[OF assms(4), of False] assms(1)
    by (auto simp: hdlc_rx_put_bit_core_def raw_bit_iff rx_flag_or_abort_def receiving_def Let_def)
qed

text \<open>The receiver just behind a flag.\<close>

definition after_flag :: "hdlc_rx \<Rightarrow> bool" where
  "after_flag s \<longleftrightarrow> receiving s \<and> collected s [] \<and> ones_run (hr_raw_bit_stream s) 0"

lemma put_flag_idle:
  assumes "after_flag s"
  shows "\<exists>s'. put_bits s flag_bits = Some (s', []) \<and> static s' = static s \<and> after_flag s'"
proof -
  have a: "receiving s" "collected s []" "ones_run (hr_raw_bit_stream s) 0" using assms by (simp_all add: after_flag_def)
  obtain s1 where s1: "put_bits s (False # replicate 6 True) = Some (s1, [])" "static s1 = static s"
      "receiving s1" "collected s1 ([] @ False # replicate 6 True)" "ones_run (hr_raw_bit_stream s1) 6"
    using put_flag_start[OF a(1,2) _ a(3), of 6] by auto
  let ?s = "s1\<lparr>hr_raw_bit_stream := shift_raw (hr_raw_bit_stream s1) False,
                hr_octet_counting_mode := False, hr_len := 0, hr_num_bits := 0\<rparr>"
  note fe = put_flag_end[OF s1(3,4) _ s1(5)]
  have len: "hr_len s1 = 0" using fe(2) by simp
  have "put_bits s1 [False] = Some (?s, [])"
    using fe(4) len by (simp add: rx_frame_end_def)
  then have "put_bits s flag_bits = Some (?s, [] @ [])"
    unfolding flag_bits_eq by (rule put_bits_Some_append[OF s1(1)])
  then have "put_bits s flag_bits = Some (?s, [])" by simp
  moreover have "static ?s = static s" using s1(2) by (simp add: static_def)
  moreover have "after_flag ?s"
    using s1(3,4) ones_run_shift(2)[OF s1(5)]
    by (auto simp: after_flag_def receiving_def hdlc_rx_ok_def collected_def partial_def)
  ultimately show ?thesis by blast
qed

section \<open>Frames\<close>

definition crc_octets :: "nat \<Rightarrow> octets \<Rightarrow> octets" where
  "crc_octets crc_bytes f = (if crc_bytes = 2 then crc16_bytes f else crc32_bytes f)"

definition frame_bits :: "nat \<Rightarrow> octets \<Rightarrow> bool list" where
  "frame_bits crc_bytes f = stuff 0 (bits_of (f @ crc_octets crc_bytes f))"

abbreviation good_frame :: "octets \<Rightarrow> hdlc_event" where
  "good_frame f \<equiv> Frame_call (Some f) (int (length f)) True"

definition count_frame :: "octets \<Rightarrow> hdlc_rx \<Rightarrow> hdlc_rx" where
  "count_frame f s = s\<lparr>hr_rx_frames := hr_rx_frames s + 1, hr_rx_bytes := hr_rx_bytes s + length f\<rparr>"

lemma length_crc_octets: "cb = 2 \<or> cb = 4 \<Longrightarrow> length (crc_octets cb f) = cb"
  by (auto simp: crc_octets_def crc16_bytes_def crc32_bytes_def Let_def)

lemma put_frame_flag:
  assumes "receiving s" "collected s (bits_of (f @ crc_octets (hr_crc_bytes s) f))"
    "ones_run (hr_raw_bit_stream s) c" "c < 5"
  shows "\<exists>s'. put_bits s flag_bits = Some (s', [good_frame f]) \<and>
      static s' = count_frame f (static s) \<and> after_flag s'"
proof -
  let ?cb = "hr_crc_bytes s"
  let ?t = "crc_octets ?cb f"
  have dvd: "8 dvd length (bits_of (f @ ?t))" by (simp del: bits_of_simps)
  obtain s1 where s1: "put_bits s (False # replicate 6 True) = Some (s1, [])" "static s1 = static s"
      "receiving s1" "collected s1 (bits_of (f @ ?t) @ False # replicate 6 True)" "ones_run (hr_raw_bit_stream s1) 6"
    using put_flag_start[OF assms(1,2) dvd assms(3,4), of 6] by auto
  let ?s = "s1\<lparr>hr_raw_bit_stream := shift_raw (hr_raw_bit_stream s1) False, hr_octet_counting_mode := False\<rparr>"
  let ?u = "?s\<lparr>hr_rx_frames := hr_rx_frames s1 + 1, hr_rx_bytes := hr_rx_bytes s1 + length f, hr_len := length f\<rparr>"
  let ?v = "?u\<lparr>hr_len := 0, hr_num_bits := 0\<rparr>"
  note fe = put_flag_end[OF s1(3,4) dvd s1(5)]
  have ok: "hdlc_rx_ok s1" "hr_crc_bytes s1 = ?cb"
    using s1(3) static_fields(1)[OF s1(2)] by (simp_all add: receiving_def)
  have cb: "?cb = 2 \<or> ?cb = 4" using ok by (auto simp: hdlc_rx_ok_def)
  have lt: "length ?t = ?cb" using cb by (rule length_crc_octets)
  have len: "hr_len s1 = length f + ?cb" using fe(2) lt by (simp del: bits_of_simps)
  have buf: "take (hr_len s1) (hr_buffer s1) = f @ ?t"
  proof (rule bits_of_inject)
    have "length (bits_of (take (hr_len s1) (hr_buffer s1))) = length (bits_of (f @ ?t))"
      by (simp only: fe(3))
    then show "length (take (hr_len s1) (hr_buffer s1)) = length (f @ ?t)" by (simp del: bits_of_simps)
  qed (rule fe(3))
  then have tf: "take (length f) (hr_buffer s1) = f"
    by (metis append_eq_conv_conj len le_add1 min.absorb1 take_take)
  have max: "hr_len s1 \<le> hr_max_frame_len s1" using s1(4) by (simp add: collected_def)
  have "length (take (hr_len s1) (hr_buffer s1)) = hr_len s1" using buf len lt by simp
  then have inb: "hr_len s1 \<le> length (hr_buffer s1)" by simp
  have good: "rx_frame_check ?s = Some True"
  proof (cases "?cb = 2")
    case True
    then show ?thesis
      using inb buf crc16.own_checks[of f] ok(2) by (simp add: rx_frame_check_def crc_octets_def)
  next
    case False
    then show ?thesis
      using inb buf crc32.own_checks[of f] ok(2) by (simp add: rx_frame_check_def crc_octets_def)
  qed
  have "rx_frame_end ?s = Some (?u, [good_frame f])"
    using good fe(1) len ok max tf cb
    by (auto simp: rx_frame_end_def call_frame_handler_def Let_def hdlc_rx_ok_def)
  then have "put_bits s1 [False] = Some (?v, [good_frame f])" using fe(4) by simp
  then have "put_bits s flag_bits = Some (?v, [] @ [good_frame f])"
    unfolding flag_bits_eq by (rule put_bits_Some_append[OF s1(1)])
  then have "put_bits s flag_bits = Some (?v, [good_frame f])" by simp
  moreover have "static ?v = count_frame f (static s)"
    using s1(2)[symmetric] by (simp add: static_def count_frame_def)
  moreover have "after_flag ?v"
    using s1(3,4) ones_run_shift(2)[OF s1(5)]
    by (auto simp: after_flag_def receiving_def hdlc_rx_ok_def collected_def partial_def)
  ultimately show ?thesis by blast
qed

text \<open>A stuffed frame and its closing flag are delivered once, whole.\<close>

lemma put_frame:
  assumes "after_flag s" "length f + hr_crc_bytes s \<le> hr_max_frame_len s"
  shows "\<exists>s'. put_bits s (frame_bits (hr_crc_bytes s) f @ flag_bits) = Some (s', [good_frame f]) \<and>
      static s' = count_frame f (static s) \<and> after_flag s'"
proof -
  let ?xs = "bits_of (f @ crc_octets (hr_crc_bytes s) f)"
  have a: "receiving s" "collected s []" "ones_run (hr_raw_bit_stream s) 0"
    using assms(1) by (simp_all add: after_flag_def)
  have cb: "hr_crc_bytes s = 2 \<or> hr_crc_bytes s = 4" using a(1) by (simp add: receiving_def hdlc_rx_ok_def)
  have "length ([] @ ?xs) \<le> 8 * hr_max_frame_len s"
    using assms(2) length_crc_octets[OF cb, of f] by (simp del: bits_of_simps)
  from put_stuffed[OF a _ this] obtain s1 where s1: "put_bits s (stuff 0 ?xs) = Some (s1, [])"
      "static s1 = static s" "receiving s1" "collected s1 ?xs" "ones_run (hr_raw_bit_stream s1) (ones_after 0 ?xs)"
    by (simp del: bits_of_simps) blast
  have "hr_crc_bytes s1 = hr_crc_bytes s" by (rule static_fields[OF s1(2)])
  then have col: "collected s1 (bits_of (f @ crc_octets (hr_crc_bytes s1) f))" using s1(4) by simp
  have "ones_after 0 ?xs < 5" by (rule ones_after_less) simp
  from put_frame_flag[OF s1(3) col s1(5) this] obtain s' where
    s': "put_bits s1 flag_bits = Some (s', [good_frame f])" "static s' = count_frame f (static s)" "after_flag s'"
    unfolding s1(2) by blast
  have "put_bits s (frame_bits (hr_crc_bytes s) f @ flag_bits) = Some (s', [] @ [good_frame f])"
    unfolding frame_bits_def by (rule put_bits_Some_append[OF s1(1) s'(1)])
  then show ?thesis using s'(2,3) by auto
qed

end
