(* ===== verification/Hdlc_Line.thy ===== *)
theory Hdlc_Line
  imports Hdlc_Frames
begin

text \<open>
  Whole transmissions at the receiver: a preamble of flags announces framing, and every
  frame of the line, with any number of flags behind it, is delivered once and in order.
\<close>

section \<open>The preamble\<close>

text \<open>Flags are still being counted.\<close>

definition hunting :: "hdlc_rx \<Rightarrow> bool" where
  "hunting s \<longleftrightarrow> hdlc_rx_ok s \<and> hr_flags_seen s < hr_framing_ok_threshold s \<and>
     hr_octet_count_report_interval s = 0 \<and> \<not> hr_framing_ok_announced s \<and>
     (\<forall>i \<ge> 8. \<not> bit (hr_byte_in_progress s) i)"

lemma hunting_bit:
  assumes "hunting s" "ones_run (hr_raw_bit_stream s) c" "b \<and> c < 6 \<or> c < 5"
  shows "hdlc_rx_put_bit s (of_bool b) =
     Some (s\<lparr>hr_raw_bit_stream := shift_raw (hr_raw_bit_stream s) b, hr_num_bits := hr_num_bits s + 1\<rparr>, [])"
  using assms(1,3)
  by (auto simp: hunting_def put_bit_core_eq hdlc_rx_put_bit_core_def Let_def octet_count_def
      shift_flag_iff[OF assms(2)])

lemma hunting_ones:
  assumes "hunting s" "ones_run (hr_raw_bit_stream s) c" "c < 5" "k \<le> 6"
  shows "\<exists>r. put_bits s (False # replicate k True) =
      Some (s\<lparr>hr_raw_bit_stream := r, hr_num_bits := hr_num_bits s + 1 + int k\<rparr>, []) \<and> ones_run r k"
  using \<open>k \<le> 6\<close>
proof (induction k)
  case 0
  have "hdlc_rx_put_bit s (of_bool False) =
     Some (s\<lparr>hr_raw_bit_stream := shift_raw (hr_raw_bit_stream s) False, hr_num_bits := hr_num_bits s + 1\<rparr>, [])"
    by (rule hunting_bit[OF assms(1,2)]) (use assms(3) in simp)
  then show ?case using ones_run_shift(2)[OF assms(2)] by (intro exI conjI) simp_all
next
  case (Suc k)
  then obtain r where r: "put_bits s (False # replicate k True) =
      Some (s\<lparr>hr_raw_bit_stream := r, hr_num_bits := hr_num_bits s + 1 + int k\<rparr>, [])" "ones_run r k"
    by auto
  let ?s = "s\<lparr>hr_raw_bit_stream := r, hr_num_bits := hr_num_bits s + 1 + int k\<rparr>"
  have "hunting ?s" using assms(1) by (simp add: hunting_def hdlc_rx_ok_def)
  moreover have "ones_run (hr_raw_bit_stream ?s) k" using r(2) by simp
  ultimately have "hdlc_rx_put_bit ?s (of_bool True) =
      Some (?s\<lparr>hr_raw_bit_stream := shift_raw (hr_raw_bit_stream ?s) True, hr_num_bits := hr_num_bits ?s + 1\<rparr>, [])"
    by (rule hunting_bit) (use Suc.prems in simp)
  then have one: "put_bits ?s [True] =
      Some (s\<lparr>hr_raw_bit_stream := shift_raw r True, hr_num_bits := hr_num_bits s + 1 + int (Suc k)\<rparr>, [])"
    by (simp add: algebra_simps)
  have split: "False # replicate (Suc k) True = (False # replicate k True) @ [True]"
    by (simp add: replicate_append_same)
  have "put_bits s (False # replicate (Suc k) True) =
      Some (s\<lparr>hr_raw_bit_stream := shift_raw r True, hr_num_bits := hr_num_bits s + 1 + int (Suc k)\<rparr>, [] @ [])"
    unfolding split by (rule put_bits_Some_append[OF r(1) one])
  moreover have "ones_run (shift_raw r True) (Suc k)"
    using ones_run_shift(1)[OF r(2)] Suc.prems by simp
  ultimately show ?case by auto
qed

text \<open>The receiver between two flags of the preamble.\<close>

definition hunting_flag :: "hdlc_rx \<Rightarrow> bool" where
  "hunting_flag s \<longleftrightarrow> hunting s \<and> hr_num_bits s = 0 \<and> hr_len s = 0 \<and> ones_run (hr_raw_bit_stream s) 0"

definition see_flag :: "hdlc_rx \<Rightarrow> hdlc_rx" where
  "see_flag s = s\<lparr>hr_flags_seen := hr_flags_seen s + 1,
     hr_framing_ok_announced := (hr_flags_seen s + 1 \<ge> hr_framing_ok_threshold s)\<rparr>"

lemma put_flag_hunting:
  assumes "hunting_flag s"
  shows "\<exists>s'. put_bits s flag_bits =
      Some (s', if hr_flags_seen s + 1 \<ge> hr_framing_ok_threshold s
                then report_status_change s SIG_STATUS_FRAMING_OK else []) \<and>
    static s' = see_flag (static s) \<and>
    (if hr_flags_seen s + 1 \<ge> hr_framing_ok_threshold s then after_flag s' else hunting_flag s')"
proof -
  have a: "hunting s" "hr_num_bits s = 0" "hr_len s = 0" "ones_run (hr_raw_bit_stream s) 0"
    using assms by (simp_all add: hunting_flag_def)
  obtain r where r: "put_bits s (False # replicate 6 True) =
      Some (s\<lparr>hr_raw_bit_stream := r, hr_num_bits := 7\<rparr>, [])" "ones_run r 6"
    using hunting_ones[OF a(1,4), of 6] a(2) by auto
  let ?s = "s\<lparr>hr_raw_bit_stream := r, hr_num_bits := 7\<rparr>"
  let ?r = "shift_raw r False"
  let ?ok = "hr_flags_seen s + 1 \<ge> hr_framing_ok_threshold s"
  let ?v = "s\<lparr>hr_raw_bit_stream := ?r, hr_octet_counting_mode := False, hr_flags_seen := hr_flags_seen s + 1,
        hr_framing_ok_announced := ?ok, hr_len := 0, hr_num_bits := 0\<rparr>"
  let ?evs = "if ?ok then report_status_change s SIG_STATUS_FRAMING_OK else []"
  have "bit ?r 14" "\<not> bit ?r 15" using ones_run_bits(3)[OF r(2)] by (simp_all add: bit_shift_raw)
  then have "put_bits ?s [False] = Some (?v, ?evs)"
    using put_bit_core_eq[of ?s False] shift_flag_iff[OF r(2), of False] a(1)
    by (auto simp: hdlc_rx_put_bit_core_def raw_bit_iff rx_flag_or_abort_def rx_preamble_flag_def
        hunting_def report_status_change_def Let_def)
  then have "put_bits s flag_bits = Some (?v, [] @ ?evs)"
    unfolding flag_bits_eq by (rule put_bits_Some_append[OF r(1)])
  then have "put_bits s flag_bits = Some (?v, ?evs)" by (simp only: append_Nil)
  moreover have "static ?v = see_flag (static s)" by (simp add: static_def see_flag_def)
  moreover have "if ?ok then after_flag ?v else hunting_flag ?v"
    using a ones_run_shift(2)[OF r(2)]
    by (auto simp: after_flag_def receiving_def hunting_flag_def hunting_def hdlc_rx_ok_def collected_def partial_def)
  ultimately show ?thesis by (intro exI conjI) assumption+
qed

section \<open>Flags between frames\<close>

definition flags :: "nat \<Rightarrow> bool list" where
  "flags n = concat (replicate n flag_bits)"

lemma flags_simps [simp]: "flags 0 = []" "flags (Suc n) = flag_bits @ flags n"
  by (simp_all add: flags_def)

lemma put_flags_idle:
  "after_flag s \<Longrightarrow> \<exists>s'. put_bits s (flags n) = Some (s', []) \<and> static s' = static s \<and> after_flag s'"
proof (induction n arbitrary: s)
  case (Suc n)
  obtain s1 where s1: "put_bits s flag_bits = Some (s1, [])" "static s1 = static s" "after_flag s1"
    using put_flag_idle[OF Suc.prems] by blast
  obtain s2 where s2: "put_bits s1 (flags n) = Some (s2, [])" "static s2 = static s1" "after_flag s2"
    using Suc.IH[OF s1(3)] by blast
  show ?case using put_bits_Some_append[OF s1(1) s2(1)] s1(2) s2(2,3) by auto
qed auto

text \<open>A flag cut short says nothing.\<close>

lemma put_flag_prefix:
  assumes "after_flag s"
  shows "\<exists>s'. put_bits s (take k flag_bits) = Some (s', []) \<and> hr_rx_frames s' = hr_rx_frames s"
proof -
  obtain s1 where s1: "put_bits s (take k flag_bits @ drop k flag_bits) = Some (s1, [])"
    using put_flag_idle[OF assms] by auto
  then obtain s' evs where s': "put_bits s (take k flag_bits) = Some (s', evs)" "evs = []"
    unfolding put_bits_append by (auto simp: bind_eq_Some_conv)
  have "hr_rx_frames s' = hr_rx_frames s"
  proof (cases "k < 8")
    case True
    have a: "receiving s" "collected s []" "ones_run (hr_raw_bit_stream s) 0"
      using assms by (simp_all add: after_flag_def)
    show ?thesis
    proof (cases k)
      case 0
      then show ?thesis using s' by simp
    next
      case (Suc j)
      then have "take k flag_bits = False # replicate j True"
        using True by (auto simp: flag_bits_def take_Cons' numeral_eq_Suc less_Suc_eq)
      moreover have "j \<le> 6" using Suc True by simp
      ultimately obtain s2 where s2: "put_bits s (take k flag_bits) = Some (s2, [])" "static s2 = static s"
        using put_flag_start[OF a(1,2) _ a(3), of j] by auto
      then show ?thesis using s' static_fields(7)[OF s2(2)] by simp
    qed
  next
    case False
    then have "take k flag_bits = flag_bits" by (simp add: flag_bits_def)
    then obtain s2 where s2: "put_bits s (take k flag_bits) = Some (s2, [])" "static s2 = static s"
      using put_flag_idle[OF assms] by auto
    then show ?thesis using s' static_fields(7)[OF s2(2)] by simp
  qed
  with s' show ?thesis by auto
qed

lemma put_preamble:
  assumes "hunting_flag s" "hr_framing_ok_threshold s - hr_flags_seen s \<le> int n"
  shows "\<exists>s'. put_bits s (flags n) = Some (s', report_status_change s SIG_STATUS_FRAMING_OK) \<and> after_flag s' \<and>
     hr_crc_bytes s' = hr_crc_bytes s \<and> hr_max_frame_len s' = hr_max_frame_len s \<and>
     hr_rx_frames s' = hr_rx_frames s"
  using assms
proof (induction n arbitrary: s)
  case 0
  then show ?case by (simp add: hunting_flag_def hunting_def)
next
  case (Suc n)
  let ?ok = "hr_flags_seen s + 1 \<ge> hr_framing_ok_threshold s"
  obtain s1 where s1: "put_bits s flag_bits = Some (s1, if ?ok then report_status_change s SIG_STATUS_FRAMING_OK else [])"
      "static s1 = see_flag (static s)" "if ?ok then after_flag s1 else hunting_flag s1"
    using put_flag_hunting[OF Suc.prems(1)] by blast
  have f: "hr_crc_bytes s1 = hr_crc_bytes s" "hr_max_frame_len s1 = hr_max_frame_len s"
    "hr_frame_handler s1 = hr_frame_handler s" "hr_status_handler s1 = hr_status_handler s"
    "hr_flags_seen s1 = hr_flags_seen s + 1" "hr_framing_ok_threshold s1 = hr_framing_ok_threshold s"
    "hr_rx_frames s1 = hr_rx_frames s"
    using arg_cong[OF s1(2), of hr_crc_bytes] arg_cong[OF s1(2), of hr_max_frame_len]
      arg_cong[OF s1(2), of hr_frame_handler] arg_cong[OF s1(2), of hr_status_handler]
      arg_cong[OF s1(2), of hr_flags_seen] arg_cong[OF s1(2), of hr_framing_ok_threshold]
      arg_cong[OF s1(2), of hr_rx_frames]
    by (simp_all add: static_def see_flag_def)
  then have rep: "report_status_change s1 st = report_status_change s st" for st
    by (simp add: report_status_change_def)
  show ?case
  proof (cases ?ok)
    case True
    then obtain s2 where s2: "put_bits s1 (flags n) = Some (s2, [])" "static s2 = static s1" "after_flag s2"
      using put_flags_idle s1(3) by (metis (full_types))
    then show ?thesis
      using put_bits_Some_append[OF s1(1) s2(1)] True s2(3) static_fields[OF s2(2)] f by simp
  next
    case False
    then have "hunting_flag s1" using s1(3) by simp
    moreover have "hr_framing_ok_threshold s1 - hr_flags_seen s1 \<le> int n" using Suc.prems(2) f by simp
    ultimately obtain s2 where "put_bits s1 (flags n) = Some (s2, report_status_change s SIG_STATUS_FRAMING_OK)"
      "after_flag s2" "hr_crc_bytes s2 = hr_crc_bytes s" "hr_max_frame_len s2 = hr_max_frame_len s"
      "hr_rx_frames s2 = hr_rx_frames s"
      using Suc.IH[of s1] f rep by auto
    then show ?thesis using put_bits_Some_append[OF s1(1)] False by simp
  qed
qed

section \<open>The line\<close>

text \<open>Each frame is followed by one flag and any number of further ones.\<close>

definition line_bits :: "nat \<Rightarrow> (octets \<times> nat) list \<Rightarrow> bool list" where
  "line_bits cb frames = concat (map (\<lambda>(f, n). (frame_bits cb f @ flag_bits) @ flags n) frames)"

lemma put_line:
  assumes "after_flag s" "\<forall>(f, n) \<in> set frames. length f + hr_crc_bytes s \<le> hr_max_frame_len s"
  shows "\<exists>s'. put_bits s (line_bits (hr_crc_bytes s) frames) = Some (s', map (good_frame \<circ> fst) frames) \<and>
      after_flag s' \<and> hr_rx_frames s' = hr_rx_frames s + length frames"
  using assms
proof (induction frames arbitrary: s)
  case Nil
  then show ?case by (simp add: line_bits_def)
next
  case (Cons p frames)
  obtain f n where p: "p = (f, n)" by (cases p)
  have "length f + hr_crc_bytes s \<le> hr_max_frame_len s" using Cons.prems(2) p by simp
  from put_frame[OF Cons.prems(1) this] obtain s1 where
    s1: "put_bits s (frame_bits (hr_crc_bytes s) f @ flag_bits) = Some (s1, [good_frame f])"
      "static s1 = count_frame f (static s)" "after_flag s1" by blast
  obtain s2 where s2: "put_bits s1 (flags n) = Some (s2, [])" "static s2 = static s1" "after_flag s2"
    using put_flags_idle[OF s1(3)] by blast
  have f: "hr_crc_bytes s2 = hr_crc_bytes s" "hr_max_frame_len s2 = hr_max_frame_len s"
    "hr_rx_frames s2 = Suc (hr_rx_frames s)"
    using arg_cong[OF s1(2), of hr_crc_bytes] arg_cong[OF s1(2), of hr_max_frame_len]
      arg_cong[OF s1(2), of hr_rx_frames] arg_cong[OF s2(2), of hr_crc_bytes]
      arg_cong[OF s2(2), of hr_max_frame_len] arg_cong[OF s2(2), of hr_rx_frames]
    by (simp_all add: static_def count_frame_def)
  have "\<forall>(f, n) \<in> set frames. length f + hr_crc_bytes s2 \<le> hr_max_frame_len s2"
    using Cons.prems(2) f by simp
  from Cons.IH[OF s2(3) this] obtain s3 where
    s3: "put_bits s2 (line_bits (hr_crc_bytes s2) frames) = Some (s3, map (good_frame \<circ> fst) frames)"
      "after_flag s3" "hr_rx_frames s3 = hr_rx_frames s2 + length frames" by blast
  have "put_bits s (((frame_bits (hr_crc_bytes s) f @ flag_bits) @ flags n) @ line_bits (hr_crc_bytes s2) frames)
      = Some (s3, ([good_frame f] @ []) @ map (good_frame \<circ> fst) frames)"
    by (rule put_bits_Some_append[OF put_bits_Some_append[OF s1(1) s2(1)] s3(1)])
  then show ?case using s3(2,3) f p by (intro exI[of _ s3]) (simp add: line_bits_def)
qed

text \<open>The receiver just initialised, with or without a status handler.\<close>

lemma init_hunting:
  "hunting_flag (hdlc_rx_set_status_handler (hdlc_rx_init crc32 bad thr True) sh)"
  "hr_crc_bytes (hdlc_rx_set_status_handler (hdlc_rx_init crc32 bad thr True) sh) = (if crc32 then 4 else 2)"
  "hr_framing_ok_threshold (hdlc_rx_set_status_handler (hdlc_rx_init crc32 bad thr True) sh) = max 1 thr"
  by (auto simp: hunting_flag_def hunting_def hdlc_rx_ok_def hdlc_rx_init_def hdlc_rx_set_status_handler_def
      ones_run_def HDLC_MAXFRAME_LEN_def)

definition framing_ok_event :: "bool \<Rightarrow> hdlc_event" where
  "framing_ok_event sh = (if sh then Status_call SIG_STATUS_FRAMING_OK else Frame_call None SIG_STATUS_FRAMING_OK True)"

lemma line_received:
  assumes "stream_bits bs = flags n @ line_bits (if crc32 then 4 else 2) frames @ take k flag_bits"
    and "max 1 thr \<le> int n" "\<forall>(f, m) \<in> set frames. length f \<le> 400"
  shows "\<exists>s'. hdlc_rx_put (hdlc_rx_set_status_handler (hdlc_rx_init crc32 bad thr True) sh) bs
      = Some (s', framing_ok_event sh # map (good_frame \<circ> fst) frames) \<and> hr_rx_frames s' = length frames"
proof -
  let ?s = "hdlc_rx_set_status_handler (hdlc_rx_init crc32 bad thr True) sh"
  have st: "report_status_change ?s SIG_STATUS_FRAMING_OK = [framing_ok_event sh]"
    "hr_max_frame_len ?s = 404" "hr_flags_seen ?s = 0" "hr_rx_frames ?s = 0"
    "low_clear (hr_raw_bit_stream ?s) = hr_raw_bit_stream ?s"
    by (simp_all add: hdlc_rx_set_status_handler_def hdlc_rx_init_def report_status_change_def
        framing_ok_event_def low_clear_def HDLC_MAXFRAME_LEN_def)
  obtain s1 where s1: "put_bits ?s (flags n) = Some (s1, [framing_ok_event sh])" "after_flag s1"
      "hr_crc_bytes s1 = (if crc32 then 4 else 2)" "hr_max_frame_len s1 = 404" "hr_rx_frames s1 = 0"
    using put_preamble[OF init_hunting(1)[of crc32 bad thr sh], of n] assms(2) st init_hunting(2,3) by auto
  have "\<forall>(f, m) \<in> set frames. length f + hr_crc_bytes s1 \<le> hr_max_frame_len s1"
    using assms(3) s1(3,4) by auto
  from put_line[OF s1(2) this] obtain s2 where
    s2: "put_bits s1 (line_bits (if crc32 then 4 else 2) frames) = Some (s2, map (good_frame \<circ> fst) frames)"
      "after_flag s2" "hr_rx_frames s2 = length frames" using s1(3,5) by auto
  obtain s3 where s3: "put_bits s2 (take k flag_bits) = Some (s3, [])" "hr_rx_frames s3 = length frames"
    using put_flag_prefix[OF s2(2), of k] s2(3) by auto
  have "put_bits ?s (flags n @ line_bits (if crc32 then 4 else 2) frames @ take k flag_bits)
      = Some (s3, [framing_ok_event sh] @ map (good_frame \<circ> fst) frames @ [])"
    by (rule put_bits_Some_append[OF s1(1) put_bits_Some_append[OF s2(1) s3(1)]])
  then show ?thesis
    using s3(2) put_stream_bits[OF st(5), of bs] assms(1) by (intro exI[of _ s3]) simp
qed

end
