(* ===== verification/Hdlc_Tx_Bits.thy ===== *)
theory Hdlc_Tx_Bits
  imports Hdlc_Tx Hdlc_Line
begin

text \<open>
  The transmitter's shift register: the lowest-set-bit routine, the stuffing loop against the
  stuffing of the line format, and the octets cut from the register.
\<close>

section \<open>The lowest set bit\<close>

text \<open>
  Before each step the set bits lie in a block of \<open>2 * k\<close> positions from \<open>base\<close>, the lowest bit of
  the word among them, and \<open>res\<close> is the end of the block.
\<close>

definition block :: "u32 \<Rightarrow> nat \<Rightarrow> nat \<Rightarrow> u32 \<times> int \<Rightarrow> bool" where
  "block w k base p \<longleftrightarrow> (case p of (bits, res) \<Rightarrow>
     base mod k = 0 \<and> res = int base + int k - 1 \<and> bits \<noteq> 0 \<and>
     (\<forall>j. bit bits j \<longrightarrow> base \<le> j \<and> j < base + k) \<and>
     (\<forall>j. bit bits j \<longrightarrow> bit w j) \<and> (\<forall>j < base + k. bit w j \<longrightarrow> bit bits j))"

lemma block_step:
  assumes "block w (2 * k) base p" "0 < k" "\<And>j. j < 32 \<Longrightarrow> bit m j \<longleftrightarrow> j mod (2 * k) < k"
  shows "\<exists>base'. block w k base' (bottom_bit_step m (int k) p)"
proof -
  obtain bits res where p: "p = (bits, res)" by (cases p)
  have b: "base mod (2 * k) = 0" "res = int base + int (2 * k) - 1" "bits \<noteq> 0"
    "\<And>j. bit bits j \<Longrightarrow> base \<le> j \<and> j < base + 2 * k" "\<And>j. bit bits j \<Longrightarrow> bit w j"
    "\<And>j. j < base + 2 * k \<Longrightarrow> bit w j \<Longrightarrow> bit bits j"
    using assms(1) by (auto simp: block_def p)
  obtain q where q: "base = 2 * k * q" using b(1) by (auto elim: dvdE simp: mod_eq_0_iff_dvd)
  have m: "bit m j \<longleftrightarrow> j < base + k" if "bit bits j" for j
  proof -
    have "base \<le> j" "j < base + 2 * k" using b(4)[OF that] by auto
    have j: "base \<le> j" "j < base + 2 * k" using b(4)[OF that] by auto
    have "j = 2 * k * q + (j - base)" "j - base < 2 * k" using j q by auto
    then have "j mod (2 * k) = j - base" by (metis mod_mult_self2 add.commute mod_less)
    moreover have "j < 32" using bit_imp_le_length[OF that] by simp
    ultimately show ?thesis using assms(3) j by auto
  qed
  have k: "base mod k = 0" "(base + k) mod k = 0" using q by simp_all
  show ?thesis
  proof (cases "bits AND m \<noteq> 0")
    case True
    have "\<forall>j. bit (bits AND m) j \<longrightarrow> base \<le> j \<and> j < base + k"
      using b(4) m by (metis bit_and_iff)
    moreover have "\<forall>j. bit (bits AND m) j \<longrightarrow> bit w j" using b(5) by (simp add: bit_and_iff)
    moreover have "\<forall>j < base + k. bit w j \<longrightarrow> bit (bits AND m) j" using b(6) m by (simp add: bit_and_iff)
    ultimately have "block w k base (bits AND m, res - int k)"
      using True b(2) k(1) by (simp add: block_def)
    then show ?thesis using True p by (auto simp: bottom_bit_step_def)
  next
    case False
    have "\<not> bit m j" if "bit bits j" for j
      using that False bit_and_iff[of bits m j] by simp
    then have "\<forall>j. bit bits j \<longrightarrow> base + k \<le> j \<and> j < base + k + k"
      using b(4) m by (metis not_less mult_2 add.assoc)
    moreover have "\<forall>j < base + k + k. bit w j \<longrightarrow> bit bits j" using b(6) by (simp add: mult_2)
    ultimately have "block w k (base + k) (bits, res)"
      using b(2,3,5) k(2) by (simp add: block_def)
    then show ?thesis using False p by (auto simp: bottom_bit_step_def)
  qed
qed

lemma block_1:
  assumes "block w 1 b p"
  shows "snd p = int b" "bit w b" "\<forall>j < b. \<not> bit w j"
proof -
  obtain bits res where p: "p = (bits, res)" by (rule prod.exhaust)
  have b: "res = int b" "bits \<noteq> 0" "\<And>j. bit bits j \<Longrightarrow> b \<le> j \<and> j < b + 1" "\<And>j. bit bits j \<Longrightarrow> bit w j"
    "\<And>j. j < b + 1 \<Longrightarrow> bit w j \<Longrightarrow> bit bits j"
    using assms by (auto simp: block_def p)
  show "snd p = int b" using b(1) p by simp
  have only: "j = b" if "bit bits j" for j using b(3)[OF that] by simp
  obtain j where j: "bit bits j" using b(2) by (metis bit_0_eq bit_eqI bot_apply bot_bool_def)
  then show "bit w b" using only[OF j] b(4)[OF j] by simp
  show "\<forall>j < b. \<not> bit w j"
  proof (intro allI impI)
    fix j assume "j < b"
    then show "\<not> bit w j" using only[of j] b(5)[of j] by auto
  qed
qed

lemma all_32: "(\<forall>j < (32 :: nat). P j) \<longleftrightarrow> (\<forall>j \<in> set [0, 1, 2, 3, 4, 5, 6, 7, 8, 9, 10, 11, 12, 13, 14, 15,
    16, 17, 18, 19, 20, 21, 22, 23, 24, 25, 26, 27, 28, 29, 30, 31]. P j)"
  unfolding upt_32[symmetric] by auto

lemma bottom_mask_16: "j < 32 \<Longrightarrow> bit (0x0000FFFF :: u32) j \<longleftrightarrow> j mod (2 * 16) < 16"
  using all_32[of "\<lambda>j. bit (0x0000FFFF :: u32) j \<longleftrightarrow> j mod (2 * 16) < 16"] by simp

lemma bottom_mask_8: "j < 32 \<Longrightarrow> bit (0x00FF00FF :: u32) j \<longleftrightarrow> j mod (2 * 8) < 8"
  using all_32[of "\<lambda>j. bit (0x00FF00FF :: u32) j \<longleftrightarrow> j mod (2 * 8) < 8"] by simp

lemma bottom_mask_4: "j < 32 \<Longrightarrow> bit (0x0F0F0F0F :: u32) j \<longleftrightarrow> j mod (2 * 4) < 4"
  using all_32[of "\<lambda>j. bit (0x0F0F0F0F :: u32) j \<longleftrightarrow> j mod (2 * 4) < 4"] by simp

lemma bottom_mask_2: "j < 32 \<Longrightarrow> bit (0x33333333 :: u32) j \<longleftrightarrow> j mod (2 * 2) < 2"
  using all_32[of "\<lambda>j. bit (0x33333333 :: u32) j \<longleftrightarrow> j mod (2 * 2) < 2"] by simp

lemma bottom_mask_1: "j < 32 \<Longrightarrow> bit (0x55555555 :: u32) j \<longleftrightarrow> j mod (2 * 1) < 1"
  using all_32[of "\<lambda>j. bit (0x55555555 :: u32) j \<longleftrightarrow> j mod (2 * 1) < 1"] by simp

lemmas bottom_masks = bottom_mask_16 bottom_mask_8 bottom_mask_4 bottom_mask_2 bottom_mask_1

lemma bottom_bit_lowest:
  assumes "w \<noteq> 0"
  shows "\<exists>i. bottom_bit w = int i \<and> bit w i \<and> (\<forall>j < i. \<not> bit w j)"
proof -
  have "block w (2 * 16) 0 (w, 31)"
    using assms bit_imp_le_length[of w] by (auto simp: block_def)
  from block_step[OF this _ bottom_masks(1)] obtain b1 where
    1: "block w (2 * 8) b1 (bottom_bit_step 0x0000FFFF 16 (w, 31))" by auto
  from block_step[OF 1 _ bottom_masks(2)] obtain b2 where
    2: "block w (2 * 4) b2 (bottom_bit_step 0x00FF00FF 8 (bottom_bit_step 0x0000FFFF 16 (w, 31)))" by auto
  from block_step[OF 2 _ bottom_masks(3)] obtain b3 where
    3: "block w (2 * 2) b3 (bottom_bit_step 0x0F0F0F0F 4 (bottom_bit_step 0x00FF00FF 8
          (bottom_bit_step 0x0000FFFF 16 (w, 31))))" by auto
  from block_step[OF 3 _ bottom_masks(4)] obtain b4 where
    4: "block w (2 * 1) b4 (bottom_bit_step 0x33333333 2 (bottom_bit_step 0x0F0F0F0F 4
          (bottom_bit_step 0x00FF00FF 8 (bottom_bit_step 0x0000FFFF 16 (w, 31)))))" by auto
  from block_step[OF 4 _ bottom_masks(5)] obtain b5 where
    5: "block w 1 b5 (bottom_bit_step 0x55555555 1 (bottom_bit_step 0x33333333 2 (bottom_bit_step 0x0F0F0F0F 4
          (bottom_bit_step 0x00FF00FF 8 (bottom_bit_step 0x0000FFFF 16 (w, 31))))))" (is "block w 1 b5 ?p") by auto
  have "bottom_bit w = snd ?p" using assms by (simp only: bottom_bit_def if_False)
  then show ?thesis using block_1[OF 5] by (intro exI[of _ b5]) simp
qed

section \<open>The shift register\<close>

text \<open>The last \<open>n\<close> bits shifted in, the oldest first.\<close>

definition low_bits :: "nat \<Rightarrow> u32 \<Rightarrow> bool list" where
  "low_bits n w = map (\<lambda>j. bit w (n - 1 - j)) [0..<n]"

definition push_one :: "u32 \<Rightarrow> bool \<Rightarrow> u32" where
  "push_one w b = push_bit 1 w OR (if b then 1 else 0)"

definition shift_in :: "u32 \<Rightarrow> bool list \<Rightarrow> u32" where
  "shift_in w bs = fold (\<lambda>b w. push_one w b) bs w"

lemma shift_in_simps [simp]: "shift_in w [] = w" "shift_in w (b # bs) = shift_in (push_one w b) bs"
  by (simp_all add: shift_in_def)

lemma bit_push_one: "i < 32 \<Longrightarrow> bit (push_one w b) i \<longleftrightarrow> (if i = 0 then b else bit w (i - 1))"
proof -
  assume i: "i < 32"
  have "bit (push_bit 1 w) i \<longleftrightarrow> 0 < i \<and> bit w (i - 1)"
    using i by (simp only: bit_push_bit_iff possible_bit_word) auto
  moreover have "bit (if b then 1 else 0 :: u32) i \<longleftrightarrow> i = 0 \<and> b"
    by (simp add: bit_1_iff)
  ultimately show ?thesis unfolding push_one_def bit_or_iff by auto
qed

lemma length_low_bits [simp]: "length (low_bits n w) = n"
  by (simp add: low_bits_def)

lemma low_bits_push: "n < 32 \<Longrightarrow> low_bits (Suc n) (push_one w b) = low_bits n w @ [b]"
  by (rule nth_equalityI) (auto simp: low_bits_def nth_append bit_push_one less_Suc_eq simp del: upt_Suc)

lemma low_bits_shift_in: "n + length bs \<le> 32 \<Longrightarrow> low_bits (n + length bs) (shift_in w bs) = low_bits n w @ bs"
proof (induction bs arbitrary: n w)
  case (Cons b bs)
  have "low_bits (Suc n + length bs) (shift_in (push_one w b) bs) = low_bits (Suc n) (push_one w b) @ bs"
    using Cons.prems by (intro Cons.IH) simp
  then show ?case using Cons.prems by (simp add: low_bits_push)
qed simp

lemma low_bits_split: "low_bits (m + n) w = map (\<lambda>j. bit w (n + (m - 1 - j))) [0..<m] @ low_bits n w"
  by (rule nth_equalityI) (auto simp: low_bits_def nth_append intro!: arg_cong[where f = "bit w"])

text \<open>The octet handed over is the first eight bits of the register, the rest stays pending.\<close>

lemma cut_octet:
  assumes "n + 8 \<le> 32"
  shows "uint (drop_bit n w AND 0xFF) = uint (ucast (drop_bit n w) :: u8)"
    "msb_bits (ucast (drop_bit n w)) @ low_bits n w = low_bits (8 + n) w"
proof -
  have "(0xFF :: u32) = mask 8" by (simp add: mask_eq_exp_minus_1)
  then have "drop_bit n w AND 0xFF = take_bit 8 (drop_bit n w)" by (simp only: take_bit_eq_mask)
  then show "uint (drop_bit n w AND 0xFF) = uint (ucast (drop_bit n w) :: u8)"
    by (simp only: unsigned_take_bit_eq unsigned_ucast_eq) simp
  have "msb_bits (ucast (drop_bit n w)) = map (\<lambda>j. bit w (n + (8 - 1 - j))) [0..<8]"
    by (auto simp: msb_bits_def ucast_octet_bit bit_drop_bit_eq)
  then show "msb_bits (ucast (drop_bit n w)) @ low_bits n w = low_bits (8 + n) w"
    by (simp only: low_bits_split)
qed

section \<open>Stuffing\<close>

definition tail_ones :: "u32 \<Rightarrow> nat \<Rightarrow> bool" where
  "tail_ones w c \<longleftrightarrow> c < 5 \<and> (\<forall>i < c. bit w i) \<and> \<not> bit w c"

lemma five_ones_iff: "(w :: u32) AND 0x1F = 0x1F \<longleftrightarrow> bit w 0 \<and> bit w 1 \<and> bit w 2 \<and> bit w 3 \<and> bit w 4"
  unfolding word_bits_eq_iff bit_and_iff by (simp add: upt_32)

lemma tail_ones_push:
  assumes "tail_ones w c"
  shows "push_one w b AND 0x1F = 0x1F \<longleftrightarrow> b \<and> c = 4" "tail_ones (push_one w False) 0"
    "c < 4 \<Longrightarrow> tail_ones (push_one w True) (Suc c)"
proof -
  have c: "c = 0 \<or> c = 1 \<or> c = 2 \<or> c = 3 \<or> c = 4" "\<And>i. i < c \<Longrightarrow> bit w i" "\<not> bit w c"
    using assms by (auto simp: tail_ones_def)
  then show "push_one w b AND 0x1F = 0x1F \<longleftrightarrow> b \<and> c = 4"
    using c(2)[of 0] c(2)[of 1] c(2)[of 2] c(2)[of 3] by (auto simp: five_ones_iff bit_push_one)
  show "tail_ones (push_one w False) 0" by (simp add: tail_ones_def bit_push_one)
  assume "c < 4"
  moreover have "bit (push_one w True) i" if "i < Suc c" for i
    using that c(2)[of "i - 1"] \<open>c < 4\<close> by (auto simp: bit_push_one)
  ultimately show "tail_ones (push_one w True) (Suc c)"
    using c(3) by (auto simp: tail_ones_def bit_push_one[of "Suc c"])
qed

lemma length_stuff: "length bs \<le> length (stuff c bs)"
  by (induction c bs rule: stuff.induct) auto

lemma length_stuff_le: "length (stuff c bs) \<le> 2 * length bs"
  by (induction c bs rule: stuff.induct) auto

lemma push_one_code: "push_bit 1 w OR (v AND 0x01) = push_one w (bit v 0)"
proof -
  have "v AND 1 = (if bit v 0 then 1 else 0)" by (simp add: and_one_eq odd_iff_mod_2_eq_one bit_0)
  then show ?thesis by (simp only: push_one_def)
qed

lemma push_zero_code: "push_bit 1 w = push_one w False"
  by (simp add: push_one_def)

lemma tx_stuff_loop_stuff:
  assumes "tail_ones w c"
  shows "tx_stuff_loop n v w nb =
     (let bs = map (bit v) [0..<n] in (shift_in w (stuff c bs), nb + (length (stuff c bs) - n)))"
    "tail_ones (fst (tx_stuff_loop n v w nb)) (ones_after c (map (bit v) [0..<n]))"
  using assms
proof (induction n arbitrary: v w c nb)
  case 0
  { case 1 show ?case by simp }
  { case 2 then show ?case by simp }
next
  case (Suc n)
  have up: "map (bit v) [0..<Suc n] = bit v 0 # map (bit (drop_bit 1 v)) [0..<n]" for v :: u32
    by (simp add: upt_conv_Cons map_Suc_upt[symmetric] comp_def bit_drop_bit_eq del: upt_Suc)
  have split: "tx_stuff_loop (Suc n) v w nb =
      (if bit v 0 \<and> c = 4 then tx_stuff_loop n (drop_bit 1 v) (push_one (push_one w True) False) (nb + 1)
       else tx_stuff_loop n (drop_bit 1 v) (push_one w (bit v 0)) nb)" if "tail_ones w c" for v w c nb
    unfolding tx_stuff_loop.simps Let_def push_one_code unfolding tail_ones_push(1)[OF that] push_zero_code by simp
  have len: "n \<le> length (stuff c' (map (bit (drop_bit 1 v)) [0..<n]))" for c' and v :: u32
    using length_stuff[of "map (bit (drop_bit 1 v)) [0..<n]" c'] by simp
  { case 1
    then show ?case
    proof (cases "bit v 0")
      case True
      show ?thesis
      proof (cases "c = 4")
        case four: True
        have "tail_ones (push_one (push_one w True) False) 0" by (simp add: tail_ones_def bit_push_one)
        from Suc.IH(1)[OF this] show ?thesis
          unfolding split[OF 1] up using True four len[of 0] by (simp add: Let_def Suc_diff_le del: upt_Suc)
      next
        case False
        then have "tail_ones (push_one w True) (Suc c)" using 1 tail_ones_push(3)[OF 1] by (simp add: tail_ones_def)
        from Suc.IH(1)[OF this] show ?thesis
          unfolding split[OF 1] up using True False by (simp add: Let_def del: upt_Suc)
      qed
    next
      case False
      from Suc.IH(1)[OF tail_ones_push(2)[OF 1]] show ?thesis
        unfolding split[OF 1] up using False by (simp add: Let_def del: upt_Suc)
    qed }
  { case 2
    then show ?case
    proof (cases "bit v 0")
      case True
      show ?thesis
      proof (cases "c = 4")
        case four: True
        have "tail_ones (push_one (push_one w True) False) 0" by (simp add: tail_ones_def bit_push_one)
        from Suc.IH(2)[OF this] show ?thesis
          unfolding split[OF 2] up using True four by (simp del: upt_Suc)
      next
        case False
        then have "tail_ones (push_one w True) (Suc c)" using 2 tail_ones_push(3)[OF 2] by (simp add: tail_ones_def)
        from Suc.IH(2)[OF this] show ?thesis
          unfolding split[OF 2] up using True False by (simp del: upt_Suc)
      qed
    next
      case False
      from Suc.IH(2)[OF tail_ones_push(2)[OF 2]] show ?thesis
        unfolding split[OF 2] up using False by (simp del: upt_Suc)
    qed }
qed

text \<open>Zeros at the start of an octet cannot complete five ones: the code shifts them in at once.\<close>

lemma tx_stuff_loop_skip:
  "\<forall>j < i. \<not> bit v j \<Longrightarrow> i \<le> n \<Longrightarrow>
     tx_stuff_loop (n - i) (drop_bit i v) (push_bit i w) nb = tx_stuff_loop n v w nb"
proof (induction i arbitrary: n v w)
  case (Suc i)
  obtain m where m: "n = Suc m" using Suc.prems(2) by (cases n) auto
  have v0: "\<not> bit v 0" using Suc.prems(1) by simp
  have "\<forall>j < i. \<not> bit (drop_bit 1 v) j" using Suc.prems(1) by (simp add: bit_drop_bit_eq)
  moreover have "i \<le> m" using Suc.prems(2) m by simp
  ultimately have "tx_stuff_loop (m - i) (drop_bit i (drop_bit 1 v)) (push_bit i (push_bit 1 w)) nb
      = tx_stuff_loop m (drop_bit 1 v) (push_bit 1 w) nb" by (rule Suc.IH)
  moreover have "tx_stuff_loop (Suc m) v w nb = tx_stuff_loop m (drop_bit 1 v) (push_one w False) nb"
    unfolding tx_stuff_loop.simps Let_def unfolding push_one_code five_ones_iff
    by (simp add: v0 bit_push_one)
  ultimately show ?case
    unfolding m push_zero_code[of w] by (simp add: drop_bit_drop_bit push_bit_push_bit push_one_def)
qed simp

lemma tx_data_octet_bits:
  assumes pos: "ht_pos s < length (ht_buffer s)" and nb: "ht_num_bits s < 8" and tail: "tail_ones (ht_octets_in_progress s) c"
  defines "S \<equiv> stuff c (octet_bits (ht_buffer s ! ht_pos s))"
  defines "w \<equiv> shift_in (ht_octets_in_progress s) S" and "n \<equiv> ht_num_bits s + (length S - 8)"
  shows "\<exists>v. tx_data_octet s = Some (s\<lparr>ht_pos := ht_pos s + 1, ht_octets_in_progress := w, ht_num_bits := n\<rparr>, uint (v :: u8)) \<and>
      msb_bits v @ low_bits n w = low_bits (ht_num_bits s) (ht_octets_in_progress s) @ S"
    "tail_ones w (ones_after c (octet_bits (ht_buffer s ! ht_pos s)))" "n < 16"
proof -
  let ?b = "ht_buffer s ! ht_pos s" and ?oip = "ht_octets_in_progress s" and ?nb = "ht_num_bits s"
  let ?bip = "ucast ?b :: u32"
  have b8: "\<not> bit ?b i" if "8 \<le> i" for i using bit_imp_le_length[of ?b i] that by auto
  have bip: "bit ?bip i \<longleftrightarrow> bit ?b i" if "i < 32" for i
    using that by (simp add: bit_unsigned_iff possible_bit_word)
  have "?bip OR 0x100 \<noteq> 0"
    by (metis bit_256 bit_or_iff bit_0_eq bot_apply bot_bool_def)
  then obtain i where i: "bottom_bit (?bip OR 0x100) = int i" "bit (?bip OR 0x100) i" "\<forall>j < i. \<not> bit (?bip OR 0x100) j"
    using bottom_bit_lowest by blast
  have i8: "i \<le> 8" using i(3) bit_256[of 8] by (metis bit_or_iff not_le)
  have zeros: "\<forall>j < i. \<not> bit ?bip j" using i(3) by (simp add: bit_or_iff)
  have bits: "map (bit ?bip) [0..<8] = octet_bits ?b"
    by (auto simp: octet_bits_def bip)
  have loop: "tx_stuff_loop (8 - i) (drop_bit i ?bip) (push_bit i ?oip) ?nb = (w, n)"
    unfolding tx_stuff_loop_skip[OF zeros i8] tx_stuff_loop_stuff(1)[OF tail] Let_def bits w_def n_def S_def ..
  have "8 \<le> length S" "length S \<le> 16"
    using length_stuff[of "octet_bits ?b" c] length_stuff_le[of c "octet_bits ?b"] by (simp_all add: S_def)
  then have n: "8 + n = ?nb + length S" "?nb + length S \<le> 32" using nb by (simp_all add: n_def)
  show "n < 16" using \<open>length S \<le> 16\<close> n(1) nb by simp
  show "tail_ones w (ones_after c (octet_bits ?b))"
    using tx_stuff_loop_stuff(2)[OF tail, of 8 ?bip ?nb] tx_stuff_loop_stuff(1)[OF tail, of 8 ?bip ?nb]
    by (simp add: bits Let_def w_def S_def)
  let ?v = "ucast (drop_bit n w) :: u8"
  have "tx_data_octet s = Some (s\<lparr>ht_pos := ht_pos s + 1, ht_octets_in_progress := w, ht_num_bits := n\<rparr>,
      uint (drop_bit n w AND 0xFF))"
    using pos by (simp add: tx_data_octet_def arr_get_nat i(1) loop)
  moreover have "n + 8 \<le> 32" using n by simp
  moreover have "low_bits (8 + n) w = low_bits ?nb ?oip @ S"
    unfolding n(1) w_def by (rule low_bits_shift_in[OF n(2)])
  ultimately show "\<exists>v. tx_data_octet s =
      Some (s\<lparr>ht_pos := ht_pos s + 1, ht_octets_in_progress := w, ht_num_bits := n\<rparr>, uint (v :: u8)) \<and>
      msb_bits v @ low_bits n w = low_bits ?nb ?oip @ S"
    using cut_octet[of n w] by (intro exI[of _ ?v]) simp
qed

end
