(* ===== verification/Hdlc_Tx_Line.thy ===== *)
theory Hdlc_Tx_Line
  imports Hdlc_Tx_Bits
begin

text \<open>
  What the transmitter puts on the line: flags, then each accepted frame with its CRC,
  stuffed and closed by a flag.  The invariant splits the line into what was sent and the
  bits pending in the register.
\<close>

section \<open>The line so far\<close>

definition line_log :: "nat \<Rightarrow> nat \<Rightarrow> octets list \<Rightarrow> bool list \<Rightarrow> bool" where
  "line_log cb k fs L \<longleftrightarrow> (\<exists>frames. L = flags k @ line_bits cb frames \<and> map fst frames = fs) \<and>
     (\<forall>f \<in> set fs. length f \<le> 400)"

lemma flags_snoc: "flags n @ flag_bits = flags (Suc n)"
  by (induction n) simp_all

lemma line_bits_simps [simp]:
  "line_bits cb [] = []" "line_bits cb (p # frames) = ((frame_bits cb (fst p) @ flag_bits) @ flags (snd p)) @ line_bits cb frames"
  "line_bits cb (as @ bs) = line_bits cb as @ line_bits cb bs"
  by (simp_all add: line_bits_def case_prod_beta)

lemma line_log_start: "line_log cb 0 [] []"
  by (simp add: line_log_def)

lemma line_log_flag:
  assumes "line_log cb k fs L"
  shows "line_log cb (if fs = [] then Suc k else k) fs (L @ flag_bits)"
proof -
  obtain frames where L: "L = flags k @ line_bits cb frames" "map fst frames = fs"
    using assms by (auto simp: line_log_def)
  have short: "\<forall>f \<in> set fs. length f \<le> 400" using assms by (simp add: line_log_def)
  show ?thesis
  proof (cases frames rule: rev_cases)
    case Nil
    then show ?thesis using L flags_snoc[of k] by (simp add: line_log_def)
  next
    case (snoc fr p)
    have "L @ flag_bits = flags k @ line_bits cb (fr @ [(fst p, Suc (snd p))])"
      using L(1) snoc flags_snoc[of "snd p"] by simp
    moreover have "map fst (fr @ [(fst p, Suc (snd p))]) = fs" "fs \<noteq> []" using L(2) snoc by auto
    ultimately show ?thesis
      unfolding line_log_def using short
      by (intro exI[of _ "fr @ [(fst p, Suc (snd p))]"] conjI) (simp_all only: if_False)
  qed
qed

lemma line_log_frame:
  assumes "line_log cb k fs L" "length f \<le> 400"
  shows "line_log cb k (fs @ [f]) (L @ frame_bits cb f @ flag_bits)"
proof -
  obtain frames where L: "L = flags k @ line_bits cb frames" "map fst frames = fs"
    using assms by (auto simp: line_log_def)
  have "L @ frame_bits cb f @ flag_bits = flags k @ line_bits cb (frames @ [(f, 0)])" using L(1) by simp
  moreover have "map fst (frames @ [(f, 0)]) = fs @ [f]" using L(2) by simp
  moreover have "\<forall>g \<in> set (fs @ [f]). length g \<le> 400" using assms by (auto simp: line_log_def)
  ultimately show ?thesis unfolding line_log_def by (intro exI conjI)
qed

section \<open>The invariant\<close>

abbreviation pending :: "hdlc_tx \<Rightarrow> bool list" where
  "pending s \<equiv> low_bits (ht_num_bits s) (ht_octets_in_progress s)"

definition crc_value :: "nat \<Rightarrow> octets \<Rightarrow> u32" where
  "crc_value cb f = (if cb = 2 then ucast (crc_itu16_calc f 0xFFFF) else crc_itu32_calc f 0xFFFFFFFF)"

definition tx_ok :: "nat \<Rightarrow> hdlc_tx \<Rightarrow> bool" where
  "tx_ok cb s \<longleftrightarrow> ht_crc_bytes s = cb \<and> (cb = 2 \<or> cb = 4) \<and> length (ht_buffer s) = 404 \<and>
     ht_max_frame_len s \<le> 400 \<and> ht_len s \<le> 400 \<and> ht_abort_octets s = 0"

definition idle_value :: "nat \<Rightarrow> int" where
  "idle_value nb = drop_bit nb (0x7E7E :: int) AND 0xFF"

text \<open>Between frames: the rotated flag is ready, and its tail is pending.\<close>

definition tx_gap :: "hdlc_tx \<Rightarrow> bool" where
  "tx_gap s \<longleftrightarrow> ht_pos s = 0 \<and> ht_num_bits s < 8 \<and> ht_idle_octet s = idle_value (ht_num_bits s) \<and>
     pending s = drop (8 - ht_num_bits s) flag_bits \<and> tail_ones (ht_octets_in_progress s) 0"

text \<open>Inside a frame: \<open>x\<close> has gone into the register since the line was \<open>L\<close>.\<close>

definition tx_inside :: "hdlc_tx \<Rightarrow> bool list \<Rightarrow> bool list \<Rightarrow> octets \<Rightarrow> bool" where
  "tx_inside s sent L x \<longleftrightarrow> ht_num_bits s < 16 \<and> ht_flag_octets s \<le> 0 \<and> ht_len s \<noteq> 0 \<and>
     sent @ pending s = L @ stuff 0 (bits_of x) \<and>
     tail_ones (ht_octets_in_progress s) (ones_after 0 (bits_of x))"

inductive tx_inv :: "nat \<Rightarrow> int \<Rightarrow> hdlc_tx \<Rightarrow> bool list \<Rightarrow> octets list \<Rightarrow> bool" for cb N where
  gap: "tx_ok cb s \<Longrightarrow> tx_gap s \<Longrightarrow> ht_crc s = crc_value cb (take (ht_len s) (ht_buffer s)) \<Longrightarrow>
    line_log cb k fs (sent @ pending s) \<Longrightarrow> N \<le> int k + (if fs = [] then ht_flag_octets s else 0) \<Longrightarrow>
    acc = (if ht_len s = 0 then fs else fs @ [take (ht_len s) (ht_buffer s)]) \<Longrightarrow>
    tx_inv cb N s sent acc"
| data: "tx_ok cb s \<Longrightarrow> 0 < ht_pos s \<Longrightarrow> ht_pos s \<le> ht_len s \<Longrightarrow>
    ht_crc s = crc_value cb (take (ht_len s) (ht_buffer s)) \<Longrightarrow>
    tx_inside s sent L (take (ht_pos s) (ht_buffer s)) \<Longrightarrow> line_log cb k fs L \<Longrightarrow> N \<le> int k \<Longrightarrow>
    acc = fs @ [take (ht_len s) (ht_buffer s)] \<Longrightarrow>
    tx_inv cb N s sent acc"
| crc: "tx_ok cb s \<Longrightarrow> 400 < ht_pos s \<Longrightarrow> ht_pos s \<le> 400 + cb \<Longrightarrow>
    take cb (drop 400 (ht_buffer s)) = crc_octets cb f \<Longrightarrow> length f \<le> 400 \<Longrightarrow>
    tx_inside s sent L (f @ take (ht_pos s - 400) (crc_octets cb f)) \<Longrightarrow> line_log cb k fs L \<Longrightarrow> N \<le> int k \<Longrightarrow>
    acc = fs @ [f] \<Longrightarrow>
    tx_inv cb N s sent acc"

section \<open>Idle octets\<close>

lemma less_8_cases: "(nb :: nat) < 8 \<Longrightarrow> nb \<in> {0, 1, 2, 3, 4, 5, 6, 7}"
  by auto

lemma idle_value_bits:
  assumes "nb < 8"
  shows "\<exists>v :: u8. idle_value nb = uint v \<and> msb_bits v = drop (8 - nb) flag_bits @ take (8 - nb) flag_bits"
proof -
  let ?v = "word_of_int (idle_value nb) :: u8"
  have "idle_value nb = uint ?v"
    by (simp add: idle_value_def uint_word_of_int int_and_0xFF)
  moreover have "msb_bits ?v = drop (8 - nb) flag_bits @ take (8 - nb) flag_bits"
    using less_8_cases[OF assms] by (auto simp: idle_value_def msb_bits_def flag_bits_def upt_8)
  ultimately show ?thesis by blast
qed

text \<open>An idle octet completes one more flag.\<close>

lemma idle_octet_bits:
  assumes "tx_gap s"
  shows "\<exists>v :: u8. ht_idle_octet s = uint v \<and> msb_bits v @ pending s = pending s @ flag_bits"
proof -
  obtain v :: u8 where v: "idle_value (ht_num_bits s) = uint v"
      "msb_bits v = drop (8 - ht_num_bits s) flag_bits @ take (8 - ht_num_bits s) flag_bits"
    using idle_value_bits assms by (auto simp: tx_gap_def)
  then have "msb_bits v @ pending s = pending s @ flag_bits"
    using assms by (simp add: tx_gap_def)
  then show ?thesis using v(1) assms by (auto simp: tx_gap_def)
qed

section \<open>One octet\<close>

text \<open>
  Every call either hands over one octet and keeps the invariant, or reports the end of the
  data and only forgets that it had to.
\<close>

definition step_ok :: "nat \<Rightarrow> int \<Rightarrow> hdlc_tx \<Rightarrow> bool list \<Rightarrow> octets list \<Rightarrow> (hdlc_tx \<times> int) option \<Rightarrow> bool" where
  "step_ok cb N s sent acc r \<longleftrightarrow>
     (\<exists>s' v. r = Some (s', uint (v :: u8)) \<and> tx_inv cb N s' (sent @ msb_bits v) acc)"

lemma tx_inv_idle:
  assumes ok: "tx_ok cb s" and gap: "tx_gap s" and crc: "ht_crc s = crc_value cb (take (ht_len s) (ht_buffer s))"
    and log: "line_log cb k fs (sent @ pending s)" and N: "N \<le> int k + (if fs = [] then 1 + fo else 0)"
    and acc: "acc = (if ht_len s = 0 then fs else fs @ [take (ht_len s) (ht_buffer s)])"
  shows "step_ok cb N s sent acc
     (Some (s\<lparr>ht_flag_octets := fo, ht_report_flag_underflow := r\<rparr>, ht_idle_octet s))"
proof -
  obtain v :: u8 where v: "ht_idle_octet s = uint v" "msb_bits v @ pending s = pending s @ flag_bits"
    using idle_octet_bits[OF gap] by blast
  let ?s = "s\<lparr>ht_flag_octets := fo, ht_report_flag_underflow := r\<rparr>"
  have "line_log cb (if fs = [] then Suc k else k) fs ((sent @ msb_bits v) @ pending s)"
    using line_log_flag[OF log] v(2) by simp
  then have "tx_inv cb N ?s (sent @ msb_bits v) acc"
    using ok gap crc N acc
    by (intro tx_inv.gap[where k = "if fs = [] then Suc k else k" and fs = fs])
       (auto simp: tx_ok_def tx_gap_def)
  then show ?thesis unfolding step_ok_def using v(1) by (intro exI conjI) simp_all
qed

lemma tx_inside_octet:
  assumes "tx_inside s sent L x" "ht_num_bits s < 8" "ht_pos s < length (ht_buffer s)"
  obtains v :: u8 and w n where
    "tx_data_octet s = Some (s\<lparr>ht_pos := ht_pos s + 1, ht_octets_in_progress := w, ht_num_bits := n\<rparr>, uint v)"
    "tx_inside (s\<lparr>ht_pos := ht_pos s + 1, ht_octets_in_progress := w, ht_num_bits := n\<rparr>)
       (sent @ msb_bits v) L (x @ [ht_buffer s ! ht_pos s])"
proof -
  let ?b = "ht_buffer s ! ht_pos s" and ?c = "ones_after 0 (bits_of x)"
  let ?S = "stuff ?c (octet_bits ?b)"
  let ?w = "shift_in (ht_octets_in_progress s) ?S" and ?n = "ht_num_bits s + (length ?S - 8)"
  let ?s = "s\<lparr>ht_pos := ht_pos s + 1, ht_octets_in_progress := ?w, ht_num_bits := ?n\<rparr>"
  have tail: "tail_ones (ht_octets_in_progress s) ?c" and sent: "sent @ pending s = L @ stuff 0 (bits_of x)"
    using assms(1) by (simp_all add: tx_inside_def)
  note bits = tx_data_octet_bits[OF assms(3,2) tail]
  obtain v :: u8 where v: "tx_data_octet s = Some (?s, uint v)" "msb_bits v @ low_bits ?n ?w = pending s @ ?S"
    using bits(1) by blast
  have "(sent @ msb_bits v) @ low_bits ?n ?w = L @ stuff 0 (bits_of (x @ [?b]))"
  proof -
    have "(sent @ msb_bits v) @ low_bits ?n ?w = (sent @ pending s) @ ?S"
      by (simp only: append_assoc v(2))
    also have "\<dots> = L @ stuff 0 (bits_of x @ octet_bits ?b)" unfolding sent stuff_append by simp
    finally show ?thesis by simp
  qed
  moreover have "tail_ones ?w (ones_after 0 (bits_of (x @ [?b])))"
    using bits(2) by (simp add: ones_after_append)
  ultimately have "tx_inside ?s (sent @ msb_bits v) L (x @ [?b])"
    using assms(1) bits(3) by (simp add: tx_inside_def)
  with v(1) show ?thesis by (rule that)
qed

lemma tx_inside_extra:
  assumes "tx_inside s sent L x" "8 \<le> ht_num_bits s"
  obtains v :: u8 where
    "uint (drop_bit (ht_num_bits s - 8) (ht_octets_in_progress s) AND 0xFF) = uint v"
    "tx_inside (s\<lparr>ht_num_bits := ht_num_bits s - 8\<rparr>) (sent @ msb_bits v) L x"
proof -
  let ?n = "ht_num_bits s - 8"
  let ?v = "ucast (drop_bit ?n (ht_octets_in_progress s)) :: u8"
  have nb: "ht_num_bits s < 16" and sent: "sent @ pending s = L @ stuff 0 (bits_of x)"
    using assms(1) by (simp_all add: tx_inside_def)
  then have "?n + 8 \<le> 32" "8 + ?n = ht_num_bits s" using assms(2) by simp_all
  from cut_octet[OF this(1), of "ht_octets_in_progress s", unfolded this(2)]
  have v: "uint (drop_bit ?n (ht_octets_in_progress s) AND 0xFF) = uint ?v"
    "msb_bits ?v @ low_bits ?n (ht_octets_in_progress s) = pending s" .
  have "(sent @ msb_bits ?v) @ low_bits ?n (ht_octets_in_progress s) = L @ stuff 0 (bits_of x)"
    using v(2) sent by simp
  then have "tx_inside (s\<lparr>ht_num_bits := ?n\<rparr>) (sent @ msb_bits ?v) L x"
    using assms(1) nb by (simp add: tx_inside_def)
  with v(1) show ?thesis by (rule that)
qed

text \<open>The last octet of a frame: its pending bits, then the first bits of the flag.\<close>

lemma tail_flag_octet:
  assumes "nb < 8"
  shows "msb_bits (ucast (push_bit (8 - nb) w OR drop_bit nb 0x7E) :: u8) = low_bits nb w @ take (8 - nb) flag_bits"
proof -
  have f: "bit (0x7E :: u32) i \<longleftrightarrow> i \<noteq> 0 \<and> i < 7" if "i < 32" for i
    using that all_32[of "\<lambda>i. bit (0x7E :: u32) i \<longleftrightarrow> i \<noteq> 0 \<and> i < 7"] by simp
  have flag: "flag_bits ! i \<longleftrightarrow> i \<noteq> 0 \<and> i < 7" if "i < 8" for i
    using that by (auto simp: flag_bits_def less_Suc_eq numeral_eq_Suc)
  have len: "length flag_bits = 8" by (simp add: flag_bits_def)
  have bits: "bit (push_bit (8 - nb) w OR drop_bit nb 0x7E) j \<longleftrightarrow>
      (8 - nb \<le> j \<and> bit w (j - (8 - nb))) \<or> (nb + j \<noteq> 0 \<and> nb + j < 7)" if "j < 8" for j
    using that assms by (simp only: bit_or_iff bit_push_bit_iff bit_drop_bit_eq f possible_bit_word comp_apply) auto
  show ?thesis
  proof (rule nth_equalityI)
    show "length (msb_bits (ucast (push_bit (8 - nb) w OR drop_bit nb 0x7E) :: u8)) =
        length (low_bits nb w @ take (8 - nb) flag_bits)" using assms len by simp
    fix i assume "i < length (msb_bits (ucast (push_bit (8 - nb) w OR drop_bit nb 0x7E) :: u8))"
    then have i: "i < 8" by simp
    have l: "7 - i < 8" by arith
    have "msb_bits (ucast (push_bit (8 - nb) w OR drop_bit nb 0x7E) :: u8) ! i \<longleftrightarrow>
        bit (push_bit (8 - nb) w OR drop_bit nb 0x7E) (7 - i)"
      using i l by (simp add: msb_bits_def ucast_octet_bit)
    also have "\<dots> \<longleftrightarrow> (8 - nb \<le> 7 - i \<and> bit w (7 - i - (8 - nb))) \<or> (nb + (7 - i) \<noteq> 0 \<and> nb + (7 - i) < 7)"
      by (rule bits) simp
    also have "\<dots> \<longleftrightarrow> (low_bits nb w @ take (8 - nb) flag_bits) ! i"
    proof (cases "i < nb")
      case True
      then have "7 - i - (8 - nb) = nb - 1 - i" "8 - nb \<le> 7 - i" "\<not> nb + (7 - i) < 7" using i assms by auto
      then show ?thesis using True by (simp add: nth_append low_bits_def)
    next
      case False
      then have "\<not> 8 - nb \<le> 7 - i" "i - nb < 8 - nb" "nb + (7 - i) \<noteq> 0 \<and> nb + (7 - i) < 7 \<longleftrightarrow> i - nb \<noteq> 0 \<and> i - nb < 7"
        using i assms by auto
      then show ?thesis using False flag[of "i - nb"] i by (simp add: nth_append)
    qed
    finally show "msb_bits (ucast (push_bit (8 - nb) w OR drop_bit nb 0x7E) :: u8) ! i =
        (low_bits nb w @ take (8 - nb) flag_bits) ! i" .
  qed
qed

lemma tail_register:
  assumes "nb < 8"
  shows "low_bits nb (word_of_int (drop_bit (8 - nb) (idle_value nb))) = drop (8 - nb) flag_bits"
    "tail_ones (word_of_int (drop_bit (8 - nb) (idle_value nb))) 0"
  using less_8_cases[OF assms]
  by (auto simp: idle_value_def low_bits_def tail_ones_def flag_bits_def upt_rec)

lemma length_4: "length xs = 4 \<Longrightarrow> \<exists>w x y z. xs = [w, x, y, z]"
  by (auto simp: length_Suc_conv numeral_eq_Suc)

lemma crc_octets_value:
  assumes "cb = 2 \<or> cb = 4" "c = crc_value cb f XOR 0xFFFFFFFF"
  shows "take cb (if cb = 4 then [ucast c, ucast (drop_bit 8 c), ucast (drop_bit 16 c), ucast (drop_bit 24 c)]
      else [ucast c, ucast (drop_bit 8 c), y, z]) = crc_octets cb f"
proof -
  have ones: "(0xFFFFFFFF :: u32) = NOT 0" "(0xFFFF :: u16) = NOT 0" by simp_all
  have oct16: "ucast (ucast (v :: u16) XOR 0xFFFFFFFF :: u32) = (ucast (v XOR 0xFFFF) :: u8)"
      "ucast (drop_bit 8 (ucast v XOR 0xFFFFFFFF :: u32)) = (ucast (drop_bit 8 (v XOR 0xFFFF)) :: u8)" for v
    unfolding ones by (rule bit_word_eqI; simp add: ucast_octet_bit bit_simps)+
  have "[ucast c, ucast (drop_bit 8 c)] = crc16_bytes f" if "cb = 2"
    unfolding assms(2) crc_value_def crc16_bytes_def Let_def
    by (simp only: that if_True simp_thms oct16)
  moreover have "[ucast c, ucast (drop_bit 8 c), ucast (drop_bit 16 c), ucast (drop_bit 24 c)] = crc32_bytes f" if "cb = 4"
    unfolding assms(2) crc_value_def crc32_bytes_def Let_def using that by simp
  ultimately show ?thesis
    using assms(1) by (auto simp: crc_octets_def crc32_bytes_def Let_def simp del: drop_bit_xor)
qed

lemma crc_loaded:
  assumes "tx_ok cb s" "ht_crc s = crc_value cb f"
  obtains buf where "tx_load_crc s = Some (s\<lparr>ht_crc := ht_crc s XOR 0xFFFFFFFF, ht_buffer := buf, ht_pos := 400\<rparr>)"
    "length buf = 404" "take cb (drop 400 buf) = crc_octets cb f" "take 400 buf = take 400 (ht_buffer s)"
proof -
  define c where "c = ht_crc s XOR 0xFFFFFFFF"
  obtain a w x y z where buf: "ht_buffer s = a @ [w, x, y, z]" and a: "length a = 400"
  proof -
    have "length (drop 400 (ht_buffer s)) = 4" using assms(1) by (simp add: tx_ok_def)
    then obtain w x y z where "drop 400 (ht_buffer s) = [w, x, y, z]"
      using length_4 by metis
    moreover have "length (take 400 (ht_buffer s)) = 400" using assms(1) by (simp add: tx_ok_def)
    ultimately show ?thesis by (metis that append_take_drop_id)
  qed
  have cb: "cb = 2 \<or> cb = 4" "ht_crc_bytes s = cb" using assms(1) by (simp_all add: tx_ok_def)
  let ?t = "if cb = 4 then [ucast c, ucast (drop_bit 8 c), ucast (drop_bit 16 c), ucast (drop_bit 24 c)]
      else [ucast c, ucast (drop_bit 8 c), y, z]"
  note set = arr_set_4[OF a]
  have "tx_load_crc s = Some (s\<lparr>ht_crc := c, ht_buffer := a @ ?t, ht_pos := 400\<rparr>)"
  proof (cases "cb = 4")
    case True
    show ?thesis
      unfolding tx_load_crc_def Let_def HDLC_MAXFRAME_LEN_def buf c_def[symmetric] cb(2)
      by (simp only: set Option.bind.simps True if_True simp_thms)
  next
    case False
    show ?thesis
      unfolding tx_load_crc_def Let_def HDLC_MAXFRAME_LEN_def buf c_def[symmetric] cb(2)
      by (simp only: set Option.bind.simps False if_False simp_thms)
  qed
  moreover have "take cb ?t = crc_octets cb f"
    by (rule crc_octets_value[OF cb(1)]) (simp add: c_def assms(2))
  ultimately show ?thesis
    using that[of "a @ ?t", folded c_def] a buf by simp
qed

text \<open>The frame is complete: its last bits, the flag, and the state between frames.\<close>

lemma frame_end_step:
  assumes ok: "tx_ok cb s" and inside: "tx_inside s sent L (f @ crc_octets cb f)" and nb: "ht_num_bits s < 8"
    and log: "line_log cb k fs L" and N: "N \<le> int k" and short: "length f \<le> 400"
  shows "step_ok cb N s sent (fs @ [f]) (Some (tx_frame_end id s))"
proof -
  let ?nb = "ht_num_bits s"
  let ?v = "ucast (push_bit (8 - ?nb) (ht_octets_in_progress s) OR drop_bit ?nb 0x7E) :: u8"
  let ?s = "fst (tx_frame_end id s)"
  have s: "ht_num_bits ?s = ?nb" "ht_octets_in_progress ?s = word_of_int (drop_bit (8 - ?nb) (idle_value ?nb))"
    "ht_idle_octet ?s = idle_value ?nb" "ht_pos ?s = 0" "ht_len ?s = 0" "ht_crc ?s = crc_value cb []"
    "tx_ok cb ?s" "snd (tx_frame_end id s) = uint ?v"
    using ok by (simp_all add: tx_frame_end_def Let_def idle_value_def tx_ok_def crc_value_def)
  have gap: "tx_gap ?s"
    using s nb tail_register[OF nb] by (simp add: tx_gap_def)
  have "(sent @ msb_bits ?v) @ pending ?s = sent @ pending s @ flag_bits"
    using tail_register(1)[OF nb] by (simp add: s tail_flag_octet[OF nb])
  also have "\<dots> = L @ frame_bits cb f @ flag_bits"
    using inside by (simp add: tx_inside_def frame_bits_def)
  finally have "line_log cb k (fs @ [f]) ((sent @ msb_bits ?v) @ pending ?s)"
    using line_log_frame[OF log short] by simp
  then have "tx_inv cb N ?s (sent @ msb_bits ?v) (fs @ [f])"
    using s gap N by (intro tx_inv.gap) simp_all
  then show ?thesis unfolding step_ok_def using s(8) by (intro exI[of _ ?s] exI[of _ ?v]) (simp add: prod_eq_iff)
qed

lemma gap_step:
  assumes ok: "tx_ok cb s" and gap: "tx_gap s" and crc: "ht_crc s = crc_value cb (take (ht_len s) (ht_buffer s))"
    and log: "line_log cb k fs (sent @ pending s)" and N: "N \<le> int k + (if fs = [] then ht_flag_octets s else 0)"
    and acc: "acc = (if ht_len s = 0 then fs else fs @ [take (ht_len s) (ht_buffer s)])"
    and not_end: "ht_tx_end s \<longrightarrow> ht_flag_octets s > 0 \<or> ht_len s \<noteq> 0"
  shows "step_ok cb N s sent acc (hdlc_tx_get_byte id s)"
proof -
  consider (timed) "ht_flag_octets s > 0" | (idle) "ht_flag_octets s \<le> 0" "ht_len s = 0"
    | (frame) "ht_flag_octets s \<le> 0" "ht_len s \<noteq> 0" by linarith
  then show ?thesis
  proof cases
    case timed
    let ?s = "s\<lparr>ht_flag_octets := ht_flag_octets s - 1,
        ht_report_flag_underflow := ht_report_flag_underflow s \<and> \<not> ht_flag_octets s \<le> 1\<rparr>"
    have "hdlc_tx_get_byte id s = Some (tx_timed_flag id s)" using timed by (simp add: hdlc_tx_get_byte_def)
    also have "tx_timed_flag id s = (?s, ht_idle_octet s)"
      using ok unfolding tx_timed_flag_def tx_ok_def Let_def by (auto intro!: hdlc_tx.equality)
    finally have "hdlc_tx_get_byte id s = Some (?s, ht_idle_octet s)" .
    moreover have "N \<le> int k + (if fs = [] then 1 + (ht_flag_octets s - 1) else 0)" using N by (simp split: if_splits)
    ultimately show ?thesis using tx_inv_idle[OF ok gap crc log _ acc] by simp
  next
    case idle
    then have "hdlc_tx_get_byte id s =
        Some (s\<lparr>ht_flag_octets := ht_flag_octets s, ht_report_flag_underflow := ht_report_flag_underflow s\<rparr>, ht_idle_octet s)"
      using not_end by (auto simp: hdlc_tx_get_byte_def)
    moreover have N': "N \<le> int k + (if fs = [] then 1 + ht_flag_octets s else 0)" using N by (simp split: if_splits)
    ultimately show ?thesis
      using tx_inv_idle[OF ok gap crc log N' acc, where r = "ht_report_flag_underflow s"] by simp
  next
    case frame
    have p: "ht_pos s = 0" "ht_num_bits s < 8" using gap by (simp_all add: tx_gap_def)
    have inside: "tx_inside s sent (sent @ pending s) []"
      using gap frame by (simp add: tx_inside_def tx_gap_def)
    have pos: "ht_pos s < length (ht_buffer s)" using ok p by (simp add: tx_ok_def)
    obtain v :: u8 and w n where d: "tx_data_octet s =
        Some (s\<lparr>ht_pos := ht_pos s + 1, ht_octets_in_progress := w, ht_num_bits := n\<rparr>, uint v)"
      "tx_inside (s\<lparr>ht_pos := ht_pos s + 1, ht_octets_in_progress := w, ht_num_bits := n\<rparr>)
         (sent @ msb_bits v) (sent @ pending s) ([] @ [ht_buffer s ! ht_pos s])"
      using tx_inside_octet[OF inside p(2) pos] .
    let ?s = "s\<lparr>ht_pos := ht_pos s + 1, ht_octets_in_progress := w, ht_num_bits := n\<rparr>"
    have "take (ht_pos ?s) (ht_buffer ?s) = [] @ [ht_buffer s ! ht_pos s]"
      using p pos by (simp add: take_Suc_conv_app_nth)
    then have "tx_inside ?s (sent @ msb_bits v) (sent @ pending s) (take (ht_pos ?s) (ht_buffer ?s))"
      using d(2) by (simp only:)
    moreover have "N \<le> int k" using N frame by (auto split: if_splits)
    ultimately have "tx_inv cb N ?s (sent @ msb_bits v) acc"
      using ok crc log acc frame p
      by (intro tx_inv.data[where fs = fs and k = k and L = "sent @ pending s"]) (simp_all add: tx_ok_def)
    moreover have "hdlc_tx_get_byte id s = tx_data_octet s" using frame p by (simp add: hdlc_tx_get_byte_def)
    ultimately show ?thesis unfolding step_ok_def using d(1) by auto
  qed
qed

lemma data_step:
  assumes ok: "tx_ok cb s" and pos: "0 < ht_pos s" "ht_pos s \<le> ht_len s"
    and crc: "ht_crc s = crc_value cb (take (ht_len s) (ht_buffer s))"
    and inside: "tx_inside s sent L (take (ht_pos s) (ht_buffer s))"
    and log: "line_log cb k fs L" and N: "N \<le> int k" and acc: "acc = fs @ [take (ht_len s) (ht_buffer s)]"
  shows "step_ok cb N s sent acc (hdlc_tx_get_byte id s)"
proof -
  have mode: "\<not> ht_flag_octets s > 0" "ht_len s \<noteq> 0" using inside by (simp_all add: tx_inside_def)
  have len: "ht_len s \<le> 400" "length (ht_buffer s) = 404" using ok by (simp_all add: tx_ok_def)
  consider (extra) "8 \<le> ht_num_bits s" | (octet) "ht_num_bits s < 8" "ht_pos s < ht_len s"
    | (load) "ht_num_bits s < 8" "ht_pos s = ht_len s" using pos by linarith
  then show ?thesis
  proof cases
    case extra
    then obtain v :: u8 where v: "uint (drop_bit (ht_num_bits s - 8) (ht_octets_in_progress s) AND 0xFF) = uint v"
        "tx_inside (s\<lparr>ht_num_bits := ht_num_bits s - 8\<rparr>) (sent @ msb_bits v) L (take (ht_pos s) (ht_buffer s))"
      using tx_inside_extra[OF inside] by blast
    have "tx_inv cb N (s\<lparr>ht_num_bits := ht_num_bits s - 8\<rparr>) (sent @ msb_bits v) acc"
      using ok pos crc v(2) log N acc by (intro tx_inv.data) (simp_all add: tx_ok_def)
    then show ?thesis
      unfolding step_ok_def using extra mode v(1) by (auto simp: hdlc_tx_get_byte_def Let_def)
  next
    case octet
    have p: "ht_pos s < length (ht_buffer s)" using octet len by simp
    obtain v :: u8 and w n where d: "tx_data_octet s =
        Some (s\<lparr>ht_pos := ht_pos s + 1, ht_octets_in_progress := w, ht_num_bits := n\<rparr>, uint v)"
      "tx_inside (s\<lparr>ht_pos := ht_pos s + 1, ht_octets_in_progress := w, ht_num_bits := n\<rparr>)
         (sent @ msb_bits v) L (take (ht_pos s) (ht_buffer s) @ [ht_buffer s ! ht_pos s])"
      using tx_inside_octet[OF inside octet(1) p] .
    let ?s = "s\<lparr>ht_pos := ht_pos s + 1, ht_octets_in_progress := w, ht_num_bits := n\<rparr>"
    have "tx_inside ?s (sent @ msb_bits v) L (take (ht_pos ?s) (ht_buffer ?s))"
      using d(2) p by (simp add: take_Suc_conv_app_nth)
    then have "tx_inv cb N ?s (sent @ msb_bits v) acc"
      using ok crc log N acc octet by (intro tx_inv.data) (simp_all add: tx_ok_def)
    moreover have "hdlc_tx_get_byte id s = tx_data_octet s" using mode octet by (simp add: hdlc_tx_get_byte_def)
    ultimately show ?thesis unfolding step_ok_def using d(1) by auto
  next
    case load
    let ?f = "take (ht_len s) (ht_buffer s)"
    obtain buf where l: "tx_load_crc s = Some (s\<lparr>ht_crc := ht_crc s XOR 0xFFFFFFFF, ht_buffer := buf, ht_pos := 400\<rparr>)"
      "length buf = 404" "take cb (drop 400 buf) = crc_octets cb ?f" "take 400 buf = take 400 (ht_buffer s)"
      using crc_loaded[OF ok crc] .
    let ?t = "s\<lparr>ht_crc := ht_crc s XOR 0xFFFFFFFF, ht_buffer := buf, ht_pos := 400\<rparr>"
    have inside': "tx_inside ?t sent L ?f" using inside load by (simp add: tx_inside_def)
    have nb: "ht_num_bits ?t < 8" and p: "ht_pos ?t < length (ht_buffer ?t)" using load l(2) by simp_all
    obtain v :: u8 and w n where d: "tx_data_octet ?t =
        Some (?t\<lparr>ht_pos := ht_pos ?t + 1, ht_octets_in_progress := w, ht_num_bits := n\<rparr>, uint v)"
      "tx_inside (?t\<lparr>ht_pos := ht_pos ?t + 1, ht_octets_in_progress := w, ht_num_bits := n\<rparr>)
         (sent @ msb_bits v) L (?f @ [ht_buffer ?t ! ht_pos ?t])"
      using tx_inside_octet[OF inside' nb p] .
    let ?s = "?t\<lparr>ht_pos := ht_pos ?t + 1, ht_octets_in_progress := w, ht_num_bits := n\<rparr>"
    have cb: "0 < cb" "cb \<le> 4" using ok by (auto simp: tx_ok_def)
    have "buf ! 400 = crc_octets cb ?f ! 0" using arg_cong[OF l(3), of "\<lambda>xs. xs ! 0"] cb l(2) by simp
    moreover have "length (crc_octets cb ?f) = cb" using ok by (intro length_crc_octets) (simp add: tx_ok_def)
    ultimately have "[buf ! 400] = take (ht_pos ?s - 400) (crc_octets cb ?f)"
      using cb by (simp add: take_Suc_conv_app_nth)
    then have "tx_inside ?s (sent @ msb_bits v) L (?f @ take (ht_pos ?s - 400) (crc_octets cb ?f))"
      using d(2) by simp
    then have "tx_inv cb N ?s (sent @ msb_bits v) acc"
      using ok l(2,3) log N acc cb len by (intro tx_inv.crc[where f = ?f]) (simp_all add: tx_ok_def)
    moreover have "hdlc_tx_get_byte id s = tx_data_octet ?t"
      using mode load l(1) by (simp add: hdlc_tx_get_byte_def)
    ultimately show ?thesis unfolding step_ok_def using d(1) by auto
  qed
qed

lemma crc_step:
  assumes ok: "tx_ok cb s" and pos: "400 < ht_pos s" "ht_pos s \<le> 400 + cb"
    and buf: "take cb (drop 400 (ht_buffer s)) = crc_octets cb f"
    and inside: "tx_inside s sent L (f @ take (ht_pos s - 400) (crc_octets cb f))"
    and log: "line_log cb k fs L" and N: "N \<le> int k" and short: "length f \<le> 400"
  shows "step_ok cb N s sent (fs @ [f]) (hdlc_tx_get_byte id s)"
proof -
  have mode: "\<not> ht_flag_octets s > 0" "ht_len s \<noteq> 0" using inside by (simp_all add: tx_inside_def)
  have len: "ht_len s < ht_pos s" "length (ht_buffer s) = 404" "ht_crc_bytes s = cb" "cb = 2 \<or> cb = 4"
    using ok pos by (simp_all add: tx_ok_def)
  have lc: "length (crc_octets cb f) = cb" using len(4) by (rule length_crc_octets)
  consider (extra) "8 \<le> ht_num_bits s" | (octet) "ht_num_bits s < 8" "ht_pos s < 400 + cb"
    | (fend) "ht_num_bits s < 8" "ht_pos s = 400 + cb" using pos by linarith
  then show ?thesis
  proof cases
    case extra
    then obtain v :: u8 where v: "uint (drop_bit (ht_num_bits s - 8) (ht_octets_in_progress s) AND 0xFF) = uint v"
        "tx_inside (s\<lparr>ht_num_bits := ht_num_bits s - 8\<rparr>) (sent @ msb_bits v) L (f @ take (ht_pos s - 400) (crc_octets cb f))"
      using tx_inside_extra[OF inside] by blast
    have "tx_inv cb N (s\<lparr>ht_num_bits := ht_num_bits s - 8\<rparr>) (sent @ msb_bits v) (fs @ [f])"
      using ok pos buf v(2) log N short by (intro tx_inv.crc) (simp_all add: tx_ok_def)
    then show ?thesis
      unfolding step_ok_def using extra mode v(1) by (auto simp: hdlc_tx_get_byte_def Let_def)
  next
    case octet
    have p: "ht_pos s < length (ht_buffer s)" using octet len by auto
    obtain v :: u8 and w n where d: "tx_data_octet s =
        Some (s\<lparr>ht_pos := ht_pos s + 1, ht_octets_in_progress := w, ht_num_bits := n\<rparr>, uint v)"
      "tx_inside (s\<lparr>ht_pos := ht_pos s + 1, ht_octets_in_progress := w, ht_num_bits := n\<rparr>) (sent @ msb_bits v) L
         ((f @ take (ht_pos s - 400) (crc_octets cb f)) @ [ht_buffer s ! ht_pos s])"
      using tx_inside_octet[OF inside octet(1) p] .
    let ?s = "s\<lparr>ht_pos := ht_pos s + 1, ht_octets_in_progress := w, ht_num_bits := n\<rparr>"
    let ?i = "ht_pos s - 400"
    have i: "?i < cb" "400 + ?i = ht_pos s" using octet pos by simp_all
    then have "ht_buffer s ! ht_pos s = crc_octets cb f ! ?i"
      using arg_cong[OF buf, of "\<lambda>xs. xs ! ?i"] len by simp
    then have "take (ht_pos ?s - 400) (crc_octets cb f) = take ?i (crc_octets cb f) @ [ht_buffer s ! ht_pos s]"
      using i lc take_Suc_conv_app_nth[of ?i "crc_octets cb f"] Suc_diff_le[of 400 "ht_pos s"] pos by simp
    then have "tx_inside ?s (sent @ msb_bits v) L (f @ take (ht_pos ?s - 400) (crc_octets cb f))"
      using d(2) by simp
    then have "tx_inv cb N ?s (sent @ msb_bits v) (fs @ [f])"
      using ok pos octet buf log N short by (intro tx_inv.crc[where f = f]) (simp_all add: tx_ok_def)
    moreover have "hdlc_tx_get_byte id s = tx_data_octet s"
      using mode octet len by (auto simp: hdlc_tx_get_byte_def HDLC_MAXFRAME_LEN_def)
    ultimately show ?thesis unfolding step_ok_def using d(1) by auto
  next
    case fend
    have "hdlc_tx_get_byte id s = Some (tx_frame_end id s)"
      using mode fend len by (simp add: hdlc_tx_get_byte_def HDLC_MAXFRAME_LEN_def)
    moreover have "tx_inside s sent L (f @ crc_octets cb f)" using inside fend lc by simp
    ultimately show ?thesis using frame_end_step[OF ok _ fend(1) log N short] by simp
  qed
qed

end
