(* ===== verification/Hdlc_Link.thy ===== *)
theory Hdlc_Link
  imports Hdlc_Tx_Line
begin

text \<open>
  The two ends together: frames loaded at any time, octets fetched in any portions, and the
  receiver fed with them delivers exactly the accepted frames, in order.
\<close>

section \<open>The transmitter's operations keep the line\<close>

lemma get_byte_step:
  assumes inv: "tx_inv cb N s sent acc" and go: "ht_tx_end s \<longrightarrow> ht_flag_octets s > 0 \<or> ht_len s \<noteq> 0"
  shows "step_ok cb N s sent acc (hdlc_tx_get_byte id s)"
  using inv
proof cases
  case (gap k fs)
  then show ?thesis using gap_step[OF _ _ _ _ _ _ go] by blast
next
  case (data L k fs)
  then show ?thesis by (rule data_step)
next
  case (crc f L k fs)
  then show ?thesis using crc_step by blast
qed

lemma get_byte_end:
  assumes inv: "tx_inv cb N s sent acc" and stop: "ht_tx_end s" "\<not> ht_flag_octets s > 0" "ht_len s = 0"
  shows "hdlc_tx_get_byte id s = Some (s\<lparr>ht_tx_end := False\<rparr>, SIG_STATUS_END_OF_DATA)"
    "tx_inv cb N (s\<lparr>ht_tx_end := False\<rparr>) sent acc"
proof -
  show "hdlc_tx_get_byte id s = Some (s\<lparr>ht_tx_end := False\<rparr>, SIG_STATUS_END_OF_DATA)"
    using stop by (simp add: hdlc_tx_get_byte_def)
  from inv show "tx_inv cb N (s\<lparr>ht_tx_end := False\<rparr>) sent acc"
  proof cases
    case (gap k fs)
    then show ?thesis
      by (intro tx_inv.gap[where k = k and fs = fs]) (auto simp: tx_ok_def tx_gap_def split: if_splits)
  qed (use stop in \<open>simp_all add: tx_inside_def\<close>)
qed

lemma get_octets:
  "tx_inv cb N s sent acc \<Longrightarrow> \<exists>s' out. hdlc_tx_get id s n = Some (s', out) \<and>
     tx_inv cb N s' (sent @ stream_bits out) acc"
proof (induction n arbitrary: s sent)
  case (Suc n)
  show ?case
  proof (cases "ht_tx_end s \<longrightarrow> ht_flag_octets s > 0 \<or> ht_len s \<noteq> 0")
    case True
    from get_byte_step[OF Suc.prems this] obtain s1 and v :: u8 where
      1: "hdlc_tx_get_byte id s = Some (s1, uint v)" "tx_inv cb N s1 (sent @ msb_bits v) acc"
      by (auto simp: step_ok_def)
    from Suc.IH[OF 1(2)] obtain s2 out where
      2: "hdlc_tx_get id s1 n = Some (s2, out)" "tx_inv cb N s2 ((sent @ msb_bits v) @ stream_bits out) acc" by blast
    have "uint v \<noteq> SIG_STATUS_END_OF_DATA"
      using uint_ge_0[of v] unfolding SIG_STATUS_END_OF_DATA_def by linarith
    then have "hdlc_tx_get id s (Suc n) = Some (s2, v # out)" using 1(1) 2(1) by simp
    moreover have "tx_inv cb N s2 (sent @ stream_bits (v # out)) acc" using 2(2) by simp
    ultimately show ?thesis by blast
  next
    case False
    then have stop: "ht_tx_end s" "\<not> ht_flag_octets s > 0" "ht_len s = 0" by simp_all
    let ?s = "s\<lparr>ht_tx_end := False\<rparr>"
    have "hdlc_tx_get id s (Suc n) = Some (?s, [])"
      using get_byte_end(1)[OF Suc.prems stop] by simp
    moreover have "tx_inv cb N ?s (sent @ stream_bits []) acc" using get_byte_end(2)[OF Suc.prems stop] by simp
    ultimately show ?thesis by blast
  qed
qed auto

text \<open>What a call of \<open>hdlc_tx_frame\<close> adds to the frames on their way.\<close>

definition accepted :: "hdlc_tx \<Rightarrow> octets \<Rightarrow> int \<Rightarrow> octets list \<Rightarrow> octets list" where
  "accepted s frame r acc =
     (if r = 0 \<and> frame \<noteq> [] then (if ht_len s = 0 then acc @ [frame] else butlast acc @ [last acc @ frame]) else acc)"

lemma crc_value_append:
  "(if cb = 2 then ucast (crc_itu16_calc f (ucast (crc_value cb g))) else crc_itu32_calc f (crc_value cb g))
     = crc_value cb (g @ f)"
proof -
  have "ucast (ucast v :: u32) = v" for v :: u16
    by (rule bit_word_eqI) (auto simp: bit_simps possible_bit_word)
  then show ?thesis by (simp add: crc_value_def crc_itu16_calc_append crc_itu32_calc_append)
qed

lemma frame_loaded:
  assumes inv: "tx_inv cb N s sent acc"
  shows "\<exists>s' r. hdlc_tx_frame s f = Some (s', r) \<and> tx_inv cb N s' sent (accepted s f r acc)"
proof -
  have ok: "tx_ok cb s" using inv by cases
  have same: "tx_inv cb N (s\<lparr>ht_tx_end := e\<rparr>) sent acc" for e
    using inv
  proof cases
    case (gap k fs)
    then show ?thesis
      by (intro tx_inv.gap[where k = k and fs = fs]) (auto simp: tx_ok_def tx_gap_def split: if_splits)
  next
    case (data L k fs)
    then show ?thesis by (intro tx_inv.data[where L = L and k = k and fs = fs]) (simp_all add: tx_ok_def tx_inside_def)
  next
    case (crc f L k fs)
    then show ?thesis by (intro tx_inv.crc[where f = f and L = L and k = k and fs = fs]) (simp_all add: tx_ok_def tx_inside_def)
  qed
  consider (empty) "f = []" | (refused) "f \<noteq> []" "ht_len s + length f > ht_max_frame_len s \<or>
        ht_progressive s \<and> 400 \<le> ht_pos s \<or> \<not> ht_progressive s \<and> ht_len s \<noteq> 0"
    | (loaded) "f \<noteq> []" "ht_len s + length f \<le> ht_max_frame_len s"
        "\<not> (ht_progressive s \<and> 400 \<le> ht_pos s)" "\<not> (\<not> ht_progressive s \<and> ht_len s \<noteq> 0)"
    by (meson not_less)
  then show ?thesis
  proof cases
    case empty
    then show ?thesis using same[of True] by (auto simp: hdlc_tx_frame_def accepted_def)
  next
    case refused
    then have "hdlc_tx_frame s f = Some (s, -1)" by (auto simp: hdlc_tx_frame_def HDLC_MAXFRAME_LEN_def Let_def)
    then show ?thesis using inv by (auto simp: accepted_def)
  next
    case loaded
    let ?l = "ht_len s" and ?b = "ht_buffer s"
    let ?buf = "take ?l ?b @ f @ drop (?l + length f) ?b"
    let ?s = "s\<lparr>ht_buffer := ?buf, ht_crc := crc_value cb (take ?l ?b @ f), ht_len := ?l + length f, ht_tx_end := False\<rparr>"
    have len: "?l + length f \<le> 400" "length ?b = 404" "ht_crc_bytes s = cb" using ok loaded by (auto simp: tx_ok_def)
    have body: "take (?l + length f) ?buf = take ?l ?b @ f" using len by simp
    have front: "take p ?buf = take p ?b" if "p \<le> ?l" for p using that len by (simp add: min_def)
    have ok': "tx_ok cb ?s" using ok len by (auto simp: tx_ok_def)
    have pos: "ht_pos s < 400 \<or> ht_len s = 0" using loaded(3,4) by auto
    have upd: "hdlc_tx_frame s f = Some (?s, 0)" if "ht_crc s = crc_value cb (take ?l ?b)"
    proof -
      have "(if ht_crc_bytes s = 2 then ucast (crc_itu16_calc f (ucast (ht_crc s))) else crc_itu32_calc f (ht_crc s))
          = crc_value cb (take ?l ?b @ f)"
        unfolding that len(3) by (rule crc_value_append)
      moreover have "length f \<noteq> 0" "\<not> ht_max_frame_len s < ?l + length f" "?l + length f \<le> length ?b"
        using loaded len by simp_all
      ultimately show ?thesis
        using loaded(3,4) unfolding hdlc_tx_frame_def HDLC_MAXFRAME_LEN_def Let_def by auto
    qed
    from inv show ?thesis
    proof cases
      case (gap k fs)
      have "tx_inv cb N ?s sent (accepted s f 0 acc)"
        using gap ok' body loaded(1)
        by (intro tx_inv.gap[where k = k and fs = fs]) (auto simp: tx_gap_def accepted_def)
      then show ?thesis using upd gap by blast
    next
      case (data L k fs)
      have "tx_inside ?s sent L (take (ht_pos ?s) (ht_buffer ?s))"
      proof -
        have "take (ht_pos ?s) (ht_buffer ?s) = take (ht_pos s) (ht_buffer s)" using front[of "ht_pos s"] data by simp
        then show ?thesis using data by (simp only: tx_inside_def) simp
      qed
      then have "tx_inv cb N ?s sent (accepted s f 0 acc)"
        using data ok' body loaded(1)
        by (intro tx_inv.data[where L = L and k = k and fs = fs]) (auto simp: accepted_def)
      then show ?thesis using upd data by blast
    next
      case (crc f L k fs)
      then show ?thesis using pos by (simp add: tx_inside_def)
    qed
  qed
qed

section \<open>Sessions\<close>

text \<open>
  A client of the transmitter: for each request it offers a frame and then fetches some
  octets; \<open>acc\<close> are the frames accepted so far (in progressive mode a further part extends
  the last one).
\<close>

fun tx_session :: "hdlc_tx \<Rightarrow> octets list \<Rightarrow> (octets \<times> nat) list \<Rightarrow> (hdlc_tx \<times> octets \<times> octets list) option" where
  "tx_session s acc [] = Some (s, [], acc)"
| "tx_session s acc ((f, n) # reqs) =
     do {
       (s1, r) \<leftarrow> hdlc_tx_frame s f;
       (s2, out) \<leftarrow> hdlc_tx_get id s1 n;
       (s3, out', acc') \<leftarrow> tx_session s2 (accepted s f r acc) reqs;
       Some (s3, out @ out', acc')
     }"

lemma session_inv:
  "tx_inv cb N s sent acc \<Longrightarrow> \<exists>s' out acc'. tx_session s acc reqs = Some (s', out, acc') \<and>
     tx_inv cb N s' (sent @ stream_bits out) acc'"
proof (induction reqs arbitrary: s sent acc)
  case (Cons p reqs)
  obtain f n where p: "p = (f, n)" by (cases p)
  obtain s1 r where 1: "hdlc_tx_frame s f = Some (s1, r)" "tx_inv cb N s1 sent (accepted s f r acc)"
    using frame_loaded[OF Cons.prems] by blast
  obtain s2 out where 2: "hdlc_tx_get id s1 n = Some (s2, out)"
      "tx_inv cb N s2 (sent @ stream_bits out) (accepted s f r acc)"
    using get_octets[OF 1(2)] by blast
  obtain s3 out' acc' where 3: "tx_session s2 (accepted s f r acc) reqs = Some (s3, out', acc')"
      "tx_inv cb N s3 ((sent @ stream_bits out) @ stream_bits out') acc'"
    using Cons.IH[OF 2(2)] by blast
  have "tx_session s acc (p # reqs) = Some (s3, out @ out', acc')"
    using 1(1) 2(1) 3(1) by (simp add: p)
  moreover have "tx_inv cb N s3 (sent @ stream_bits (out @ out')) acc'" using 3(2) by simp
  ultimately show ?case by blast
qed auto

text \<open>A transmitter that starts with \<open>N\<close> flags.\<close>

definition hdlc_tx_start :: "bool \<Rightarrow> int \<Rightarrow> bool \<Rightarrow> int \<Rightarrow> hdlc_tx" where
  "hdlc_tx_start crc32 gap_flags progressive N = fst (hdlc_tx_flags (hdlc_tx_init crc32 gap_flags progressive) N)"

lemma start_inv:
  assumes "0 \<le> N"
  shows "tx_inv (if crc32 then 4 else 2) N (hdlc_tx_start crc32 gap_flags prog N) [] []"
proof (rule tx_inv.gap[where k = 0 and fs = "[]"])
  let ?s = "hdlc_tx_start crc32 gap_flags prog N"
  have s: "ht_num_bits ?s = 0" "ht_octets_in_progress ?s = 0" "ht_len ?s = 0" "ht_flag_octets ?s = N"
    using assms by (simp_all add: hdlc_tx_start_def hdlc_tx_flags_def hdlc_tx_init_def)
  then have pend: "pending ?s = []" by (simp add: low_bits_def)
  show "tx_ok (if crc32 then 4 else 2) ?s" "ht_crc ?s = crc_value (if crc32 then 4 else 2) (take (ht_len ?s) (ht_buffer ?s))"
    by (simp_all add: hdlc_tx_start_def hdlc_tx_flags_def hdlc_tx_init_def tx_ok_def crc_value_def HDLC_MAXFRAME_LEN_def)
  show "tx_gap ?s"
    unfolding tx_gap_def pend
    by (simp add: hdlc_tx_start_def hdlc_tx_flags_def hdlc_tx_init_def idle_value_def tail_ones_def flag_bits_def)
  show "line_log (if crc32 then 4 else 2) 0 [] ([] @ pending ?s)" unfolding pend by (simp add: line_log_start)
  show "N \<le> int 0 + (if [] = [] then ht_flag_octets ?s else 0)" by (simp add: s)
  show "[] = (if ht_len ?s = 0 then [] else [] @ [take (ht_len ?s) (ht_buffer ?s)])" by (simp add: s)
qed

text \<open>Once nothing is left to send, one more octet brings the last flag to its end.\<close>

lemma idle_line:
  assumes inv: "tx_inv cb N s (stream_bits out) acc" and idle: "ht_len s = 0" "ht_flag_octets s \<le> 0" "\<not> ht_tx_end s"
  obtains v k frames j where "hdlc_tx_get id s 1 = Some (s, [v])"
    "stream_bits (out @ [v]) = flags k @ line_bits cb frames @ take j flag_bits" "map fst frames = acc"
    "N \<le> int k" "\<forall>f \<in> set acc. length f \<le> 400"
  using inv
proof cases
  case (gap k fs)
  let ?nb = "ht_num_bits s"
  obtain v :: u8 where v: "ht_idle_octet s = uint v" "msb_bits v = drop (8 - ?nb) flag_bits @ take (8 - ?nb) flag_bits"
    using idle_value_bits[of ?nb] gap(2) by (auto simp: tx_gap_def)
  have "hdlc_tx_get_byte id s = Some (s, uint v)" using idle v(1) by (simp add: hdlc_tx_get_byte_def)
  moreover have "uint v \<noteq> SIG_STATUS_END_OF_DATA"
    using uint_ge_0[of v] unfolding SIG_STATUS_END_OF_DATA_def by linarith
  ultimately have get: "hdlc_tx_get id s 1 = Some (s, [v])" by simp
  obtain frames where f: "stream_bits out @ pending s = flags k @ line_bits cb frames" "map fst frames = fs"
      "\<forall>f \<in> set fs. length f \<le> 400"
    using gap(4) by (auto simp: line_log_def)
  have "pending s = drop (8 - ?nb) flag_bits" using gap(2) by (simp add: tx_gap_def)
  then have "stream_bits (out @ [v]) = (stream_bits out @ pending s) @ take (8 - ?nb) flag_bits"
    using v(2) by simp
  then have "stream_bits (out @ [v]) = flags k @ line_bits cb frames @ take (8 - ?nb) flag_bits"
    unfolding f(1) by simp
  moreover have "acc = fs" "N \<le> int k" using gap(5,6) idle by (auto split: if_splits)
  ultimately show ?thesis using that[OF get _ f(2)[folded \<open>acc = fs\<close>]] f(3) by blast
qed (use idle in \<open>simp_all add: tx_inside_def\<close>)

text \<open>
  Property C9. Frames offered to the HDLC transmitter at any times, whole or in
  progressive parts, its octets fetched in any portions behind at least as many flags as
  the receiver wants to see: once the transmitter is idle, the receiver fed with these
  octets has announced framing once and delivered exactly the accepted frames, whole, in
  order and as good.
\<close>

theorem hdlc_link_delivers:
  assumes "1 \<le> N" "threshold \<le> N"
    and run: "tx_session (hdlc_tx_start crc32 gap_flags progressive N) [] reqs = Some (s, out, acc)"
    and idle: "ht_len s = 0" "ht_flag_octets s \<le> 0" "\<not> ht_tx_end s"
  shows "\<exists>v r. hdlc_tx_get id s 1 = Some (s, [v]) \<and>
     hdlc_rx_put (hdlc_rx_set_status_handler (hdlc_rx_init crc32 bad threshold True) sh) (out @ [v])
       = Some (r, framing_ok_event sh # map good_frame acc) \<and> hr_rx_frames r = length acc"
proof -
  have "tx_inv (if crc32 then 4 else 2) N (hdlc_tx_start crc32 gap_flags progressive N) [] []"
    using assms(1) by (intro start_inv) simp
  from session_inv[OF this, of reqs] run
  have inv: "tx_inv (if crc32 then 4 else 2) N s (stream_bits out) acc" by auto
  obtain v k frames j where l: "hdlc_tx_get id s 1 = Some (s, [v])"
    "stream_bits (out @ [v]) = flags k @ line_bits (if crc32 then 4 else 2) frames @ take j flag_bits"
    "map fst frames = acc" "N \<le> int k" "\<forall>f \<in> set acc. length f \<le> 400"
    using idle_line[OF inv idle] .
  have "max 1 threshold \<le> int k" using assms(1,2) l(4) by simp
  moreover have "\<forall>(f, m) \<in> set frames. length f \<le> 400" using l(3,5) by force
  ultimately obtain r where
    "hdlc_rx_put (hdlc_rx_set_status_handler (hdlc_rx_init crc32 bad threshold True) sh) (out @ [v])
      = Some (r, framing_ok_event sh # map (good_frame \<circ> fst) frames)" "hr_rx_frames r = length frames"
    using line_received[OF l(2), of threshold bad sh] by blast
  then show ?thesis using l(1,3) by (intro exI[of _ v] exI[of _ r]) auto
qed

lemma sample_session:
  "case tx_session (hdlc_tx_start False 1 False 2) [] [([0xFF], 9)] of
     Some (s, out, acc) \<Rightarrow> ht_len s = 0 \<and> ht_flag_octets s \<le> 0 \<and> \<not> ht_tx_end s \<and> acc = [[0xFF]]
   | None \<Rightarrow> False"
  by code_simp

theorem hdlc_link_delivers_witness:
  "\<exists>s out v r. tx_session (hdlc_tx_start False 1 False 2) [] [([0xFF], 9)] = Some (s, out, [[0xFF]]) \<and>
     hdlc_rx_put (hdlc_rx_set_status_handler (hdlc_rx_init False False 2 True) False) (out @ [v])
       = Some (r, [framing_ok_event False, good_frame [0xFF]])"
proof -
  obtain s out where run: "tx_session (hdlc_tx_start False 1 False 2) [] [([0xFF], 9)] = Some (s, out, [[0xFF]])"
    and idle: "ht_len s = 0" "ht_flag_octets s \<le> 0" "\<not> ht_tx_end s"
    using sample_session by (auto split: option.splits)
  have "1 \<le> (2 :: int)" "(2 :: int) \<le> 2" by simp_all
  from hdlc_link_delivers[OF this run idle, of False False] run show ?thesis by auto
qed

end
