(* ===== verification/Non_Ecm.thy ===== *)
theory Non_Ecm
  imports Hdlc_Tx
begin

text \<open>
  The rate-adapting buffer for image data without error correction
  (\<^verbatim>\<open>spandsp/src/t38_non_ecm_buffer.c\<close>): octets come in from T.38 packets at any rate,
  the modem takes bits at its own rate, and where none are due the buffer inserts fill.
  The counters are unbounded integers, which 32-bit ones are for far longer than a page;
  the indices of the ring are checked at every access.
\<close>

abbreviation (input) T38_NON_ECM_TX_BUF_LEN :: int where "T38_NON_ECM_TX_BUF_LEN \<equiv> 16384"

datatype ne_phase =
    TCF_AT_INITIAL_ALL_ONES
  | TCF_AT_ALL_ZEROS
  | IMAGE_WAITING_FOR_FIRST_EOL
  | IMAGE_IN_PROGRESS

record t38_non_ecm_buffer_state =
  ne_min_bits_per_row :: int
  ne_data :: octets
  ne_in_ptr :: int
  ne_out_ptr :: int
  ne_latest_eol_ptr :: int
  ne_row_bits :: int
  ne_bit_stream :: u32
  ne_flow_control_fill_octet :: u8
  ne_input_phase :: ne_phase
  ne_data_finished :: bool
  ne_octet :: u32
  ne_bit_no :: int
  ne_image_data_mode :: int
  ne_in_octets :: int
  ne_in_rows :: int
  ne_min_row_bits_fill_octets :: int
  ne_out_octets :: int
  ne_out_rows :: int
  ne_flow_control_fill_octets :: int

section \<open>The highest set bit\<close>

text \<open>\<open>top_bit\<close> of \<^verbatim>\<open>bit_operations.h\<close> in its portable form.\<close>

definition top_bit_step :: "u32 \<Rightarrow> int \<Rightarrow> u32 \<times> int \<Rightarrow> u32 \<times> int" where
  "top_bit_step m w = (\<lambda>(bits, res). if bits AND m \<noteq> 0 then (bits AND m, res + w) else (bits, res))"

definition top_bit :: "u32 \<Rightarrow> int" where
  "top_bit bits =
     (if bits = 0 then -1
      else snd (top_bit_step 0xAAAAAAAA 1 (top_bit_step 0xCCCCCCCC 2
             (top_bit_step 0xF0F0F0F0 4 (top_bit_step 0xFF00FF00 8
             (top_bit_step 0xFFFF0000 16 (bits, 0)))))))"

section \<open>Set-up\<close>

definition restart_buffer :: "t38_non_ecm_buffer_state \<Rightarrow> t38_non_ecm_buffer_state" where
  "restart_buffer s =
     s\<lparr>ne_octet := 0xFF, ne_flow_control_fill_octet := 0xFF,
       ne_input_phase := (if ne_image_data_mode s \<noteq> 0 then IMAGE_WAITING_FOR_FIRST_EOL
                          else TCF_AT_INITIAL_ALL_ONES),
       ne_bit_stream := 0xFFFF, ne_out_ptr := 0, ne_in_ptr := 0, ne_latest_eol_ptr := 0,
       ne_data_finished := False\<rparr>"

definition ne_blank :: octets where
  "ne_blank = replicate 16384 0"

text \<open>\<open>None\<close> is \<open>NULL\<close>: no state is passed and none can be allocated.\<close>

definition t38_non_ecm_buffer_init :: "bool \<Rightarrow> bool \<Rightarrow> int \<Rightarrow> int \<Rightarrow> t38_non_ecm_buffer_state option" where
  "t38_non_ecm_buffer_init have_s malloc_ok mode min_bits_per_row =
     (if \<not> have_s \<and> \<not> malloc_ok then None
      else Some (restart_buffer
        \<lparr>ne_min_bits_per_row = min_bits_per_row, ne_data = ne_blank, ne_in_ptr = 0, ne_out_ptr = 0,
         ne_latest_eol_ptr = 0, ne_row_bits = 0, ne_bit_stream = 0, ne_flow_control_fill_octet = 0,
         ne_input_phase = TCF_AT_INITIAL_ALL_ONES, ne_data_finished = False, ne_octet = 0, ne_bit_no = 0,
         ne_image_data_mode = mode, ne_in_octets = 0, ne_in_rows = 0, ne_min_row_bits_fill_octets = 0,
         ne_out_octets = 0, ne_out_rows = 0, ne_flow_control_fill_octets = 0\<rparr>))"

definition t38_non_ecm_buffer_set_mode ::
    "t38_non_ecm_buffer_state \<Rightarrow> int \<Rightarrow> int \<Rightarrow> t38_non_ecm_buffer_state" where
  "t38_non_ecm_buffer_set_mode s mode min_bits_per_row =
     s\<lparr>ne_image_data_mode := mode, ne_min_bits_per_row := min_bits_per_row\<rparr>"

text \<open>The two reports are logged and cleared; the result is what is logged, if anything.\<close>

definition t38_non_ecm_buffer_report_input_status ::
    "t38_non_ecm_buffer_state \<Rightarrow> t38_non_ecm_buffer_state \<times> (int \<times> int \<times> int) option" where
  "t38_non_ecm_buffer_report_input_status s =
     (if ne_in_octets s \<noteq> 0 \<or> ne_min_row_bits_fill_octets s \<noteq> 0 then
        (s\<lparr>ne_in_octets := 0, ne_in_rows := 0, ne_min_row_bits_fill_octets := 0\<rparr>,
         Some (ne_in_octets s, ne_min_row_bits_fill_octets s, ne_in_rows s))
      else (s, None))"

definition t38_non_ecm_buffer_report_output_status ::
    "t38_non_ecm_buffer_state \<Rightarrow> t38_non_ecm_buffer_state \<times> (int \<times> int \<times> int) option" where
  "t38_non_ecm_buffer_report_output_status s =
     (if ne_out_octets s \<noteq> 0 \<or> ne_flow_control_fill_octets s \<noteq> 0 then
        (s\<lparr>ne_out_octets := 0, ne_out_rows := 0, ne_flow_control_fill_octets := 0\<rparr>,
         Some (ne_out_octets s - ne_flow_control_fill_octets s, ne_flow_control_fill_octets s, ne_out_rows s))
      else (s, None))"

section \<open>Output\<close>

definition ne_next_octet :: "t38_non_ecm_buffer_state \<Rightarrow> t38_non_ecm_buffer_state option" where
  "ne_next_octet s =
     map_option (\<lambda>s. s\<lparr>ne_out_octets := ne_out_octets s + 1, ne_bit_no := 8\<rparr>)
       (if ne_out_ptr s \<noteq> ne_latest_eol_ptr s then
          do {
            b \<leftarrow> arr_get (ne_data s) (ne_out_ptr s);
            Some (s\<lparr>ne_octet := ucast b, ne_out_ptr := (ne_out_ptr s + 1) AND (T38_NON_ECM_TX_BUF_LEN - 1)\<rparr>)
          }
        else
          Some (s\<lparr>ne_octet := ucast (ne_flow_control_fill_octet s),
                 ne_flow_control_fill_octets := ne_flow_control_fill_octets s + 1\<rparr>))"

definition t38_non_ecm_buffer_get_bit ::
    "t38_non_ecm_buffer_state \<Rightarrow> (t38_non_ecm_buffer_state \<times> int) option" where
  "t38_non_ecm_buffer_get_bit s =
     (if ne_bit_no s \<le> 0 \<and> ne_out_ptr s = ne_latest_eol_ptr s \<and> ne_data_finished s then
        Some (restart_buffer s, SIG_STATUS_END_OF_DATA)
      else
        do {
          s \<leftarrow> (if ne_bit_no s \<le> 0 then ne_next_octet s else Some s);
          Some (s\<lparr>ne_bit_no := ne_bit_no s - 1, ne_octet := push_bit 1 (ne_octet s)\<rparr>,
                uint (drop_bit 7 (ne_octet s) AND 1))
        })"

definition t38_non_ecm_buffer_push :: "t38_non_ecm_buffer_state \<Rightarrow> t38_non_ecm_buffer_state" where
  "t38_non_ecm_buffer_push s = s\<lparr>ne_latest_eol_ptr := ne_in_ptr s, ne_data_finished := True\<rparr>"

section \<open>Input\<close>

text \<open>\<open>data[in_ptr] = v\<close> and the step of \<open>in_ptr\<close> around the ring.\<close>

definition ne_store :: "t38_non_ecm_buffer_state \<Rightarrow> u8 \<Rightarrow> t38_non_ecm_buffer_state option" where
  "ne_store s v =
     map_option (\<lambda>d. s\<lparr>ne_data := d, ne_in_ptr := (ne_in_ptr s + 1) AND (T38_NON_ECM_TX_BUF_LEN - 1)\<rparr>)
       (arr_set (ne_data s) (ne_in_ptr s) v)"

text \<open>The training check: leading \<open>0xFF\<close> octets are dropped.\<close>

fun ne_skip_ones :: "t38_non_ecm_buffer_state \<Rightarrow> octets \<Rightarrow> t38_non_ecm_buffer_state \<times> octets" where
  "ne_skip_ones s [] = (s, [])"
| "ne_skip_ones s (b # bs) =
     (if b \<noteq> 0xFF then (s\<lparr>ne_input_phase := TCF_AT_ALL_ZEROS, ne_flow_control_fill_octet := 0\<rparr>, b # bs)
      else ne_skip_ones s bs)"

fun ne_put_training :: "t38_non_ecm_buffer_state \<Rightarrow> octets \<Rightarrow> t38_non_ecm_buffer_state option" where
  "ne_put_training s [] = Some s"
| "ne_put_training s (b # bs) =
     do {
       s1 \<leftarrow> ne_store s b;
       ne_put_training (s1\<lparr>ne_latest_eol_ptr := ne_in_ptr s, ne_in_octets := ne_in_octets s + 1\<rparr>) bs
     }"

text \<open>The test for an end of line that a non-zero octet completes.\<close>

definition ne_lower :: "u8 \<Rightarrow> int" where
  "ne_lower b = top_bit (ucast b)"

definition ne_is_eol :: "t38_non_ecm_buffer_state \<Rightarrow> u8 \<Rightarrow> bool" where
  "ne_is_eol s b \<longleftrightarrow> b \<noteq> 0 \<and> bottom_bit (ne_bit_stream s OR 0x800) - ne_lower b > 11 - 8"

definition ne_shift_in :: "t38_non_ecm_buffer_state \<Rightarrow> u8 \<Rightarrow> t38_non_ecm_buffer_state" where
  "ne_shift_in s b = s\<lparr>ne_bit_stream := push_bit 8 (ne_bit_stream s) OR ucast b\<rparr>"

text \<open>Up to the first end of line; the rest of the octets is left for the image.\<close>

fun ne_wait_eol :: "t38_non_ecm_buffer_state \<Rightarrow> octets \<Rightarrow> (t38_non_ecm_buffer_state \<times> octets) option" where
  "ne_wait_eol s [] = Some (s, [])"
| "ne_wait_eol s (b # bs) =
     (if ne_is_eol s b then
        do {
          s1 \<leftarrow> Some (s\<lparr>ne_input_phase := IMAGE_IN_PROGRESS, ne_row_bits := ne_lower b - 8,
                        ne_latest_eol_ptr := ne_in_ptr s, ne_flow_control_fill_octet := 0\<rparr>);
          s2 \<leftarrow> ne_store s1 0;
          s3 \<leftarrow> ne_store s2 0;
          s4 \<leftarrow> ne_store s3 b;
          Some (ne_shift_in (s4\<lparr>ne_in_octets := ne_in_octets s + 3\<rparr>) b, bs)
        }
      else ne_wait_eol (ne_shift_in s b) bs)"

text \<open>The fill that brings a short row to its minimum length.\<close>

function ne_fill_row :: "t38_non_ecm_buffer_state \<Rightarrow> t38_non_ecm_buffer_state option" where
  "ne_fill_row s =
     (if ne_row_bits s < ne_min_bits_per_row s then
        (case ne_store (s\<lparr>ne_min_row_bits_fill_octets := ne_min_row_bits_fill_octets s + 1,
                         ne_row_bits := ne_row_bits s + 8\<rparr>) 0 of
           None \<Rightarrow> None
         | Some s1 \<Rightarrow> ne_fill_row s1)
      else Some s)"
  by pat_completeness auto
termination
  by (relation "measure (\<lambda>s. nat (ne_min_bits_per_row s - ne_row_bits s))") (auto simp: ne_store_def)

declare ne_fill_row.simps [simp del]

definition ne_end_row :: "t38_non_ecm_buffer_state \<Rightarrow> u8 \<Rightarrow> t38_non_ecm_buffer_state option" where
  "ne_end_row s b =
     (let s1 = s\<lparr>ne_row_bits := ne_row_bits s + (8 - ne_lower b)\<rparr> in
      map_option (\<lambda>s2. s2\<lparr>ne_row_bits := ne_lower b - 8, ne_in_rows := ne_in_rows s2 + 1\<rparr>)
        (if ne_row_bits s1 < 12 \<or> ne_row_bits s1 > 13 then
           map_option (\<lambda>s2. s2\<lparr>ne_latest_eol_ptr := ne_in_ptr s2\<rparr>) (ne_fill_row s1)
         else Some s1))"

fun ne_put_image :: "t38_non_ecm_buffer_state \<Rightarrow> octets \<Rightarrow> t38_non_ecm_buffer_state option" where
  "ne_put_image s [] = Some s"
| "ne_put_image s (b # bs) =
     do {
       s1 \<leftarrow> (if ne_is_eol s b then ne_end_row s b else Some s);
       s2 \<leftarrow> ne_store (ne_shift_in s1 b) b;
       ne_put_image (s2\<lparr>ne_row_bits := ne_row_bits s2 + 8, ne_in_octets := ne_in_octets s2 + 1\<rparr>) bs
     }"

definition t38_non_ecm_buffer_inject ::
    "t38_non_ecm_buffer_state \<Rightarrow> octets \<Rightarrow> t38_non_ecm_buffer_state option" where
  "t38_non_ecm_buffer_inject s buf =
     (case ne_input_phase s of
        TCF_AT_INITIAL_ALL_ONES \<Rightarrow> (let (s1, rest) = ne_skip_ones s buf in ne_put_training s1 rest)
      | TCF_AT_ALL_ZEROS \<Rightarrow> ne_put_training s buf
      | IMAGE_WAITING_FOR_FIRST_EOL \<Rightarrow>
          do { (s1, rest) \<leftarrow> ne_wait_eol s buf; ne_put_image s1 rest }
      | IMAGE_IN_PROGRESS \<Rightarrow> ne_put_image s buf)"

end
