(* ===== verification/Non_Ecm_Bits.thy ===== *)
theory Non_Ecm_Bits
  imports Non_Ecm Hdlc_Tx_Bits
begin

text \<open>
  The highest-set-bit routine, what an octet adds to a bit stream, and the test for the end
  of a line: it finds every run of eleven zeros before a one, wherever octets begin.
\<close>

section \<open>The highest set bit\<close>

text \<open>
  Before each step the set bits lie in a block of \<open>2 * k\<close> positions from \<open>res\<close>, the highest bit
  of the word among them.
\<close>

definition top_block :: "u32 \<Rightarrow> nat \<Rightarrow> nat \<Rightarrow> u32 \<times> int \<Rightarrow> bool" where
  "top_block w k base p \<longleftrightarrow> (case p of (bits, res) \<Rightarrow>
     base mod k = 0 \<and> res = int base \<and> bits \<noteq> 0 \<and>
     (\<forall>j. bit bits j \<longrightarrow> base \<le> j \<and> j < base + k) \<and>
     (\<forall>j. bit bits j \<longrightarrow> bit w j) \<and> (\<forall>j \<ge> base. bit w j \<longrightarrow> bit bits j))"

lemma top_block_step:
  assumes "top_block w (2 * k) base p" "0 < k" "\<And>j. j < 32 \<Longrightarrow> bit m j \<longleftrightarrow> k \<le> j mod (2 * k)"
  shows "\<exists>base'. top_block w k base' (top_bit_step m (int k) p)"
proof -
  obtain bits res where p: "p = (bits, res)" by (rule prod.exhaust)
  have b: "base mod (2 * k) = 0" "res = int base" "bits \<noteq> 0"
    "\<And>j. bit bits j \<Longrightarrow> base \<le> j \<and> j < base + 2 * k" "\<And>j. bit bits j \<Longrightarrow> bit w j"
    "\<And>j. base \<le> j \<Longrightarrow> bit w j \<Longrightarrow> bit bits j"
    using assms(1) by (auto simp: top_block_def p)
  obtain q where q: "base = 2 * k * q" using b(1) by (auto elim: dvdE simp: mod_eq_0_iff_dvd)
  have m: "bit m j \<longleftrightarrow> base + k \<le> j" if "bit bits j" for j
  proof -
    have j: "base \<le> j" "j < base + 2 * k" using b(4) [OF that] by auto
    then have "j = 2 * k * q + (j - base)" "j - base < 2 * k" using q by auto
    then have "j mod (2 * k) = j - base" by (metis mod_mult_self2 add.commute mod_less)
    moreover have "j < 32" using bit_imp_le_length [OF that] by simp
    ultimately show ?thesis using assms(3) j by auto
  qed
  have k: "base mod k = 0" "(base + k) mod k = 0" using q by simp_all
  show ?thesis
  proof (cases "bits AND m \<noteq> 0")
    case True
    have "\<forall>j. bit (bits AND m) j \<longrightarrow> base + k \<le> j \<and> j < base + k + k"
      using b(4) m by (metis bit_and_iff mult_2 add.assoc)
    moreover have "\<forall>j. bit (bits AND m) j \<longrightarrow> bit w j" using b(5) by (simp add: bit_and_iff)
    moreover have "\<forall>j \<ge> base + k. bit w j \<longrightarrow> bit (bits AND m) j" using b(6) m by (simp add: bit_and_iff)
    ultimately have "top_block w k (base + k) (bits AND m, res + int k)"
      using True b(2) k(2) by (simp add: top_block_def)
    then show ?thesis using True p by (auto simp: top_bit_step_def)
  next
    case False
    have "\<not> bit m j" if "bit bits j" for j
      using that False bit_and_iff [of bits m j] by simp
    then have "\<forall>j. bit bits j \<longrightarrow> base \<le> j \<and> j < base + k"
      using b(4) m by (metis not_less)
    then have "top_block w k base (bits, res)"
      using b(2,3,5,6) k(1) by (simp add: top_block_def)
    then show ?thesis using False p by (auto simp: top_bit_step_def)
  qed
qed

lemma top_mask_16: "\<forall>j < 32. bit (0xFFFF0000 :: u32) j \<longleftrightarrow> 16 \<le> j mod (2 * 16)" unfolding all_32 by simp
lemma top_mask_8: "\<forall>j < 32. bit (0xFF00FF00 :: u32) j \<longleftrightarrow> 8 \<le> j mod (2 * 8)" unfolding all_32 by simp
lemma top_mask_4: "\<forall>j < 32. bit (0xF0F0F0F0 :: u32) j \<longleftrightarrow> 4 \<le> j mod (2 * 4)" unfolding all_32 by simp
lemma top_mask_2: "\<forall>j < 32. bit (0xCCCCCCCC :: u32) j \<longleftrightarrow> 2 \<le> j mod (2 * 2)" unfolding all_32 by simp
lemma top_mask_1: "\<forall>j < 32. bit (0xAAAAAAAA :: u32) j \<longleftrightarrow> 1 \<le> j mod (2 * 1)" unfolding all_32 by simp

lemma top_bit_highest:
  assumes "w \<noteq> 0"
  shows "\<exists>i. top_bit w = int i \<and> bit w i \<and> (\<forall>j > i. \<not> bit w j)"
proof -
  have "top_block w (2 * 16) 0 (w, 0)"
    using assms bit_imp_le_length [of w] by (auto simp: top_block_def)
  from top_block_step [OF this _ top_mask_16 [rule_format]] obtain b1 where
    1: "top_block w (2 * 8) b1 (top_bit_step 0xFFFF0000 16 (w, 0))" by auto
  from top_block_step [OF 1 _ top_mask_8 [rule_format]] obtain b2 where
    2: "top_block w (2 * 4) b2 (top_bit_step 0xFF00FF00 8 (top_bit_step 0xFFFF0000 16 (w, 0)))" by auto
  from top_block_step [OF 2 _ top_mask_4 [rule_format]] obtain b3 where
    3: "top_block w (2 * 2) b3 (top_bit_step 0xF0F0F0F0 4 (top_bit_step 0xFF00FF00 8
          (top_bit_step 0xFFFF0000 16 (w, 0))))" by auto
  from top_block_step [OF 3 _ top_mask_2 [rule_format]] obtain b4 where
    4: "top_block w (2 * 1) b4 (top_bit_step 0xCCCCCCCC 2 (top_bit_step 0xF0F0F0F0 4
          (top_bit_step 0xFF00FF00 8 (top_bit_step 0xFFFF0000 16 (w, 0)))))" by auto
  from top_block_step [OF 4 _ top_mask_1 [rule_format]] obtain b5 where
    5: "top_block w 1 b5 (top_bit_step 0xAAAAAAAA 1 (top_bit_step 0xCCCCCCCC 2 (top_bit_step 0xF0F0F0F0 4
          (top_bit_step 0xFF00FF00 8 (top_bit_step 0xFFFF0000 16 (w, 0))))))" (is "top_block w 1 b5 ?p") by auto
  obtain bits res where p: "?p = (bits, res)" by (rule prod.exhaust)
  have b: "res = int b5" "bits \<noteq> 0" "\<And>j. bit bits j \<Longrightarrow> j = b5" "\<And>j. bit bits j \<Longrightarrow> bit w j"
    "\<And>j. b5 \<le> j \<Longrightarrow> bit w j \<Longrightarrow> bit bits j"
    using 5 unfolding p top_block_def by auto
  have "\<exists>j. bit bits j" using b(2) by (metis bit_0_eq bit_eqI bot_apply bot_bool_def)
  then have "bit w b5" using b(3,4) by blast
  moreover have "\<forall>j > b5. \<not> bit w j" using b(3,5) by (metis less_imp_le less_irrefl)
  moreover have "top_bit w = int b5" using assms p b(1) by (simp only: top_bit_def if_False snd_conv)
  ultimately show ?thesis by blast
qed

section \<open>Runs of zeros\<close>

text \<open>
  What a fax decoder sees of a bit stream: the number of zeros before each one, where
  eleven or more are an end of line. \<open>z\<close> zeros have already been seen.
\<close>

fun zero_runs :: "nat \<Rightarrow> bool list \<Rightarrow> nat list" where
  "zero_runs z [] = []"
| "zero_runs z (False # bs) = zero_runs (Suc z) bs"
| "zero_runs z (True # bs) = min z 11 # zero_runs 0 bs"

fun pending :: "nat \<Rightarrow> bool list \<Rightarrow> nat" where
  "pending z [] = z"
| "pending z (False # bs) = pending (Suc z) bs"
| "pending z (True # bs) = pending 0 bs"

lemma zero_runs_append: "zero_runs z (xs @ ys) = zero_runs z xs @ zero_runs (pending z xs) ys"
  by (induction z xs rule: zero_runs.induct) simp_all

lemma pending_append: "pending z (xs @ ys) = pending (pending z xs) ys"
  by (induction z xs rule: zero_runs.induct) simp_all

lemma zero_runs_zeros: "zero_runs z (replicate k False @ bs) = zero_runs (z + k) bs"
  by (induction k arbitrary: z) simp_all

lemma pending_zeros: "pending z (replicate k False @ bs) = pending (z + k) bs"
  by (induction k arbitrary: z) simp_all

text \<open>What one octet adds: \<open>lead b\<close> zeros before its first one, \<open>trail b\<close> after its last.\<close>

definition lead :: "u8 \<Rightarrow> nat" where
  "lead b = nat (7 - ne_lower b)"

definition inner_runs :: "u8 \<Rightarrow> nat list" where
  "inner_runs b = tl (zero_runs 0 (msb_bits b))"

definition trail :: "u8 \<Rightarrow> nat" where
  "trail b = pending 0 (msb_bits b)"

lemma ne_lower_octet:
  assumes "b \<noteq> 0"
  shows "\<exists>t < 8. ne_lower b = int t \<and> bit b t \<and> (\<forall>j > t. \<not> bit b j)"
proof -
  have u: "bit (ucast b :: u32) j \<longleftrightarrow> bit b j" for j
    using bit_imp_le_length [of b j] by (auto simp: bit_unsigned_iff)
  obtain j where "bit b j" using assms by (metis bit_0_eq bit_eqI bot_apply bot_bool_def)
  then have "(ucast b :: u32) \<noteq> 0" using u [of j] by auto
  from top_bit_highest [OF this] obtain i where i: "top_bit (ucast b) = int i" "bit b i" "\<forall>j > i. \<not> bit b j"
    unfolding u by blast
  then show ?thesis using bit_imp_le_length [OF i(2)] by (auto simp: ne_lower_def)
qed

lemma msb_bits_split:
  assumes "b \<noteq> 0"
  shows "\<exists>ys. msb_bits b = replicate (lead b) False @ True # ys"
proof -
  obtain t where t: "t < 8" "ne_lower b = int t" "bit b t" "\<forall>j > t. \<not> bit b j"
    using ne_lower_octet [OF assms] by blast
  have l: "lead b = 7 - t" using t(1,2) by (simp add: lead_def)
  have "take (7 - t) (msb_bits b) = replicate (7 - t) False"
    using t by (intro nth_equalityI) (simp_all add: msb_bits_def)
  moreover have "drop (7 - t) (msb_bits b) = msb_bits b ! (7 - t) # drop (Suc (7 - t)) (msb_bits b)"
    using t(1) by (intro Cons_nth_drop_Suc [symmetric]) simp
  moreover have "msb_bits b ! (7 - t)"
  proof -
    have "7 - t < 8" by simp
    then show ?thesis using t(1,3) by (simp add: msb_bits_def nth_upt del: upt_Suc)
  qed
  ultimately show ?thesis using append_take_drop_id [of "7 - t" "msb_bits b"] unfolding l
    by (intro exI [of _ "drop (Suc (7 - t)) (msb_bits b)"]) simp
qed

lemma octet_runs:
  assumes "b \<noteq> 0"
  shows "zero_runs z (msb_bits b) = min (z + lead b) 11 # inner_runs b" "pending z (msb_bits b) = trail b"
proof -
  obtain ys where ys: "msb_bits b = replicate (lead b) False @ True # ys" using msb_bits_split [OF assms] by blast
  then have "inner_runs b = zero_runs 0 ys" "trail b = pending 0 ys"
    by (simp_all add: inner_runs_def trail_def zero_runs_zeros pending_zeros)
  then show "zero_runs z (msb_bits b) = min (z + lead b) 11 # inner_runs b" "pending z (msb_bits b) = trail b"
    by (simp_all add: ys zero_runs_zeros pending_zeros)
qed

lemma zero_runs_bound: "z + length bs \<le> n \<Longrightarrow> \<forall>x \<in> set (zero_runs z bs). x < Suc n"
  by (induction z bs rule: zero_runs.induct) auto

lemma inner_runs_small: "\<forall>x \<in> set (inner_runs b). x < 9"
  using zero_runs_bound [of 0 "msb_bits b" 8] list.set_sel(2) [of "zero_runs 0 (msb_bits b)"]
  by (cases "zero_runs 0 (msb_bits b)") (auto simp: inner_runs_def)

lemma zero_octet: "msb_bits 0 = replicate 8 False"
  by (intro nth_equalityI) (simp_all add: msb_bits_def)

lemma octet_runs_0 [simp]: "zero_runs z (msb_bits 0) = []" "pending z (msb_bits 0) = z + 8"
  using zero_runs_zeros [of z 8 "[]"] pending_zeros [of z 8 "[]"] by (simp_all add: zero_octet)

lemma octet_runs_FF: "set (zero_runs 0 (msb_bits 0xFF)) = {0}" "pending z (msb_bits 0xFF) = 0"
  by (simp_all add: msb_bits_def upt_rec)

lemma trail_lowest:
  assumes "b \<noteq> 0"
  shows "trail b < 8" "bit b (trail b)" "\<forall>j < trail b. \<not> bit b j"
proof -
  define t where "t = (LEAST j. bit b j)"
  obtain j where "bit b j" using assms by (metis bit_0_eq bit_eqI bot_apply bot_bool_def)
  then have t: "bit b t" "\<forall>j < t. \<not> bit b j" unfolding t_def by (rule LeastI, auto dest: not_less_Least)
  have t8: "t < 8" using bit_imp_le_length [OF t(1)] by simp
  have "7 - t < 8" by simp
  then have "drop (7 - t) (msb_bits b) = msb_bits b ! (7 - t) # drop (Suc (7 - t)) (msb_bits b)"
    by (intro Cons_nth_drop_Suc [symmetric]) simp
  moreover have "msb_bits b ! (7 - t)"
    using \<open>7 - t < 8\<close> t8 t(1) by (simp add: msb_bits_def nth_upt del: upt_Suc)
  moreover have "drop (Suc (7 - t)) (msb_bits b) = replicate t False"
    using t8 t(2) by (intro nth_equalityI) (auto simp: msb_bits_def nth_upt simp del: upt_Suc)
  ultimately have "msb_bits b = take (7 - t) (msb_bits b) @ True # replicate t False"
    using append_take_drop_id [of "7 - t" "msb_bits b"] by simp
  then have "pending 0 (msb_bits b) = pending 0 (take (7 - t) (msb_bits b) @ True # replicate t False)" by simp
  also have "\<dots> = t" using pending_zeros [of 0 t "[]"] by (simp add: pending_append)
  finally have "trail b = t" by (simp add: trail_def)
  with t8 t show "trail b < 8" "bit b (trail b)" "\<forall>j < trail b. \<not> bit b j" by simp_all
qed

section \<open>Finding the end of a line\<close>

text \<open>The low bits of \<open>w\<close> are the end of a stream with \<open>p\<close> zeros at its end.\<close>

definition stream_at :: "nat \<Rightarrow> u32 \<Rightarrow> bool" where
  "stream_at p w \<longleftrightarrow> (\<forall>j < min p 11. \<not> bit w j) \<and> (p < 11 \<longrightarrow> bit w p)"

lemma stream_at_0: "stream_at 0 0xFFFF"
  by (simp add: stream_at_def)

lemma bit_0x800: "bit (0x800 :: u32) j \<longleftrightarrow> j = 11"
proof -
  have "(0x800 :: u32) = push_bit 11 1" by simp
  then show ?thesis by (simp only: bit_push_bit_iff) (auto simp: bit_1_iff)
qed

lemma bottom_of_stream:
  assumes "stream_at p w"
  shows "bottom_bit (w OR 0x800) = int (min p 11)"
proof -
  have b: "bit (w OR 0x800) j \<longleftrightarrow> bit w j \<or> j = 11" for j
    by (simp only: bit_or_iff bit_0x800)
  then have "w OR 0x800 \<noteq> 0" by (metis bit_0_eq bot_apply bot_bool_def)
  from bottom_bit_lowest [OF this] obtain i where
    i: "bottom_bit (w OR 0x800) = int i" "bit w i \<or> i = 11" "\<forall>j < i. \<not> (bit w j \<or> j = 11)"
    unfolding b by blast
  have "i = min p 11"
  proof (rule linorder_cases)
    assume "i < min p 11"
    then show ?thesis using i(2) assms by (auto simp: stream_at_def)
  next
    assume "min p 11 < i"
    then show ?thesis using i(3) assms by (auto simp: stream_at_def min_def split: if_splits)
  qed
  with i(1) show ?thesis by simp
qed

lemma stream_shift:
  assumes "stream_at p w"
  shows "stream_at (pending p (msb_bits b)) (push_bit 8 w OR ucast b)"
proof -
  have u: "bit (push_bit 8 w OR ucast b :: u32) j \<longleftrightarrow> (8 \<le> j \<and> bit w (j - 8)) \<or> bit b j" if "j < 32" for j
    using that bit_imp_le_length [of b j] by (auto simp: bit_or_iff bit_push_bit_iff bit_unsigned_iff)
  have small: "\<not> bit b j" if "8 \<le> j" for j using bit_imp_le_length [of b j] that by auto
  show ?thesis
  proof (cases "b = 0")
    case True
    have "\<not> bit w (j - 8)" if "8 \<le> j" "j < min (p + 8) 11" for j
    proof -
      have "j - 8 < min p 11" using that by auto
      then show ?thesis using assms by (auto simp: stream_at_def)
    qed
    then have "stream_at (p + 8) (push_bit 8 w OR ucast b)"
      unfolding stream_at_def using True assms u by (auto simp: stream_at_def)
    then show ?thesis using True by simp
  next
    case False
    note t = trail_lowest [OF False]
    have "stream_at (trail b) (push_bit 8 w OR ucast b)"
      unfolding stream_at_def using t u by (auto simp: min_def)
    then show ?thesis using octet_runs(2) [OF False] by simp
  qed
qed

lemma is_eol_iff:
  assumes "stream_at p (ne_bit_stream s)" "b \<noteq> 0"
  shows "ne_is_eol s b \<longleftrightarrow> 11 \<le> p + lead b"
proof -
  obtain t where t: "t < 8" "ne_lower b = int t" using ne_lower_octet [OF assms(2)] by blast
  then have "lead b = 7 - t" by (simp add: lead_def)
  then show ?thesis
    using t assms(2) bottom_of_stream [OF assms(1)] by (auto simp: ne_is_eol_def min_def)
qed

end
