(* ===== verification/Non_Ecm_Ring.thy ===== *)
theory Non_Ecm_Ring
  imports Non_Ecm_Bits
begin

text \<open>
  The buffer as a queue: the octets that may leave and those held back until the row they
  belong to is complete.
\<close>

section \<open>The ring as a queue\<close>

text \<open>
  \<open>r\<close> may leave the buffer, \<open>h\<close> is held back; together they fill the ring from \<open>out_ptr\<close>
  to \<open>in_ptr\<close> and leave at least one place free.
\<close>

definition ne_queue :: "t38_non_ecm_buffer_state \<Rightarrow> octets \<Rightarrow> octets \<Rightarrow> bool" where
  "ne_queue s r h \<longleftrightarrow>
     length (ne_data s) = 16384 \<and> 0 \<le> ne_out_ptr s \<and> ne_out_ptr s < 16384 \<and>
     ne_latest_eol_ptr s = (ne_out_ptr s + int (length r)) mod 16384 \<and>
     ne_in_ptr s = (ne_out_ptr s + int (length (r @ h))) mod 16384 \<and> length (r @ h) < 16384 \<and>
     (\<forall>k < length (r @ h). ne_data s ! nat ((ne_out_ptr s + int k) mod 16384) = (r @ h) ! k)"

lemma int_and_16383: "(i :: int) AND 16383 = i mod 16384"
  using take_bit_eq_mask [of 14 i] by (simp add: take_bit_eq_mod mask_eq_exp_minus_1 and.commute)

lemma ne_queue_frame [simp]:
  "ne_queue (s\<lparr>ne_min_bits_per_row := x1\<rparr>) r h = ne_queue s r h"
  "ne_queue (s\<lparr>ne_row_bits := x1\<rparr>) r h = ne_queue s r h"
  "ne_queue (s\<lparr>ne_bit_stream := x2\<rparr>) r h = ne_queue s r h"
  "ne_queue (s\<lparr>ne_flow_control_fill_octet := x3\<rparr>) r h = ne_queue s r h"
  "ne_queue (s\<lparr>ne_input_phase := x4\<rparr>) r h = ne_queue s r h"
  "ne_queue (s\<lparr>ne_data_finished := x5\<rparr>) r h = ne_queue s r h"
  "ne_queue (s\<lparr>ne_octet := x6\<rparr>) r h = ne_queue s r h"
  "ne_queue (s\<lparr>ne_bit_no := x1\<rparr>) r h = ne_queue s r h"
  "ne_queue (s\<lparr>ne_in_octets := x1\<rparr>) r h = ne_queue s r h"
  "ne_queue (s\<lparr>ne_in_rows := x1\<rparr>) r h = ne_queue s r h"
  "ne_queue (s\<lparr>ne_min_row_bits_fill_octets := x1\<rparr>) r h = ne_queue s r h"
  "ne_queue (s\<lparr>ne_out_octets := x1\<rparr>) r h = ne_queue s r h"
  "ne_queue (s\<lparr>ne_flow_control_fill_octets := x1\<rparr>) r h = ne_queue s r h"
  by (simp_all add: ne_queue_def)

lemma ring_neq:
  assumes "j < k" "k < (16384 :: nat)"
  shows "(o1 + int j) mod 16384 \<noteq> (o1 + int k) mod 16384"
proof
  assume "(o1 + int j) mod 16384 = (o1 + int k) mod 16384"
  then have "(16384 :: int) dvd (o1 + int k) - (o1 + int j)" by (metis mod_eq_dvd_iff)
  then have "(16384 :: int) dvd int (k - j)" using assms(1) by (simp add: of_nat_diff)
  then have "int 16384 dvd int (k - j)" by simp
  then have "16384 dvd k - j" by (simp only: of_nat_dvd_iff)
  moreover have "0 < k - j" "k - j < 16384" using assms by simp_all
  ultimately show False by (auto dest: dvd_imp_le)
qed

lemma queue_store:
  assumes "ne_queue s r h" "length (r @ h) + 1 < 16384"
  shows "\<exists>d p. ne_store s v = Some (s\<lparr>ne_data := d, ne_in_ptr := p\<rparr>) \<and>
    ne_queue (s\<lparr>ne_data := d, ne_in_ptr := p\<rparr>) r (h @ [v])"
proof -
  let ?n = "length (r @ h)"
  note q = assms(1) [unfolded ne_queue_def]
  have i: "0 \<le> ne_in_ptr s" "ne_in_ptr s < 16384" using q by simp_all
  have e: "ne_store s v = Some (s\<lparr>ne_data := (ne_data s)[nat (ne_in_ptr s) := v],
      ne_in_ptr := (ne_in_ptr s + 1) mod 16384\<rparr>)"
    using i q by (simp add: ne_store_def arr_set_def int_and_16383)
  have p: "(ne_in_ptr s + 1) mod 16384 = (ne_out_ptr s + int (length (r @ h @ [v]))) mod 16384"
  proof -
    have "ne_in_ptr s = (ne_out_ptr s + int ?n) mod 16384" using q by blast
    then have "(ne_in_ptr s + 1) mod 16384 = (ne_out_ptr s + int ?n + 1) mod 16384"
      using mod_add_left_eq [of "ne_out_ptr s + int ?n" 16384 1] by (simp only:)
    then show ?thesis by (simp add: ac_simps)
  qed
  have at: "nat (ne_in_ptr s) = nat ((ne_out_ptr s + int ?n) mod 16384)" using q by simp
  have "(ne_data s)[nat (ne_in_ptr s) := v] ! nat ((ne_out_ptr s + int k) mod 16384) = (r @ h @ [v]) ! k"
    if k: "k < length (r @ h @ [v])" for k
  proof (cases "k = ?n")
    case True
    then have "nat ((ne_out_ptr s + int k) mod 16384) < length (ne_data s)" using q by simp
    then show ?thesis unfolding at True using q by (simp add: nth_append)
  next
    case False
    then have lt: "k < ?n" using k by simp
    then have "nat ((ne_out_ptr s + int k) mod 16384) \<noteq> nat (ne_in_ptr s)"
      unfolding at using ring_neq [OF lt, of "ne_out_ptr s"] assms(2) by (simp add: nat_eq_iff)
    moreover have "(r @ h @ [v]) ! k = (r @ h) ! k"
      using nth_append [of "r @ h" "[v]" k] lt by (simp only: append_assoc if_True)
    ultimately show ?thesis using q lt by simp
  qed
  then have "ne_queue (s\<lparr>ne_data := (ne_data s)[nat (ne_in_ptr s) := v],
      ne_in_ptr := (ne_in_ptr s + 1) mod 16384\<rparr>) r (h @ [v])"
    using q p assms(2) unfolding ne_queue_def by simp
  with e show ?thesis by blast
qed

lemma queue_release:
  "ne_queue s r h \<Longrightarrow> ne_queue (s\<lparr>ne_latest_eol_ptr := ne_in_ptr s\<rparr>) (r @ h) []"
  by (simp add: ne_queue_def)

lemma queue_release_but_last:
  assumes "ne_queue s r h" "ne_queue (s\<lparr>ne_data := d, ne_in_ptr := p\<rparr>) r (h @ [v])"
  shows "ne_queue (s\<lparr>ne_data := d, ne_in_ptr := p, ne_latest_eol_ptr := ne_in_ptr s\<rparr>) (r @ h) [v]"
  using assms by (simp add: ne_queue_def)

lemma queue_empty: "ne_queue s [] h \<Longrightarrow> ne_out_ptr s = ne_latest_eol_ptr s"
  by (simp add: ne_queue_def)

lemma queue_get:
  assumes "ne_queue s (x # r) h"
  shows "ne_out_ptr s \<noteq> ne_latest_eol_ptr s" "arr_get (ne_data s) (ne_out_ptr s) = Some x"
    "ne_queue (s\<lparr>ne_out_ptr := (ne_out_ptr s + 1) AND 16383\<rparr>) r h"
proof -
  note q = assms [unfolded ne_queue_def]
  have o: "ne_out_ptr s mod 16384 = ne_out_ptr s" using q by simp
  show "ne_out_ptr s \<noteq> ne_latest_eol_ptr s"
    using ring_neq [of 0 "length (x # r)" "ne_out_ptr s"] q o by simp
  have "\<forall>k < length ((x # r) @ h). ne_data s ! nat ((ne_out_ptr s + int k) mod 16384) = ((x # r) @ h) ! k"
    using q by blast
  from this [rule_format, of 0] have "ne_data s ! nat (ne_out_ptr s) = x" using o by simp
  then show "arr_get (ne_data s) (ne_out_ptr s) = Some x" using q by (simp add: arr_get_def)
  have s: "((ne_out_ptr s + 1) mod 16384 + int k) mod 16384 = (ne_out_ptr s + int (Suc k)) mod 16384" for k
    by (simp add: mod_add_left_eq add.assoc)
  have l: "ne_latest_eol_ptr s = ((ne_out_ptr s + 1) mod 16384 + int (length r)) mod 16384"
    unfolding s using q by (simp only: length_Cons)
  have i: "ne_in_ptr s = ((ne_out_ptr s + 1) mod 16384 + int (length (r @ h))) mod 16384"
    unfolding s using q by (simp only: length_Cons append_Cons)
  have lens: "length (ne_data s) = 16384" "length (r @ h) < 16384" using q by simp_all
  moreover have "ne_data s ! nat (((ne_out_ptr s + 1) mod 16384 + int k) mod 16384) = (r @ h) ! k"
    if "k < length (r @ h)" for k
  proof -
    have "Suc k < length ((x # r) @ h)" using that by simp
    then have "ne_data s ! nat ((ne_out_ptr s + int (Suc k)) mod 16384) = ((x # r) @ h) ! Suc k"
      using q by blast
    then show ?thesis unfolding s by simp
  qed
  ultimately show "ne_queue (s\<lparr>ne_out_ptr := (ne_out_ptr s + 1) AND 16383\<rparr>) r h"
    unfolding ne_queue_def int_and_16383 using l i by simp
qed

end
