(* ===== verification/Non_Ecm_Rows.thy ===== *)
theory Non_Ecm_Rows
  imports Non_Ecm_Ring
begin

text \<open>
  Image data on its way into the buffer: what a fax decoder sees of a bit stream, and that
  storing octets and filling rows keeps it, with what may leave always ending in front of
  an end of line.
\<close>

section \<open>The image in a bit stream\<close>

text \<open>From the first end of line on.\<close>

definition t4_view :: "bool list \<Rightarrow> nat list" where
  "t4_view bits = dropWhile (\<lambda>z. z < 11) (zero_runs 0 bits)"

lemma t4_view_append:
  "t4_view xs \<noteq> [] \<Longrightarrow> t4_view (xs @ ys) = t4_view xs @ zero_runs (pending 0 xs) ys"
  by (auto simp: t4_view_def zero_runs_append dropWhile_eq_Nil_conv dropWhile_append)

lemma t4_view_begins:
  assumes "\<forall>z \<in> set (zero_runs 0 xs). z < 11" "zero_runs (pending 0 xs) ys = 11 # t"
  shows "t4_view (xs @ ys) = 11 # t"
  using assms by (simp add: t4_view_def zero_runs_append dropWhile_append)

lemma t4_view_Nil: "\<forall>z \<in> set (zero_runs 0 xs). z < 11 \<Longrightarrow> t4_view xs = []"
  by (simp add: t4_view_def)

lemma stream_bits_append [simp]: "stream_bits (xs @ ys) = stream_bits xs @ stream_bits ys"
  by (simp add: stream_bits_def)

lemma stream_bits_one: "stream_bits [b] = msb_bits b"
  by (simp add: stream_bits_def)

lemma stream_bits_zeros:
  "zero_runs z (stream_bits (replicate n 0)) = []" "pending z (stream_bits (replicate n 0)) = z + 8 * n"
  by (induction n arbitrary: z) (simp_all add: stream_bits_def zero_runs_append pending_append)

lemma ones_only:
  "\<forall>x \<in> set os. x = 0xFF \<Longrightarrow> (\<forall>z \<in> set (zero_runs 0 (stream_bits os)). z < 11) \<and> pending 0 (stream_bits os) = 0"
  using octet_runs_FF
  by (induction os) (auto simp: stream_bits_def zero_runs_append pending_append)

text \<open>Two streams a decoder cannot tell apart, and stay so when the same octet is appended.\<close>

definition same_image :: "octets \<Rightarrow> octets \<Rightarrow> bool" where
  "same_image xs ys \<longleftrightarrow> t4_view (stream_bits xs) = t4_view (stream_bits ys) \<and>
     min (pending 0 (stream_bits xs)) 11 = min (pending 0 (stream_bits ys)) 11"

lemma same_image_octet:
  assumes "same_image xs ys" "t4_view (stream_bits xs) \<noteq> []"
  shows "same_image (xs @ [b]) (ys @ [b])"
proof (cases "b = 0")
  case True
  then show ?thesis using assms
    by (auto simp: same_image_def stream_bits_one t4_view_append pending_append)
next
  case False
  have m: "min (pending 0 (stream_bits xs) + lead b) 11 = min (pending 0 (stream_bits ys) + lead b) 11"
    using assms(1) by (auto simp: same_image_def)
  then show ?thesis using assms octet_runs [OF False]
    by (auto simp: same_image_def stream_bits_one t4_view_append pending_append)
qed

lemma same_image_fill:
  assumes "same_image xs ys" "t4_view (stream_bits xs) \<noteq> []" "b \<noteq> 0" "11 \<le> pending 0 (stream_bits ys) + lead b"
  shows "same_image (xs @ replicate n 0 @ [b]) (ys @ [b])"
proof -
  have "11 \<le> pending 0 (stream_bits xs) + lead b"
    using assms(1,4) by (auto simp: same_image_def min_def split: if_splits)
  then show ?thesis using assms octet_runs [OF assms(3)]
    by (simp add: same_image_def stream_bits_one t4_view_append pending_append zero_runs_append
        stream_bits_zeros min_def)
qed

text \<open>Zeros where the next one ends a line anyway change nothing.\<close>

lemma runs_more_zeros: "zero_runs z bs = 11 # t \<Longrightarrow> zero_runs (z + n) bs = 11 # t"
  by (induction z bs rule: zero_runs.induct) auto

lemma pending_run: "zero_runs z bs \<noteq> [] \<Longrightarrow> pending z' bs = pending z bs"
proof (induction bs arbitrary: z z')
  case (Cons a bs)
  show ?case
  proof (cases a)
    case False
    then have "zero_runs (Suc z) bs \<noteq> []" using Cons.prems by simp
    from Cons.IH [OF this, of "Suc z'"] False show ?thesis by simp
  qed simp
qed simp

section \<open>Every input is stored\<close>

definition ne_held :: "t38_non_ecm_buffer_state \<Rightarrow> int" where
  "ne_held s = (ne_in_ptr s - ne_out_ptr s) mod 16384"

definition ne_stored :: "t38_non_ecm_buffer_state \<Rightarrow> int" where
  "ne_stored s = ne_in_octets s + ne_min_row_bits_fill_octets s"

text \<open>\<open>ne_grown s s'\<close>: the input side has stored something and left the output side alone.\<close>

definition ne_valid :: "t38_non_ecm_buffer_state \<Rightarrow> bool" where
  "ne_valid s \<longleftrightarrow> length (ne_data s) = 16384 \<and> 0 \<le> ne_in_ptr s \<and> ne_in_ptr s < 16384"

definition ne_grown :: "t38_non_ecm_buffer_state \<Rightarrow> t38_non_ecm_buffer_state \<Rightarrow> bool" where
  "ne_grown s s' \<longleftrightarrow> ne_valid s' \<and> ne_stored s \<le> ne_stored s' \<and> ne_octet s' = ne_octet s \<and>
     ne_bit_no s' = ne_bit_no s \<and> ne_data_finished s' = ne_data_finished s \<and> ne_out_ptr s' = ne_out_ptr s"

lemma ne_grown_trans: "ne_grown s t \<Longrightarrow> ne_grown t u \<Longrightarrow> ne_grown s u"
  by (auto simp: ne_grown_def)

lemma store_eq:
  "ne_valid s \<Longrightarrow> ne_store s v = Some (s\<lparr>ne_data := (ne_data s)[nat (ne_in_ptr s) := v],
     ne_in_ptr := (ne_in_ptr s + 1) mod 16384\<rparr>)"
  by (simp add: ne_valid_def ne_store_def arr_set_def int_and_16383)

lemma fill_row_grown: "ne_valid s \<Longrightarrow> \<exists>s'. ne_fill_row s = Some s' \<and> ne_grown s s'"
proof (induction s rule: ne_fill_row.induct)
  case (1 s)
  show ?case
  proof (cases "ne_row_bits s < ne_min_bits_per_row s")
    case True
    let ?s = "s\<lparr>ne_min_row_bits_fill_octets := ne_min_row_bits_fill_octets s + 1, ne_row_bits := ne_row_bits s + 8\<rparr>"
    have "ne_valid ?s" using "1.prems" by (simp add: ne_valid_def)
    note e = store_eq [OF this, of 0]
    let ?t = "?s\<lparr>ne_data := (ne_data ?s)[nat (ne_in_ptr ?s) := 0], ne_in_ptr := (ne_in_ptr ?s + 1) mod 16384\<rparr>"
    have g: "ne_grown s ?t" using "1.prems" by (simp add: ne_grown_def ne_valid_def ne_stored_def)
    then have "ne_valid ?t" by (simp add: ne_grown_def)
    from "1.IH" [OF True e this] obtain s' where "ne_fill_row ?t = Some s'" "ne_grown ?t s'" by blast
    with True e g show ?thesis by (subst ne_fill_row.simps) (auto intro: ne_grown_trans)
  next
    case False
    then show ?thesis using "1.prems" by (subst ne_fill_row.simps) (simp add: ne_grown_def)
  qed
qed

lemma end_row_grown:
  assumes "ne_valid s"
  shows "\<exists>s'. ne_end_row s b = Some s' \<and> ne_grown s s'"
proof -
  let ?s = "s\<lparr>ne_row_bits := ne_row_bits s + (8 - ne_lower b)\<rparr>"
  have v: "ne_valid ?s" using assms by (simp add: ne_valid_def)
  from fill_row_grown [OF this] obtain t where t: "ne_fill_row ?s = Some t" "ne_grown ?s t" by blast
  then show ?thesis using assms
    by (auto simp: ne_end_row_def Let_def ne_grown_def ne_valid_def ne_stored_def)
qed

lemma put_image_grown: "ne_valid s \<Longrightarrow> \<exists>s'. ne_put_image s bs = Some s' \<and> ne_grown s s'"
proof (induction bs arbitrary: s)
  case Nil
  then show ?case by (simp add: ne_grown_def)
next
  case (Cons b bs)
  obtain s1 where s1: "(if ne_is_eol s b then ne_end_row s b else Some s) = Some s1" "ne_grown s s1"
    using end_row_grown [OF Cons.prems, of b] Cons.prems by (cases "ne_is_eol s b") (auto simp: ne_grown_def)
  then have "ne_valid (ne_shift_in s1 b)" by (simp add: ne_grown_def ne_valid_def ne_shift_in_def)
  note e = store_eq [OF this, of b]
  let ?s2 = "(ne_shift_in s1 b)\<lparr>ne_data := (ne_data (ne_shift_in s1 b))[nat (ne_in_ptr (ne_shift_in s1 b)) := b],
     ne_in_ptr := (ne_in_ptr (ne_shift_in s1 b) + 1) mod 16384\<rparr>"
  let ?s3 = "?s2\<lparr>ne_row_bits := ne_row_bits ?s2 + 8, ne_in_octets := ne_in_octets ?s2 + 1\<rparr>"
  have g: "ne_grown s1 ?s3" using s1(2) by (simp add: ne_grown_def ne_valid_def ne_stored_def ne_shift_in_def)
  then have "ne_valid ?s3" by (simp add: ne_grown_def)
  from Cons.IH [OF this] obtain s' where "ne_put_image ?s3 bs = Some s'" "ne_grown ?s3 s'" by blast
  with s1 e g show ?case by (auto intro: ne_grown_trans)
qed

lemma wait_eol_grown:
  "ne_valid s \<Longrightarrow> \<exists>s' rest. ne_wait_eol s bs = Some (s', rest) \<and> ne_grown s s'"
proof (induction bs arbitrary: s)
  case Nil
  then show ?case by (simp add: ne_grown_def)
next
  case (Cons b bs)
  show ?case
  proof (cases "ne_is_eol s b")
    case True
    have v: "length (ne_data s) = 16384" "0 \<le> ne_in_ptr s" "ne_in_ptr s < 16384"
      using Cons.prems by (simp_all add: ne_valid_def)
    with True show ?thesis
      by (simp add: ne_store_def arr_set_def int_and_16383 ne_grown_def ne_valid_def ne_stored_def ne_shift_in_def)
  next
    case False
    have g: "ne_grown s (ne_shift_in s b)" using Cons.prems
      by (simp add: ne_grown_def ne_valid_def ne_stored_def ne_shift_in_def)
    then have "ne_valid (ne_shift_in s b)" by (simp add: ne_grown_def)
    from Cons.IH [OF this] obtain s' rest where "ne_wait_eol (ne_shift_in s b) bs = Some (s', rest)"
      "ne_grown (ne_shift_in s b) s'" by blast
    with False g show ?thesis by (auto intro: ne_grown_trans)
  qed
qed

lemma put_training_grown: "ne_valid s \<Longrightarrow> \<exists>s'. ne_put_training s bs = Some s' \<and> ne_grown s s'"
proof (induction bs arbitrary: s)
  case Nil
  then show ?case by (simp add: ne_grown_def)
next
  case (Cons b bs)
  note e = store_eq [OF Cons.prems, of b]
  let ?t = "s\<lparr>ne_data := (ne_data s)[nat (ne_in_ptr s) := b], ne_in_ptr := (ne_in_ptr s + 1) mod 16384,
    ne_latest_eol_ptr := ne_in_ptr s, ne_in_octets := ne_in_octets s + 1\<rparr>"
  have g: "ne_grown s ?t" using Cons.prems by (simp add: ne_grown_def ne_valid_def ne_stored_def)
  then have "ne_valid ?t" by (simp add: ne_grown_def)
  from Cons.IH [OF this] obtain s' where "ne_put_training ?t bs = Some s'" "ne_grown ?t s'" by blast
  with e g show ?case by (auto intro: ne_grown_trans)
qed

lemma skip_ones_grown: "ne_valid s \<Longrightarrow> \<exists>s' rest. ne_skip_ones s bs = (s', rest) \<and> ne_grown s s'"
  by (induction bs) (auto simp: ne_grown_def ne_valid_def ne_stored_def)

lemma inject_grown:
  assumes "ne_valid s"
  shows "\<exists>s'. t38_non_ecm_buffer_inject s buf = Some s' \<and> ne_grown s s'"
proof (cases "ne_input_phase s")
  case TCF_AT_INITIAL_ALL_ONES
  obtain t rest where t: "ne_skip_ones s buf = (t, rest)" "ne_grown s t"
    using skip_ones_grown [OF assms] by blast
  then obtain s' where "ne_put_training t rest = Some s'" "ne_grown t s'"
    using put_training_grown [of t] by (auto simp: ne_grown_def)
  with t TCF_AT_INITIAL_ALL_ONES show ?thesis
    by (auto simp: t38_non_ecm_buffer_inject_def intro: ne_grown_trans)
next
  case IMAGE_WAITING_FOR_FIRST_EOL
  obtain t rest where t: "ne_wait_eol s buf = Some (t, rest)" "ne_grown s t"
    using wait_eol_grown [OF assms] by blast
  then obtain s' where "ne_put_image t rest = Some s'" "ne_grown t s'"
    using put_image_grown [of t] by (auto simp: ne_grown_def)
  with t IMAGE_WAITING_FOR_FIRST_EOL show ?thesis
    by (auto simp: t38_non_ecm_buffer_inject_def intro: ne_grown_trans)
qed (use put_training_grown [OF assms] put_image_grown [OF assms] in \<open>simp_all add: t38_non_ecm_buffer_inject_def\<close>)

lemma queue_valid: "ne_queue s r h \<Longrightarrow> ne_valid s"
  by (simp add: ne_queue_def ne_valid_def)

lemma queue_held: "ne_queue s r h \<Longrightarrow> ne_held s = int (length (r @ h))"
  by (simp add: ne_queue_def ne_held_def mod_diff_left_eq)

section \<open>The image and the queue\<close>

text \<open>\<open>ins\<close> has been injected, \<open>outs\<close> handed out octet by octet.\<close>

definition img_waiting :: "octets \<Rightarrow> octets \<Rightarrow> t38_non_ecm_buffer_state \<Rightarrow> bool" where
  "img_waiting ins outs s \<longleftrightarrow> ne_queue s [] [] \<and> ne_input_phase s = IMAGE_WAITING_FOR_FIRST_EOL \<and>
     ne_flow_control_fill_octet s = 0xFF \<and> stream_at (pending 0 (stream_bits ins)) (ne_bit_stream s) \<and>
     (\<forall>x \<in> set outs. x = 0xFF) \<and> (\<forall>z \<in> set (zero_runs 0 (stream_bits ins)). z < 11)"

definition img_running :: "octets \<Rightarrow> octets \<Rightarrow> octets \<Rightarrow> octets \<Rightarrow> t38_non_ecm_buffer_state \<Rightarrow> bool" where
  "img_running ins outs r h s \<longleftrightarrow> ne_queue s r h \<and> ne_input_phase s = IMAGE_IN_PROGRESS \<and>
     ne_flow_control_fill_octet s = 0 \<and> stream_at (pending 0 (stream_bits ins)) (ne_bit_stream s) \<and>
     same_image (outs @ r @ h) ins \<and> t4_view (stream_bits (outs @ r @ h)) \<noteq> [] \<and>
     (\<exists>t. zero_runs (pending 0 (stream_bits (outs @ r))) (stream_bits h) = 11 # t)"

text \<open>Storing one octet of the image, after any fill that ends its row.\<close>

definition ne_keeps :: "t38_non_ecm_buffer_state \<Rightarrow> t38_non_ecm_buffer_state \<Rightarrow> bool" where
  "ne_keeps s s' \<longleftrightarrow> ne_input_phase s' = ne_input_phase s \<and> ne_bit_stream s' = ne_bit_stream s \<and>
     ne_flow_control_fill_octet s' = ne_flow_control_fill_octet s"

lemma fill_row_queue:
  assumes "ne_fill_row s = Some s'" "ne_queue s r h"
    and "int (length (r @ h)) + (ne_stored s' - ne_stored s) < 16384"
  shows "\<exists>n. ne_queue s' r (h @ replicate n 0) \<and> ne_stored s' = ne_stored s + int n \<and> ne_keeps s s'"
  using assms
proof (induction s arbitrary: h rule: ne_fill_row.induct)
  case (1 s)
  show ?case
  proof (cases "ne_row_bits s < ne_min_bits_per_row s")
    case True
    let ?s = "s\<lparr>ne_min_row_bits_fill_octets := ne_min_row_bits_fill_octets s + 1, ne_row_bits := ne_row_bits s + 8\<rparr>"
    have q: "ne_queue ?s r h" using "1.prems"(2) by simp
    obtain t where t: "ne_store ?s 0 = Some t" "ne_fill_row t = Some s'"
      using "1.prems"(1) True by (subst (asm) ne_fill_row.simps) (auto split: option.splits)
    have tv: "ne_valid t" "ne_stored t = ne_stored s + 1" "ne_keeps s t"
      using t(1) queue_valid [OF q] by (auto simp: store_eq ne_valid_def ne_stored_def ne_keeps_def)
    have "ne_stored t \<le> ne_stored s'" using fill_row_grown [OF tv(1)] t(2) by (auto simp: ne_grown_def)
    then have "length (r @ h) + 1 < 16384" using tv(2) "1.prems"(3) by simp
    from queue_store [OF q this, of 0] have qt: "ne_queue t r (h @ [0])" using t(1) by auto
    have "int (length (r @ h @ [0 :: u8])) + (ne_stored s' - ne_stored t) < 16384" using "1.prems"(3) tv(2) by simp
    from "1.IH" [OF True t(1) t(2) qt this] obtain n where
      n: "ne_queue s' r ((h @ [0]) @ replicate n 0)" "ne_stored s' = ne_stored t + int n" "ne_keeps t s'" by blast
    then have "ne_queue s' r (h @ replicate (Suc n) 0)" by simp
    moreover have "ne_stored s' = ne_stored s + int (Suc n)" "ne_keeps s s'"
      using n(2,3) tv(2,3) by (auto simp: ne_keeps_def)
    ultimately show ?thesis by blast
  next
    case False
    then have "s' = s" using "1.prems"(1) by (subst (asm) ne_fill_row.simps) simp
    then show ?thesis using "1.prems"(2) by (intro exI [of _ 0]) (simp add: ne_keeps_def)
  qed
qed

text \<open>The end of a row releases what is held, or, next to another end, releases nothing.\<close>

definition ne_row_end :: "octets \<Rightarrow> octets \<Rightarrow> octets \<Rightarrow> octets \<Rightarrow> bool" where
  "ne_row_end r h r' h' \<longleftrightarrow> r' = r \<and> h' = h \<or> (\<exists>n. r' = r @ h @ replicate n 0 \<and> h' = [])"

lemma end_row_queue:
  assumes "ne_end_row s b = Some s'" "ne_queue s r h"
    and "int (length (r @ h)) + (ne_stored s' - ne_stored s) < 16384"
  shows "\<exists>r' h'. ne_row_end r h r' h' \<and> ne_queue s' r' h' \<and> ne_keeps s s' \<and>
    int (length (r' @ h')) - ne_stored s' = int (length (r @ h)) - ne_stored s"
proof -
  let ?s = "s\<lparr>ne_row_bits := ne_row_bits s + (8 - ne_lower b)\<rparr>"
  have q: "ne_queue ?s r h" using assms(2) by simp
  show ?thesis
  proof (cases "ne_row_bits ?s < 12 \<or> ne_row_bits ?s > 13")
    case True
    then obtain t where t: "ne_fill_row ?s = Some t"
        "s' = t\<lparr>ne_latest_eol_ptr := ne_in_ptr t, ne_row_bits := ne_lower b - 8, ne_in_rows := ne_in_rows t + 1\<rparr>"
      using assms(1) by (auto simp: ne_end_row_def Let_def)
    have st: "ne_stored s' = ne_stored t" "ne_stored ?s = ne_stored s" "ne_keeps t s'" "ne_keeps s ?s"
      by (simp_all add: t(2) ne_stored_def ne_keeps_def)
    have "int (length (r @ h)) + (ne_stored t - ne_stored ?s) < 16384" using assms(3) st by simp
    from fill_row_queue [OF t(1) q this] obtain n where
      n: "ne_queue t r (h @ replicate n 0)" "ne_stored t = ne_stored ?s + int n" "ne_keeps ?s t" by blast
    have "ne_queue s' (r @ h @ replicate n 0) []" using queue_release [OF n(1)] by (simp add: t(2))
    moreover have "ne_row_end r h (r @ h @ replicate n 0) []" by (auto simp: ne_row_end_def)
    moreover have "ne_keeps s s'" using st(3,4) n(3) by (simp add: ne_keeps_def)
    moreover have "int (length ((r @ h @ replicate n 0) @ [])) - ne_stored s' = int (length (r @ h)) - ne_stored s"
      using n(2) st by simp
    ultimately show ?thesis by blast
  next
    case False
    then have s': "s' = ?s\<lparr>ne_row_bits := ne_lower b - 8, ne_in_rows := ne_in_rows s + 1\<rparr>"
      using assms(1) by (auto simp: ne_end_row_def Let_def)
    then have "ne_queue s' r h" "ne_keeps s s'" "ne_stored s' = ne_stored s"
      using assms(2) by (simp_all add: ne_keeps_def ne_stored_def)
    then show ?thesis by (intro exI [of _ r] exI [of _ h]) (simp add: ne_row_end_def)
  qed
qed

text \<open>What one more octet does to the image, as streams.\<close>

lemma image_grows:
  assumes "same_image (outs @ r @ h) ins" "t4_view (stream_bits (outs @ r @ h)) \<noteq> []"
    and "zero_runs (pending 0 (stream_bits (outs @ r))) (stream_bits h) = 11 # t"
    and "ne_row_end r h r' h'" "r' \<noteq> r \<or> h' \<noteq> h \<Longrightarrow> b \<noteq> 0 \<and> 11 \<le> pending 0 (stream_bits ins) + lead b"
  shows "same_image (outs @ r' @ h' @ [b]) (ins @ [b]) \<and> t4_view (stream_bits (outs @ r' @ h' @ [b])) \<noteq> [] \<and>
    (\<exists>t. zero_runs (pending 0 (stream_bits (outs @ r'))) (stream_bits (h' @ [b])) = 11 # t)"
proof (cases "r' = r \<and> h' = h")
  case True
  have "same_image ((outs @ r @ h) @ [b]) (ins @ [b])" using same_image_octet [OF assms(1,2)] .
  moreover have "t4_view (stream_bits ((outs @ r @ h) @ [b])) \<noteq> []"
    using t4_view_append [OF assms(2), of "msb_bits b"] assms(2) by (simp add: stream_bits_one)
  ultimately show ?thesis using True assms(3) by (simp add: zero_runs_append)
next
  case False
  then have b: "b \<noteq> 0" "11 \<le> pending 0 (stream_bits ins) + lead b" using assms(5) by auto
  obtain n where n: "r' = r @ h @ replicate n 0" "h' = []"
    using False assms(4) by (auto simp: ne_row_end_def)
  have "same_image ((outs @ r @ h) @ replicate n 0 @ [b]) (ins @ [b])"
    by (rule same_image_fill [OF assms(1,2) b])
  moreover have "t4_view (stream_bits ((outs @ r @ h) @ replicate n 0 @ [b])) \<noteq> []"
    using t4_view_append [OF assms(2), of "stream_bits (replicate n 0 @ [b])"] assms(2) by simp
  moreover have "11 \<le> pending 0 (stream_bits (outs @ r @ h)) + lead b"
    using assms(1) b(2) by (auto simp: same_image_def min_def split: if_splits)
  then have "zero_runs (pending 0 (stream_bits (outs @ r @ h @ replicate n 0))) (msb_bits b) = 11 # inner_runs b"
    using octet_runs [OF b(1)] by (simp add: pending_append stream_bits_zeros min_def)
  ultimately show ?thesis by (simp add: n stream_bits_one)
qed

lemma put_image_octet:
  assumes "img_running ins outs r h s"
    and s1: "(if ne_is_eol s b then ne_end_row s b else Some s) = Some s1"
    and s2: "ne_store (ne_shift_in s1 b) b = Some s2"
    and fits: "int (length (r @ h)) + (ne_stored s2 + 1 - ne_stored s) < 16384"
  defines "s3 \<equiv> s2\<lparr>ne_row_bits := ne_row_bits s2 + 8, ne_in_octets := ne_in_octets s2 + 1\<rparr>"
  shows "\<exists>r' h'. img_running (ins @ [b]) outs r' h' s3 \<and>
    int (length (r' @ h')) - ne_stored s3 = int (length (r @ h)) - ne_stored s"
proof -
  note run = assms(1) [unfolded img_running_def]
  have st: "ne_stored s2 = ne_stored s1"
    using s2 by (auto simp: ne_store_def ne_shift_in_def ne_stored_def)
  have fits1: "int (length (r @ h)) + (ne_stored s1 - ne_stored s) < 16384" using fits st by simp
  obtain r' h' where r': "ne_row_end r h r' h'" "ne_queue s1 r' h'" "ne_keeps s s1"
      "int (length (r' @ h')) - ne_stored s1 = int (length (r @ h)) - ne_stored s"
      "r' \<noteq> r \<or> h' \<noteq> h \<Longrightarrow> ne_is_eol s b"
  proof (cases "ne_is_eol s b")
    case True
    from end_row_queue [OF _ _ fits1, of b] True s1 run that show ?thesis by auto
  next
    case False
    then have "s1 = s" using s1 by simp
    then show ?thesis using run by (intro that [of r h]) (auto simp: ne_row_end_def ne_keeps_def)
  qed
  have eol: "b \<noteq> 0 \<and> 11 \<le> pending 0 (stream_bits ins) + lead b" if "r' \<noteq> r \<or> h' \<noteq> h"
  proof -
    have e: "ne_is_eol s b" using r'(5) that .
    then have "b \<noteq> 0" by (simp add: ne_is_eol_def)
    with e is_eol_iff [of "pending 0 (stream_bits ins)" s b] run show ?thesis by simp
  qed
  obtain t where t: "zero_runs (pending 0 (stream_bits (outs @ r))) (stream_bits h) = 11 # t" using run by blast
  have g: "same_image (outs @ r' @ h' @ [b]) (ins @ [b])" "t4_view (stream_bits (outs @ r' @ h' @ [b])) \<noteq> []"
      "\<exists>t. zero_runs (pending 0 (stream_bits (outs @ r'))) (stream_bits (h' @ [b])) = 11 # t"
    using image_grows [OF _ _ t r'(1) eol] run by blast+
  have "ne_queue (ne_shift_in s1 b) r' h'" using r'(2) by (simp add: ne_shift_in_def)
  moreover have "length (r' @ h') + 1 < 16384" using fits r'(4) st by simp
  ultimately have "ne_queue s2 r' (h' @ [b])" using queue_store [of "ne_shift_in s1 b" r' h' b] s2 by auto
  then have "ne_queue s3 r' (h' @ [b])" by (simp add: s3_def)
  moreover have "ne_input_phase s3 = IMAGE_IN_PROGRESS" "ne_flow_control_fill_octet s3 = 0"
      "ne_bit_stream s3 = push_bit 8 (ne_bit_stream s) OR ucast b"
    using s2 r'(3) run by (auto simp: s3_def ne_store_def ne_shift_in_def ne_keeps_def)
  moreover have "stream_at (pending 0 (stream_bits (ins @ [b]))) (push_bit 8 (ne_bit_stream s) OR ucast b)"
    using stream_shift [of "pending 0 (stream_bits ins)" "ne_bit_stream s" b] run
    by (simp add: stream_bits_one pending_append)
  ultimately have "img_running (ins @ [b]) outs r' (h' @ [b]) s3"
    using g by (simp add: img_running_def)
  moreover have "ne_stored s3 = ne_stored s1 + 1" using st by (simp add: s3_def ne_stored_def)
  ultimately show ?thesis using r'(4) by (intro exI [of _ r'] exI [of _ "h' @ [b]"]) simp
qed

lemma put_image_running:
  assumes "ne_put_image s bs = Some s'" "img_running ins outs r h s"
    and "int (length (r @ h)) + (ne_stored s' - ne_stored s) < 16384"
  shows "\<exists>r' h'. img_running (ins @ bs) outs r' h' s'"
  using assms
proof (induction bs arbitrary: ins r h s)
  case Nil
  then show ?case by auto
next
  case (Cons b bs)
  obtain s1 s2 where s: "(if ne_is_eol s b then ne_end_row s b else Some s) = Some s1"
      "ne_store (ne_shift_in s1 b) b = Some s2"
      "ne_put_image (s2\<lparr>ne_row_bits := ne_row_bits s2 + 8, ne_in_octets := ne_in_octets s2 + 1\<rparr>) bs = Some s'"
    using Cons.prems(1) by (auto simp del: if_split split: bind_splits)
  let ?s3 = "s2\<lparr>ne_row_bits := ne_row_bits s2 + 8, ne_in_octets := ne_in_octets s2 + 1\<rparr>"
  have "ne_valid ?s3"
  proof -
    have "ne_valid s" using queue_valid Cons.prems(2) by (auto simp: img_running_def)
    then have "ne_valid s1" using end_row_grown [of s b] s(1) by (auto simp: ne_grown_def split: if_splits)
    then have "ne_valid (ne_shift_in s1 b)" by (simp add: ne_valid_def ne_shift_in_def)
    from store_eq [OF this, of b] s(2) this show ?thesis by (auto simp: ne_valid_def)
  qed
  then have "ne_stored ?s3 \<le> ne_stored s'" using put_image_grown [of ?s3 bs] s(3) by (auto simp: ne_grown_def)
  moreover have "ne_stored ?s3 = ne_stored s2 + 1" by (simp add: ne_stored_def)
  ultimately have "int (length (r @ h)) + (ne_stored s2 + 1 - ne_stored s) < 16384" using Cons.prems(3) by simp
  from put_image_octet [OF Cons.prems(2) s(1,2) this] obtain r' h' where
    n: "img_running (ins @ [b]) outs r' h' ?s3"
      "int (length (r' @ h')) - ne_stored ?s3 = int (length (r @ h)) - ne_stored s" by blast
  have "int (length (r' @ h')) + (ne_stored s' - ne_stored ?s3) < 16384" using Cons.prems(3) n(2) by simp
  from Cons.IH [OF s(3) n(1) this] show ?case by simp
qed

end
