(* ===== verification/Non_Ecm_Image.thy ===== *)
theory Non_Ecm_Image
  imports Non_Ecm_Rows
begin

text \<open>
  What the buffer promises for image data: however input and output interleave, a fax
  decoder that counts the zeros before each one, with eleven or more as an end of line,
  sees in the output what it sees in the input.
\<close>

section \<open>The start of the image\<close>

lemma first_eol:
  assumes "img_waiting ins outs s" "ne_is_eol s b"
  shows "\<exists>s'. ne_wait_eol s (b # bs) = Some (s', bs) \<and> img_running (ins @ [b]) outs [] [0, 0, b] s' \<and>
    ne_stored s' = ne_stored s + 3"
proof -
  note w = assms(1) [unfolded img_waiting_def]
  let ?p = "pending 0 (stream_bits ins)"
  have b: "b \<noteq> 0" using assms(2) by (simp add: ne_is_eol_def)
  then have lead: "11 \<le> ?p + lead b" using assms(2) is_eol_iff [of ?p s b] w by simp
  let ?s1 = "s\<lparr>ne_input_phase := IMAGE_IN_PROGRESS, ne_row_bits := ne_lower b - 8,
    ne_latest_eol_ptr := ne_in_ptr s, ne_flow_control_fill_octet := 0\<rparr>"
  have "ne_queue ?s1 [] []" using queue_release [of s "[]" "[]"] w by (simp add: ne_queue_def)
  from queue_store [OF this, of 0] obtain s2 where
    2: "ne_store ?s1 0 = Some s2" "ne_queue s2 [] [0]" "\<exists>d p. s2 = ?s1\<lparr>ne_data := d, ne_in_ptr := p\<rparr>" by auto
  from queue_store [OF 2(2), of 0] obtain s3 where
    3: "ne_store s2 0 = Some s3" "ne_queue s3 [] [0, 0]" "\<exists>d p. s3 = s2\<lparr>ne_data := d, ne_in_ptr := p\<rparr>" by auto
  from queue_store [OF 3(2), of b] obtain s4 where
    4: "ne_store s3 b = Some s4" "ne_queue s4 [] [0, 0, b]" "\<exists>d p. s4 = s3\<lparr>ne_data := d, ne_in_ptr := p\<rparr>" by auto
  let ?s = "ne_shift_in (s4\<lparr>ne_in_octets := ne_in_octets s + 3\<rparr>) b"
  have e: "ne_wait_eol s (b # bs) = Some (?s, bs)" using assms(2) 2(1) 3(1) 4(1) by simp
  have f: "ne_input_phase ?s = IMAGE_IN_PROGRESS" "ne_flow_control_fill_octet ?s = 0"
      "ne_bit_stream ?s = push_bit 8 (ne_bit_stream s) OR ucast b" "ne_stored ?s = ne_stored s + 3"
    using 2(3) 3(3) 4(3) by (auto simp: ne_shift_in_def ne_stored_def)
  have q: "ne_queue ?s [] [0, 0, b]" using 4(2) by (simp add: ne_shift_in_def)
  have ones: "\<forall>z \<in> set (zero_runs 0 (stream_bits outs)). z < 11" "pending 0 (stream_bits outs) = 0"
    using ones_only [of outs] w by simp_all
  have r: "zero_runs (pending 0 (stream_bits outs)) (stream_bits [0, 0, b]) = 11 # inner_runs b"
    using octet_runs [OF b] ones(2) by (simp add: zero_runs_append)
  have ri: "zero_runs ?p (msb_bits b) = 11 # inner_runs b" using octet_runs [OF b] lead by (simp add: min_def)
  have v: "t4_view (stream_bits (outs @ [0, 0, b])) = 11 # inner_runs b"
    using t4_view_begins [OF ones(1) r] by simp
  have "\<forall>z \<in> set (zero_runs 0 (stream_bits ins)). z < 11" using w by simp
  from t4_view_begins [OF this ri] have vi: "t4_view (stream_bits (ins @ [b])) = 11 # inner_runs b"
    by (simp add: stream_bits_one)
  have "same_image (outs @ [0, 0, b]) (ins @ [b])"
    unfolding same_image_def v vi using octet_runs(2) [OF b] by (simp add: pending_append)
  moreover have "stream_at (pending 0 (stream_bits (ins @ [b]))) (ne_bit_stream ?s)"
    using stream_shift [of ?p "ne_bit_stream s" b] w f(3) by (simp add: stream_bits_one pending_append)
  ultimately have "img_running (ins @ [b]) outs [] [0, 0, b] ?s"
    using q f r v by (simp add: img_running_def)
  with e f(4) show ?thesis by blast
qed

lemma wait_octet:
  assumes "img_waiting ins outs s" "\<not> ne_is_eol s b"
  shows "img_waiting (ins @ [b]) outs (ne_shift_in s b)"
proof -
  note w = assms(1) [unfolded img_waiting_def]
  let ?p = "pending 0 (stream_bits ins)"
  have at: "stream_at (pending 0 (stream_bits (ins @ [b]))) (push_bit 8 (ne_bit_stream s) OR ucast b)"
    using stream_shift [of ?p "ne_bit_stream s" b] w by (simp add: stream_bits_one pending_append)
  have "\<forall>z \<in> set (zero_runs ?p (msb_bits b)). z < 11"
  proof (cases "b = 0")
    case False
    then have "?p + lead b < 11" using assms(2) is_eol_iff [of ?p s b] w by simp
    moreover have "\<forall>z \<in> set (inner_runs b). z < 9"
      using inner_runs_small by blast
    ultimately show ?thesis using octet_runs [OF False] by auto
  qed simp
  with w at show ?thesis
    by (auto simp: img_waiting_def ne_shift_in_def stream_bits_one zero_runs_append)
qed

lemma wait_eol_image:
  assumes "ne_wait_eol s bs = Some (s', rest)" "img_waiting ins outs s"
  shows "rest = [] \<and> img_waiting (ins @ bs) outs s' \<or>
    (\<exists>pre h. bs = pre @ rest \<and> img_running (ins @ pre) outs [] h s' \<and> length h = 3 \<and>
       ne_stored s' = ne_stored s + 3)"
  using assms
proof (induction bs arbitrary: ins s)
  case Nil
  then show ?case by simp
next
  case (Cons b bs)
  show ?case
  proof (cases "ne_is_eol s b")
    case True
    from first_eol [OF Cons.prems(2) True, of bs] Cons.prems(1) have
      "rest = bs" "img_running (ins @ [b]) outs [] [0, 0, b] s'" "ne_stored s' = ne_stored s + 3" by auto
    then show ?thesis by (intro disjI2 exI [of _ "[b]"] exI [of _ "[0, 0, b]"]) simp
  next
    case False
    then have e: "ne_wait_eol (ne_shift_in s b) bs = Some (s', rest)" using Cons.prems(1) by simp
    have st: "ne_stored (ne_shift_in s b) = ne_stored s" by (simp add: ne_shift_in_def ne_stored_def)
    from Cons.IH [OF e wait_octet [OF Cons.prems(2) False]] show ?thesis
    proof (elim disjE exE conjE)
      fix pre h assume "bs = pre @ rest" "img_running ((ins @ [b]) @ pre) outs [] h s'" "length h = 3"
        "ne_stored s' = ne_stored (ne_shift_in s b) + 3"
      then show ?thesis using st by (intro disjI2 exI [of _ "b # pre"] exI [of _ h]) simp
    qed simp
  qed
qed

text \<open>Between operations the buffer waits for the image or is in it.\<close>

definition img_ok :: "octets \<Rightarrow> octets \<Rightarrow> t38_non_ecm_buffer_state \<Rightarrow> bool" where
  "img_ok ins outs s \<longleftrightarrow> \<not> ne_data_finished s \<and>
     (img_waiting ins outs s \<or> (\<exists>r h. img_running ins outs r h s))"

definition ne_fits_in :: "t38_non_ecm_buffer_state \<Rightarrow> t38_non_ecm_buffer_state \<Rightarrow> bool" where
  "ne_fits_in s s' \<longleftrightarrow> ne_held s + (ne_stored s' - ne_stored s) < 16384"

lemma inject_image:
  assumes "img_ok ins outs s" "\<And>s'. t38_non_ecm_buffer_inject s buf = Some s' \<Longrightarrow> ne_fits_in s s'"
  shows "\<exists>s'. t38_non_ecm_buffer_inject s buf = Some s' \<and> img_ok (ins @ buf) outs s' \<and>
    ne_octet s' = ne_octet s \<and> ne_bit_no s' = ne_bit_no s"
proof -
  have "ne_valid s" using assms(1) queue_valid by (auto simp: img_ok_def img_waiting_def img_running_def)
  then obtain s' where s': "t38_non_ecm_buffer_inject s buf = Some s'" "ne_grown s s'"
    using inject_grown by blast
  have fits: "ne_held s + (ne_stored s' - ne_stored s) < 16384"
    using assms(2) [OF s'(1)] by (simp add: ne_fits_in_def)
  have "img_waiting (ins @ buf) outs s' \<or> (\<exists>r h. img_running (ins @ buf) outs r h s')"
  proof (cases "ne_input_phase s = IMAGE_IN_PROGRESS")
    case True
    then obtain r h where run: "img_running ins outs r h s"
      using assms(1) by (auto simp: img_ok_def img_waiting_def)
    have "ne_put_image s buf = Some s'" using True s'(1) by (simp add: t38_non_ecm_buffer_inject_def)
    moreover have "int (length (r @ h)) + (ne_stored s' - ne_stored s) < 16384"
    proof -
      have "ne_queue s r h" using run by (simp add: img_running_def)
      from queue_held [OF this] fits show ?thesis by simp
    qed
    ultimately show ?thesis using put_image_running run by blast
  next
    case False
    then have w: "img_waiting ins outs s" using assms(1) by (auto simp: img_ok_def img_running_def)
    then have "ne_input_phase s = IMAGE_WAITING_FOR_FIRST_EOL" by (simp add: img_waiting_def)
    then obtain t rest where t: "ne_wait_eol s buf = Some (t, rest)" "ne_put_image t rest = Some s'"
      using s'(1) by (auto simp: t38_non_ecm_buffer_inject_def split: bind_splits)
    from wait_eol_image [OF t(1) w] show ?thesis
    proof (elim disjE exE conjE)
      assume "rest = []" "img_waiting (ins @ buf) outs t"
      then show ?thesis using t(2) by simp
    next
      fix pre h assume p: "buf = pre @ rest" "img_running (ins @ pre) outs [] h t" "length h = 3"
        "ne_stored t = ne_stored s + 3"
      have "ne_held s = 0" using queue_held [of s "[]" "[]"] w by (simp add: img_waiting_def)
      then have "int (length ([] @ h)) + (ne_stored s' - ne_stored t) < 16384" using fits p by simp
      from put_image_running [OF t(2) p(2) this] show ?thesis using p(1) by auto
    qed
  qed
  with s' assms(1) show ?thesis by (auto simp: img_ok_def ne_grown_def)
qed

section \<open>Output\<close>

text \<open>The bits of the current octet that are still to be sent.\<close>

definition ne_rest :: "t38_non_ecm_buffer_state \<Rightarrow> bool list" where
  "ne_rest s = map (\<lambda>j. bit (ne_octet s) (7 - j)) [0..<nat (ne_bit_no s)]"

lemma rest_none: "ne_bit_no s \<le> 0 \<Longrightarrow> ne_rest s = []"
  by (simp add: ne_rest_def)

lemma rest_fresh: "ne_rest (s\<lparr>ne_octet := ucast b, ne_bit_no := 8\<rparr>) = msb_bits b"
  by (auto simp: ne_rest_def msb_bits_def bit_unsigned_iff)

lemma bit_7: "uint (drop_bit 7 (w :: u32) AND 1) = of_bool (bit w 7)"
proof -
  have "drop_bit 7 w AND 1 = (of_bool (bit w 7) :: u32)"
    by (rule bit_word_eqI) (auto simp: bit_and_iff bit_drop_bit_eq bit_1_iff bit_of_bool_iff)
  then show ?thesis by simp
qed

lemma shift_out:
  assumes "0 < ne_bit_no s" "ne_bit_no s \<le> 8"
  defines "s' \<equiv> s\<lparr>ne_bit_no := ne_bit_no s - 1, ne_octet := push_bit 1 (ne_octet s)\<rparr>"
  shows "ne_rest s = bit (ne_octet s) 7 # ne_rest s'"
proof -
  obtain n where n: "nat (ne_bit_no s) = Suc n" "n < 8" using assms(1,2) by (cases "nat (ne_bit_no s)") auto
  have "ne_rest s = map (\<lambda>j. bit (ne_octet s) (7 - j)) (0 # map Suc [0..<n])"
    by (simp only: ne_rest_def n(1) map_Suc_upt upt_conv_Cons [OF zero_less_Suc])
  also have "\<dots> = bit (ne_octet s) 7 # map (\<lambda>j. bit (ne_octet s) (6 - j)) [0..<n]" by simp
  also have "map (\<lambda>j. bit (ne_octet s) (6 - j)) [0..<n] = map (\<lambda>j. bit (push_bit 1 (ne_octet s)) (7 - j)) [0..<n]"
  proof (intro map_cong refl)
    fix j assume "j \<in> set [0..<n]"
    then have j: "j < n" by simp
    have "bit (push_bit 1 (ne_octet s)) (7 - j) \<longleftrightarrow> 1 \<le> 7 - j \<and> 7 - j < 32 \<and> bit (ne_octet s) (7 - j - 1)"
      by (simp only: bit_push_bit_iff possible_bit_word len_bit0 len_num1) simp
    moreover have "7 - j - 1 = 6 - j" "1 \<le> 7 - j" "7 - j < 32" using j n(2) by simp_all
    ultimately show "bit (ne_octet s) (6 - j) = bit (push_bit 1 (ne_octet s)) (7 - j)" by (simp only:) simp
  qed
  also have "\<dots> = ne_rest s'" using n(1) by (simp add: ne_rest_def s'_def nat_diff_distrib')
  finally show ?thesis .
qed

text \<open>One bit out of the current octet.\<close>

lemma get_bit_pending:
  assumes "0 < ne_bit_no s" "ne_bit_no s \<le> 8"
  shows "\<exists>b. t38_non_ecm_buffer_get_bit s =
      Some (s\<lparr>ne_bit_no := ne_bit_no s - 1, ne_octet := push_bit 1 (ne_octet s)\<rparr>, of_bool b) \<and>
    ne_rest s = b # ne_rest (s\<lparr>ne_bit_no := ne_bit_no s - 1, ne_octet := push_bit 1 (ne_octet s)\<rparr>)"
  using shift_out [OF assms] assms(1) bit_7 [of "ne_octet s"] by (simp add: t38_non_ecm_buffer_get_bit_def)

text \<open>A new octet: the next one of the queue, or fill while nothing may leave.\<close>

lemma next_octet_queue:
  assumes "ne_queue s (x # r) h"
  shows "\<exists>s1. ne_next_octet s = Some s1 \<and> ne_queue s1 r h \<and> ne_rest s1 = msb_bits x \<and> ne_bit_no s1 = 8 \<and>
    ne_keeps s s1 \<and> ne_data_finished s1 = ne_data_finished s"
proof -
  let ?s1 = "s\<lparr>ne_octet := ucast x, ne_out_ptr := (ne_out_ptr s + 1) AND 16383,
    ne_out_octets := ne_out_octets s + 1, ne_bit_no := 8\<rparr>"
  have "ne_next_octet s = Some ?s1" using queue_get [OF assms] by (simp add: ne_next_octet_def)
  moreover have "ne_queue ?s1 r h"
    using queue_get(3) [OF assms] by (simp add: ne_queue_def)
  moreover have "ne_rest ?s1 = msb_bits x" using rest_fresh [of x s] by (simp add: ne_rest_def)
  ultimately show ?thesis by (simp add: ne_keeps_def)
qed

lemma next_octet_fill:
  assumes "ne_queue s [] h"
  shows "\<exists>s1. ne_next_octet s = Some s1 \<and> ne_queue s1 [] h \<and> ne_rest s1 = msb_bits (ne_flow_control_fill_octet s) \<and>
    ne_bit_no s1 = 8 \<and> ne_keeps s s1 \<and> ne_data_finished s1 = ne_data_finished s"
proof -
  let ?s1 = "s\<lparr>ne_octet := ucast (ne_flow_control_fill_octet s),
    ne_flow_control_fill_octets := ne_flow_control_fill_octets s + 1,
    ne_out_octets := ne_out_octets s + 1, ne_bit_no := 8\<rparr>"
  have "ne_next_octet s = Some ?s1" using queue_empty [OF assms] by (simp add: ne_next_octet_def)
  moreover have "ne_rest ?s1 = msb_bits (ne_flow_control_fill_octet s)"
    using rest_fresh [of "ne_flow_control_fill_octet s" s] by (simp add: ne_rest_def)
  ultimately show ?thesis using assms by (simp add: ne_keeps_def)
qed

lemma next_octet_image:
  assumes "img_ok ins outs s"
  shows "\<exists>s1 x. ne_next_octet s = Some s1 \<and> img_ok ins (outs @ [x]) s1 \<and> ne_rest s1 = msb_bits x \<and> ne_bit_no s1 = 8"
proof -
  have nf: "\<not> ne_data_finished s" using assms by (simp add: img_ok_def)
  show ?thesis
  proof (cases "img_waiting ins outs s")
    case True
    then have w: "ne_queue s [] []" "ne_flow_control_fill_octet s = 0xFF" by (simp_all add: img_waiting_def)
    from next_octet_fill [OF w(1)] obtain s1 where
      1: "ne_next_octet s = Some s1" "ne_queue s1 [] []" "ne_rest s1 = msb_bits 0xFF" "ne_bit_no s1 = 8"
        "ne_keeps s s1" "ne_data_finished s1 = ne_data_finished s" unfolding w(2) by blast
    then have "img_waiting ins (outs @ [0xFF]) s1" using True by (auto simp: img_waiting_def ne_keeps_def)
    with 1 nf show ?thesis by (auto simp: img_ok_def)
  next
    case False
    then obtain r h where run: "img_running ins outs r h s" using assms by (auto simp: img_ok_def)
    then have w: "ne_queue s r h" "ne_flow_control_fill_octet s = 0" by (simp_all add: img_running_def)
    show ?thesis
    proof (cases r)
      case Nil
      from next_octet_fill [of s h] w Nil obtain s1 where
        1: "ne_next_octet s = Some s1" "ne_queue s1 [] h" "ne_rest s1 = msb_bits 0" "ne_bit_no s1 = 8"
          "ne_keeps s s1" "ne_data_finished s1 = ne_data_finished s" by auto
      let ?z = "pending 0 (stream_bits outs)"
      obtain t where t: "zero_runs ?z (stream_bits h) = 11 # t" using run Nil by (auto simp: img_running_def)
      have t8: "zero_runs (?z + 8) (stream_bits h) = 11 # t" by (rule runs_more_zeros [OF t])
      have p8: "pending (?z + 8) (stream_bits h) = pending ?z (stream_bits h)"
        using t by (intro pending_run) simp
      have v: "t4_view (stream_bits (outs @ [0] @ h)) = t4_view (stream_bits (outs @ h))"
        using t t8 by (simp add: t4_view_def zero_runs_append stream_bits_one)
      have "same_image (outs @ [0] @ h) ins" using run Nil v p8
        by (simp add: img_running_def same_image_def pending_append stream_bits_one)
      then have "img_running ins (outs @ [0]) [] h s1"
        using 1 run Nil v t8 by (simp add: img_running_def ne_keeps_def stream_bits_one pending_append)
      with 1 nf show ?thesis by (auto simp: img_ok_def)
    next
      case (Cons x r')
      from next_octet_queue [of s x r' h] w Cons obtain s1 where
        1: "ne_next_octet s = Some s1" "ne_queue s1 r' h" "ne_rest s1 = msb_bits x" "ne_bit_no s1 = 8"
          "ne_keeps s s1" "ne_data_finished s1 = ne_data_finished s" by auto
      have "img_running ins (outs @ [x]) r' h s1"
        using 1 run Cons by (simp add: img_running_def ne_keeps_def)
      with 1 nf show ?thesis by (auto simp: img_ok_def)
    qed
  qed
qed

section \<open>Runs of the buffer\<close>

datatype ne_op = Inject octets | Get_bit

fun ne_run :: "t38_non_ecm_buffer_state \<Rightarrow> ne_op list \<Rightarrow> (t38_non_ecm_buffer_state \<times> bool list) option" where
  "ne_run s [] = Some (s, [])"
| "ne_run s (Inject buf # ops) = do { s1 \<leftarrow> t38_non_ecm_buffer_inject s buf; ne_run s1 ops }"
| "ne_run s (Get_bit # ops) =
     do {
       (s1, b) \<leftarrow> t38_non_ecm_buffer_get_bit s;
       (s2, bs) \<leftarrow> ne_run s1 ops;
       Some (s2, (b = 1) # bs)
     }"

text \<open>The buffer never has to hold more than 16383 octets, fill included.\<close>

fun ne_run_fits :: "t38_non_ecm_buffer_state \<Rightarrow> ne_op list \<Rightarrow> bool" where
  "ne_run_fits s [] \<longleftrightarrow> True"
| "ne_run_fits s (Inject buf # ops) \<longleftrightarrow>
     (case t38_non_ecm_buffer_inject s buf of
        None \<Rightarrow> True
      | Some s1 \<Rightarrow> ne_fits_in s s1 \<and> ne_run_fits s1 ops)"
| "ne_run_fits s (Get_bit # ops) \<longleftrightarrow>
     (case t38_non_ecm_buffer_get_bit s of
        None \<Rightarrow> True
      | Some (s1, b) \<Rightarrow> ne_run_fits s1 ops)"

fun ne_injected :: "ne_op list \<Rightarrow> octets" where
  "ne_injected [] = []"
| "ne_injected (Inject buf # ops) = buf @ ne_injected ops"
| "ne_injected (Get_bit # ops) = ne_injected ops"

text \<open>Bits up to the end-of-data status, at most \<open>n\<close> calls.\<close>

fun ne_drain :: "nat \<Rightarrow> t38_non_ecm_buffer_state \<Rightarrow> (t38_non_ecm_buffer_state \<times> bool list) option" where
  "ne_drain 0 s = None"
| "ne_drain (Suc n) s =
     do {
       (s1, b) \<leftarrow> t38_non_ecm_buffer_get_bit s;
       if b = SIG_STATUS_END_OF_DATA then Some (s1, [])
       else do { (s2, bs) \<leftarrow> ne_drain n s1; Some (s2, (b = 1) # bs) }
     }"

text \<open>\<open>out\<close> is the bits sent, \<open>outs\<close> the octets they come from.\<close>

definition sent_of :: "octets \<Rightarrow> bool list \<Rightarrow> t38_non_ecm_buffer_state \<Rightarrow> bool" where
  "sent_of outs out s \<longleftrightarrow> out @ ne_rest s = stream_bits outs \<and> 0 \<le> ne_bit_no s \<and> ne_bit_no s \<le> 8"

lemma img_ok_frame: "img_ok ins outs (s\<lparr>ne_bit_no := n, ne_octet := w\<rparr>) = img_ok ins outs s"
  by (simp add: img_ok_def img_waiting_def img_running_def)

lemma get_bit_fresh:
  assumes "ne_bit_no s \<le> 0" "ne_next_octet s = Some s1" "ne_bit_no s1 = 8"
    and "ne_out_ptr s \<noteq> ne_latest_eol_ptr s \<or> \<not> ne_data_finished s"
  shows "t38_non_ecm_buffer_get_bit s = t38_non_ecm_buffer_get_bit s1"
  using assms by (auto simp: t38_non_ecm_buffer_get_bit_def)

lemma get_bit_image:
  assumes "img_ok ins outs s" "sent_of outs out s"
  shows "\<exists>s' b outs'. t38_non_ecm_buffer_get_bit s = Some (s', of_bool b) \<and> img_ok ins outs' s' \<and>
    sent_of outs' (out @ [b]) s'"
proof -
  have "\<exists>s1 outs1. t38_non_ecm_buffer_get_bit s = t38_non_ecm_buffer_get_bit s1 \<and> img_ok ins outs1 s1 \<and>
      out @ ne_rest s1 = stream_bits outs1 \<and> 0 < ne_bit_no s1 \<and> ne_bit_no s1 \<le> 8"
  proof (cases "ne_bit_no s \<le> 0")
    case True
    from next_octet_image [OF assms(1)] obtain s1 x where
      1: "ne_next_octet s = Some s1" "img_ok ins (outs @ [x]) s1" "ne_rest s1 = msb_bits x" "ne_bit_no s1 = 8"
      by blast
    have "out = stream_bits outs" using assms(2) rest_none [OF True] by (simp add: sent_of_def)
    moreover have "\<not> ne_data_finished s" using assms(1) by (simp add: img_ok_def)
    ultimately show ?thesis using get_bit_fresh [OF True 1(1,4)] 1
      by (intro exI [of _ s1] exI [of _ "outs @ [x]"]) (simp add: stream_bits_one)
  next
    case False
    then show ?thesis using assms by (intro exI [of _ s] exI [of _ outs]) (auto simp: sent_of_def)
  qed
  then obtain s1 outs1 where 1: "t38_non_ecm_buffer_get_bit s = t38_non_ecm_buffer_get_bit s1"
      "img_ok ins outs1 s1" "out @ ne_rest s1 = stream_bits outs1" "0 < ne_bit_no s1" "ne_bit_no s1 \<le> 8" by blast
  let ?s = "s1\<lparr>ne_bit_no := ne_bit_no s1 - 1, ne_octet := push_bit 1 (ne_octet s1)\<rparr>"
  obtain b where b: "t38_non_ecm_buffer_get_bit s1 = Some (?s, of_bool b)" "ne_rest s1 = b # ne_rest ?s"
    using get_bit_pending [OF 1(4,5)] by blast
  have "sent_of outs1 (out @ [b]) ?s" using 1(3-5) b(2) by (simp add: sent_of_def)
  moreover have "img_ok ins outs1 ?s" using 1(2) by (simp only: img_ok_frame)
  ultimately show ?thesis using 1(1) b(1) by (intro exI conjI) (simp only:)+
qed

lemma run_image:
  assumes "img_ok ins outs s" "sent_of outs out s" "ne_run_fits s ops"
  shows "\<exists>s' bs outs'. ne_run s ops = Some (s', bs) \<and> img_ok (ins @ ne_injected ops) outs' s' \<and>
    sent_of outs' (out @ bs) s'"
  using assms
proof (induction ops arbitrary: ins outs s out)
  case Nil
  then show ?case by auto
next
  case (Cons x ops)
  show ?case
  proof (cases x)
    case (Inject buf)
    have "ne_fits_in s s'" if "t38_non_ecm_buffer_inject s buf = Some s'" for s'
      using Cons.prems(3) Inject that by simp
    from inject_image [OF Cons.prems(1) this] obtain s1 where
      1: "t38_non_ecm_buffer_inject s buf = Some s1" "img_ok (ins @ buf) outs s1"
        "ne_octet s1 = ne_octet s" "ne_bit_no s1 = ne_bit_no s" by blast
    have "sent_of outs out s1" using Cons.prems(2) 1(3,4) by (simp add: sent_of_def ne_rest_def)
    from Cons.IH [OF 1(2) this] Cons.prems(3) Inject 1(1) show ?thesis by simp
  next
    case Get_bit
    from get_bit_image [OF Cons.prems(1,2)] obtain s1 b outs1 where
      1: "t38_non_ecm_buffer_get_bit s = Some (s1, of_bool b)" "img_ok ins outs1 s1" "sent_of outs1 (out @ [b]) s1"
      by blast
    have "ne_run_fits s1 ops" using Cons.prems(3) Get_bit 1(1) by simp
    from Cons.IH [OF 1(2,3) this] obtain s' bs outs' where
      2: "ne_run s1 ops = Some (s', bs)" "img_ok (ins @ ne_injected ops) outs' s'" "sent_of outs' ((out @ [b]) @ bs) s'"
      by blast
    have "ne_run s (x # ops) = Some (s', b # bs)" using Get_bit 1(1) 2(1) by simp
    with 2(2,3) Get_bit show ?thesis by (intro exI [of _ s'] exI [of _ "b # bs"] exI [of _ outs']) simp
  qed
qed

text \<open>After the last input everything that is held leaves, and then the end is reported.\<close>

lemma drain_queue:
  assumes "ne_queue s r []" "ne_data_finished s" "0 \<le> ne_bit_no s" "ne_bit_no s \<le> 8"
    and "8 * length r + nat (ne_bit_no s) < n"
  shows "\<exists>s'. ne_drain n s = Some (s', ne_rest s @ stream_bits r)"
  using assms
proof (induction n arbitrary: s r)
  case (Suc n)
  have pend: "\<exists>s'. ne_drain (Suc n) s1 = Some (s', ne_rest s1 @ stream_bits r')"
    if a: "ne_queue s1 r' []" "ne_data_finished s1" "0 < ne_bit_no s1" "ne_bit_no s1 \<le> 8"
      "8 * length r' + nat (ne_bit_no s1) < Suc n" for s1 r'
  proof -
    let ?t = "s1\<lparr>ne_bit_no := ne_bit_no s1 - 1, ne_octet := push_bit 1 (ne_octet s1)\<rparr>"
    obtain b where b: "t38_non_ecm_buffer_get_bit s1 = Some (?t, of_bool b)" "ne_rest s1 = b # ne_rest ?t"
      using get_bit_pending [OF a(3,4)] by blast
    have "ne_queue ?t r' []" "ne_data_finished ?t" "0 \<le> ne_bit_no ?t" "ne_bit_no ?t \<le> 8"
        "8 * length r' + nat (ne_bit_no ?t) < n"
      using a by (simp_all add: nat_diff_distrib')
    from Suc.IH [OF this] obtain s' where "ne_drain n ?t = Some (s', ne_rest ?t @ stream_bits r')" by blast
    with b show ?thesis by (simp add: SIG_STATUS_END_OF_DATA_def)
  qed
  show ?case
  proof (cases "ne_bit_no s \<le> 0")
    case True
    show ?thesis
    proof (cases r)
      case Nil
      then have "ne_out_ptr s = ne_latest_eol_ptr s" using queue_empty Suc.prems(1) by simp
      then show ?thesis using True Suc.prems(2) Nil rest_none [OF True]
        by (simp add: t38_non_ecm_buffer_get_bit_def)
    next
      case (Cons x r')
      from next_octet_queue [of s x r' "[]"] Suc.prems(1) Cons obtain s1 where
        1: "ne_next_octet s = Some s1" "ne_queue s1 r' []" "ne_rest s1 = msb_bits x" "ne_bit_no s1 = 8"
          "ne_data_finished s1 = ne_data_finished s" by auto
      have "ne_out_ptr s \<noteq> ne_latest_eol_ptr s" using queue_get(1) Suc.prems(1) Cons by blast
      then have g: "t38_non_ecm_buffer_get_bit s = t38_non_ecm_buffer_get_bit s1"
        using get_bit_fresh [OF True 1(1,4)] by simp
      then have "ne_drain (Suc n) s = ne_drain (Suc n) s1" by simp
      moreover from pend [OF 1(2)] 1 Suc.prems(2,5) Cons obtain s' where
        "ne_drain (Suc n) s1 = Some (s', ne_rest s1 @ stream_bits r')" by auto
      ultimately show ?thesis using 1(3) Cons rest_none [OF True] by simp
    qed
  qed (use pend [OF Suc.prems(1,2)] Suc.prems in auto)
qed simp

lemma init_image:
  assumes "t38_non_ecm_buffer_init have_s malloc_ok mode bits = Some s" "mode \<noteq> 0"
  shows "img_ok [] [] s" "sent_of [] [] s"
  using assms
  by (auto simp: t38_non_ecm_buffer_init_def restart_buffer_def img_ok_def img_waiting_def ne_queue_def ne_blank_def
      stream_at_0 sent_of_def ne_rest_def split: if_splits)

text \<open>
  Property C11. However the injection of image octets and the fetching of bits
  interleave, as long as the buffer never has to hold more than 16383 octets: every
  operation stays within the ring, after the push everything leaves and the end is
  reported, and a fax decoder that takes eleven or more zeros and a one for an end of
  line sees in the bits sent exactly the lines and runs of the octets injected, from the
  first end of line on.
\<close>

theorem image_survives_rate_adaption:
  assumes "t38_non_ecm_buffer_init have_s malloc_ok mode min_bits_per_row = Some s" "mode \<noteq> 0"
    and "ne_run_fits s ops"
  shows "\<exists>s' out s'' rest. ne_run s ops = Some (s', out) \<and>
    ne_drain (8 * 16384 + 1) (t38_non_ecm_buffer_push s') = Some (s'', rest) \<and>
    t4_view (out @ rest) = t4_view (stream_bits (ne_injected ops))"
proof -
  from run_image [OF init_image [OF assms(1,2)] assms(3)] obtain s' out outs where
    1: "ne_run s ops = Some (s', out)" "img_ok (ne_injected ops) outs s'" "sent_of outs out s'" by auto
  obtain r h where q: "ne_queue s' r h"
    and v: "t4_view (stream_bits (outs @ r @ h)) = t4_view (stream_bits (ne_injected ops))"
  proof (cases "img_waiting (ne_injected ops) outs s'")
    case True
    then show ?thesis using ones_only [of outs]
      by (intro that [of "[]" "[]"]) (simp_all add: img_waiting_def t4_view_Nil)
  next
    case False
    then show ?thesis using 1(2) that by (auto simp: img_ok_def img_running_def same_image_def)
  qed
  let ?p = "t38_non_ecm_buffer_push s'"
  have p: "ne_queue ?p (r @ h) []" using queue_release [OF q] by (simp add: t38_non_ecm_buffer_push_def)
  have f: "ne_data_finished ?p" "ne_bit_no ?p = ne_bit_no s'" "ne_rest ?p = ne_rest s'"
    by (simp_all add: t38_non_ecm_buffer_push_def ne_rest_def)
  have "length (r @ h) < 16384" using q by (simp add: ne_queue_def)
  moreover have n: "0 \<le> ne_bit_no s'" "ne_bit_no s' \<le> 8" using 1(3) by (simp_all add: sent_of_def)
  ultimately have "8 * length (r @ h) + nat (ne_bit_no ?p) < 8 * 16384 + 1" unfolding f(2) by simp
  from drain_queue [OF p f(1) _ _ this] n f(2,3) obtain s'' where
    "ne_drain (8 * 16384 + 1) ?p = Some (s'', ne_rest s' @ stream_bits (r @ h))" by auto
  moreover have e: "out @ (ne_rest s' @ stream_bits (r @ h)) = stream_bits (outs @ r @ h)"
    using 1(3) by (simp add: sent_of_def)
  have "t4_view (out @ (ne_rest s' @ stream_bits (r @ h))) = t4_view (stream_bits (ne_injected ops))"
    unfolding e by (rule v)
  ultimately show ?thesis using 1(1) by blast
qed

theorem image_survives_rate_adaption_witness:
  "\<exists>s s' out s'' rest. t38_non_ecm_buffer_init True True 1 0 = Some s \<and>
     ne_run s [Get_bit, Inject [0xFF, 0x00, 0x08, 0xA5], Get_bit, Inject [0x10, 0x00, 0x80]] = Some (s', out) \<and>
     ne_drain (8 * 16384 + 1) (t38_non_ecm_buffer_push s') = Some (s'', rest) \<and>
     t4_view (out @ rest) = [11, 3, 1, 2, 1, 3, 11]"
proof -
  let ?ops = "[Get_bit, Inject [0xFF, 0x00, 0x08, 0xA5], Get_bit, Inject [0x10, 0x00, 0x80]]"
  define s where "s = the (t38_non_ecm_buffer_init True True 1 0)"
  have s: "t38_non_ecm_buffer_init True True 1 0 = Some s"
    by (simp add: t38_non_ecm_buffer_init_def s_def)
  have blank: "length ne_blank = 16384" by (simp add: ne_blank_def)
  have lower: "ne_lower 0xFF = 7" "ne_lower 8 = 3" "ne_lower 0xA5 = 7" "ne_lower 0x10 = 4" "ne_lower 0x80 = 7"
    by (simp_all add: ne_lower_def top_bit_def top_bit_step_def)
  have bottom: "bottom_bit 0xFFFF = 0" "bottom_bit 0xFFFFFF00 = 8" "bottom_bit 0xFFFFFF0808 = 3"
      "bottom_bit 0xFFFFFF0008A5 = 0" "bottom_bit 0xFFFFFF0008A51800 = 11"
    by (simp_all add: bottom_bit_def bottom_bit_step_def)
  have "ne_run_fits s ?ops"
    by (simp add: s_def blank lower bottom t38_non_ecm_buffer_init_def restart_buffer_def t38_non_ecm_buffer_get_bit_def
        ne_next_octet_def t38_non_ecm_buffer_inject_def ne_is_eol_def ne_shift_in_def ne_store_def arr_set_def
        ne_end_row_def ne_fill_row.simps Let_def ne_fits_in_def ne_held_def ne_stored_def)
  from image_survives_rate_adaption [OF s _ this] obtain s' out s'' rest where
    "ne_run s ?ops = Some (s', out)" "ne_drain (8 * 16384 + 1) (t38_non_ecm_buffer_push s') = Some (s'', rest)"
    "t4_view (out @ rest) = t4_view (stream_bits (ne_injected ?ops))" by auto
  moreover have "t4_view (stream_bits (ne_injected ?ops)) = [11, 3, 1, 2, 1, 3, 11]"
    by (simp add: t4_view_def stream_bits_def msb_bits_def upt_rec)
  ultimately show ?thesis using s by metis
qed

end
