(* ===== verification/Gateway_Control.thy ===== *)
theory Gateway_Control
  imports T38_Gateway
begin

text \<open>
  The T.38 to modem side of \<^verbatim>\<open>spandsp/spandsp-0.0.6/src/t38_gateway.c\<close>, first part: its
  state, the editing of T.30 control messages as they pass, and what the gateway learns
  from them. What it asks of the modem side is returned as a list of calls, in order.
\<close>

abbreviation (input) T38_MAX_HDLC_LEN :: nat where "T38_MAX_HDLC_LEN \<equiv> 260"
abbreviation (input) T38_TX_HDLC_BUFS :: int where "T38_TX_HDLC_BUFS \<equiv> 256"
abbreviation (input) HDLC_START_BUFFER_LEVEL :: int where "HDLC_START_BUFFER_LEVEL \<equiv> 8"

abbreviation (input) HDLC_FLAG_FINISHED :: int where "HDLC_FLAG_FINISHED \<equiv> 0x01"
abbreviation (input) HDLC_FLAG_CORRUPT_CRC :: int where "HDLC_FLAG_CORRUPT_CRC \<equiv> 0x02"
abbreviation (input) HDLC_FLAG_PROCEED_WITH_OUTPUT :: int where "HDLC_FLAG_PROCEED_WITH_OUTPUT \<equiv> 0x04"
abbreviation (input) HDLC_FLAG_MISSING_DATA :: int where "HDLC_FLAG_MISSING_DATA \<equiv> 0x08"
abbreviation (input) FLAG_INDICATOR :: int where "FLAG_INDICATOR \<equiv> 0x100"
abbreviation (input) FLAG_DATA :: int where "FLAG_DATA \<equiv> 0x200"

abbreviation (input) DISBIT3 :: u8 where "DISBIT3 \<equiv> 0x04"
abbreviation (input) DISBIT4 :: u8 where "DISBIT4 \<equiv> 0x08"
abbreviation (input) DISBIT5 :: u8 where "DISBIT5 \<equiv> 0x10"
abbreviation (input) DISBIT6 :: u8 where "DISBIT6 \<equiv> 0x20"
abbreviation (input) DISBIT7 :: u8 where "DISBIT7 \<equiv> 0x40"

abbreviation (input) T30_DIS :: u8 where "T30_DIS \<equiv> 0x80"
abbreviation (input) T30_NSF :: u8 where "T30_NSF \<equiv> 0x20"
abbreviation (input) T30_NSC :: u8 where "T30_NSC \<equiv> 0x21"
abbreviation (input) T30_NSS :: u8 where "T30_NSS \<equiv> 0x22"
abbreviation (input) T30_DTC :: u8 where "T30_DTC \<equiv> 0x81"
abbreviation (input) T30_DCS :: u8 where "T30_DCS \<equiv> 0x82"
abbreviation (input) T30_CFR :: u8 where "T30_CFR \<equiv> 0x84"
abbreviation (input) T30_CTR :: u8 where "T30_CTR \<equiv> 0xC4"
abbreviation (input) T30_EOM :: u8 where "T30_EOM \<equiv> 0x8E"
abbreviation (input) T30_MPS :: u8 where "T30_MPS \<equiv> 0x4E"
abbreviation (input) T30_EOP :: u8 where "T30_EOP \<equiv> 0x2E"
abbreviation (input) T30_PRI_EOM :: u8 where "T30_PRI_EOM \<equiv> 0x9E"
abbreviation (input) T30_PRI_MPS :: u8 where "T30_PRI_MPS \<equiv> 0x5E"
abbreviation (input) T30_PRI_EOP :: u8 where "T30_PRI_EOP \<equiv> 0x3E"
abbreviation (input) T30_EOS :: u8 where "T30_EOS \<equiv> 0x1E"
abbreviation (input) T30_PPS :: u8 where "T30_PPS \<equiv> 0xBE"
abbreviation (input) T30_MCF :: u8 where "T30_MCF \<equiv> 0x8C"
abbreviation (input) T30_RTP :: u8 where "T30_RTP \<equiv> 0xCC"
abbreviation (input) T30_RTN :: u8 where "T30_RTN \<equiv> 0x4C"

section \<open>State\<close>

record t38_gateway_hdlc_buf =
  hb_buf :: octets
  hb_len :: nat
  hb_flags :: int
  hb_contents :: int

text \<open>The transmit handlers: the tone generators and the modems.\<close>

datatype tx_source = Silence_gen | Tone_gen | Connect_tones_tx | Fsk_tx | V27ter_tx | V29_tx | V17_tx

text \<open>Where a fast modem takes its bits from.\<close>

datatype bit_source = From_hdlc | From_image_buffer

datatype field_class = T38_FIELD_CLASS_NONE | T38_FIELD_CLASS_HDLC | T38_FIELD_CLASS_NON_ECM

text \<open>
  The rest of \<open>t38_gateway_state_s\<close> that this side uses, on top of the fields of
  \<open>t38_gateway_state\<close>. The two values of \<open>corrupt_current_frame\<close> are for frames from the
  T.38 side and from the modem.
\<close>

record gateway_rx_state = t38_gateway_state +
  corrupt_current_frame :: "bool \<times> bool"
  current_rx_field_class :: field_class
  image_data_mode :: bool
  min_row_bits :: int
  count_page_on_mcf :: bool
  pages_confirmed :: int
  ecm_mode :: bool
  fast_rx_modem :: fast_rx
  hdlc_bufs :: "t38_gateway_hdlc_buf list"
  hdlc_in :: int
  hdlc_out :: int
  tx_handler :: tx_source
  next_tx_handler :: "tx_source option"
  tx_bit_rate :: int
  in_progress_rx_indicator :: int

text \<open>
  What the gateway asks of its modem side: \<open>hdlc_tx_frame\<close> (without octets to shut down),
  \<open>hdlc_tx_corrupt_frame\<close>, \<open>hdlc_tx_init\<close>, \<open>hdlc_tx_flags\<close>, the operations of the image
  buffer, a restart of the receiving modem, the callback for whole frames, switching
  reception on or off, and starting the generators and modems that transmit: silence set or
  extended by a number of samples, a connect tone, the V.21 modem, or a fast modem with its
  rate, its extra argument (\<open>Some\<close> for V.17, short training) and its source of bits.
\<close>

datatype modem_call =
    Tx_frame octets
  | Tx_corrupt_frame
  | Image_report
  | Image_set_mode bool int
  | Image_inject octets
  | Image_push
  | Restart_rx_modem
  | Real_time_frame bool octets
  | Tx_init
  | Tx_flags int
  | Rx_active bool
  | Silence_set int
  | Silence_alter int
  | Connect_tone int
  | V21_tx_init
  | Fast_tx_restart tx_source int "bool option" bit_source

section \<open>Editing control messages\<close>

definition nsx_overwrite :: octets where
  "nsx_overwrite = [0xFF, 0, 0, 0, 0, 0, 0, 0, 0, 0]"

definition of_direction :: "bool \<Rightarrow> 'a \<times> 'a \<Rightarrow> 'a" where
  "of_direction from_modem p = (if from_modem then snd p else fst p)"

definition set_corrupt :: "gateway_rx_state \<Rightarrow> bool \<Rightarrow> bool \<Rightarrow> gateway_rx_state" where
  "set_corrupt s from_modem v =
     s\<lparr>corrupt_current_frame :=
        (if from_modem then (fst (corrupt_current_frame s), v) else (v, snd (corrupt_current_frame s)))\<rparr>"

text \<open>The modem types of a DIS frame, cut to those that are supported.\<close>

definition constrain_modems :: "int \<Rightarrow> u8 \<Rightarrow> u8" where
  "constrain_modems supported b =
     (let v29 = (\<lambda>b. if supported AND T30_SUPPORT_V29 = 0 then b AND NOT DISBIT3 else b);
          v17 = (\<lambda>b. if supported AND T30_SUPPORT_V17 = 0 then b AND NOT DISBIT6 else b);
          m = b AND (DISBIT6 OR DISBIT5 OR DISBIT4 OR DISBIT3) in
      if m = 0 \<or> m = DISBIT4 then b
      else if m = DISBIT3 \<or> m = (DISBIT4 OR DISBIT3) then v29 b
      else if m = (DISBIT6 OR DISBIT4 OR DISBIT3) then v29 (v17 b)
      else (b AND NOT (DISBIT6 OR DISBIT5)) OR (DISBIT4 OR DISBIT3))"

text \<open>
  \<open>edit_control_messages\<close> on the first \<open>len\<close> octets of \<open>buf\<close>, \<open>None\<close> for a read or write
  outside an array.
\<close>

definition edit_control_messages ::
    "gateway_rx_state \<Rightarrow> bool \<Rightarrow> octets \<Rightarrow> int \<Rightarrow> (gateway_rx_state \<times> octets) option" where
  "edit_control_messages s from_modem buf len =
     (if of_direction from_modem (corrupt_current_frame s) then
        (if len \<le> of_direction from_modem (suppress_nsx_len s) then
           do {
             v \<leftarrow> arr_get nsx_overwrite (len - 4);
             buf' \<leftarrow> arr_set buf (len - 1) v;
             Some (s, buf')
           }
         else Some (s, buf))
      else if len = 3 then
        do {
          ft \<leftarrow> arr_get buf 2;
          Some (if (ft = T30_NSF \<or> ft = T30_NSC \<or> ft = T30_NSS) \<and>
                   of_direction from_modem (suppress_nsx_len s) \<noteq> 0
                then (set_corrupt s from_modem True, buf) else (s, buf))
        }
      else if len = 4 then
        do {
          ft \<leftarrow> arr_get buf 2;
          b \<leftarrow> arr_get buf 3;
          buf' \<leftarrow> (if ft = T30_DIS then arr_set buf 3 (b AND NOT DISBIT6) else Some buf);
          Some (s, buf')
        }
      else if len = 5 then
        do {
          ft \<leftarrow> arr_get buf 2;
          b \<leftarrow> arr_get buf 4;
          buf' \<leftarrow> (if ft = T30_DIS then arr_set buf 4 (constrain_modems (supported_modems s) b) else Some buf);
          Some (s, buf')
        }
      else if len = 7 then
        do {
          ft \<leftarrow> arr_get buf 2;
          b \<leftarrow> arr_get buf 6;
          buf' \<leftarrow> (if ft = T30_DIS \<and> ecm_allowed s = 0 then arr_set buf 6 (b AND NOT (DISBIT3 OR DISBIT7))
                   else Some buf);
          Some (s, buf')
        }
      else Some (s, buf))"

text \<open>The loop over the octets that have just arrived: lengths \<open>n + 1\<close> to \<open>n + k\<close>.\<close>

fun edit_octets ::
    "gateway_rx_state \<Rightarrow> bool \<Rightarrow> octets \<Rightarrow> int \<Rightarrow> nat \<Rightarrow> (gateway_rx_state \<times> octets) option" where
  "edit_octets s from_modem buf n 0 = Some (s, buf)"
| "edit_octets s from_modem buf n (Suc k) =
     do {
       (s', buf') \<leftarrow> edit_control_messages s from_modem buf (n + 1);
       edit_octets s' from_modem buf' (n + 1) k
     }"

section \<open>Monitoring control messages\<close>

text \<open>The linear scan of \<open>modem_codes\<close>; its last entry has no rate.\<close>

definition modem_codes :: "(int \<times> fast_rx \<times> u8) list" where
  "modem_codes =
     [(14400, T38_V17_RX, DISBIT6), (12000, T38_V17_RX, DISBIT6 OR DISBIT4),
      (9600, T38_V17_RX, DISBIT6 OR DISBIT3), (9600, T38_V29_RX, DISBIT3),
      (7200, T38_V17_RX, DISBIT6 OR DISBIT4 OR DISBIT3), (7200, T38_V29_RX, DISBIT4 OR DISBIT3),
      (4800, T38_V27TER_RX, DISBIT4), (2400, T38_V27TER_RX, 0)]"

fun find_modem_code :: "(int \<times> fast_rx \<times> u8) list \<Rightarrow> u8 \<Rightarrow> int \<times> fast_rx" where
  "find_modem_code [] code = (0, T38_NONE)"
| "find_modem_code ((rate, m, c) # cs) code = (if c = code then (rate, m) else find_modem_code cs code)"

definition minimum_scan_line_times :: "int list" where
  "minimum_scan_line_times = [20, 5, 10, 0, 40, 0, 0, 0]"

text \<open>DTC and DCS announce the modem and the row length of what follows.\<close>

definition monitor_dcs :: "gateway_rx_state \<Rightarrow> bool \<Rightarrow> octets \<Rightarrow> int \<Rightarrow> gateway_rx_state option" where
  "monitor_dcs s from_modem buf len =
     do {
       let s = s\<lparr>fast_bit_rate := 0, fast_rx_modem := T38_NONE, image_data_mode := False, short_train := False\<rparr>;
       let s = (if from_modem then s\<lparr>gw_timed_mode := TIMED_MODE_TCF_PREDICTABLE_MODEM_START_BEGIN\<rparr> else s);
       s \<leftarrow> (if len \<ge> 5 then
               do {
                 b \<leftarrow> arr_get buf 4;
                 let (rate, m) = find_modem_code modem_codes (b AND (DISBIT6 OR DISBIT5 OR DISBIT4 OR DISBIT3));
                 Some (s\<lparr>fast_bit_rate := rate, fast_rx_modem := (if from_modem then m else fast_rx_modem s)\<rparr>)
               }
             else Some s);
       s \<leftarrow> (if len \<ge> 6 then
               do {
                 b \<leftarrow> arr_get buf 5;
                 t \<leftarrow> arr_get minimum_scan_line_times (uint (drop_bit 4 (b AND (DISBIT7 OR DISBIT6 OR DISBIT5))));
                 Some (s\<lparr>min_row_bits := (fast_bit_rate s * t) div 1000\<rparr>)
               }
             else Some (s\<lparr>min_row_bits := 0\<rparr>));
       if len \<ge> 7 then do { b \<leftarrow> arr_get buf 6; Some (s\<lparr>ecm_mode := (b AND DISBIT3 \<noteq> 0)\<rparr>) }
       else Some (s\<lparr>ecm_mode := False\<rparr>)
     }"

definition is_page_end :: "u8 \<Rightarrow> bool" where
  "is_page_end b \<longleftrightarrow> b \<in> set [T30_EOP, T30_PRI_EOP, T30_EOM, T30_PRI_EOM, T30_EOS, T30_MPS, T30_PRI_MPS]"

text \<open>
  \<open>monitor_control_messages\<close> on a whole frame. The frame type is read for the trace before
  the length is checked.
\<close>

definition monitor_control_messages ::
    "gateway_rx_state \<Rightarrow> bool \<Rightarrow> octets \<Rightarrow> int \<Rightarrow> (gateway_rx_state \<times> modem_call list) option" where
  "monitor_control_messages s from_modem buf len =
     do {
       ft \<leftarrow> arr_get buf 2;
       if len < 3 then Some (s, [])
       else
         (let s = s\<lparr>gw_timed_mode := TIMED_MODE_IDLE\<rparr> in
          if ft = T30_CFR then
            Some (s\<lparr>image_data_mode := True, short_train := True\<rparr>, if from_modem then [] else [Restart_rx_modem])
          else if ft = T30_RTN \<or> ft = T30_RTP then
            Some (s\<lparr>image_data_mode := False, short_train := False\<rparr>, [])
          else if ft = T30_CTR then Some (s\<lparr>short_train := False\<rparr>, [])
          else if ft = T30_DTC \<or> ft = T30_DCS \<or> ft = (T30_DCS OR 1) then
            map_option (\<lambda>s. (s, [])) (monitor_dcs s from_modem buf len)
          else if ft = T30_PPS \<or> ft = (T30_PPS OR 1) then
            do {
              b \<leftarrow> arr_get buf 3;
              Some (if is_page_end (b AND 0xFE) then s\<lparr>count_page_on_mcf := True\<rparr> else s, [])
            }
          else if is_page_end (ft AND 0xFE) then Some (s\<lparr>count_page_on_mcf := True\<rparr>, [])
          else if ft = T30_MCF \<or> ft = (T30_MCF OR 1) then
            Some (if count_page_on_mcf s
                  then s\<lparr>pages_confirmed := pages_confirmed s + 1, count_page_on_mcf := False\<rparr> else s, [])
          else Some (s, []))
     }"

end
