(* ===== verification/Gateway_Rx.thy ===== *)
theory Gateway_Rx
  imports Gateway_Control
begin

text \<open>
  The T.38 to modem side of \<^verbatim>\<open>t38_gateway.c\<close>, second part: the handlers the T.38 core calls
  for indicators, missing packets and data fields, the ring of 256 HDLC buffers they fill,
  and the handler that takes the next buffer when the modem runs out of data.
\<close>

abbreviation (input) T38_IND_NO_SIGNAL :: int where "T38_IND_NO_SIGNAL \<equiv> 0"
abbreviation (input) T38_DATA_NONE :: int where "T38_DATA_NONE \<equiv> -1"
abbreviation (input) T38_DATA_V21 :: int where "T38_DATA_V21 \<equiv> 0"
abbreviation (input) T38_DATA_V34_PRI_RATE :: int where "T38_DATA_V34_PRI_RATE \<equiv> 10"
abbreviation (input) T38_FIELD_HDLC_DATA :: int where "T38_FIELD_HDLC_DATA \<equiv> 0"
abbreviation (input) T38_FIELD_HDLC_SIG_END :: int where "T38_FIELD_HDLC_SIG_END \<equiv> 1"
abbreviation (input) T38_FIELD_HDLC_FCS_OK :: int where "T38_FIELD_HDLC_FCS_OK \<equiv> 2"
abbreviation (input) T38_FIELD_HDLC_FCS_BAD :: int where "T38_FIELD_HDLC_FCS_BAD \<equiv> 3"
abbreviation (input) T38_FIELD_HDLC_FCS_OK_SIG_END :: int where "T38_FIELD_HDLC_FCS_OK_SIG_END \<equiv> 4"
abbreviation (input) T38_FIELD_HDLC_FCS_BAD_SIG_END :: int where "T38_FIELD_HDLC_FCS_BAD_SIG_END \<equiv> 5"
abbreviation (input) T38_FIELD_T4_NON_ECM_DATA :: int where "T38_FIELD_T4_NON_ECM_DATA \<equiv> 6"
abbreviation (input) T38_FIELD_V34RATE :: int where "T38_FIELD_V34RATE \<equiv> 11"

section \<open>The ring of HDLC buffers\<close>

definition next_hdlc_buf :: "int \<Rightarrow> int" where
  "next_hdlc_buf i = (if i + 1 \<ge> T38_TX_HDLC_BUFS then 0 else i + 1)"

definition in_buf :: "gateway_rx_state \<Rightarrow> t38_gateway_hdlc_buf option" where
  "in_buf s = arr_get (hdlc_bufs s) (hdlc_in s)"

definition put_in_buf :: "gateway_rx_state \<Rightarrow> t38_gateway_hdlc_buf \<Rightarrow> gateway_rx_state option" where
  "put_in_buf s b = map_option (\<lambda>bs. s\<lparr>hdlc_bufs := bs\<rparr>) (arr_set (hdlc_bufs s) (hdlc_in s) b)"

definition set_in_flag :: "gateway_rx_state \<Rightarrow> int \<Rightarrow> gateway_rx_state option" where
  "set_in_flag s f = do { b \<leftarrow> in_buf s; put_in_buf s (b\<lparr>hb_flags := hb_flags b OR f\<rparr>) }"

definition clear_buf :: "t38_gateway_hdlc_buf \<Rightarrow> t38_gateway_hdlc_buf" where
  "clear_buf b = b\<lparr>hb_len := 0, hb_flags := 0, hb_contents := 0\<rparr>"

text \<open>\<open>finalise_hdlc_frame\<close>: the frame is complete; on to the next buffer, which is cleared.\<close>

definition finalise_hdlc_frame ::
    "gateway_rx_state \<Rightarrow> bool \<Rightarrow> (gateway_rx_state \<times> modem_call list) option" where
  "finalise_hdlc_frame s good_fcs =
     do {
       b \<leftarrow> in_buf s;
       let b1 = (if \<not> good_fcs \<or> hb_flags b AND HDLC_FLAG_MISSING_DATA \<noteq> 0
                 then b\<lparr>hb_flags := hb_flags b OR HDLC_FLAG_CORRUPT_CRC\<rparr> else b);
       let calls = (if hdlc_in s = hdlc_out s then
                      (if hb_flags b1 AND HDLC_FLAG_PROCEED_WITH_OUTPUT = 0
                       then [Tx_frame (take (hb_len b1) (hb_buf b1))] else []) @
                      (if hb_flags b1 AND HDLC_FLAG_CORRUPT_CRC \<noteq> 0 then [Tx_corrupt_frame] else [])
                    else []);
       s \<leftarrow> put_in_buf s (b1\<lparr>hb_flags := hb_flags b1 OR (HDLC_FLAG_PROCEED_WITH_OUTPUT OR HDLC_FLAG_FINISHED)\<rparr>);
       let s = s\<lparr>hdlc_in := next_hdlc_buf (hdlc_in s)\<rparr>;
       b2 \<leftarrow> in_buf s;
       s \<leftarrow> put_in_buf s (clear_buf b2);
       Some (s, calls)
     }"

text \<open>
  \<open>hdlc_underflow_handler\<close>: the modem has sent what it had. The buffer in progress is
  done; the next one shuts the modem down, or is sent, or is waited for.
\<close>

definition hdlc_underflow_handler :: "gateway_rx_state \<Rightarrow> (gateway_rx_state \<times> modem_call list) option" where
  "hdlc_underflow_handler s =
     do {
       b \<leftarrow> arr_get (hdlc_bufs s) (hdlc_out s);
       if hb_flags b AND HDLC_FLAG_PROCEED_WITH_OUTPUT \<noteq> 0 then
         do {
           bs \<leftarrow> arr_set (hdlc_bufs s) (hdlc_out s) (clear_buf b);
           let s = s\<lparr>hdlc_bufs := bs, hdlc_out := next_hdlc_buf (hdlc_out s)\<rparr>;
           n \<leftarrow> arr_get (hdlc_bufs s) (hdlc_out s);
           Some (s,
             if hb_contents n AND FLAG_INDICATOR \<noteq> 0 then [Tx_frame []]
             else if hb_contents n AND FLAG_DATA \<noteq> 0 \<and> hb_flags n AND HDLC_FLAG_PROCEED_WITH_OUTPUT \<noteq> 0 then
               [Tx_frame (take (hb_len n) (hb_buf n))] @
               (if hb_flags n AND HDLC_FLAG_CORRUPT_CRC \<noteq> 0 then [Tx_corrupt_frame] else [])
             else [])
         }
       else Some (s, [])
     }"

section \<open>Indicators and missing packets\<close>

definition process_rx_missing :: "gateway_rx_state \<Rightarrow> gateway_rx_state option" where
  "process_rx_missing s = set_in_flag s HDLC_FLAG_MISSING_DATA"

definition process_rx_indicator :: "gateway_rx_state \<Rightarrow> int \<Rightarrow> (gateway_rx_state \<times> modem_call list) option" where
  "process_rx_indicator s indicator =
     (if current_rx_indicator (gw_core s) = indicator then Some (s, [Image_report])
      else do {
        let immediate = (hdlc_in s = hdlc_out s);
        b \<leftarrow> in_buf s;
        let s = (if hb_contents b \<noteq> 0 then s\<lparr>hdlc_in := next_hdlc_buf (hdlc_in s)\<rparr> else s);
        b \<leftarrow> in_buf s;
        s \<leftarrow> put_in_buf s (b\<lparr>hb_contents := indicator OR FLAG_INDICATOR\<rparr>);
        Some (s\<lparr>hdlc_in := next_hdlc_buf (hdlc_in s), current_rx_field_class := T38_FIELD_CLASS_NONE,
                gw_core := (gw_core s)\<lparr>current_rx_indicator := indicator\<rparr>\<rparr>,
              Image_report #
              (if immediate \<and> current_rx_field_class s = T38_FIELD_CLASS_HDLC then [Tx_frame []] else []))
      })"

text \<open>The indicator that should have come before data of a type, and the one tolerated instead.\<close>

definition expected_indicator :: "bool \<Rightarrow> int \<Rightarrow> int \<times> int" where
  "expected_indicator short data_type =
     (if data_type = T38_DATA_NONE then (T38_IND_NO_SIGNAL, -1)
      else if data_type = T38_DATA_V21 then (3, -1)
      else if data_type = 1 then (4, -1)
      else if data_type = 2 then (5, -1)
      else if data_type = 3 then (6, -1)
      else if data_type = 4 then (7, -1)
      else if data_type = 5 then (if short then (8, 9) else (9, 8))
      else if data_type = 6 then (if short then (10, 11) else (11, 10))
      else if data_type = 7 then (if short then (12, 13) else (13, 12))
      else if data_type = 8 then (if short then (14, 15) else (15, 14))
      else (-1, -1))"

definition queue_missing_indicator :: "gateway_rx_state \<Rightarrow> int \<Rightarrow> (gateway_rx_state \<times> modem_call list) option" where
  "queue_missing_indicator s data_type =
     (let (expected, expected_alt) = expected_indicator (short_train s) data_type;
          current = current_rx_indicator (gw_core s) in
      if expected < 0 \<or> current = expected \<or> expected_alt \<ge> 0 \<and> current = expected_alt then Some (s, [])
      else map_option (\<lambda>(s, calls). (s\<lparr>gw_core := (gw_core s)\<lparr>current_rx_indicator := expected\<rparr>\<rparr>, calls))
             (process_rx_indicator s expected))"

text \<open>Data of a type goes into the current buffer only if that holds data of the type already.\<close>

definition check_indicator :: "gateway_rx_state \<Rightarrow> int \<Rightarrow> (gateway_rx_state \<times> modem_call list) option" where
  "check_indicator s data_type =
     do {
       b \<leftarrow> in_buf s;
       if hb_contents b \<noteq> (data_type OR FLAG_DATA) then queue_missing_indicator s data_type else Some (s, [])
     }"

section \<open>Data fields\<close>

definition bit_reverse8 :: "u8 \<Rightarrow> u8" where
  "bit_reverse8 x =
     (let x = drop_bit 4 x OR push_bit 4 x;
          x = drop_bit 2 (x AND 0xCC) OR push_bit 2 (x AND 0x33)
      in drop_bit 1 (x AND 0xAA) OR push_bit 1 (x AND 0x55))"

definition bit_reverse_to :: "octets \<Rightarrow> nat \<Rightarrow> octets \<Rightarrow> octets option" where
  "bit_reverse_to buf at octs =
     (if at + length octs \<le> length buf
      then Some (take at buf @ map bit_reverse8 octs @ drop (at + length octs) buf) else None)"

definition set_field_class :: "gateway_rx_state \<Rightarrow> field_class \<Rightarrow> gateway_rx_state" where
  "set_field_class s c = s\<lparr>current_rx_field_class := c\<rparr>"

text \<open>The data that fits: reversed, edited if it is a control message, and perhaps sent on.\<close>

definition append_hdlc_data :: "gateway_rx_state \<Rightarrow> int \<Rightarrow> octets \<Rightarrow> (gateway_rx_state \<times> modem_call list) option" where
  "append_hdlc_data s data_type octs =
     do {
       b \<leftarrow> in_buf s;
       buf \<leftarrow> bit_reverse_to (hb_buf b) (hb_len b) octs;
       (s, buf) \<leftarrow> (if data_type = T38_DATA_V21 then edit_octets s False buf (int (hb_len b)) (length octs)
                    else Some (s, buf));
       let started = (data_type = T38_DATA_V21 \<and> int (hb_len b + length octs) \<ge> HDLC_START_BUFFER_LEVEL);
       let calls = (if started \<and> hdlc_in s = hdlc_out s then
                      (if hb_flags b AND HDLC_FLAG_PROCEED_WITH_OUTPUT = 0
                       then [Tx_frame (take (hb_len b + length octs) buf)]
                       else [Tx_frame (take (length octs) (drop (hb_len b) buf))])
                    else []);
       s \<leftarrow> put_in_buf s (b\<lparr>hb_buf := buf, hb_contents := data_type OR FLAG_DATA,
              hb_flags := (if started then hb_flags b OR HDLC_FLAG_PROCEED_WITH_OUTPUT else hb_flags b),
              hb_len := hb_len b + length octs\<rparr>);
       Some (s, calls)
     }"

definition rx_hdlc_data :: "gateway_rx_state \<Rightarrow> int \<Rightarrow> octets \<Rightarrow> (gateway_rx_state \<times> modem_call list) option" where
  "rx_hdlc_data s data_type octs =
     do {
       let s = set_field_class s T38_FIELD_CLASS_HDLC;
       b \<leftarrow> in_buf s;
       (s, calls) \<leftarrow> (if hb_contents b \<noteq> (data_type OR FLAG_DATA) then
           do {
             (s, calls) \<leftarrow> queue_missing_indicator s data_type;
             s \<leftarrow> (if octs = [] \<or> hd octs \<noteq> 0xFF then set_in_flag s HDLC_FLAG_MISSING_DATA else Some s);
             Some (s, calls)
           }
         else Some (s, []));
       b \<leftarrow> in_buf s;
       if octs = [] then Some (s, calls)
       else if hb_len b + length octs > T38_MAX_HDLC_LEN then
         map_option (\<lambda>s. (s, calls)) (set_in_flag s HDLC_FLAG_MISSING_DATA)
       else map_option (\<lambda>(s, cs). (s, calls @ cs)) (append_hdlc_data s data_type octs)
     }"

definition is_repeat :: "gateway_rx_state \<Rightarrow> int \<Rightarrow> int \<Rightarrow> bool" where
  "is_repeat s data_type ft \<longleftrightarrow>
     current_rx_data_type (gw_core s) = data_type \<and> current_rx_field_type (gw_core s) = ft"

text \<open>A good frame check: \<open>sig_end\<close> for the form that also ends the signal.\<close>

definition rx_fcs_ok :: "gateway_rx_state \<Rightarrow> int \<Rightarrow> (gateway_rx_state \<times> modem_call list) option" where
  "rx_fcs_ok s data_type =
     do {
       (s, c1) \<leftarrow> check_indicator s data_type;
       b \<leftarrow> in_buf s;
       (s, c2) \<leftarrow> (if data_type = T38_DATA_V21 then
           (if hb_flags b AND HDLC_FLAG_MISSING_DATA = 0 then
              map_option (\<lambda>(s, cs). (s, cs @ [Real_time_frame False (take (hb_len b) (hb_buf b))]))
                (monitor_control_messages s False (hb_buf b) (int (hb_len b)))
            else Some (s, []))
         else Some (s\<lparr>short_train := True\<rparr>, []));
       b \<leftarrow> in_buf s;
       s \<leftarrow> put_in_buf s (b\<lparr>hb_contents := data_type OR FLAG_DATA\<rparr>);
       (s, c3) \<leftarrow> finalise_hdlc_frame s True;
       Some (s, c1 @ c2 @ c3)
     }"

definition rx_sig_end :: "gateway_rx_state \<Rightarrow> (gateway_rx_state \<times> modem_call list) option" where
  "rx_sig_end s =
     map_option (\<lambda>(s, cs). (set_field_class s T38_FIELD_CLASS_NONE, cs)) (queue_missing_indicator s T38_DATA_NONE)"

definition rx_hdlc_fcs_ok :: "gateway_rx_state \<Rightarrow> int \<Rightarrow> (gateway_rx_state \<times> modem_call list) option" where
  "rx_hdlc_fcs_ok s data_type =
     (let s = set_field_class s T38_FIELD_CLASS_HDLC in
      map_option (\<lambda>(s, cs). (set_corrupt s False False, cs))
        (if is_repeat s data_type T38_FIELD_HDLC_FCS_OK then Some (s, []) else rx_fcs_ok s data_type))"

definition rx_hdlc_fcs_ok_sig_end :: "gateway_rx_state \<Rightarrow> int \<Rightarrow> (gateway_rx_state \<times> modem_call list) option" where
  "rx_hdlc_fcs_ok_sig_end s data_type =
     (let s = set_field_class s T38_FIELD_CLASS_HDLC in
      map_option (\<lambda>(s, cs). (set_corrupt s False False, cs))
        (if is_repeat s data_type T38_FIELD_HDLC_FCS_OK_SIG_END then Some (s, [])
         else do { (s, c1) \<leftarrow> rx_fcs_ok s data_type; (s, c2) \<leftarrow> rx_sig_end s; Some (s, c1 @ c2) }))"

text \<open>A bad frame check counts only for a frame with some content.\<close>

definition finalise_bad :: "gateway_rx_state \<Rightarrow> int \<Rightarrow> (gateway_rx_state \<times> modem_call list) option" where
  "finalise_bad s data_type =
     do {
       b \<leftarrow> in_buf s;
       s \<leftarrow> put_in_buf s (b\<lparr>hb_contents := data_type OR FLAG_DATA\<rparr>);
       finalise_hdlc_frame s False
     }"

definition drop_contents :: "gateway_rx_state \<Rightarrow> (gateway_rx_state \<times> modem_call list) option" where
  "drop_contents s =
     do { b \<leftarrow> in_buf s; map_option (\<lambda>s. (s, [])) (put_in_buf s (b\<lparr>hb_contents := 0\<rparr>)) }"

definition rx_hdlc_fcs_bad :: "gateway_rx_state \<Rightarrow> int \<Rightarrow> (gateway_rx_state \<times> modem_call list) option" where
  "rx_hdlc_fcs_bad s data_type =
     (let s = set_field_class s T38_FIELD_CLASS_HDLC in
      map_option (\<lambda>(s, cs). (set_corrupt s False False, cs))
        (if is_repeat s data_type T38_FIELD_HDLC_FCS_BAD then Some (s, [])
         else do {
           b \<leftarrow> in_buf s;
           if hb_len b > 0 then
             do { (s, c1) \<leftarrow> check_indicator s data_type; (s, c2) \<leftarrow> finalise_bad s data_type; Some (s, c1 @ c2) }
           else drop_contents s
         }))"

definition rx_hdlc_fcs_bad_sig_end :: "gateway_rx_state \<Rightarrow> int \<Rightarrow> (gateway_rx_state \<times> modem_call list) option" where
  "rx_hdlc_fcs_bad_sig_end s data_type =
     (let s = set_field_class s T38_FIELD_CLASS_HDLC in
      map_option (\<lambda>(s, cs). (set_corrupt s False False, cs))
        (if is_repeat s data_type T38_FIELD_HDLC_FCS_BAD_SIG_END then Some (s, [])
         else do {
           (s, c1) \<leftarrow> check_indicator s data_type;
           b \<leftarrow> in_buf s;
           (s, c2) \<leftarrow> (if hb_len b > 0 then finalise_bad s data_type else drop_contents s);
           (s, c3) \<leftarrow> rx_sig_end s;
           Some (s, c1 @ c2 @ c3)
         }))"

definition rx_hdlc_sig_end :: "gateway_rx_state \<Rightarrow> int \<Rightarrow> (gateway_rx_state \<times> modem_call list) option" where
  "rx_hdlc_sig_end s data_type =
     map_option (\<lambda>(s, cs). (set_corrupt s False False, cs))
       (if is_repeat s data_type T38_FIELD_HDLC_SIG_END then Some (s, [])
        else do {
          (s, c1) \<leftarrow> check_indicator s data_type;
          (s, c2) \<leftarrow> (if current_rx_field_class s = T38_FIELD_CLASS_NON_ECM then Some (s, [Image_push])
                     else do { b \<leftarrow> in_buf s; map_option (\<lambda>s. (s, [])) (put_in_buf s (clear_buf b)) });
          (s, c3) \<leftarrow> rx_sig_end s;
          Some (s, c1 @ c2 @ c3)
        })"

text \<open>Image data goes to the image buffer, which is told its mode when a page begins.\<close>

definition image_mode_call :: "gateway_rx_state \<Rightarrow> modem_call list" where
  "image_mode_call s =
     (if current_rx_field_class s = T38_FIELD_CLASS_NONE
      then [Image_set_mode (image_data_mode s) (min_row_bits s)] else [])"

definition rx_non_ecm_data :: "gateway_rx_state \<Rightarrow> int \<Rightarrow> octets \<Rightarrow> (gateway_rx_state \<times> modem_call list) option" where
  "rx_non_ecm_data s data_type octs =
     (let c1 = image_mode_call s; s = set_field_class s T38_FIELD_CLASS_NON_ECM in
      map_option (\<lambda>(s, c2). (set_corrupt s False False, c1 @ c2 @ (if octs \<noteq> [] then [Image_inject octs] else [])))
        (check_indicator s data_type))"

definition rx_non_ecm_sig_end :: "gateway_rx_state \<Rightarrow> int \<Rightarrow> octets \<Rightarrow> (gateway_rx_state \<times> modem_call list) option" where
  "rx_non_ecm_sig_end s data_type octs =
     map_option (\<lambda>(s', cs). (set_corrupt s' False False, image_mode_call s @ cs))
       (if is_repeat s data_type T38_FIELD_T4_NON_ECM_SIG_END then Some (s, [])
        else if current_rx_field_class s = T38_FIELD_CLASS_NON_ECM then
          do {
            (s, c1) \<leftarrow> (if octs \<noteq> [] then
                 map_option (\<lambda>(s, cs). (s, cs @ [Image_inject octs])) (check_indicator s data_type)
               else Some (s, []));
            (s, c2) \<leftarrow> check_indicator s data_type;
            (s, c3) \<leftarrow> rx_sig_end s;
            Some (s, c1 @ c2 @ [Image_push] @ c3)
          }
        else
          do {
            (s, c1) \<leftarrow> check_indicator s data_type;
            b \<leftarrow> in_buf s;
            s \<leftarrow> put_in_buf s (clear_buf b);
            (s, c2) \<leftarrow> rx_sig_end s;
            Some (s, c1 @ c2)
          })"

text \<open>\<open>process_rx_data\<close>; \<open>buf\<close> is empty when the field has no data.\<close>

definition process_rx_data ::
    "gateway_rx_state \<Rightarrow> int \<Rightarrow> int \<Rightarrow> octets \<Rightarrow> (gateway_rx_state \<times> modem_call list) option" where
  "process_rx_data s data_type ft buf =
     (if data_type = T38_DATA_V8 then Some (s, [])
      else if data_type = T38_DATA_V34_PRI_RATE then
        (if ft = T38_FIELD_V34RATE \<and> length buf \<ge> 3
         then Some (s\<lparr>gw_core := (gw_core s)\<lparr>v34_rate := t38_v34rate_to_bps buf\<rparr>\<rparr>, [])
         else Some (s, []))
      else if ft = T38_FIELD_HDLC_DATA then rx_hdlc_data s data_type buf
      else if ft = T38_FIELD_HDLC_FCS_OK then rx_hdlc_fcs_ok s data_type
      else if ft = T38_FIELD_HDLC_FCS_BAD then rx_hdlc_fcs_bad s data_type
      else if ft = T38_FIELD_HDLC_FCS_OK_SIG_END then rx_hdlc_fcs_ok_sig_end s data_type
      else if ft = T38_FIELD_HDLC_FCS_BAD_SIG_END then rx_hdlc_fcs_bad_sig_end s data_type
      else if ft = T38_FIELD_HDLC_SIG_END then rx_hdlc_sig_end s data_type
      else if ft = T38_FIELD_T4_NON_ECM_DATA then rx_non_ecm_data s data_type buf
      else if ft = T38_FIELD_T4_NON_ECM_SIG_END then rx_non_ecm_sig_end s data_type buf
      else Some (s, []))"

text \<open>
  A call of the core, with what the core itself sets around it: the field types are
  forgotten before an indicator is handled, the indicator and the types of a field are set
  after their handler.
\<close>

definition gateway_event :: "gateway_rx_state \<Rightarrow> rx_event \<Rightarrow> (gateway_rx_state \<times> modem_call list) option" where
  "gateway_event s e =
     (case e of
        Rx_missing a b \<Rightarrow> map_option (\<lambda>s. (s, [])) (process_rx_missing s)
      | Rx_indicator ind \<Rightarrow>
          map_option (\<lambda>(s, cs). (s\<lparr>gw_core := (gw_core s)\<lparr>current_rx_indicator := ind\<rparr>\<rparr>, cs))
            (process_rx_indicator
               (s\<lparr>gw_core := (gw_core s)\<lparr>current_rx_data_type := -1, current_rx_field_type := -1\<rparr>\<rparr>) ind)
      | Rx_data d ft buf \<Rightarrow>
          map_option (\<lambda>(s, cs). (s\<lparr>gw_core := (gw_core s)\<lparr>current_rx_data_type := d, current_rx_field_type := ft\<rparr>\<rparr>, cs))
            (process_rx_data s d ft buf))"

section \<open>The next transmission\<close>

text \<open>The fast modem an indicator asks for, its rate, and for V.17 whether it trains shortly.\<close>

definition training_modem :: "int \<Rightarrow> (tx_source \<times> int \<times> bool option) option" where
  "training_modem ind =
     (if ind = 4 then Some (V27ter_tx, 2400, None)
      else if ind = 5 then Some (V27ter_tx, 4800, None)
      else if ind = 6 then Some (V29_tx, 7200, None)
      else if ind = 7 then Some (V29_tx, 9600, None)
      else if ind = 8 \<or> ind = 9 then Some (V17_tx, 7200, Some (ind = 8))
      else if ind = 10 \<or> ind = 11 then Some (V17_tx, 9600, Some (ind = 10))
      else if ind = 12 \<or> ind = 13 then Some (V17_tx, 12000, Some (ind = 12))
      else if ind = 14 \<or> ind = 15 then Some (V17_tx, 14400, Some (ind = 14))
      else None)"

text \<open>The indicators that only set a rate: those of V.8, V.34 and V.33.\<close>

definition other_rate :: "int \<Rightarrow> int option" where
  "other_rate ind =
     (if ind = 16 \<or> ind = 17 then Some 300
      else if ind = 18 then Some 1200
      else if ind = 19 then Some 33600
      else if ind = 20 then Some 0
      else if ind = 21 then Some 12000
      else if ind = 22 then Some 14400
      else None)"

definition set_tx :: "gateway_rx_state \<Rightarrow> int \<Rightarrow> tx_source \<Rightarrow> tx_source option \<Rightarrow> gateway_rx_state" where
  "set_tx s rate h next_h = s\<lparr>tx_bit_rate := rate, tx_handler := h, next_tx_handler := next_h\<rparr>"

text \<open>The switch over the indicator: what is started, and the calls that start it.\<close>

definition start_tx :: "gateway_rx_state \<Rightarrow> int \<Rightarrow> (gateway_rx_state \<times> modem_call list) option" where
  "start_tx s ind =
     (let src = (if image_data_mode s \<and> ecm_mode s then From_hdlc else From_image_buffer) in
      if ind = T38_IND_NO_SIGNAL then Some (set_tx s 0 Silence_gen None, [Rx_active True])
      else if ind = 1 then
        Some (set_tx s 0 Connect_tones_tx (Some Silence_gen), [Connect_tone 1, Silence_set 0, Rx_active True])
      else if ind = 2 then Some (set_tx s 0 Connect_tones_tx None, [Connect_tone 2, Rx_active True])
      else if ind = 3 then
        do {
          b \<leftarrow> in_buf s;
          s \<leftarrow> put_in_buf s (b\<lparr>hb_len := 0\<rparr>);
          Some (set_tx s 300 Silence_gen (Some Fsk_tx),
                [Tx_init, Tx_flags 32, Silence_alter 600, V21_tx_init, Rx_active True])
        }
      else
        (case training_modem ind of
           Some (m, rate, short) \<Rightarrow>
             Some (set_tx s rate Silence_gen (Some m), [Silence_alter 600, Fast_tx_restart m rate short src, Rx_active True])
         | None \<Rightarrow> Some (case other_rate ind of Some rate \<Rightarrow> s\<lparr>tx_bit_rate := rate\<rparr> | None \<Rightarrow> s, [])))"

text \<open>
  \<open>set_next_tx_type\<close>: a queued handler is next, then an indicator at the output of the
  ring. The last component is the C function's result.
\<close>

definition set_next_tx_type :: "gateway_rx_state \<Rightarrow> (gateway_rx_state \<times> modem_call list \<times> bool) option" where
  "set_next_tx_type s =
     (case next_tx_handler s of
        Some h \<Rightarrow>
          Some (s\<lparr>tx_handler := h, next_tx_handler := None\<rparr>,
                [Image_report, Rx_active (h = Silence_gen \<or> h = Tone_gen)], True)
      | None \<Rightarrow>
          if hdlc_in s = hdlc_out s then Some (s, [Image_report], False)
          else do {
            b \<leftarrow> arr_get (hdlc_bufs s) (hdlc_out s);
            if hb_contents b AND FLAG_INDICATOR = 0 then Some (s, [Image_report], False)
            else do {
              let ind = hb_contents b AND 0xFF;
              bs \<leftarrow> arr_set (hdlc_bufs s) (hdlc_out s) (clear_buf b);
              let s = s\<lparr>hdlc_bufs := bs, hdlc_out := next_hdlc_buf (hdlc_out s)\<rparr>;
              (s, cs) \<leftarrow> start_tx s ind;
              Some (s\<lparr>in_progress_rx_indicator := ind\<rparr>,
                    Image_report # (if image_data_mode s \<and> ecm_mode s then [Tx_init] else []) @ cs @
                      (if tx_bit_rate s > 300 then [Tx_flags (tx_bit_rate s div 40)] else []), True)
            }
          })"

text \<open>
  A run: calls of the core, the HDLC transmitter running out of data, and the transmit
  handler having nothing more to send.
\<close>

datatype gateway_step = Core_call rx_event | Modem_underflow | Handler_done

definition gateway_step :: "gateway_rx_state \<Rightarrow> gateway_step \<Rightarrow> (gateway_rx_state \<times> modem_call list) option" where
  "gateway_step s x =
     (case x of Core_call e \<Rightarrow> gateway_event s e
                 | Modem_underflow \<Rightarrow> hdlc_underflow_handler s
                 | Handler_done \<Rightarrow> map_option (\<lambda>(s, cs, ok). (s, cs)) (set_next_tx_type s))"

fun gateway_run :: "gateway_rx_state \<Rightarrow> gateway_step list \<Rightarrow> (gateway_rx_state \<times> modem_call list) option" where
  "gateway_run s [] = Some (s, [])"
| "gateway_run s (x # xs) =
     do {
       (s, c1) \<leftarrow> gateway_step s x;
       (s, c2) \<leftarrow> gateway_run s xs;
       Some (s, c1 @ c2)
     }"

definition hdlc_buf_init :: t38_gateway_hdlc_buf where
  "hdlc_buf_init = \<lparr>hb_buf = replicate 260 0, hb_len = 0, hb_flags = 0, hb_contents = 0\<rparr>"

text \<open>This side of a gateway as \<open>t38_gateway_init\<close> leaves it.\<close>

definition gateway_rx_init :: "t38_gateway_state \<Rightarrow> gateway_rx_state" where
  "gateway_rx_init gw =
     t38_gateway_state.extend gw
       \<lparr>corrupt_current_frame = (False, False), current_rx_field_class = T38_FIELD_CLASS_NONE,
        image_data_mode = False, min_row_bits = 0, count_page_on_mcf = False, pages_confirmed = 0,
        ecm_mode = False, fast_rx_modem = T38_NONE,
        hdlc_bufs = replicate 256 hdlc_buf_init,
        hdlc_in = 0, hdlc_out = 0, tx_handler = Silence_gen, next_tx_handler = None, tx_bit_rate = 0,
        in_progress_rx_indicator = 0\<rparr>"

end
