(* ===== verification/Gateway_Rx_Facts.thy ===== *)
theory Gateway_Rx_Facts
  imports Gateway_Rx
begin

text \<open>
  The invariant of the gateway's HDLC ring, and that every call of the core and every
  underflow of the modem keeps it and stays inside all arrays, unless octets arrive for a
  suppressed frame whose start is gone.
\<close>

section \<open>The invariant\<close>

definition hdlc_buf_ok :: "t38_gateway_hdlc_buf \<Rightarrow> bool" where
  "hdlc_buf_ok b \<longleftrightarrow> length (hb_buf b) = 260 \<and> hb_len b \<le> 260"

definition gw_ok :: "gateway_rx_state \<Rightarrow> bool" where
  "gw_ok s \<longleftrightarrow> length (hdlc_bufs s) = 256 \<and> 0 \<le> hdlc_in s \<and> hdlc_in s < 256 \<and>
     0 \<le> hdlc_out s \<and> hdlc_out s < 256 \<and> (\<forall>b \<in> set (hdlc_bufs s). hdlc_buf_ok b) \<and>
     fst (suppress_nsx_len s) \<le> 13 \<and> snd (suppress_nsx_len s) \<le> 13"

text \<open>Everything else in the state has no part in it.\<close>

lemma gw_ok_frame [simp]:
  "gw_ok (s\<lparr>gw_core := x1\<rparr>) = gw_ok s"
  "gw_ok (s\<lparr>fast_bit_rate := x2\<rparr>) = gw_ok s"
  "gw_ok (s\<lparr>short_train := x3\<rparr>) = gw_ok s"
  "gw_ok (s\<lparr>gw_timed_mode := x4\<rparr>) = gw_ok s"
  "gw_ok (s\<lparr>corrupt_current_frame := x5\<rparr>) = gw_ok s"
  "gw_ok (s\<lparr>current_rx_field_class := x6\<rparr>) = gw_ok s"
  "gw_ok (s\<lparr>image_data_mode := x3\<rparr>) = gw_ok s"
  "gw_ok (s\<lparr>min_row_bits := x2\<rparr>) = gw_ok s"
  "gw_ok (s\<lparr>count_page_on_mcf := x3\<rparr>) = gw_ok s"
  "gw_ok (s\<lparr>pages_confirmed := x2\<rparr>) = gw_ok s"
  "gw_ok (s\<lparr>ecm_mode := x3\<rparr>) = gw_ok s"
  "gw_ok (s\<lparr>fast_rx_modem := x7\<rparr>) = gw_ok s"
  "gw_ok (s\<lparr>tx_handler := x8\<rparr>) = gw_ok s"
  "gw_ok (s\<lparr>next_tx_handler := x9\<rparr>) = gw_ok s"
  "gw_ok (s\<lparr>tx_bit_rate := x2\<rparr>) = gw_ok s"
  "gw_ok (s\<lparr>in_progress_rx_indicator := x2\<rparr>) = gw_ok s"
  by (simp_all add: gw_ok_def)

lemma gw_ok_helpers [simp]:
  "gw_ok (set_field_class s c) = gw_ok s" "gw_ok (set_corrupt s d v) = gw_ok s"
  by (simp_all add: set_field_class_def set_corrupt_def)

lemma gw_ok_next [simp]: "gw_ok s \<Longrightarrow> gw_ok (s\<lparr>hdlc_in := next_hdlc_buf (hdlc_in s)\<rparr>)"
  by (auto simp: gw_ok_def next_hdlc_buf_def)

lemma hdlc_buf_ok_frame [simp]:
  "hdlc_buf_ok (b\<lparr>hb_flags := x\<rparr>) = hdlc_buf_ok b" "hdlc_buf_ok (b\<lparr>hb_contents := x\<rparr>) = hdlc_buf_ok b"
  by (simp_all add: hdlc_buf_ok_def)

lemma hdlc_buf_ok_clear [simp]: "hdlc_buf_ok b \<Longrightarrow> hdlc_buf_ok (clear_buf b)"
  by (simp add: hdlc_buf_ok_def clear_buf_def)

lemma gw_ok_nth:
  assumes "gw_ok s" "0 \<le> i" "i < 256"
  shows "hdlc_buf_ok (hdlc_bufs s ! nat i)"
proof -
  have "nat i < length (hdlc_bufs s)" using assms by (simp add: gw_ok_def nat_less_iff)
  then have "hdlc_bufs s ! nat i \<in> set (hdlc_bufs s)" by (rule nth_mem)
  with assms(1) show ?thesis unfolding gw_ok_def by blast
qed

lemma in_buf_ok: "gw_ok s \<Longrightarrow> \<exists>b. in_buf s = Some b \<and> hdlc_buf_ok b"
  using gw_ok_nth [of s "hdlc_in s"] by (auto simp: gw_ok_def in_buf_def arr_get_def)

lemma put_in_buf_ok:
  assumes "gw_ok s" "hdlc_buf_ok b"
  shows "\<exists>s'. put_in_buf s b = Some s' \<and> gw_ok s'"
  using assms ball_set_update [of "hdlc_bufs s" hdlc_buf_ok b "nat (hdlc_in s)"]
  by (simp add: gw_ok_def put_in_buf_def arr_set_def)

section \<open>Operations that stay within the arrays\<close>

definition good :: "(gateway_rx_state \<times> 'a) option \<Rightarrow> bool" where
  "good r \<longleftrightarrow> (\<exists>s c. r = Some (s, c) \<and> gw_ok s)"

lemma good_Some [simp]: "good (Some (s, c)) = gw_ok s"
  by (simp add: good_def)

lemma good_bind: "good r \<Longrightarrow> (\<And>s c. gw_ok s \<Longrightarrow> good (f s c)) \<Longrightarrow> good (r \<bind> (\<lambda>(s, c). f s c))"
  by (auto simp: good_def)

lemma good_map: "good r \<Longrightarrow> (\<And>s c. gw_ok s \<Longrightarrow> gw_ok (fst (f (s, c)))) \<Longrightarrow> good (map_option f r)"
  by (auto simp: good_def) (metis fst_conv prod.exhaust)

lemma good_in_buf: "gw_ok s \<Longrightarrow> (\<And>b. hdlc_buf_ok b \<Longrightarrow> good (f b)) \<Longrightarrow> good (in_buf s \<bind> f)"
  using in_buf_ok [of s] by auto

lemma good_put_in_buf:
  "gw_ok s \<Longrightarrow> hdlc_buf_ok b \<Longrightarrow> (\<And>s. gw_ok s \<Longrightarrow> good (f s)) \<Longrightarrow> good (put_in_buf s b \<bind> f)"
  using put_in_buf_ok [of s b] by auto

lemma good_put_in_buf_map:
  "gw_ok s \<Longrightarrow> hdlc_buf_ok b \<Longrightarrow> good (map_option (\<lambda>s. (s, c)) (put_in_buf s b))"
  using put_in_buf_ok [of s b] by auto

lemma good_if: "(c \<Longrightarrow> good a) \<Longrightarrow> (\<not> c \<Longrightarrow> good b) \<Longrightarrow> good (if c then a else b)"
  by simp

lemmas good_intros = good_bind good_in_buf good_put_in_buf good_put_in_buf_map good_if

lemma set_in_flag_ok: "gw_ok s \<Longrightarrow> \<exists>s'. set_in_flag s f = Some s' \<and> gw_ok s'"
  using in_buf_ok [of s] put_in_buf_ok by (fastforce simp: set_in_flag_def)

lemma good_set_in_flag: "gw_ok s \<Longrightarrow> good (map_option (\<lambda>s. (s, c)) (set_in_flag s f))"
  using set_in_flag_ok [of s f] by auto

lemma finalise_good: "gw_ok s \<Longrightarrow> good (finalise_hdlc_frame s g)"
  unfolding finalise_hdlc_frame_def Let_def by (intro good_intros) auto

text \<open>The buffer at the output is cleared and passed.\<close>

lemma pass_out_buf:
  assumes "gw_ok s"
  shows "\<exists>b. arr_get (hdlc_bufs s) (hdlc_out s) = Some b \<and> hdlc_buf_ok b \<and>
    gw_ok (s\<lparr>hdlc_bufs := (hdlc_bufs s)[nat (hdlc_out s) := clear_buf b], hdlc_out := next_hdlc_buf (hdlc_out s)\<rparr>)"
proof -
  have o: "0 \<le> hdlc_out s" "hdlc_out s < 256" "length (hdlc_bufs s) = 256" using assms by (simp_all add: gw_ok_def)
  obtain b where b: "arr_get (hdlc_bufs s) (hdlc_out s) = Some b" "hdlc_buf_ok b"
    using gw_ok_nth [OF assms o(1,2)] o by (simp add: arr_get_def)
  moreover have "gw_ok (s\<lparr>hdlc_bufs := (hdlc_bufs s)[nat (hdlc_out s) := clear_buf b],
      hdlc_out := next_hdlc_buf (hdlc_out s)\<rparr>)"
    using assms ball_set_update [of "hdlc_bufs s" hdlc_buf_ok "clear_buf b" "nat (hdlc_out s)"] b(2)
    by (auto simp: gw_ok_def next_hdlc_buf_def)
  ultimately show ?thesis by blast
qed

lemma underflow_good:
  assumes "gw_ok s"
  shows "good (hdlc_underflow_handler s)"
proof -
  have o: "0 \<le> hdlc_out s" "hdlc_out s < 256" "length (hdlc_bufs s) = 256" using assms by (simp_all add: gw_ok_def)
  obtain b where b: "arr_get (hdlc_bufs s) (hdlc_out s) = Some b" "hdlc_buf_ok b"
    and s: "gw_ok (s\<lparr>hdlc_bufs := (hdlc_bufs s)[nat (hdlc_out s) := clear_buf b],
      hdlc_out := next_hdlc_buf (hdlc_out s)\<rparr>)" (is "gw_ok ?s")
    using pass_out_buf [OF assms] by blast
  then have "0 \<le> hdlc_out ?s" "hdlc_out ?s < 256" "length (hdlc_bufs ?s) = 256" unfolding gw_ok_def by blast+
  then have n: "\<exists>n. arr_get (hdlc_bufs ?s) (hdlc_out ?s) = Some n" by (simp add: arr_get_def)
  show ?thesis
    unfolding hdlc_underflow_handler_def using assms b s n o by (auto simp: arr_set_def Let_def)
qed

lemma start_tx_good: "gw_ok s \<Longrightarrow> good (start_tx s ind)"
  unfolding start_tx_def Let_def
  by (intro good_intros) (auto simp: set_tx_def hdlc_buf_ok_def split: option.splits)

lemma next_tx_good:
  assumes "gw_ok s"
  shows "good (set_next_tx_type s)"
proof (cases "next_tx_handler s")
  case None
  have o: "0 \<le> hdlc_out s" "hdlc_out s < 256" "length (hdlc_bufs s) = 256" using assms by (simp_all add: gw_ok_def)
  obtain b where b: "arr_get (hdlc_bufs s) (hdlc_out s) = Some b"
    and s: "gw_ok (s\<lparr>hdlc_bufs := (hdlc_bufs s)[nat (hdlc_out s) := clear_buf b],
      hdlc_out := next_hdlc_buf (hdlc_out s)\<rparr>)"
    using pass_out_buf [OF assms] by blast
  have a: "arr_set (hdlc_bufs s) (hdlc_out s) (clear_buf b) = Some ((hdlc_bufs s)[nat (hdlc_out s) := clear_buf b])"
    using o by (simp add: arr_set_def)
  show ?thesis
    unfolding set_next_tx_type_def None option.case b a bind.bind_lunit Let_def
    by (intro good_if good_bind [OF start_tx_good [OF s]]) (simp_all add: assms)
qed (use assms in \<open>simp add: set_next_tx_type_def\<close>)

lemma indicator_good:
  assumes "gw_ok s"
  shows "good (process_rx_indicator s i)"
proof -
  have n: "gw_ok (if c then s\<lparr>hdlc_in := next_hdlc_buf (hdlc_in s)\<rparr> else s)" for c using assms by simp
  show ?thesis
    unfolding process_rx_indicator_def Let_def
    by (intro good_intros assms n) (simp_all add: assms)
qed

lemma missing_indicator_good: "gw_ok s \<Longrightarrow> good (queue_missing_indicator s d)"
  unfolding queue_missing_indicator_def Let_def case_prod_unfold
  by (intro good_if good_map indicator_good) simp_all

lemma check_indicator_good: "gw_ok s \<Longrightarrow> good (check_indicator s d)"
  unfolding check_indicator_def by (intro good_intros missing_indicator_good) simp_all

lemma sig_end_good: "gw_ok s \<Longrightarrow> good (rx_sig_end s)"
  unfolding rx_sig_end_def by (intro good_map missing_indicator_good) (auto split: prod.splits)

section \<open>Monitoring and editing\<close>

lemma scan_line_time:
  "\<exists>t. arr_get minimum_scan_line_times (uint (drop_bit 4 (b AND (DISBIT7 OR DISBIT6 OR DISBIT5)))) = Some t"
proof -
  let ?w = "drop_bit 4 (b AND (DISBIT7 OR DISBIT6 OR DISBIT5))"
  have "drop_bit 4 (b AND 0x70) \<le> 7"
  proof (rule word_le_nat_alt [THEN iffD2])
    have "unat (b AND 0x70) \<le> unat (0x70 :: u8)" using word_and_le1 [of b "0x70"] by (simp add: word_le_nat_alt)
    then show "unat (drop_bit 4 (b AND 0x70)) \<le> unat (7 :: u8)"
      by (simp add: drop_bit_eq_div unat_div)
  qed
  then have "uint ?w \<le> 7" by (simp add: word_le_def)
  then show ?thesis by (simp add: arr_get_def minimum_scan_line_times_def)
qed

lemma arr_get_buf: "length buf = 260 \<Longrightarrow> 0 \<le> i \<Longrightarrow> i < 260 \<Longrightarrow> \<exists>b. arr_get buf i = Some (b :: u8)"
  by (simp add: arr_get_def)

lemma monitor_dcs_ok:
  assumes "gw_ok s" "length buf = 260"
  shows "\<exists>s'. monitor_dcs s m buf len = Some s' \<and> gw_ok s'"
proof -
  obtain b4 b5 b6 where b: "arr_get buf 4 = Some b4" "arr_get buf 5 = Some b5" "arr_get buf 6 = Some b6"
    using arr_get_buf [OF assms(2)] by force
  obtain t where t: "arr_get minimum_scan_line_times (uint (drop_bit 4 (b5 AND (DISBIT7 OR DISBIT6 OR DISBIT5)))) = Some t"
    using scan_line_time by blast
  show ?thesis unfolding monitor_dcs_def Let_def b t bind.bind_lunit case_prod_unfold using assms(1) by simp
qed

lemma monitor_good:
  assumes "gw_ok s" "length buf = 260"
  shows "good (monitor_control_messages s m buf len)"
proof -
  obtain b2 b3 where b: "arr_get buf 2 = Some b2" "arr_get buf 3 = Some b3"
    using arr_get_buf [OF assms(2)] by force
  have "\<exists>s'. monitor_dcs (s\<lparr>gw_timed_mode := TIMED_MODE_IDLE\<rparr>) m buf len = Some s' \<and> gw_ok s'"
    using monitor_dcs_ok [of "s\<lparr>gw_timed_mode := TIMED_MODE_IDLE\<rparr>"] assms by simp
  then show ?thesis
    unfolding monitor_control_messages_def Let_def b bind.bind_lunit using assms(1) by auto
qed

text \<open>Once a frame is being suppressed, its fourth octet is the first to be overwritten.\<close>

lemma edit_step:
  assumes "gw_ok s" "length buf = 260" "1 \<le> len" "len \<le> 260"
    and "of_direction m (corrupt_current_frame s) \<longrightarrow> 4 \<le> len"
  shows "\<exists>s' buf'. edit_control_messages s m buf len = Some (s', buf') \<and> length buf' = 260 \<and>
    (s' = s \<or> len = 3 \<and> s' = set_corrupt s m True)"
proof (cases "of_direction m (corrupt_current_frame s)")
  case True
  have "of_direction m (suppress_nsx_len s) \<le> 13" using assms(1) by (auto simp: gw_ok_def of_direction_def)
  then show ?thesis using True assms
    by (auto simp: edit_control_messages_def nsx_overwrite_def arr_get_def arr_set_def)
next
  case False
  obtain b2 b3 b4 b6 where b: "arr_get buf 2 = Some b2" "arr_get buf 3 = Some b3" "arr_get buf 4 = Some b4"
      "arr_get buf 6 = Some b6"
    using arr_get_buf [OF assms(2)] by force
  show ?thesis using False assms(2) by (auto simp: edit_control_messages_def b arr_set_def)
qed

lemma set_corrupt_twice: "set_corrupt (set_corrupt s m v) m v' = set_corrupt s m v'"
  by (simp add: set_corrupt_def)

lemma edit_octets_ok:
  assumes "gw_ok s" "length buf = 260" "0 \<le> n" "n + int k \<le> 260"
    and "of_direction m (corrupt_current_frame s) \<longrightarrow> 3 \<le> n"
  shows "\<exists>s' buf'. edit_octets s m buf n k = Some (s', buf') \<and> length buf' = 260 \<and>
    (s' = s \<or> 3 \<le> n + int k \<and> s' = set_corrupt s m True)"
  using assms
proof (induction k arbitrary: s buf n)
  case 0
  then show ?case by simp
next
  case (Suc k)
  obtain s1 buf1 where 1: "edit_control_messages s m buf (n + 1) = Some (s1, buf1)" "length buf1 = 260"
      "s1 = s \<or> n + 1 = 3 \<and> s1 = set_corrupt s m True"
    using edit_step [OF Suc.prems(1,2), of "n + 1" m] Suc.prems(3-5) by auto
  have ok: "gw_ok s1" using 1(3) Suc.prems(1) by auto
  have c: "of_direction m (corrupt_current_frame s1) \<longrightarrow> 3 \<le> n + 1"
    using 1(3) Suc.prems(5) by auto
  have "\<exists>s' buf'. edit_octets s1 m buf1 (n + 1) k = Some (s', buf') \<and> length buf' = 260 \<and>
    (s' = s1 \<or> 3 \<le> n + 1 + int k \<and> s' = set_corrupt s1 m True)"
    by (rule Suc.IH [OF ok 1(2) _ _ c]) (use Suc.prems(3,4) in simp_all)
  then obtain s' buf' where 2: "edit_octets s1 m buf1 (n + 1) k = Some (s', buf')" "length buf' = 260"
    "s' = s1 \<or> 3 \<le> n + 1 + int k \<and> s' = set_corrupt s1 m True" by blast
  have "s' = s \<or> 3 \<le> n + int (Suc k) \<and> s' = set_corrupt s m True"
    using 1(3) 2(3) Suc.prems(3)
  proof (elim disjE conjE)
    assume "s1 = set_corrupt s m True" "s' = set_corrupt s1 m True" "3 \<le> n + 1 + int k"
    then show ?thesis by (simp add: set_corrupt_twice)
  qed simp_all
  with 1(1) 2(1,2) show ?case by simp
qed

lemma edit_octets_lost:
  assumes "of_direction m (corrupt_current_frame s)" "n < 3" "n < of_direction m (suppress_nsx_len s)"
  shows "edit_octets s m buf n (Suc k) = None"
  using assms by (simp add: edit_control_messages_def arr_get_def)

lemma edit_octets_beyond:
  assumes "of_direction m (corrupt_current_frame s)" "of_direction m (suppress_nsx_len s) \<le> n"
  shows "edit_octets s m buf n k = Some (s, buf)"
  using assms by (induction k arbitrary: n) (auto simp: edit_control_messages_def)

section \<open>Data\<close>

lemma bit_reverse_to_ok:
  "at + length octs \<le> length buf \<Longrightarrow> \<exists>buf'. bit_reverse_to buf at octs = Some buf' \<and> length buf' = length buf"
  by (simp add: bit_reverse_to_def)

lemma bind_map_pair: "map_option f (r :: 'a option) = r \<bind> (\<lambda>x. Some (f x))"
  by (cases r) simp_all

text \<open>
  \<open>nsx_lost s n\<close>: a frame is being suppressed, but the current buffer holds fewer than its
  first three octets, and \<open>n\<close> more fit.
\<close>

definition nsx_lost :: "gateway_rx_state \<Rightarrow> nat \<Rightarrow> bool" where
  "nsx_lost s n \<longleftrightarrow> fst (corrupt_current_frame s) \<and> 0 < n \<and>
     (case in_buf s of
        None \<Rightarrow> False
      | Some b \<Rightarrow> hb_len b < 3 \<and> int (hb_len b) < fst (suppress_nsx_len s) \<and> hb_len b + n \<le> 260)"

lemma append_good:
  assumes "gw_ok s" "in_buf s = Some b" "hb_len b + length octs \<le> 260"
    and "\<not> (d = 0 \<and> nsx_lost s (length octs))"
  shows "good (append_hdlc_data s d octs)"
proof -
  have b: "hdlc_buf_ok b" using in_buf_ok [OF assms(1)] assms(2) by simp
  then obtain buf where buf: "bit_reverse_to (hb_buf b) (hb_len b) octs = Some buf" "length buf = 260"
    using bit_reverse_to_ok [of "hb_len b" octs "hb_buf b"] assms(3) by (auto simp: hdlc_buf_ok_def)
  have "\<exists>s1 buf1. (if d = T38_DATA_V21 then edit_octets s False buf (int (hb_len b)) (length octs) else Some (s, buf))
      = Some (s1, buf1) \<and> gw_ok s1 \<and> length buf1 = 260"
  proof (cases "d = T38_DATA_V21")
    case True
    show ?thesis
    proof (cases "fst (corrupt_current_frame s) \<and> hb_len b < 3")
      case lost: True
      show ?thesis
      proof (cases "octs = []")
        case False
        then have "fst (suppress_nsx_len s) \<le> int (hb_len b)"
          using assms(2-4) True lost by (auto simp: nsx_lost_def)
        then show ?thesis
          using edit_octets_beyond [of False s "int (hb_len b)" buf "length octs"] lost True assms(1) buf(2)
          by (simp add: of_direction_def)
      qed (use True assms(1) buf(2) in simp)
    next
      case False
      then have "of_direction False (corrupt_current_frame s) \<longrightarrow> 3 \<le> int (hb_len b)"
        by (auto simp: of_direction_def)
      with edit_octets_ok [OF assms(1) buf(2), of "int (hb_len b)" "length octs" False] assms(3) True assms(1)
      show ?thesis by auto
    qed
  qed (use assms(1) buf(2) in simp)
  then obtain s1 buf1 where e: "(if d = T38_DATA_V21 then edit_octets s False buf (int (hb_len b)) (length octs)
      else Some (s, buf)) = Some (s1, buf1)" "gw_ok s1" "length buf1 = 260" by blast
  show ?thesis
    unfolding append_hdlc_data_def assms(2) bind.bind_lunit buf(1) e(1) Let_def prod.case
    by (intro good_put_in_buf) (use e(2,3) assms(3) in \<open>simp_all add: hdlc_buf_ok_def\<close>)
qed

lemma append_lost:
  assumes "gw_ok s" "nsx_lost s (length octs)"
  shows "append_hdlc_data s 0 octs = None"
proof -
  obtain b where b: "in_buf s = Some b" "hdlc_buf_ok b" using in_buf_ok [OF assms(1)] by blast
  obtain k where k: "length octs = Suc k" using assms(2) by (cases "length octs") (auto simp: nsx_lost_def)
  obtain buf where buf: "bit_reverse_to (hb_buf b) (hb_len b) octs = Some buf"
    using bit_reverse_to_ok [of "hb_len b" octs "hb_buf b"] assms(2) b by (auto simp: hdlc_buf_ok_def nsx_lost_def)
  have "edit_octets s False buf (int (hb_len b)) (Suc k) = None"
    using assms(2) b by (intro edit_octets_lost) (auto simp: nsx_lost_def of_direction_def)
  then show ?thesis unfolding append_hdlc_data_def b(1) bind.bind_lunit buf k by simp
qed

text \<open>What is done before octets are stored, and the state they are stored in.\<close>

definition before_data :: "gateway_rx_state \<Rightarrow> int \<Rightarrow> octets \<Rightarrow> (gateway_rx_state \<times> modem_call list) option" where
  "before_data s d octs =
     do {
       let s = set_field_class s T38_FIELD_CLASS_HDLC;
       b \<leftarrow> in_buf s;
       if hb_contents b \<noteq> (d OR FLAG_DATA) then
         do {
           (s, calls) \<leftarrow> queue_missing_indicator s d;
           s \<leftarrow> (if octs = [] \<or> hd octs \<noteq> 0xFF then set_in_flag s HDLC_FLAG_MISSING_DATA else Some s);
           Some (s, calls)
         }
       else Some (s, [])
     }"

lemma before_data_good:
  assumes "gw_ok s"
  shows "good (before_data s d octs)"
proof -
  have m: "good ((if c then set_in_flag t f else Some t) \<bind> (\<lambda>s. Some (s, calls)))"
    if "gw_ok t" for t c f and calls :: "modem_call list"
    using set_in_flag_ok [OF that, of f] that by auto
  show ?thesis unfolding before_data_def Let_def
    by (intro good_intros missing_indicator_good m) (simp_all add: assms)
qed

lemma rx_hdlc_data_eq:
  "rx_hdlc_data s d octs =
     do {
       (s, calls) \<leftarrow> before_data s d octs;
       b \<leftarrow> in_buf s;
       if octs = [] then Some (s, calls)
       else if hb_len b + length octs > T38_MAX_HDLC_LEN then
         map_option (\<lambda>s. (s, calls)) (set_in_flag s HDLC_FLAG_MISSING_DATA)
       else map_option (\<lambda>(s, cs). (s, calls @ cs)) (append_hdlc_data s d octs)
     }"
  unfolding rx_hdlc_data_def before_data_def Let_def by (cases "in_buf (set_field_class s T38_FIELD_CLASS_HDLC)") simp_all

text \<open>Octets for a frame whose start is gone: the one access outside an array.\<close>

definition nsx_start_lost :: "gateway_rx_state \<Rightarrow> octets \<Rightarrow> bool" where
  "nsx_start_lost s octs \<longleftrightarrow>
     (case before_data s 0 octs of None \<Rightarrow> False | Some (s1, calls) \<Rightarrow> nsx_lost s1 (length octs))"

lemma rx_hdlc_data_good:
  assumes "gw_ok s" "\<not> (d = 0 \<and> nsx_start_lost s octs)"
  shows "good (rx_hdlc_data s d octs)"
proof -
  obtain s1 c where 1: "before_data s d octs = Some (s1, c)" "gw_ok s1"
    using before_data_good [OF assms(1)] unfolding good_def by blast
  obtain b where b: "in_buf s1 = Some b" using in_buf_ok [OF 1(2)] by blast
  have n: "\<not> (d = 0 \<and> nsx_lost s1 (length octs))" using assms(2) 1(1) by (auto simp: nsx_start_lost_def)
  show ?thesis
    unfolding rx_hdlc_data_eq 1(1) bind.bind_lunit prod.case b
    using append_good [OF 1(2) b _ n] 1(2)
    by (auto intro!: good_if good_map good_set_in_flag split: prod.splits)
qed

lemma rx_hdlc_data_lost:
  assumes "gw_ok s" "nsx_start_lost s octs"
  shows "rx_hdlc_data s 0 octs = None"
proof -
  obtain s1 c where 1: "before_data s 0 octs = Some (s1, c)" "gw_ok s1"
    using before_data_good [OF assms(1)] unfolding good_def by blast
  then have l: "nsx_lost s1 (length octs)" using assms(2) by (simp add: nsx_start_lost_def)
  obtain b where b: "in_buf s1 = Some b" using in_buf_ok [OF 1(2)] by blast
  have "octs \<noteq> []" "\<not> hb_len b + length octs > T38_MAX_HDLC_LEN" using l b by (auto simp: nsx_lost_def)
  then show ?thesis
    unfolding rx_hdlc_data_eq 1(1) bind.bind_lunit prod.case b using append_lost [OF 1(2) l] by simp
qed

section \<open>The other fields\<close>

lemma fcs_ok_good:
  assumes "gw_ok s"
  shows "good (rx_fcs_ok s d)"
proof -
  have m: "good (if d = T38_DATA_V21 then
           (if hb_flags b AND HDLC_FLAG_MISSING_DATA = 0 then
              map_option (\<lambda>(s, cs). (s, cs @ [Real_time_frame False (take (hb_len b) (hb_buf b))]))
                (monitor_control_messages s False (hb_buf b) (int (hb_len b)))
            else Some (s, []))
         else Some (s\<lparr>short_train := True\<rparr>, []))"
    if "gw_ok s" "hdlc_buf_ok b" for s :: gateway_rx_state and b
    using that monitor_good [OF that(1), of "hb_buf b"]
    by (intro good_if good_map) (simp_all add: hdlc_buf_ok_def)
  show ?thesis unfolding rx_fcs_ok_def
    by (intro good_bind [OF check_indicator_good] good_in_buf good_bind [OF m] good_put_in_buf
        good_bind [OF finalise_good])
      (simp_all add: assms)
qed

lemma finalise_bad_good: "gw_ok s \<Longrightarrow> good (finalise_bad s d)"
  unfolding finalise_bad_def by (intro good_in_buf good_put_in_buf finalise_good) simp_all

lemma drop_contents_good: "gw_ok s \<Longrightarrow> good (drop_contents s)"
  unfolding drop_contents_def by (intro good_in_buf good_put_in_buf_map) simp_all

lemma corrupt_off_good:
  "good r \<Longrightarrow> good (map_option (\<lambda>(s, cs). (set_corrupt s False False, g cs)) r)"
  by (intro good_map) (simp_all split: prod.splits)

lemma fcs_good:
  assumes "gw_ok s"
  shows "good (rx_hdlc_fcs_ok s d)" "good (rx_hdlc_fcs_ok_sig_end s d)" "good (rx_hdlc_fcs_bad s d)"
    "good (rx_hdlc_fcs_bad_sig_end s d)"
proof -
  have s: "gw_ok (set_field_class s T38_FIELD_CLASS_HDLC)" using assms by simp
  have b: "good (if hb_len b > 0 then finalise_bad s d else drop_contents s)" if "gw_ok s" for s b
    using finalise_bad_good drop_contents_good that by simp
  show "good (rx_hdlc_fcs_ok s d)"
    unfolding rx_hdlc_fcs_ok_def Let_def by (intro corrupt_off_good good_if fcs_ok_good) (simp_all add: assms)
  show "good (rx_hdlc_fcs_ok_sig_end s d)"
    unfolding rx_hdlc_fcs_ok_sig_end_def Let_def
    by (intro corrupt_off_good good_if good_bind [OF fcs_ok_good] good_bind [OF sig_end_good]) (simp_all add: assms)
  show "good (rx_hdlc_fcs_bad s d)"
    unfolding rx_hdlc_fcs_bad_def Let_def
    by (intro corrupt_off_good good_if good_in_buf good_bind [OF check_indicator_good]
        good_bind [OF finalise_bad_good] drop_contents_good) (simp_all add: assms)
  show "good (rx_hdlc_fcs_bad_sig_end s d)"
    unfolding rx_hdlc_fcs_bad_sig_end_def Let_def
    by (intro corrupt_off_good good_bind [OF check_indicator_good] good_bind [OF b]
        good_bind [OF sig_end_good] good_if [of "is_repeat _ _ _"] good_in_buf) (simp_all add: assms)
qed

lemma hdlc_sig_end_good:
  assumes "gw_ok s"
  shows "good (rx_hdlc_sig_end s d)"
proof -
  have p: "good (if current_rx_field_class s = T38_FIELD_CLASS_NON_ECM then Some (s, [Image_push])
       else do { b \<leftarrow> in_buf s; map_option (\<lambda>s. (s, [])) (put_in_buf s (clear_buf b)) })"
    if "gw_ok s" for s
    using that by (intro good_if good_in_buf good_put_in_buf_map) simp_all
  show ?thesis unfolding rx_hdlc_sig_end_def
    by (intro corrupt_off_good good_if [of "is_repeat _ _ _"] good_bind [OF check_indicator_good] good_bind [OF p]
        good_bind [OF sig_end_good]) (simp_all add: assms)
qed

lemma non_ecm_data_good:
  assumes "gw_ok s"
  shows "good (rx_non_ecm_data s d octs)"
  unfolding rx_non_ecm_data_def Let_def by (intro corrupt_off_good check_indicator_good) (simp add: assms)

lemma non_ecm_sig_end_good:
  assumes "gw_ok s"
  shows "good (rx_non_ecm_sig_end s d octs)"
proof -
  have i: "good (if octs \<noteq> [] then
       map_option (\<lambda>(s, cs). (s, cs @ [Image_inject octs])) (check_indicator s d) else Some (s, []))"
    using check_indicator_good [OF assms] by (intro good_if good_map) (simp_all add: assms split: prod.splits)
  show ?thesis unfolding rx_non_ecm_sig_end_def
    by (intro corrupt_off_good good_if [of "is_repeat _ _ _"] good_if [of "_ = T38_FIELD_CLASS_NON_ECM"]
        good_bind [OF i] good_bind [OF check_indicator_good] good_bind [OF sig_end_good] good_in_buf good_put_in_buf)
      (simp_all add: assms)
qed

lemma data_good:
  assumes "gw_ok s" "\<not> (d = 0 \<and> ft = 0 \<and> nsx_start_lost s buf)"
  shows "good (process_rx_data s d ft buf)"
  unfolding process_rx_data_def
  using assms rx_hdlc_data_good [OF assms(1), of d buf] fcs_good [OF assms(1)] hdlc_sig_end_good [OF assms(1)]
    non_ecm_data_good [OF assms(1)] non_ecm_sig_end_good [OF assms(1)]
  by auto

section \<open>Runs\<close>

text \<open>A call of the core that leaves the arrays.\<close>

definition lost_call :: "gateway_rx_state \<Rightarrow> gateway_step \<Rightarrow> bool" where
  "lost_call s x \<longleftrightarrow> (\<exists>octs. x = Core_call (Rx_data 0 0 octs) \<and> nsx_start_lost s octs)"

lemma step_good:
  assumes "gw_ok s" "\<not> lost_call s x"
  shows "good (gateway_step s x)"
proof (cases x)
  case (Core_call e)
  show ?thesis
  proof (cases e)
    case (Rx_indicator i)
    then show ?thesis using Core_call assms(1)
      by (auto simp: gateway_step_def gateway_event_def intro!: good_map indicator_good split: prod.splits)
  next
    case (Rx_data d ft octs)
    have "good (process_rx_data s d ft octs)"
      using assms Core_call Rx_data by (intro data_good) (auto simp: lost_call_def)
    then show ?thesis using Core_call Rx_data
      by (auto simp: gateway_step_def gateway_event_def intro!: good_map split: prod.splits)
  next
    case (Rx_missing a b)
    then show ?thesis using Core_call assms(1)
      by (simp add: gateway_step_def gateway_event_def process_rx_missing_def good_set_in_flag)
  qed
next
  case Modem_underflow
  then show ?thesis using underflow_good [OF assms(1)] by (simp add: gateway_step_def)
next
  case Handler_done
  then show ?thesis
    using next_tx_good [OF assms(1)] by (auto simp: gateway_step_def good_def)
qed

lemma step_lost:
  assumes "gw_ok s" "lost_call s x"
  shows "gateway_step s x = None"
  using assms rx_hdlc_data_lost [OF assms(1)]
  by (auto simp: lost_call_def gateway_step_def gateway_event_def process_rx_data_def)

lemma run_good:
  assumes "gw_ok s"
  shows "(\<exists>s' cs. gateway_run s xs = Some (s', cs) \<and> gw_ok s') \<or>
    (\<exists>pre x post s' cs. xs = pre @ x # post \<and> gateway_run s pre = Some (s', cs) \<and> lost_call s' x \<and>
       gateway_run s xs = None)"
  using assms
proof (induction xs arbitrary: s)
  case (Cons x xs)
  show ?case
  proof (cases "lost_call s x")
    case True
    then have "gateway_run s (x # xs) = None" using step_lost [OF Cons.prems] by simp
    then show ?thesis using True by (intro disjI2 exI [of _ "[]"]) auto
  next
    case False
    then obtain s1 c1 where 1: "gateway_step s x = Some (s1, c1)" "gw_ok s1"
      using step_good [OF Cons.prems] unfolding good_def by blast
    from Cons.IH [OF 1(2)] show ?thesis
    proof (elim disjE exE conjE)
      fix s' cs assume "gateway_run s1 xs = Some (s', cs)" "gw_ok s'"
      then show ?thesis using 1(1) by auto
    next
      fix pre y post s' cs assume l: "xs = pre @ y # post" "gateway_run s1 pre = Some (s', cs)" "lost_call s' y"
        "gateway_run s1 xs = None"
      have "x # xs = (x # pre) @ y # post" "gateway_run s (x # pre) = Some (s', c1 @ cs)"
          "gateway_run s (x # xs) = None" using l 1(1) by simp_all
      then show ?thesis using l(3) by blast
    qed
  qed
qed simp

lemma rx_init_ok:
  assumes "fst (suppress_nsx_len gw) \<le> 13" "snd (suppress_nsx_len gw) \<le> 13"
  shows "gw_ok (gateway_rx_init gw)"
  using assms
  by (simp add: gw_ok_def gateway_rx_init_def t38_gateway_state.extend_def hdlc_buf_init_def hdlc_buf_ok_def)

end
