(* ===== verification/Gateway_Edit.thy ===== *)
theory Gateway_Edit
  imports Gateway_Rx_Facts
begin

text \<open>
  What the editing of control messages amounts to: a frame that is edited octet by octet as
  it arrives, in pieces of any size, is the frame edited as a whole.
\<close>

section \<open>The edited frame\<close>

definition suppressed :: "gateway_rx_state \<Rightarrow> u8 \<Rightarrow> bool" where
  "suppressed s ft \<longleftrightarrow> ft \<in> {T30_NSF, T30_NSC, T30_NSS} \<and> fst (suppress_nsx_len s) \<noteq> 0"

definition edited_octet :: "gateway_rx_state \<Rightarrow> u8 \<Rightarrow> nat \<Rightarrow> u8 \<Rightarrow> u8" where
  "edited_octet s ft i b =
     (if suppressed s ft then (if int i < fst (suppress_nsx_len s) then nsx_overwrite ! (i - 3) else b)
      else if ft = T30_DIS then
        (if i = 3 then b AND NOT DISBIT6
         else if i = 4 then constrain_modems (supported_modems s) b
         else if i = 6 \<and> ecm_allowed s = 0 then b AND NOT (DISBIT3 OR DISBIT7)
         else b)
      else b)"

text \<open>The address, control and frame type octets pass; the rest depends on the type.\<close>

fun edited :: "gateway_rx_state \<Rightarrow> octets \<Rightarrow> octets" where
  "edited s (a # c # ft # rest) = a # c # ft # map (\<lambda>(i, b). edited_octet s ft i b) (enumerate 3 rest)"
| "edited s f = f"

lemma edited_length [simp]: "length (edited s f) = length f"
  by (cases "(s, f)" rule: edited.cases) simp_all

lemma edited_nth:
  assumes "i < length f"
  shows "edited s f ! i = (if i < 3 then f ! i else edited_octet s (f ! 2) i (f ! i))"
proof (cases "(s, f)" rule: edited.cases)
  case (1 s' a c ft rest)
  consider "i = 0" | "i = 1" | "i = 2" | j where "i = Suc (Suc (Suc j))"
    by (metis One_nat_def Suc_1 not0_implies_Suc)
  then show ?thesis using 1 assms by cases (simp_all add: nth_enumerate_eq numeral_3_eq_3)
qed (use assms in simp_all)

lemma edited_take: "take n (edited s f) = edited s (take n f)"
  by (rule nth_equalityI) (simp_all add: edited_nth)

lemma suppressed_cong: "suppress_nsx_len s' = suppress_nsx_len s \<Longrightarrow> suppressed s' = suppressed s"
  by (simp add: fun_eq_iff suppressed_def)

lemma edited_cong:
  assumes "suppress_nsx_len s' = suppress_nsx_len s" "supported_modems s' = supported_modems s"
    "ecm_allowed s' = ecm_allowed s"
  shows "edited s' f = edited s f"
  by (rule nth_equalityI) (simp_all add: edited_nth edited_octet_def suppressed_def assms)

section \<open>One octet\<close>

lemma set_corrupt_same: "fst (corrupt_current_frame s) = v \<Longrightarrow> set_corrupt s False v = s"
  by (cases s) (auto simp: set_corrupt_def)

text \<open>
  \<open>buf\<close> holds the first \<open>n\<close> octets of the frame edited, and then the next one as it came.
\<close>

lemma edit_one:
  assumes "gw_ok s" "length buf = 260" "n < length f" "length f \<le> 260"
    and c: "fst (corrupt_current_frame s) = (3 \<le> n \<and> suppressed s (f ! 2))"
    and p: "take n buf = edited s (take n f)" and b: "buf ! n = f ! n"
  shows "edit_control_messages s False buf (int n + 1) =
    Some (set_corrupt s False (3 \<le> Suc n \<and> suppressed s (f ! 2)), buf[n := edited s f ! n])"
proof -
  have n: "n < 260" using assms(3,4) by simp
  have ft: "buf ! 2 = f ! 2" if "2 \<le> n"
  proof (cases "n = 2")
    case False
    then have "take n buf ! 2 = edited s (take n f) ! 2" "2 < n" using p that by simp_all
    then show ?thesis using assms(3) by (simp add: edited_nth)
  qed (use b in simp)
  have sup: "fst (suppress_nsx_len s) \<le> 13" using assms(1) by (simp add: gw_ok_def)
  have same: "buf[n := f ! n] = buf" using b by (metis list_update_id)
  consider "n < 2" | "n = 2" | "3 \<le> n" "suppressed s (f ! 2)" | "3 \<le> n" "\<not> suppressed s (f ! 2)" by linarith
  then show ?thesis
  proof cases
    case 1
    then show ?thesis using c assms(3) same set_corrupt_same [of s False]
      by (simp add: edit_control_messages_def of_direction_def edited_nth)
  next
    case 2
    then show ?thesis using c assms(2,3) same ft set_corrupt_same [of s False]
      by (simp add: edit_control_messages_def of_direction_def edited_nth arr_get_def suppressed_def)
  next
    case 3
    then have "edited s f ! n = (if int n < fst (suppress_nsx_len s) then nsx_overwrite ! (n - 3) else f ! n)"
      using assms(3) by (simp add: edited_nth edited_octet_def)
    moreover have "length nsx_overwrite = 10" "nat (int n - 3) = n - 3" by (simp_all add: nsx_overwrite_def)
    ultimately show ?thesis using 3 c assms(2) same n sup set_corrupt_same [of s True]
      by (auto simp: edit_control_messages_def of_direction_def arr_get_def arr_set_def)
  next
    case 4
    have "edited s f ! n = edited_octet s (f ! 2) n (f ! n)" using 4 assms(3) by (simp add: edited_nth)
    with 4 show ?thesis using c assms(2) same n ft b set_corrupt_same [of s False]
      by (auto simp: edit_control_messages_def of_direction_def arr_get_def arr_set_def edited_octet_def)
  qed
qed

section \<open>A piece of a frame\<close>

lemma set_corrupt_frame [simp]:
  "suppress_nsx_len (set_corrupt s m v) = suppress_nsx_len s"
  "supported_modems (set_corrupt s m v) = supported_modems s" "ecm_allowed (set_corrupt s m v) = ecm_allowed s"
  "fst (corrupt_current_frame (set_corrupt s False v)) = v"
  "hdlc_bufs (set_corrupt s m v) = hdlc_bufs s" "hdlc_in (set_corrupt s m v) = hdlc_in s"
  "hdlc_out (set_corrupt s m v) = hdlc_out s" "gw_core (set_corrupt s m v) = gw_core s"
  by (simp_all add: set_corrupt_def)

lemma edit_piece:
  assumes "gw_ok s" "length buf = 260" "n + k \<le> length f" "length f \<le> 260"
    and "fst (corrupt_current_frame s) = (3 \<le> n \<and> suppressed s (f ! 2))"
    and "take n buf = edited s (take n f)" and "take k (drop n buf) = take k (drop n f)"
  shows "\<exists>buf'. edit_octets s False buf (int n) k =
      Some (set_corrupt s False (3 \<le> n + k \<and> suppressed s (f ! 2)), buf') \<and> length buf' = 260 \<and>
      take (n + k) buf' = edited s (take (n + k) f)"
  using assms
proof (induction k arbitrary: s buf n)
  case 0
  then show ?case using set_corrupt_same [OF 0(5)] by simp
next
  case (Suc k)
  have n: "n < length f" "n < 260" using Suc.prems(3,4) by simp_all
  have at: "buf ! (n + j) = f ! (n + j)" if "j < Suc k" for j
    using arg_cong [OF Suc.prems(7), of "\<lambda>l. l ! j"] that Suc.prems(2-4) by simp
  then have at1: "buf ! Suc (n + j) = f ! Suc (n + j)" if "j < k" for j using that by (metis Suc_mono add_Suc_right)
  let ?s = "set_corrupt s False (3 \<le> Suc n \<and> suppressed s (f ! 2))" and ?buf = "buf[n := edited s f ! n]"
  have 1: "edit_control_messages s False buf (int n + 1) = Some (?s, ?buf)"
    using at [of 0] by (intro edit_one Suc.prems(1,2,4-6) n) simp
  have e: "edited ?s g = edited s g" for g by (rule edited_cong) simp_all
  have sup: "suppressed ?s = suppressed s" by (rule suppressed_cong) simp
  have "take (Suc n) ?buf = take n buf @ [edited s f ! n]"
    using n Suc.prems(2) by (simp add: take_Suc_conv_app_nth)
  also have "\<dots> = take (Suc n) (edited s f)"
    using n Suc.prems(6) edited_take [of n s f] take_Suc_conv_app_nth [of n "edited s f"] by simp
  finally have t: "take (Suc n) ?buf = edited ?s (take (Suc n) f)" by (simp only: edited_take e)
  have d: "take k (drop (Suc n) ?buf) = take k (drop (Suc n) f)"
    using at1 Suc.prems(2-4) by (intro nth_equalityI) auto
  have "\<exists>buf'. edit_octets ?s False ?buf (int (Suc n)) k =
      Some (set_corrupt ?s False (3 \<le> Suc n + k \<and> suppressed ?s (f ! 2)), buf') \<and> length buf' = 260 \<and>
      take (Suc n + k) buf' = edited ?s (take (Suc n + k) f)"
    by (rule Suc.IH [OF _ _ _ Suc.prems(4) _ t d]) (use Suc.prems(1-3) sup in simp_all)
  then show ?case unfolding set_corrupt_twice sup e using 1 by (simp add: add.commute)
qed

end
