(* ===== verification/Gateway_Ring.thy ===== *)
theory Gateway_Ring
  imports Gateway_Edit
begin

text \<open>
  The ring of HDLC buffers as a queue: the frames that are complete and wait for the modem,
  the first of them being sent, and behind them the frame that is arriving.
\<close>

section \<open>Places in the ring\<close>

definition ring_at :: "gateway_rx_state \<Rightarrow> nat \<Rightarrow> nat" where
  "ring_at s j = nat ((hdlc_out s + int j) mod 256)"

definition slot :: "gateway_rx_state \<Rightarrow> nat \<Rightarrow> t38_gateway_hdlc_buf" where
  "slot s j = hdlc_bufs s ! ring_at s j"

lemma ring_at_less [simp]: "ring_at s j < 256"
  by (simp add: ring_at_def nat_less_iff)

lemma ring_at_inj:
  assumes "i < j" "j < 256"
  shows "ring_at s i \<noteq> ring_at s j"
proof
  assume "ring_at s i = ring_at s j"
  then have "(hdlc_out s + int i) mod 256 = (hdlc_out s + int j) mod 256" by (simp add: ring_at_def)
  then have "256 dvd (int j - int i)" by (metis add_diff_cancel_left mod_eq_dvd_iff)
  then show False using assms zdvd_imp_le [of 256 "int j - int i"] by simp
qed

lemma next_mod: "0 \<le> i \<Longrightarrow> i < 256 \<Longrightarrow> next_hdlc_buf i = (i + 1) mod 256"
  by (cases "i = 255") (simp_all add: next_hdlc_buf_def)

lemma ring_at_0: "gw_ok s \<Longrightarrow> ring_at s 0 = nat (hdlc_out s)"
  by (simp add: ring_at_def gw_ok_def)

section \<open>The queue\<close>

text \<open>A buffer with a frame, or with the part of it that has arrived.\<close>

definition holds_frame :: "gateway_rx_state \<Rightarrow> t38_gateway_hdlc_buf \<Rightarrow> octets \<Rightarrow> bool \<Rightarrow> bool" where
  "holds_frame s b f complete \<longleftrightarrow> hb_len b = length f \<and> take (length f) (hb_buf b) = edited s f \<and>
     hb_flags b = (if complete then 5 else if 8 \<le> length f then 4 else 0) \<and>
     hb_contents b = (if f = [] then 0 else 0x200)"

definition relaying :: "gateway_rx_state \<Rightarrow> octets list \<Rightarrow> octets \<Rightarrow> bool" where
  "relaying s qs f \<longleftrightarrow> gw_ok s \<and> length qs \<le> 254 \<and>
     hdlc_in s = (hdlc_out s + int (length qs)) mod 256 \<and>
     current_rx_indicator (gw_core s) = 3 \<and>
     (f \<noteq> [] \<longrightarrow> current_rx_field_type (gw_core s) = 0) \<and>
     fst (corrupt_current_frame s) = (3 \<le> length f \<and> suppressed s (f ! 2)) \<and>
     (\<forall>j < length qs. qs ! j \<noteq> [] \<and> holds_frame s (slot s j) (qs ! j) True) \<and>
     holds_frame s (slot s (length qs)) f False"

text \<open>What has been handed to the modem of the frame at the front.\<close>

definition begun :: "gateway_rx_state \<Rightarrow> octets list \<Rightarrow> octets \<Rightarrow> octets" where
  "begun s qs f = (case qs of [] \<Rightarrow> if 8 \<le> length f then edited s f else [] | q # _ \<Rightarrow> edited s q)"

definition tx_octets :: "modem_call list \<Rightarrow> octets" where
  "tx_octets cs = concat (map (\<lambda>c. case c of Tx_frame f \<Rightarrow> f | _ \<Rightarrow> []) cs)"

lemma tx_octets_simps [simp]:
  "tx_octets [] = []" "tx_octets (Tx_frame f # cs) = f @ tx_octets cs"
  "tx_octets (Real_time_frame d f # cs) = tx_octets cs" "tx_octets (cs @ ds) = tx_octets cs @ tx_octets ds"
  by (simp_all add: tx_octets_def)

text \<open>Calls that neither spoil a frame nor shut the modem down.\<close>

definition clean :: "modem_call list \<Rightarrow> bool" where
  "clean cs \<longleftrightarrow> Tx_corrupt_frame \<notin> set cs \<and> Tx_frame [] \<notin> set cs"

lemma clean_simps [simp]: "clean []" "clean (cs @ ds) = (clean cs \<and> clean ds)" "clean [Tx_frame f] = (f \<noteq> [])"
  by (auto simp: clean_def)

definition same_settings :: "gateway_rx_state \<Rightarrow> gateway_rx_state \<Rightarrow> bool" where
  "same_settings s s' \<longleftrightarrow> suppress_nsx_len s' = suppress_nsx_len s \<and>
     supported_modems s' = supported_modems s \<and> ecm_allowed s' = ecm_allowed s"

lemma same_settings_edited: "same_settings s s' \<Longrightarrow> edited s' f = edited s f"
  by (rule edited_cong) (simp_all add: same_settings_def)

lemma same_settings_suppressed: "same_settings s s' \<Longrightarrow> suppressed s' ft = suppressed s ft"
  by (simp add: same_settings_def suppressed_def)

lemma same_settings_holds: "same_settings s s' \<Longrightarrow> holds_frame s' b f c = holds_frame s b f c"
  by (simp add: holds_frame_def same_settings_edited)

lemma same_settings_begun: "same_settings s s' \<Longrightarrow> begun s' qs f = begun s qs f"
  by (simp add: begun_def same_settings_edited split: list.splits)

section \<open>Reading and writing the current buffer\<close>

lemma relaying_in:
  assumes "relaying s qs f"
  shows "in_buf s = Some (slot s (length qs))" "nat (hdlc_in s) = ring_at s (length qs)"
    "hdlc_in s = hdlc_out s \<longleftrightarrow> qs = []"
proof -
  have g: "gw_ok s" and i: "hdlc_in s = (hdlc_out s + int (length qs)) mod 256" and l: "length qs \<le> 254"
    using assms by (simp_all add: relaying_def)
  show 2: "nat (hdlc_in s) = ring_at s (length qs)" by (simp add: i ring_at_def)
  show "in_buf s = Some (slot s (length qs))"
    using g 2 by (simp add: in_buf_def arr_get_def slot_def gw_ok_def)
  have "ring_at s 0 \<noteq> ring_at s (length qs)" if "qs \<noteq> []" using that l by (intro ring_at_inj) auto
  then have "nat (hdlc_in s) \<noteq> nat (hdlc_out s)" if "qs \<noteq> []" using that 2 ring_at_0 [OF g] by simp
  moreover have "hdlc_in s = hdlc_out s" if "qs = []" using that i g by (simp add: gw_ok_def)
  ultimately show "hdlc_in s = hdlc_out s \<longleftrightarrow> qs = []" by metis
qed

lemma put_in_buf_eq:
  "gw_ok s \<Longrightarrow> put_in_buf s b = Some (s\<lparr>hdlc_bufs := (hdlc_bufs s)[nat (hdlc_in s) := b]\<rparr>)"
  by (simp add: gw_ok_def put_in_buf_def arr_set_def nat_less_iff)

lemma gw_ok_put:
  assumes "gw_ok s" "hdlc_buf_ok b"
  shows "gw_ok (s\<lparr>hdlc_bufs := (hdlc_bufs s)[k := b]\<rparr>)"
  using assms ball_set_update [of "hdlc_bufs s" hdlc_buf_ok b k] by (simp add: gw_ok_def)

lemma slot_ok: "gw_ok s \<Longrightarrow> hdlc_buf_ok (slot s j)"
  using gw_ok_nth [of s "(hdlc_out s + int j) mod 256"] by (simp add: slot_def ring_at_def)

end
