(* ===== verification/Gateway_Relay.thy ===== *)
theory Gateway_Relay
  imports Gateway_Ring
begin

text \<open>
  Control frames relayed from T.38 to the V.21 modem: whatever the pieces they arrive in
  and however they queue up, the modem gets exactly their octets, edited.
\<close>

section \<open>A piece of a frame arrives\<close>

text \<open>Only the buffer at the input changes, so the frames that wait stay as they are.\<close>

lemma relaying_update:
  assumes r: "relaying s qs f" and ss: "same_settings s s'"
    and bufs: "hdlc_bufs s' = (hdlc_bufs s)[ring_at s (length qs) := b]"
      "hdlc_in s' = hdlc_in s" "hdlc_out s' = hdlc_out s"
    and b: "holds_frame s b g False" "hdlc_buf_ok b"
    and core: "current_rx_indicator (gw_core s') = 3" "current_rx_field_type (gw_core s') = 0"
    and c: "fst (corrupt_current_frame s') = (3 \<le> length g \<and> suppressed s (g ! 2))"
  shows "relaying s' qs g"
proof -
  have ra: "ring_at s' j = ring_at s j" for j by (simp add: ring_at_def bufs)
  have l: "length (hdlc_bufs s) = 256" "length qs \<le> 254" using r by (simp_all add: relaying_def gw_ok_def)
  have j: "slot s' j = slot s j" if "j < length qs" for j
    using that ring_at_inj [of j "length qs" s] l(2) by (simp add: slot_def ra bufs)
  have n: "slot s' (length qs) = b" using l(1) by (simp add: slot_def ra bufs)
  have "gw_ok (s\<lparr>hdlc_bufs := (hdlc_bufs s)[ring_at s (length qs) := b]\<rparr>)"
    using r b(2) by (intro gw_ok_put) (simp_all add: relaying_def)
  then have "gw_ok s'" using ss by (simp add: gw_ok_def bufs same_settings_def)
  then show ?thesis
    using r b(1) core c by (simp add: relaying_def bufs j n same_settings_holds [OF ss] same_settings_suppressed [OF ss])
qed

lemma in_buf_helpers [simp]:
  "in_buf (set_field_class s c) = in_buf s" "in_buf (set_corrupt s m v) = in_buf s"
  by (simp_all add: in_buf_def set_field_class_def)

lemma set_field_class_frame [simp]:
  "gw_core (set_field_class s c) = gw_core s" "hdlc_bufs (set_field_class s c) = hdlc_bufs s"
  "hdlc_in (set_field_class s c) = hdlc_in s" "hdlc_out (set_field_class s c) = hdlc_out s"
  "corrupt_current_frame (set_field_class s c) = corrupt_current_frame s"
  "suppress_nsx_len (set_field_class s c) = suppress_nsx_len s"
  "supported_modems (set_field_class s c) = supported_modems s" "ecm_allowed (set_field_class s c) = ecm_allowed s"
  "short_train (set_field_class s c) = short_train s"
  by (simp_all add: set_field_class_def)

text \<open>No indicator is missing while the V.21 carrier is on.\<close>

lemma no_missing_indicator:
  "current_rx_indicator (gw_core s) = 3 \<Longrightarrow> queue_missing_indicator s 0 = Some (s, [])"
  by (simp add: queue_missing_indicator_def expected_indicator_def)

lemma before_data_v21:
  assumes "relaying s qs f" "octs \<noteq> []" "f = [] \<longrightarrow> hd octs = 0xFF"
  shows "before_data s 0 octs = Some (set_field_class s T38_FIELD_CLASS_HDLC, [])"
proof -
  have h: "hb_contents (slot s (length qs)) = (if f = [] then 0 else 0x200)"
    and i: "current_rx_indicator (gw_core s) = 3" using assms(1) by (simp_all add: relaying_def holds_frame_def)
  then show ?thesis using assms(2,3) relaying_in(1) [OF assms(1)] by (simp add: before_data_def no_missing_indicator)
qed

lemma piece_arrives:
  assumes r: "relaying s qs f" and "octs \<noteq> []" and hd: "f = [] \<longrightarrow> hd octs = 0xFF"
    and g: "g = f @ map bit_reverse8 octs" "length g \<le> 260"
  shows "\<exists>s' cs. gateway_step s (Core_call (Rx_data 0 0 octs)) = Some (s', cs) \<and> relaying s' qs g \<and>
    same_settings s s' \<and> clean cs \<and> begun s qs f @ tx_octets cs = begun s' qs g"
proof -
  let ?s1 = "set_field_class s T38_FIELD_CLASS_HDLC" and ?b = "slot s (length qs)"
  have ok: "gw_ok s" "gw_ok ?s1" and b: "hb_len ?b = length f" "take (length f) (hb_buf ?b) = edited s f"
      "hb_flags ?b = (if 8 \<le> length f then 4 else 0)"
    and c: "fst (corrupt_current_frame s) = (3 \<le> length f \<and> suppressed s (f ! 2))"
    and i: "current_rx_indicator (gw_core s) = 3"
    using r by (simp_all add: relaying_def holds_frame_def)
  have b260: "length (hb_buf ?b) = 260" using slot_ok [OF ok(1)] by (simp add: hdlc_buf_ok_def)
  define buf where "buf = take (length f) (hb_buf ?b) @ map bit_reverse8 octs @ drop (length f + length octs) (hb_buf ?b)"
  have lg: "length g = length f + length octs" using g(1) by simp
  have buf: "bit_reverse_to (hb_buf ?b) (hb_len ?b) octs = Some buf" "length buf = 260"
    using g lg b260 by (simp_all add: bit_reverse_to_def b(1) buf_def)
  have "same_settings s ?s1" by (simp add: same_settings_def)
  then have e1: "edited ?s1 h = edited s h" "suppressed ?s1 ft = suppressed s ft" for h ft
    by (rule same_settings_edited, rule same_settings_suppressed)
  have pre: "take (length f) buf = edited ?s1 (take (length f) g)" "take (length octs) (drop (length f) buf) = take (length octs) (drop (length f) g)"
    using g lg b260 by (simp_all add: buf_def e1 b(2))
  have gf: "g ! 2 = f ! 2" if "3 \<le> length f" using that g(1) by (simp add: nth_append)
  have "fst (corrupt_current_frame ?s1) = (3 \<le> length f \<and> suppressed ?s1 (g ! 2))"
    using c gf by (auto simp: e1)
  from edit_piece [OF ok(2) buf(2) _ g(2) this pre] lg obtain buf' where
    e: "edit_octets ?s1 False buf (int (length f)) (length octs) =
        Some (set_corrupt ?s1 False (3 \<le> length g \<and> suppressed s (g ! 2)), buf')"
      "length buf' = 260" "take (length g) buf' = edited s g" by (auto simp: e1)
  let ?s2 = "set_corrupt ?s1 False (3 \<le> length g \<and> suppressed s (g ! 2))"
  let ?b' = "?b\<lparr>hb_buf := buf', hb_contents := 0x200, hb_flags := (if 8 \<le> length g then 4 else 0), hb_len := length g\<rparr>"
  let ?cs = "if 8 \<le> length g \<and> qs = [] then
      [Tx_frame (if 8 \<le> length f then take (length octs) (drop (length f) buf') else take (length g) buf')] else []"
  let ?s3 = "?s2\<lparr>hdlc_bufs := (hdlc_bufs ?s2)[ring_at s (length qs) := ?b']\<rparr>"
  have p: "put_in_buf ?s2 b' = Some (?s2\<lparr>hdlc_bufs := (hdlc_bufs ?s2)[ring_at s (length qs) := b']\<rparr>)" for b'
    using put_in_buf_eq [of ?s2 b'] ok relaying_in(2) [OF r] by simp
  have ed: "(if (0 :: int) = T38_DATA_V21 then edit_octets ?s1 False buf (int (hb_len ?b)) (length octs)
      else Some (?s1, buf)) = Some (?s2, buf')" using e(1) b(1) by simp
  have fl: "(if 8 \<le> length g then hb_flags ?b OR HDLC_FLAG_PROCEED_WITH_OUTPUT else hb_flags ?b) =
      (if 8 \<le> length g then 4 else 0)" using b(3) lg by simp
  have st: "((0 :: int) = T38_DATA_V21 \<and> int (hb_len ?b + length octs) \<ge> HDLC_START_BUFFER_LEVEL) = (8 \<le> length g)"
    using b(1) lg by simp linarith
  have "append_hdlc_data ?s1 0 octs = Some (?s3, ?cs)"
    unfolding append_hdlc_data_def in_buf_helpers relaying_in(1) [OF r] bind.bind_lunit buf(1) ed prod.case Let_def
      st fl p
    using relaying_in(3) [OF r] lg b(1,3) by (cases "qs = []") simp_all
  then have d: "rx_hdlc_data s 0 octs = Some (?s3, ?cs)"
    using before_data_v21 [OF r assms(2) hd] relaying_in(1) [OF r] assms(2) g(2) lg b(1)
    by (simp add: rx_hdlc_data_eq)
  let ?s4 = "?s3\<lparr>gw_core := (gw_core ?s3)\<lparr>current_rx_data_type := 0, current_rx_field_type := 0\<rparr>\<rparr>"
  have st: "gateway_step s (Core_call (Rx_data 0 0 octs)) = Some (?s4, ?cs)"
    by (simp add: gateway_step_def gateway_event_def process_rx_data_def d)
  have ss: "same_settings s ?s4" by (simp add: same_settings_def)
  have ne: "g \<noteq> []" using assms(2) g(1) by simp
  have r': "relaying ?s4 qs g"
  proof (rule relaying_update [OF r ss])
    show "hdlc_bufs ?s4 = (hdlc_bufs s)[ring_at s (length qs) := ?b']" by simp
    show "holds_frame s ?b' g False" using e(3) ne by (simp add: holds_frame_def)
    show "hdlc_buf_ok ?b'" using e(2) g(2) by (simp add: hdlc_buf_ok_def)
  qed (use i in simp_all)
  have "edited s f = take (length f) (edited s g)" using g(1) by (simp add: edited_take)
  also have "\<dots> = take (length f) buf'" by (simp add: e(3) [symmetric] lg)
  finally have t: "edited s f @ take (length octs) (drop (length f) buf') = edited s g"
    by (simp add: e(3) [symmetric] lg take_add)
  have "take (length octs) (drop (length f) buf') \<noteq> []" "take (length g) buf' \<noteq> []"
    using assms(2) e(2) g(2) lg by (cases octs; auto)+
  then have "clean ?cs" by simp
  moreover have "begun s qs f @ tx_octets ?cs = begun ?s4 qs g"
    unfolding same_settings_begun [OF ss] using t e(3) lg by (auto simp: begun_def split: list.splits)
  ultimately show ?thesis using st r' ss by blast
qed

section \<open>The end of a frame\<close>

text \<open>Monitoring touches neither the ring nor the settings, and never asks for a frame.\<close>

definition ring_kept :: "gateway_rx_state \<Rightarrow> gateway_rx_state \<Rightarrow> bool" where
  "ring_kept s s' \<longleftrightarrow> same_settings s s' \<and> hdlc_bufs s' = hdlc_bufs s \<and> hdlc_in s' = hdlc_in s \<and>
     hdlc_out s' = hdlc_out s \<and> current_rx_indicator (gw_core s') = current_rx_indicator (gw_core s)"

lemma ring_kept_refl [simp]: "ring_kept s s"
  by (simp add: ring_kept_def same_settings_def)

lemma ring_kept_frame [simp]:
  "ring_kept s (t\<lparr>fast_bit_rate := x1\<rparr>) = ring_kept s t" "ring_kept s (t\<lparr>short_train := x2\<rparr>) = ring_kept s t"
  "ring_kept s (t\<lparr>gw_timed_mode := x3\<rparr>) = ring_kept s t" "ring_kept s (t\<lparr>image_data_mode := x2\<rparr>) = ring_kept s t"
  "ring_kept s (t\<lparr>min_row_bits := x1\<rparr>) = ring_kept s t" "ring_kept s (t\<lparr>count_page_on_mcf := x2\<rparr>) = ring_kept s t"
  "ring_kept s (t\<lparr>pages_confirmed := x1\<rparr>) = ring_kept s t" "ring_kept s (t\<lparr>ecm_mode := x2\<rparr>) = ring_kept s t"
  "ring_kept s (t\<lparr>fast_rx_modem := x4\<rparr>) = ring_kept s t"
  by (simp_all add: ring_kept_def same_settings_def)

definition keeps :: "gateway_rx_state \<Rightarrow> gateway_rx_state option \<Rightarrow> bool" where
  "keeps s r \<longleftrightarrow> (\<forall>s'. r = Some s' \<longrightarrow> ring_kept s s')"

lemma keeps_Some [simp]: "keeps s (Some s') = ring_kept s s'"
  by (simp add: keeps_def)

lemma keeps_bind: "keeps s r \<Longrightarrow> (\<And>s'. ring_kept s s' \<Longrightarrow> keeps s (f s')) \<Longrightarrow> keeps s (r \<bind> f)"
  by (auto simp: keeps_def bind_eq_Some_conv)

lemma keeps_get: "(\<And>b. keeps s (f b)) \<Longrightarrow> keeps s (arr_get buf i \<bind> f)"
  by (auto simp: keeps_def bind_eq_Some_conv)

lemma keeps_if: "(c \<Longrightarrow> keeps s a) \<Longrightarrow> (\<not> c \<Longrightarrow> keeps s b) \<Longrightarrow> keeps s (if c then a else b)"
  by simp

lemma monitor_dcs_keeps: "ring_kept s t \<Longrightarrow> keeps s (monitor_dcs t m buf len)"
  unfolding monitor_dcs_def Let_def case_prod_unfold
  by (rule keeps_bind, (intro keeps_if keeps_get, simp, simp), rule keeps_bind,
      (intro keeps_if keeps_get, simp, simp), intro keeps_if keeps_get) simp_all

text \<open>The calls of monitoring.\<close>

definition monitor_keeps :: "gateway_rx_state \<Rightarrow> (gateway_rx_state \<times> modem_call list) option \<Rightarrow> bool" where
  "monitor_keeps s r \<longleftrightarrow> (\<forall>s' cs. r = Some (s', cs) \<longrightarrow> ring_kept s s' \<and> set cs \<subseteq> {Restart_rx_modem})"

lemma monitor_keeps_rules:
  "ring_kept s s' \<Longrightarrow> set cs \<subseteq> {Restart_rx_modem} \<Longrightarrow> monitor_keeps s (Some (s', cs))"
  "(\<And>b. monitor_keeps s (f b)) \<Longrightarrow> monitor_keeps s (arr_get buf i \<bind> f)"
  "(c \<Longrightarrow> monitor_keeps s a) \<Longrightarrow> (\<not> c \<Longrightarrow> monitor_keeps s b) \<Longrightarrow> monitor_keeps s (if c then a else b)"
  "keeps s r \<Longrightarrow> monitor_keeps s (map_option (\<lambda>s. (s, [])) r)"
  by (auto simp: monitor_keeps_def keeps_def bind_eq_Some_conv)

lemma monitor_ring: "monitor_keeps s (monitor_control_messages s m buf len)"
proof -
  have p: "monitor_keeps s (Some (if c then t else u, []))" if "ring_kept s t" "ring_kept s u" for c t u
    using that by (simp add: monitor_keeps_def)
  show ?thesis
    unfolding monitor_control_messages_def Let_def
    by (intro monitor_keeps_rules(2,3,4) p monitor_dcs_keeps) (auto intro!: monitor_keeps_rules(1))
qed

lemma finalise_eq:
  assumes ok: "gw_ok t" and b: "in_buf t = Some b" "hb_flags b = 0 \<or> hb_flags b = 4"
    and k: "k = nat (hdlc_in t)" "k' = nat (next_hdlc_buf (hdlc_in t))"
  shows "finalise_hdlc_frame t True =
    Some (t\<lparr>hdlc_bufs := (hdlc_bufs t)[k := b\<lparr>hb_flags := 5\<rparr>, k' := clear_buf (hdlc_bufs t ! k')],
            hdlc_in := next_hdlc_buf (hdlc_in t)\<rparr>,
          if hdlc_in t = hdlc_out t \<and> hb_flags b = 0 then [Tx_frame (take (hb_len b) (hb_buf b))] else [])"
proof -
  have i: "0 \<le> hdlc_in t" "hdlc_in t < 256" and l: "length (hdlc_bufs t) = 256" using ok by (simp_all add: gw_ok_def)
  have n: "0 \<le> next_hdlc_buf (hdlc_in t)" "next_hdlc_buf (hdlc_in t) < 256" using i by (auto simp: next_hdlc_buf_def)
  have kk: "k \<noteq> k'" "k < 256" "k' < 256" using i by (auto simp: k next_hdlc_buf_def nat_less_iff)
  let ?t1 = "t\<lparr>hdlc_bufs := (hdlc_bufs t)[k := b\<lparr>hb_flags := 5\<rparr>]\<rparr>"
  let ?t2 = "?t1\<lparr>hdlc_in := next_hdlc_buf (hdlc_in t)\<rparr>"
  have p1: "put_in_buf t (b\<lparr>hb_flags := 5\<rparr>) = Some ?t1" using put_in_buf_eq [OF ok] by (simp add: k)
  have g2: "in_buf ?t2 = Some (hdlc_bufs t ! k')"
    using n l kk by (simp add: in_buf_def arr_get_def k)
  have p2: "put_in_buf ?t2 c = Some (?t2\<lparr>hdlc_bufs := (hdlc_bufs ?t2)[k' := c]\<rparr>)" for c
    using n l by (simp add: put_in_buf_def arr_set_def k nat_less_iff)
  from b(2) show ?thesis
    unfolding finalise_hdlc_frame_def by (elim disjE) (use p1 g2 p2 in \<open>simp_all add: b(1) Let_def\<close>)
qed

lemma ring_kept_facts:
  assumes "ring_kept s t"
  shows "gw_ok s \<Longrightarrow> gw_ok t" "in_buf t = in_buf s"
  using assms by (simp_all add: ring_kept_def same_settings_def gw_ok_def in_buf_def)

lemma set_monitor_clean:
  "set cs \<subseteq> {Restart_rx_modem} \<Longrightarrow> clean (cs @ [Real_time_frame d f]) \<and> tx_octets (cs @ [Real_time_frame d f]) = []"
  by (auto simp: clean_def tx_octets_def split: modem_call.splits)

text \<open>The frame joins the queue, and an empty buffer follows it.\<close>

lemma relaying_join:
  assumes r: "relaying s qs f" and f: "f \<noteq> []" and q: "length qs < 254" and ss: "same_settings s s'"
    and bufs: "hdlc_bufs s' = (hdlc_bufs s)[ring_at s (length qs) := b\<lparr>hb_flags := 5\<rparr>,
        ring_at s (Suc (length qs)) := clear_buf (hdlc_bufs s ! ring_at s (Suc (length qs)))]"
      "hdlc_in s' = next_hdlc_buf (hdlc_in s)" "hdlc_out s' = hdlc_out s"
    and b: "hb_len b = length f" "take (length f) (hb_buf b) = edited s f" "hb_contents b = 0x200" "hdlc_buf_ok b"
    and core: "current_rx_indicator (gw_core s') = 3" and c: "fst (corrupt_current_frame s') = False"
  shows "relaying s' (qs @ [f]) []"
proof -
  have ra: "ring_at s' j = ring_at s j" for j by (simp add: ring_at_def bufs)
  have ok: "gw_ok s" and l: "length (hdlc_bufs s) = 256" and io: "0 \<le> hdlc_in s" "hdlc_in s < 256"
    using r by (simp_all add: relaying_def gw_ok_def)
  have ne: "ring_at s (length qs) \<noteq> ring_at s (Suc (length qs))" using q by (intro ring_at_inj) simp_all
  have j: "slot s' j = slot s j" if "j < length qs" for j
    using that ring_at_inj [of j "length qs" s] ring_at_inj [of j "Suc (length qs)" s] q
    by (simp add: slot_def ra bufs)
  have n: "slot s' (length qs) = b\<lparr>hb_flags := 5\<rparr>" using l ne by (simp add: slot_def ra bufs)
  have e: "slot s' (Suc (length qs)) = clear_buf (slot s (Suc (length qs)))" using l by (simp add: slot_def ra bufs)
  have i: "hdlc_in s' = (hdlc_out s' + int (length (qs @ [f]))) mod 256"
    using r io by (simp add: bufs next_mod relaying_def mod_add_right_eq mod_add_left_eq algebra_simps)
  have "gw_ok (s\<lparr>hdlc_bufs := (hdlc_bufs s)[ring_at s (length qs) := b\<lparr>hb_flags := 5\<rparr>]\<rparr>)"
    using ok b(4) by (intro gw_ok_put) simp_all
  from gw_ok_put [OF this, of "clear_buf (slot s (Suc (length qs)))" "ring_at s (Suc (length qs))"]
  have "gw_ok (s\<lparr>hdlc_bufs := hdlc_bufs s'\<rparr>)" using slot_ok [OF ok] by (simp add: bufs slot_def)
  then have "gw_ok s'"
    using ss gw_ok_next [OF ok] by (simp add: gw_ok_def bufs same_settings_def)
  moreover have "holds_frame s' (slot s' j) ((qs @ [f]) ! j) True \<and> (qs @ [f]) ! j \<noteq> []" if "j < length (qs @ [f])" for j
  proof (cases "j = length qs")
    case True
    have "holds_frame s (b\<lparr>hb_flags := 5\<rparr>) f True" using b f by (simp add: holds_frame_def)
    with True show ?thesis using n f by (simp add: same_settings_holds [OF ss])
  next
    case False
    then show ?thesis using r that j by (simp add: same_settings_holds [OF ss] relaying_def nth_append)
  qed
  ultimately show ?thesis
    using i q core c e by (simp add: relaying_def same_settings_holds [OF ss]) (simp add: holds_frame_def clear_buf_def)
qed

lemma frame_ends:
  assumes r: "relaying s qs f" and f: "f \<noteq> []" and q: "length qs < 254"
  shows "\<exists>s' cs. gateway_step s (Core_call (Rx_data 0 2 [])) = Some (s', cs) \<and> relaying s' (qs @ [f]) [] \<and>
    same_settings s s' \<and> clean cs \<and> begun s qs f @ tx_octets cs = begun s' (qs @ [f]) []"
proof -
  let ?s1 = "set_field_class s T38_FIELD_CLASS_HDLC" and ?b = "slot s (length qs)"
  have ok: "gw_ok s" and b: "hb_len ?b = length f" "take (length f) (hb_buf ?b) = edited s f"
      "hb_flags ?b = (if 8 \<le> length f then 4 else 0)" "hb_contents ?b = 0x200"
    and i: "current_rx_indicator (gw_core s) = 3" and ft: "current_rx_field_type (gw_core s) = 0"
    using r f by (simp_all add: relaying_def holds_frame_def)
  have bok: "hdlc_buf_ok ?b" using slot_ok [OF ok] .
  have ok1: "gw_ok ?s1" using ok by simp
  obtain s2 cs2 where m: "monitor_control_messages ?s1 False (hb_buf ?b) (int (hb_len ?b)) = Some (s2, cs2)"
    using monitor_good [OF ok1] bok unfolding good_def hdlc_buf_ok_def by blast
  have kept: "ring_kept ?s1 s2" and cs2: "set cs2 \<subseteq> {Restart_rx_modem}"
    using monitor_ring [of ?s1 False "hb_buf ?b" "int (hb_len ?b)"] m by (simp_all add: monitor_keeps_def)
  have ok2: "gw_ok s2" and in2: "in_buf s2 = Some ?b"
    using ring_kept_facts [OF kept] ok relaying_in(1) [OF r] by simp_all
  have k2: "hdlc_bufs s2 = hdlc_bufs s" "hdlc_in s2 = hdlc_in s" "hdlc_out s2 = hdlc_out s"
      "current_rx_indicator (gw_core s2) = 3" "same_settings s s2"
    using kept i by (simp_all add: ring_kept_def same_settings_def)
  let ?k = "ring_at s (length qs)" and ?k' = "ring_at s (Suc (length qs))"
  have ks: "nat (hdlc_in s) = ?k" "nat (next_hdlc_buf (hdlc_in s)) = ?k'"
    using r relaying_in(2) [OF r]
    by (simp_all add: relaying_def gw_ok_def next_mod ring_at_def mod_add_right_eq mod_add_left_eq algebra_simps)
  let ?b1 = "?b\<lparr>hb_contents := 0x200\<rparr>"
  let ?s3 = "s2\<lparr>hdlc_bufs := (hdlc_bufs s)[?k := ?b1]\<rparr>"
  have p: "put_in_buf s2 ?b1 = Some ?s3" using put_in_buf_eq [OF ok2] by (simp add: k2 ks)
  have ok3: "gw_ok ?s3" using gw_ok_put [OF ok2, of ?b1 ?k] bok by (simp add: k2)
  have in3: "in_buf ?s3 = Some ?b1"
    using ok2 ks(1) by (simp add: in_buf_def arr_get_def gw_ok_def k2)
  let ?s4 = "?s3\<lparr>hdlc_bufs := (hdlc_bufs ?s3)[?k := ?b1\<lparr>hb_flags := 5\<rparr>, ?k' := clear_buf (hdlc_bufs ?s3 ! ?k')],
            hdlc_in := next_hdlc_buf (hdlc_in s)\<rparr>"
  let ?cs = "if qs = [] \<and> \<not> 8 \<le> length f then [Tx_frame (edited s f)] else []"
  have fl: "hb_flags ?b1 = 0 \<or> hb_flags ?b1 = 4" using b(3) by simp
  have fin: "finalise_hdlc_frame ?s3 True = Some (?s4, ?cs)"
    using finalise_eq [OF ok3 in3 fl, of ?k ?k'] relaying_in(3) [OF r] b ks by (cases "qs = []") (simp_all add: k2)
  have ci: "check_indicator ?s1 0 = Some (?s1, [])"
    using relaying_in(1) [OF r] b(4) by (simp add: check_indicator_def)
  have "hb_flags ?b AND HDLC_FLAG_MISSING_DATA = 0" using b(3) by simp
  then have fcs: "rx_fcs_ok ?s1 0 = Some (?s4, cs2 @ [Real_time_frame False (take (length f) (hb_buf ?b))] @ ?cs)"
    unfolding rx_fcs_ok_def ci using relaying_in(1) [OF r] m in2 p fin b(1) by simp
  let ?s5 = "set_corrupt ?s4 False False"
  let ?s6 = "?s5\<lparr>gw_core := (gw_core ?s5)\<lparr>current_rx_data_type := 0, current_rx_field_type := 2\<rparr>\<rparr>"
  let ?all = "cs2 @ [Real_time_frame False (take (length f) (hb_buf ?b))] @ ?cs"
  have st: "gateway_step s (Core_call (Rx_data 0 2 [])) = Some (?s6, ?all)"
    using fcs ft by (simp add: gateway_step_def gateway_event_def process_rx_data_def rx_hdlc_fcs_ok_def is_repeat_def Let_def)
  have ss: "same_settings s ?s6" using k2(5) by (simp add: same_settings_def)
  have kne: "?k \<noteq> ?k'" using q by (intro ring_at_inj) simp_all
  have r': "relaying ?s6 (qs @ [f]) []"
    by (rule relaying_join [OF r f q ss, of ?b1]) (use kne b bok in \<open>simp_all add: k2\<close>)
  have "edited s f \<noteq> []" using f by (metis edited_length length_0_conv)
  then have "clean ?all \<and> tx_octets ?all = tx_octets ?cs"
    using set_monitor_clean [OF cs2, of False "[]"] by (simp add: clean_def)
  moreover have "begun s qs f @ tx_octets ?cs = begun ?s6 (qs @ [f]) []"
    unfolding same_settings_begun [OF ss] by (auto simp: begun_def split: list.splits)
  ultimately show ?thesis using st r' ss by auto
qed

section \<open>The modem is done with a frame\<close>

lemma hdlc_out_next:
  assumes "gw_ok s"
  shows "ring_at (s\<lparr>hdlc_bufs := bs, hdlc_out := next_hdlc_buf (hdlc_out s)\<rparr>) j = ring_at s (Suc j)"
  using assms by (simp add: ring_at_def gw_ok_def next_mod mod_add_left_eq mod_add_right_eq algebra_simps)

text \<open>The front of the queue leaves; what is next is handed over as far as it is there.\<close>

lemma front_leaves:
  assumes r: "relaying s (q # qs) f"
  shows "\<exists>s' cs. gateway_step s Modem_underflow = Some (s', cs) \<and> relaying s' qs f \<and>
    same_settings s s' \<and> clean cs \<and> tx_octets cs = begun s' qs f"
proof -
  have ok: "gw_ok s" and l: "length (hdlc_bufs s) = 256" and o: "0 \<le> hdlc_out s" "hdlc_out s < 256"
    using r by (simp_all add: relaying_def gw_ok_def)
  let ?b = "slot s 0"
  let ?s' = "s\<lparr>hdlc_bufs := (hdlc_bufs s)[nat (hdlc_out s) := clear_buf ?b], hdlc_out := next_hdlc_buf (hdlc_out s)\<rparr>"
  have b: "hb_flags ?b = 5" using r by (auto simp: relaying_def holds_frame_def)
  have get: "arr_get (hdlc_bufs s) (hdlc_out s) = Some ?b"
    using o l ring_at_0 [OF ok] by (simp add: arr_get_def slot_def)
  have set: "arr_set (hdlc_bufs s) (hdlc_out s) (clear_buf ?b) = Some ((hdlc_bufs s)[nat (hdlc_out s) := clear_buf ?b])"
    using o l by (simp add: arr_set_def)
  obtain ok': "gw_ok ?s'" using pass_out_buf [OF ok] get by auto
  have ra: "ring_at ?s' j = ring_at s (Suc j)" for j by (rule hdlc_out_next [OF ok])
  have sl: "slot ?s' j = slot s (Suc j)" if "j \<le> length qs" for j
  proof -
    have "ring_at s 0 \<noteq> ring_at s (Suc j)" using r that by (intro ring_at_inj) (simp_all add: relaying_def)
    moreover have "slot ?s' j = hdlc_bufs ?s' ! ring_at s (Suc j)" by (simp only: slot_def [of ?s'] ra)
    ultimately show ?thesis using ring_at_0 [OF ok] by (simp add: slot_def [of s "Suc j"])
  qed
  have ss: "same_settings s ?s'" by (simp add: same_settings_def)
  have i: "hdlc_in ?s' = (hdlc_out ?s' + int (length qs)) mod 256"
    using r o by (simp add: relaying_def next_mod mod_add_left_eq mod_add_right_eq algebra_simps)
  have h: "holds_frame s (slot s (Suc (length qs))) f False" using r by (simp add: relaying_def)
  have q: "qs ! j \<noteq> [] \<and> holds_frame s (slot s (Suc j)) (qs ! j) True" if "j < length qs" for j
    using r that by (auto simp: relaying_def)
  have r': "relaying ?s' qs f"
    using ok' i r sl h q
    by (simp add: relaying_def same_settings_holds [OF ss] same_settings_suppressed [OF ss])
  let ?n = "slot s 1"
  have n: "arr_get (hdlc_bufs ?s') (hdlc_out ?s') = Some ?n"
    using ok' sl [of 0] ring_at_0 [OF ok'] by (simp add: arr_get_def gw_ok_def slot_def)
  let ?cs = "if hb_contents ?n AND FLAG_INDICATOR \<noteq> 0 then [Tx_frame []]
             else if hb_contents ?n AND FLAG_DATA \<noteq> 0 \<and> hb_flags ?n AND HDLC_FLAG_PROCEED_WITH_OUTPUT \<noteq> 0 then
               [Tx_frame (take (hb_len ?n) (hb_buf ?n))] @
               (if hb_flags ?n AND HDLC_FLAG_CORRUPT_CRC \<noteq> 0 then [Tx_corrupt_frame] else [])
             else []"
  have st: "gateway_step s Modem_underflow = Some (?s', ?cs)"
    unfolding gateway_step_def gateway_step.case hdlc_underflow_handler_def get set bind.bind_lunit Let_def n
    using b by simp
  have "clean ?cs \<and> tx_octets ?cs = begun s qs f"
  proof (cases qs)
    case Nil
    have "holds_frame s ?n f False" using h Nil by simp
    moreover have "8 \<le> length f \<Longrightarrow> edited s f \<noteq> [] \<and> f \<noteq> []" using edited_length [of s f] by (auto simp del: edited_length)
    ultimately show ?thesis using Nil by (auto simp: holds_frame_def begun_def)
  next
    case (Cons p ps)
    then have "holds_frame s ?n p True" "p \<noteq> []" using q [of 0] by simp_all
    moreover from this(2) have "edited s p \<noteq> []" by (metis edited_length length_0_conv)
    ultimately show ?thesis using Cons by (simp add: holds_frame_def begun_def)
  qed
  then show ?thesis using st r' ss by (auto simp: same_settings_begun [OF ss])
qed

lemma nothing_begun:
  assumes r: "relaying s [] f" and "length f < 8"
  shows "gateway_step s Modem_underflow = Some (s, [])"
proof -
  have "gw_ok s" "hb_flags (slot s 0) = 0" using r assms(2) by (simp_all add: relaying_def holds_frame_def)
  then show ?thesis
    using ring_at_0 [of s] by (simp add: gateway_step_def hdlc_underflow_handler_def arr_get_def gw_ok_def slot_def)
qed

section \<open>A burst of frames\<close>

text \<open>
  What happens while the V.21 carrier is on: octets arrive, the frame check arrives, the
  transmitter is done with a frame. \<open>burst\<close> checks such a sequence, with \<open>w\<close> complete
  frames waiting and \<open>f\<close> the octets of the current one, and gives the frames: pieces of a
  frame are not empty, a frame starts with the address 0xFF and has at most 260 octets, not
  more than 254 frames wait, and the transmitter does not run dry within a frame of which
  it has been given the start.
\<close>

datatype v21_event = Piece octets | Frame_end | Frame_sent

fun v21_step :: "v21_event \<Rightarrow> gateway_step" where
  "v21_step (Piece octs) = Core_call (Rx_data 0 0 octs)"
| "v21_step Frame_end = Core_call (Rx_data 0 2 [])"
| "v21_step Frame_sent = Modem_underflow"

fun burst :: "nat \<Rightarrow> octets \<Rightarrow> v21_event list \<Rightarrow> octets list option" where
  "burst w f [] = (if w = 0 \<and> f = [] then Some [] else None)"
| "burst w f (Piece octs # es) =
     (if octs \<noteq> [] \<and> (f = [] \<longrightarrow> hd octs = 0xFF) \<and> length f + length octs \<le> 260
      then burst w (f @ map bit_reverse8 octs) es else None)"
| "burst w f (Frame_end # es) =
     (if f \<noteq> [] \<and> w < 254 then map_option (\<lambda>fs. f # fs) (burst (Suc w) [] es) else None)"
| "burst w f (Frame_sent # es) =
     (if w > 0 then burst (w - 1) f es else if length f < 8 then burst w f es else None)"

definition idle :: "gateway_rx_state \<Rightarrow> bool" where
  "idle s \<longleftrightarrow> relaying s [] []"

lemma same_settings_trans: "same_settings s t \<Longrightarrow> same_settings t u \<Longrightarrow> same_settings s u"
  by (simp add: same_settings_def)

text \<open>What the modem gets from here on completes the queue and all frames to come.\<close>

lemma burst_relayed:
  assumes "relaying s qs f" "burst (length qs) f es = Some fs"
  shows "\<exists>s' cs. gateway_run s (map v21_step es) = Some (s', cs) \<and> idle s' \<and> same_settings s s' \<and> clean cs \<and>
    begun s qs f @ tx_octets cs = concat (map (edited s) (qs @ fs))"
  using assms
proof (induction es arbitrary: s qs f fs)
  case Nil
  then have "qs = []" "f = []" "fs = []" by (auto split: if_splits)
  then show ?case using Nil(1) by (simp add: idle_def same_settings_def begun_def)
next
  case (Cons e es)
  have step: ?case
    if st: "gateway_step s (v21_step e) = Some (s1, c1)" and r: "relaying s1 qs1 f1" and ss: "same_settings s s1"
      and c: "clean c1" and b: "burst (length qs1) f1 es = Some fs1"
      and out: "begun s qs f @ tx_octets c1 = gone @ begun s1 qs1 f1"
      and all: "concat (map (edited s) (qs @ fs)) = gone @ concat (map (edited s) (qs1 @ fs1))"
    for s1 c1 qs1 f1 fs1 gone
  proof -
    obtain s' cs where 1: "gateway_run s1 (map v21_step es) = Some (s', cs)" "idle s'" "same_settings s1 s'" "clean cs"
      "begun s1 qs1 f1 @ tx_octets cs = concat (map (edited s1) (qs1 @ fs1))"
      using Cons.IH [OF r b] by blast
    have "edited s1 = edited s" using ss by (simp add: fun_eq_iff same_settings_edited)
    then have "begun s qs f @ tx_octets (c1 @ cs) = concat (map (edited s) (qs @ fs))"
      using 1(5) out all by (simp flip: append_assoc) simp
    moreover have "gateway_run s (map v21_step (e # es)) = Some (s', c1 @ cs)" using st 1(1) by simp
    ultimately show ?thesis using 1(2,4) c same_settings_trans [OF ss 1(3)] by auto
  qed
  show ?case
  proof (cases e)
    case (Piece octs)
    let ?g = "f @ map bit_reverse8 octs"
    have p: "octs \<noteq> []" "f = [] \<longrightarrow> hd octs = 0xFF" "length ?g \<le> 260" "burst (length qs) ?g es = Some fs"
      using Cons.prems(2) Piece by (simp_all split: if_splits)
    obtain s1 c1 where "gateway_step s (Core_call (Rx_data 0 0 octs)) = Some (s1, c1)" "relaying s1 qs ?g"
      "same_settings s s1" "clean c1" "begun s qs f @ tx_octets c1 = begun s1 qs ?g"
      using piece_arrives [OF Cons.prems(1) p(1,2) refl p(3)] by blast
    then show ?thesis using p(4) Piece by (intro step [where gone = "[]"]) simp_all
  next
    case Frame_end
    then obtain fs1 where p: "f \<noteq> []" "length qs < 254" "burst (Suc (length qs)) [] es = Some fs1" "fs = f # fs1"
      using Cons.prems(2) by (auto split: if_splits)
    obtain s1 c1 where "gateway_step s (Core_call (Rx_data 0 2 [])) = Some (s1, c1)" "relaying s1 (qs @ [f]) []"
      "same_settings s s1" "clean c1" "begun s qs f @ tx_octets c1 = begun s1 (qs @ [f]) []"
      using frame_ends [OF Cons.prems(1) p(1,2)] by blast
    then show ?thesis using p(3,4) Frame_end
      by (intro step [where gone = "[]" and ?qs1.0 = "qs @ [f]" and ?f1.0 = "[]"]) simp_all
  next
    case Frame_sent
    show ?thesis
    proof (cases qs)
      case Nil
      then have p: "length f < 8" "burst 0 f es = Some fs" using Cons.prems(2) Frame_sent by (simp_all split: if_splits)
      then show ?thesis
        using nothing_begun [of s f] Cons.prems(1) Nil Frame_sent
        by (intro step [where gone = "[]" and ?qs1.0 = "[]" and ?f1.0 = f and ?s1.0 = s and ?c1.0 = "[]"])
          (simp_all add: same_settings_def)
    next
      case q: (Cons q qs1)
      have p: "burst (length qs1) f es = Some fs" using Cons.prems(2) Frame_sent q by simp
      obtain s1 c1 where "gateway_step s Modem_underflow = Some (s1, c1)" "relaying s1 qs1 f" "same_settings s s1"
        "clean c1" "tx_octets c1 = begun s1 qs1 f" using front_leaves Cons.prems(1) q by blast
      then show ?thesis using p Frame_sent q
        by (intro step [where gone = "edited s q"]) (simp_all add: begun_def)
    qed
  qed
qed

text \<open>The carrier comes on: the ring is empty again, and the modem takes its bits from it.\<close>

lemma carrier_on:
  assumes "gw_ok s" "hdlc_in s = hdlc_out s" "in_buf s = Some b" "hb_contents b = 0"
    and "current_rx_indicator (gw_core s) \<noteq> 3" "\<not> fst (corrupt_current_frame s)" "next_tx_handler s = None"
    and "arr_get (hdlc_bufs s) (next_hdlc_buf (hdlc_in s)) = Some n" "hb_flags n = 0" "hb_contents n = 0"
  shows "\<exists>s' cs. gateway_run s [Core_call (Rx_indicator 3), Handler_done] = Some (s', cs) \<and> idle s' \<and>
    same_settings s s' \<and> tx_handler s' = Silence_gen \<and> next_tx_handler s' = Some Fsk_tx"
proof -
  have io: "0 \<le> hdlc_out s" "hdlc_out s < 256" and l: "length (hdlc_bufs s) = 256"
    and all: "\<forall>b \<in> set (hdlc_bufs s). hdlc_buf_ok b" using assms(1) by (simp_all add: gw_ok_def)
  let ?o = "hdlc_out s" and ?n = "next_hdlc_buf (hdlc_out s)"
  have no: "0 \<le> ?n" "?n < 256" "?n \<noteq> ?o" "nat ?n \<noteq> nat ?o" "nat ?n < 256" "nat ?o < 256"
    using io by (auto simp: next_hdlc_buf_def nat_less_iff)
  have b: "hdlc_bufs s ! nat ?o = b" using assms(2,3) io l by (simp add: in_buf_def arr_get_def)
  have n: "hdlc_bufs s ! nat ?n = n" using assms(2,8) no l by (simp add: arr_get_def)
  let ?b1 = "b\<lparr>hb_contents := 0x103\<rparr>"
  let ?core = "(gw_core s)\<lparr>current_rx_data_type := -1, current_rx_field_type := -1, current_rx_indicator := 3\<rparr>"
  let ?s1 = "s\<lparr>gw_core := ?core, hdlc_bufs := (hdlc_bufs s)[nat ?o := ?b1], hdlc_in := ?n,
      current_rx_field_class := T38_FIELD_CLASS_NONE\<rparr>"
  have s1: "\<exists>c. gateway_step s (Core_call (Rx_indicator 3)) = Some (?s1, c)"
    using assms(2-5) io l b
    by (simp add: gateway_step_def gateway_event_def process_rx_indicator_def Let_def in_buf_def put_in_buf_def
        arr_get_def arr_set_def)
  let ?bs = "(hdlc_bufs s)[nat ?o := clear_buf ?b1, nat ?n := n\<lparr>hb_len := 0\<rparr>]"
  let ?s2 = "?s1\<lparr>hdlc_bufs := ?bs, hdlc_out := ?n, tx_bit_rate := 300, tx_handler := Silence_gen,
      next_tx_handler := Some Fsk_tx, in_progress_rx_indicator := 3\<rparr>"
  have s2: "\<exists>c. gateway_step ?s1 Handler_done = Some (?s2, c)"
    using assms(7) io l no n
    by (simp add: gateway_step_def set_next_tx_type_def Let_def start_tx_def set_tx_def in_buf_def put_in_buf_def
        arr_get_def arr_set_def)
  have ok: "hdlc_buf_ok b" "hdlc_buf_ok n" using all l no(5,6) nth_mem [of _ "hdlc_bufs s"] by (auto simp flip: b n)
  have "hdlc_buf_ok (n\<lparr>hb_len := 0\<rparr>)" "hdlc_buf_ok (clear_buf ?b1)" using ok by (auto simp: hdlc_buf_ok_def clear_buf_def)
  then have "\<forall>b \<in> set ?bs. hdlc_buf_ok b" using all by (intro ball_set_update)
  then have "gw_ok ?s2" using assms(1) no by (simp add: gw_ok_def)
  moreover have "slot ?s2 0 = n\<lparr>hb_len := 0\<rparr>" using l no by (simp add: slot_def ring_at_def)
  ultimately have "idle ?s2"
    using assms(6,9,10) no by (simp add: idle_def relaying_def holds_frame_def)
  moreover have "same_settings s ?s2" by (simp add: same_settings_def)
  ultimately show ?thesis using s1 s2 by (intro exI [of _ ?s2]) auto
qed

end
