(* ===== verification/Gateway_Safety.thy ===== *)
theory Gateway_Safety
  imports Gateway_Relay
begin

text \<open>
  Properties of the T.38 to modem side: it stays within its arrays except in one
  situation, which can be reached, and it relays control frames.
\<close>

section \<open>From the initial state\<close>

lemma gateway_init_state:
  "\<exists>gw. t38_gateway_init True True True = Some gw \<and> supported_modems gw = 7 \<and> ecm_allowed gw = 1 \<and>
    suppress_nsx_len gw = (6, 6) \<and> current_rx_indicator (gw_core gw) = -1"
  by (simp add: t38_gateway_init_def t38_gateway_t38_init_def t38_core_init_def t38_core_restart_def
      t38_set_redundancy_control_def arr_set_def t38_set_fastest_image_data_rate_def Let_def
      t38_gateway_set_nsx_suppression_def t38_gateway_set_supported_modems_def)

lemma rx_init_fields:
  "current_rx_indicator (gw_core (gateway_rx_init gw)) = current_rx_indicator (gw_core gw)"
  "suppress_nsx_len (gateway_rx_init gw) = suppress_nsx_len gw"
  "supported_modems (gateway_rx_init gw) = supported_modems gw" "ecm_allowed (gateway_rx_init gw) = ecm_allowed gw"
  "hdlc_bufs (gateway_rx_init gw) = replicate 256 hdlc_buf_init" "hdlc_in (gateway_rx_init gw) = 0"
  "hdlc_out (gateway_rx_init gw) = 0" "corrupt_current_frame (gateway_rx_init gw) = (False, False)"
  "image_data_mode (gateway_rx_init gw) = False" "next_tx_handler (gateway_rx_init gw) = None" "current_rx_field_class (gateway_rx_init gw) = T38_FIELD_CLASS_NONE"
  by (simp_all add: gateway_rx_init_def t38_gateway_state.extend_def)

lemma rx_init_idle:
  assumes "current_rx_indicator (gw_core gw) \<noteq> 3" "suppress_nsx_len gw = (6, 6)"
  shows "\<exists>s cs. gateway_run (gateway_rx_init gw) [Core_call (Rx_indicator 3), Handler_done] = Some (s, cs) \<and> idle s \<and>
    same_settings (gateway_rx_init gw) s"
proof -
  have b: "arr_get (replicate 256 hdlc_buf_init) i = Some hdlc_buf_init" if "0 \<le> i" "i < 256" for i
    using that by (simp add: arr_get_def nat_less_iff)
  have "gw_ok (gateway_rx_init gw)" using assms(2) by (intro rx_init_ok) simp_all
  then show ?thesis
    using carrier_on [of "gateway_rx_init gw" hdlc_buf_init hdlc_buf_init] assms(1) b [of 0] b [of 1]
    by (simp add: rx_init_fields in_buf_def next_hdlc_buf_def hdlc_buf_init_def del: gateway_run.simps) blast
qed

text \<open>
  Property C12. Whatever indicators, missing packets and data fields the core reports to
  a gateway from its initial state on, and whenever the modem runs out of data or the
  transmit handler ends: all accesses stay within the ring of 256 buffers, their 260
  octets and the tables, except when octets come for a suppressed frame whose first
  three octets are not in the current buffer.
\<close>

theorem gateway_stays_in_bounds:
  "case t38_gateway_init True True True of
     None \<Rightarrow> False
   | Some gw \<Rightarrow>
       (\<exists>s cs. gateway_run (gateway_rx_init gw) xs = Some (s, cs) \<and> gw_ok s) \<or>
       (\<exists>pre x post s cs. xs = pre @ x # post \<and> gateway_run (gateway_rx_init gw) pre = Some (s, cs) \<and>
          lost_call s x \<and> gateway_run (gateway_rx_init gw) xs = None)"
proof -
  obtain gw where gw: "t38_gateway_init True True True = Some gw" "suppress_nsx_len gw = (6, 6)"
    using gateway_init_state by blast
  then have "gw_ok (gateway_rx_init gw)" by (intro rx_init_ok) simp_all
  from run_good [OF this, of xs] gw(1) show ?thesis by simp
qed

text \<open>A buffer as it is at first, and evaluation of steps on a ring of such buffers.\<close>

lemma hdlc_buf_init_fields [simp]:
  "hb_len hdlc_buf_init = 0" "hb_flags hdlc_buf_init = 0" "hb_contents hdlc_buf_init = 0"
  "hb_buf hdlc_buf_init = replicate 260 0"
  by (simp_all add: hdlc_buf_init_def)

lemmas run_simps = rx_init_fields gateway_step_def gateway_event_def process_rx_indicator_def in_buf_def
  put_in_buf_def arr_get_def arr_set_def next_hdlc_buf_def set_next_tx_type_def start_tx_def set_tx_def
  clear_buf_def Let_def process_rx_data_def rx_hdlc_data_def queue_missing_indicator_def
  expected_indicator_def set_field_class_def append_hdlc_data_def bit_reverse_to_def edit_control_messages_def
  of_direction_def set_corrupt_def bit_reverse8_def

text \<open>
  Property C19. The start of an NSF frame, a change of indicator and back, and one more
  octet make a new gateway read nsx_overwrite three places before its start: the mark of
  a suppressed frame outlives the frame.
\<close>

theorem abandoned_nsf_overruns:
  "case t38_gateway_init True True True of
     None \<Rightarrow> False
   | Some gw \<Rightarrow>
       (let xs = [Core_call (Rx_indicator 3), Handler_done, Core_call (Rx_data 0 0 [0xFF, 0xC0, 0x04]),
                  Core_call (Rx_indicator 0), Core_call (Rx_indicator 3)]
        in (\<exists>s cs. gateway_run (gateway_rx_init gw) xs = Some (s, cs) \<and> gw_ok s) \<and>
           gateway_run (gateway_rx_init gw) (xs @ [Core_call (Rx_data 0 0 [0xFF])]) = None)"
proof -
  obtain gw where gw: "t38_gateway_init True True True = Some gw" "suppress_nsx_len gw = (6, 6)"
    "current_rx_indicator (gw_core gw) = -1"
    using gateway_init_state by blast
  let ?s = "gateway_rx_init gw"
  let ?xs = "[Core_call (Rx_indicator 3), Handler_done, Core_call (Rx_data 0 0 [0xFF, 0xC0, 0x04]),
                  Core_call (Rx_indicator 0), Core_call (Rx_indicator 3)]"
  have "gw_ok ?s" using gw(2) by (intro rx_init_ok) simp_all
  moreover have "gateway_run ?s ?xs \<noteq> None" using gw(2,3) by (simp add: run_simps)
  ultimately have "\<exists>s cs. gateway_run ?s ?xs = Some (s, cs) \<and> gw_ok s" using run_good [of ?s ?xs] by fastforce
  moreover have "gateway_run ?s (?xs @ [Core_call (Rx_data 0 0 [0xFF])]) = None"
    using gw(2,3) by (simp add: run_simps)
  ultimately show ?thesis using gw(1) by (simp add: Let_def del: gateway_run.simps)
qed

section \<open>Control frames\<close>

text \<open>
  Property C3. While the V.21 carrier is on, control frames that arrive from T.38 in
  pieces of any size, queue up to 254 deep and are taken by the modem at any pace reach
  the modem completely and in order: the octets handed to it are the frames bit reversed
  and edited (DIS loses V.8 and unsupported modems, NSF, NSC and NSS are overwritten),
  no frame is spoilt and the modem is not shut down, as long as it does not run dry
  within a frame it was given the start of.
\<close>

theorem control_frames_relayed:
  assumes "idle s" "burst 0 [] es = Some frames"
  shows "\<exists>s' cs. gateway_run s (map v21_step es) = Some (s', cs) \<and> idle s' \<and>
    tx_octets cs = concat (map (edited s) frames) \<and> Tx_corrupt_frame \<notin> set cs \<and> Tx_frame [] \<notin> set cs"
  using burst_relayed [of s "[]" "[]" es frames] assms by (auto simp: idle_def begun_def clean_def)

text \<open>
  A non-standard facilities frame, which is overwritten, and a DIS frame, which loses V.8
  and keeps the rest; the DIS arrives while the first frame is still being sent.
\<close>

theorem control_frames_relayed_witness:
  "\<exists>s s' cs. idle s \<and>
    gateway_run s (map v21_step [Piece [0xFF, 0xC0], Piece [0x04, 0x12, 0x34, 0x56, 0x78], Frame_end,
        Piece [0xFF, 0xC8, 0x01], Frame_sent, Piece [0x6E, 0x34], Frame_end, Frame_sent]) = Some (s', cs) \<and>
    idle s' \<and> tx_octets cs = [0xFF, 0x03, 0x20, 0xFF, 0x00, 0x00, 0x1E, 0xFF, 0x13, 0x80, 0x56, 0x2C] \<and>
    Tx_corrupt_frame \<notin> set cs"
proof -
  obtain gw :: t38_gateway_state where gw: "supported_modems gw = 7" "suppress_nsx_len gw = (6, 6)" "current_rx_indicator (gw_core gw) = -1"
    using gateway_init_state by blast
  obtain s where s: "idle s" "same_settings (gateway_rx_init gw) s" using rx_init_idle [of gw] gw by auto
  have set: "supported_modems s = 7" "suppress_nsx_len s = (6, 6)"
    using s(2) gw by (simp_all add: same_settings_def rx_init_fields)
  let ?es = "[Piece [0xFF, 0xC0], Piece [0x04, 0x12, 0x34, 0x56, 0x78], Frame_end,
        Piece [0xFF, 0xC8, 0x01], Frame_sent, Piece [0x6E, 0x34], Frame_end, Frame_sent]"
  have "burst 0 [] ?es = Some [[0xFF, 0x03, 0x20, 0x48, 0x2C, 0x6A, 0x1E], [0xFF, 0x13, 0x80, 0x76, 0x2C]]"
    by code_simp
  moreover have "concat (map (edited s) [[0xFF, 0x03, 0x20, 0x48, 0x2C, 0x6A, 0x1E], [0xFF, 0x13, 0x80, 0x76, 0x2C]]) =
      [0xFF, 0x03, 0x20, 0xFF, 0x00, 0x00, 0x1E, 0xFF, 0x13, 0x80, 0x56, 0x2C]"
    by (simp add: edited_octet_def suppressed_def set nsx_overwrite_def constrain_modems_def Let_def)
  ultimately show ?thesis using control_frames_relayed [OF s(1), of ?es] s(1)
    by (metis (no_types, lifting))
qed

end
