(* ===== verification/Spec2Isabelle.thy ===== *)
theory Spec2Isabelle
  imports Main Udptl_Redundancy Udptl_Fec Udptl_Hostile Slot_Alloc Msg_Roundtrip T38_Ifp T38_Gateway
    Call_Limits Fax_Path Hdlc_Link Non_Ecm_Image Gateway_Safety
begin

text \<open>
  A verification development for the fax gateway \<^verbatim>\<open>fax_bu_app\<close>: its own sources under
  \<^verbatim>\<open>src/src\<close> and \<^verbatim>\<open>src/include\<close>, and the parts of the bundled \<^verbatim>\<open>spandsp\<close> library that
  carry its T.38 traffic. Paths below are relative to these directories.

  \<^bold>\<open>The program.\<close> One process waits with \<open>poll\<close> on a control socket and on one socket per
  call leg. A \<open>SETUP\<close> datagram creates a call: two sessions at neighbouring places of the
  session table, each with a port from a pool of 200, an identifier from one of two
  regions, a socket and a fax part. A fax part is a T.38 gateway on top of a UDPTL
  context; the two legs of a call pass audio to each other through a thread per leg and
  packets to the network. A \<open>RELEASE\<close> datagram ends a call. A \<open>SETUP\<close> that
  fails and a datagram that does not parse are answered with an \<open>ERROR\<close> message; \<open>OK\<close> and
  \<open>ERROR\<close> datagrams change nothing.

  \<^bold>\<open>Conventions.\<close> A function of the code that can leave defined behaviour is a function
  into \<open>'a option\<close>, where \<open>None\<close> is an access outside an array, a null pointer or a loop that
  does not end; error returns of the code are values of the result. Registers and CRCs are
  words of their width; lengths and counters are integers with the masks and remainders of
  the code written out. What the operating system decides (memory, sockets, what arrives)
  is an argument. Handlers that a library calls back are events of the result, in order.
  Traces and logging are left out.

  \<^bold>\<open>Which theory models what.\<close>
  \<^item> \<open>Fax_Prelude\<close>: octets, bounds-checked arrays, lemmas on words and lists shared by all.
    \<open>C_Library\<close>: \<open>sscanf\<close> with \<open>%s\<close>, \<open>strtoul\<close>, \<open>inet_addr\<close>, \<open>sprintf\<close> on strings.
  \<^item> \<open>Udptl_Codec\<close>, \<open>Udptl_State\<close>, \<open>Udptl_Tx\<close>, \<open>Udptl_Rx\<close>: \<^verbatim>\<open>udptl.c\<close>, \<^verbatim>\<open>udptl.h\<close>; the record
    \<open>udptl_state\<close> is \<open>struct udptl_state_s\<close>, \<open>udptl_build_packet\<close> and \<open>udptl_rx_packet\<close> are the
    functions of that name, with the messages delivered as a list.
  \<^item> \<open>T38_Core\<close>: \<^verbatim>\<open>spandsp/t38_core.c\<close>, all of it but logging. \<open>T38_Gateway\<close>: set-up,
    packetisation and timing of \<^verbatim>\<open>spandsp/t38_gateway.c\<close>. \<open>Gateway_Control\<close>, \<open>Gateway_Rx\<close>: its
    way from T.38 to the modem. The record \<open>gateway_rx_state\<close> holds the ring \<open>hdlc_to_modem\<close>
    and the other fields this side uses; what is asked of the modems is a list of
    \<open>modem_call\<close>s.
  \<^item> \<open>Crc\<close>, \<open>Hdlc_Rx\<close>, \<open>Hdlc_Tx\<close>: \<^verbatim>\<open>spandsp/crc.c\<close> and \<^verbatim>\<open>spandsp/hdlc.c\<close>, the framing of the T.30 messages
    that a gateway relays. \<open>Non_Ecm\<close>: \<^verbatim>\<open>spandsp/t38_non_ecm_buffer.c\<close>, the buffer for
    image data on its way to the modem.
  \<^item> \<open>Fax\<close>: \<^verbatim>\<open>fax.c\<close>. \<open>Msg_Proc\<close>: \<^verbatim>\<open>msg_proc.c\<close>. \<open>Slot_Alloc\<close>: the port pool of \<^verbatim>\<open>app.c\<close> and the identifiers
    of \<^verbatim>\<open>session.c\<close>. \<open>Session\<close>, \<open>Session_Control\<close>: \<^verbatim>\<open>session.c\<close>. \<open>App\<close>: \<^verbatim>\<open>app.c\<close>, \<^verbatim>\<open>main.c\<close>.
    \<open>Session_System\<close>, \<open>Process\<close>: the process as a step relation, passes of the main loop and
    steps of the fax threads in any order.

  \<^bold>\<open>What is shown.\<close>
  \<^item> UDPTL. \<open>Udptl_Redundancy\<close>: over a channel that loses at most \<open>k\<close> packets in a row every
    message is delivered once and in order. \<open>Udptl_Safety\<close>: datagrams whose elements fit the
    arrays never leave them or loop for ever, and a history of such datagrams, FEC lengths
    included, keeps the context well formed; a rejected datagram delivers nothing.
    \<open>Udptl_Fec\<close>: a lost message of a group is rebuilt. \<open>Udptl_Hostile\<close>: the datagrams that do
    harm, among them a rejected one that leaves a FEC length no array has.
  \<^item> T.38. \<open>T38_Ifp\<close>: decoding stays within the packet and returns for all octets; encoding
    and decoding are inverse on the packets that the decoder's version of the syntax can
    carry, and a version 0 field without data before another one is not among them; late and
    repeated packets change nothing. \<open>Fax_Path\<close> composes gateway core, packet handler, UDPTL
    and receiver: what one session sends within the bounds below reaches the handlers of the
    other exactly once and in order, unless more than three packets in a row are lost.
  \<^item> Gateway. \<open>Gateway_Rx_Facts\<close>: an invariant of the ring, and the one situation in which an
    array is left. \<open>Gateway_Edit\<close>: editing octet by octet is editing of whole frames.
    \<open>Gateway_Ring\<close>, \<open>Gateway_Relay\<close>: the ring is a queue of frames. \<open>Gateway_Safety\<close>: control
    frames reach the modem whole, in order and edited.
  \<^item> HDLC. \<open>Crc\<close>, \<open>Crc_Detect\<close>: the tables against the bitwise definition, acceptance of
    exactly the right check octets, detection of bursts, from one locale \<open>frame_check\<close>
    interpreted for both widths. \<open>Hdlc_Rx_Facts\<close> to \<open>Hdlc_Link\<close>: the receiver never
    overflows and delivers as good only octets that its CRC followed, and transmitter and
    receiver together deliver every frame whole.
  \<^item> Images. \<open>Non_Ecm_Bits\<close>: the end-of-line test finds every run of eleven zeros before a
    one. \<open>Non_Ecm_Ring\<close>: the ring is a queue. \<open>Non_Ecm_Rows\<close>, \<open>Non_Ecm_Image\<close>: a fax decoder sees in
    the output the image of the input.
  \<^item> Allocation. \<open>Slot_Alloc\<close>: both allocators against the locale \<open>slot_allocator\<close> of an
    allocator that never hands out what is held. \<open>Session_Resources\<close>: what the sessions hold is
    exactly what the tables mark; the proofs use the laws of the locale only.
  \<^item> Signalling. \<open>Msg_Roundtrip\<close>: well-formed messages are parsed back from what composing
    them writes, and what parsing an arbitrary buffer yields is a sound message or a negative
    code, unless a word overruns an array at an unchecked \<open>%s\<close> conversion.
  \<^item> Calls. \<open>Session_Inv\<close> to \<open>Call_Limits\<close>: every reachable state of the process is well
    formed, and every step refines operations on an abstract table of calls (\<open>SETUP\<close> appends,
    \<open>RELEASE\<close> removes, compaction changes nothing); answers to commands; shutdown; and the
    states in which the code fails.

  \<^bold>\<open>Bounds and fuel.\<close> 65535 messages per direction: the sequence number of UDPTL has 16 bits
  and its wrap is not covered by the delivery theorems. Three lost packets in a row: the
  sessions are set up with three redundant entries. Packets of at most 98 octets in
  \<open>Fax_Path\<close>: four of them fit the 400 octets of \<open>t38_tx_packet_handler\<close>. 16383 octets held in
  the image buffer: its ring has 16384 places. 254 frames waiting in the gateway: one more
  and the ring of 256 would be full. Fuel occurs where a bound is part of the
  code: \<open>tx_stuff_loop\<close> makes at most eight steps, one for each bit of an octet, and \<open>ne_drain\<close>
  makes \<open>8 * 16384 + 1\<close> calls, enough for a full buffer. All other loops are recursive
  functions with a termination proof, or \<open>ring_walk\<close> of the FEC decoder, which says \<open>None\<close>
  when it does not meet its limit.

  \<^bold>\<open>Not modelled.\<close> Of \<^verbatim>\<open>t38_gateway.c\<close> the handlers from the modems to the packets: what they
  do depends on the samples and on some thirty modem states. The DSP modems: filters and
  carrier tracking have no contract short of a model of the line. The
  generators of fax tones, which the gateway only switches on, belong to them. T.30, image
  coding, V.42, the AT interpreter and speech codecs of \<^verbatim>\<open>spandsp\<close>, and \<^verbatim>\<open>libtiff\<close>: the gateway
  relays frames and image data and runs none of them. Logging, traces, tests and build files.
\<close>

end
